(* ===== verification/Prelude.thy ===== *)
theory Prelude
  imports Main "HOL-Library.Word" "HOL-Library.Monad_Syntax"
begin

unbundle bit_operations_syntax

text \<open>
  Shared vocabulary of the development: the widths of the C integer types, the errno values
  the library returns (negated), counted loops over an optional state (None is undefined
  behaviour, an access outside an object), and the word and list lemmas the components use.
\<close>

section \<open>Machine integers and error numbers\<close>

type_synonym byte = "8 word"
type_synonym u16 = "16 word"
type_synonym u32 = "32 word"
type_synonym u64 = "64 word"

named_theorems errno_defs
named_theorems bnd

definition EPERM :: int where [errno_defs]: "EPERM = 1"
definition ENOENT :: int where [errno_defs]: "ENOENT = 2"
definition EINTR :: int where [errno_defs]: "EINTR = 4"
definition EIO :: int where [errno_defs]: "EIO = 5"
definition ENOMEM :: int where [errno_defs]: "ENOMEM = 12"
definition EACCES :: int where [errno_defs]: "EACCES = 13"
definition EBUSY :: int where [errno_defs]: "EBUSY = 16"
definition ENODEV :: int where [errno_defs]: "ENODEV = 19"
definition EINVAL :: int where [errno_defs]: "EINVAL = 22"
definition ENOTTY :: int where [errno_defs]: "ENOTTY = 25"
definition EFBIG :: int where [errno_defs]: "EFBIG = 27"
definition ENOSPC :: int where [errno_defs]: "ENOSPC = 28"
definition EPIPE :: int where [errno_defs]: "EPIPE = 32"
definition ENODATA :: int where [errno_defs]: "ENODATA = 61"
definition EPROTO :: int where [errno_defs]: "EPROTO = 71"
definition ENOTSUP :: int where [errno_defs]: "ENOTSUP = 95"

section \<open>Counted loops\<close>

text \<open>
  \<open>loop n f s\<close> is \<open>for (i = 0; i < n; i++) s = f(i, s)\<close>; \<open>loop32\<close> counts in uint32_t.
  None propagates: it stands for an access the C abstract machine leaves undefined.
\<close>

primrec loop :: "nat \<Rightarrow> (nat \<Rightarrow> 's \<Rightarrow> 's option) \<Rightarrow> 's \<Rightarrow> 's option" where
  "loop 0 f s = Some s"
| "loop (Suc n) f s = loop n f s \<bind> f n"

definition loop32 :: "u32 \<Rightarrow> (u32 \<Rightarrow> 's \<Rightarrow> 's option) \<Rightarrow> 's \<Rightarrow> 's option" where
  "loop32 n f = loop (unat n) (\<lambda>i. f (of_nat i))"

lemma loop_invariant:
  assumes "P 0 s"
    and "\<And>i t. i < n \<Longrightarrow> P i t \<Longrightarrow> \<exists>t'. f i t = Some t' \<and> P (Suc i) t'"
  shows "\<exists>t. loop n f s = Some t \<and> P n t"
  using assms(2)
proof (induction n)
  case 0
  then show ?case using assms(1) by simp
next
  case (Suc n)
  then obtain t where t: "loop n f s = Some t" "P n t"
    by (meson less_Suc_eq)
  then obtain t' where "f n t = Some t'" "P (Suc n) t'"
    using Suc.prems by blast
  with t show ?case by auto
qed

lemma loop_cong:
  assumes "\<And>i t. i < n \<Longrightarrow> f i t = g i t"
  shows "loop n f s = loop n g s"
  using assms by (induction n) (auto cong: Option.bind_cong)

lemma loop_Some_iff_invariant:
  assumes "loop n f s = Some t" "P s"
    and "\<And>i a b. i < n \<Longrightarrow> P a \<Longrightarrow> f i a = Some b \<Longrightarrow> P b"
  shows "P t"
  using assms(1,3)
proof (induction n arbitrary: t)
  case 0
  then show ?case using assms(2) by simp
next
  case (Suc n)
  then obtain u where u: "loop n f s = Some u" "f n u = Some t"
    by (auto simp: bind_eq_Some_conv)
  have "P u" using Suc.IH[OF u(1)] Suc.prems(2) by (meson less_Suc_eq)
  with u(2) Suc.prems(2) show ?case by blast
qed

section \<open>Words\<close>

lemma unat_u32_bound [bnd]: "unat (a :: u32) < 4294967296"
  by (rule order_less_le_trans[OF unsigned_less]) simp

lemma unat_u32_bound_le [bnd]: "unat (a :: u32) \<le> 4294967295"
  using unat_u32_bound[of a] by linarith

lemma unat_of_nat32 [simp]: "i < unat (n :: u32) \<Longrightarrow> unat (of_nat i :: u32) = i"
  using less_trans[OF _ unat_u32_bound] by (simp add: unat_of_nat take_bit_nat_eq_self_iff)

lemma unat_imp_eq: "unat (a :: u32) = n \<Longrightarrow> a = of_nat n"
  by (metis of_nat_unat ucast_id)

lemma unat_add_small:
  fixes a b :: u32
  assumes "unat a + unat b < 2 ^ 32"
  shows "unat (a + b) = unat a + unat b"
  using assms by (simp add: unat_word_ariths)

lemma unat_mult_small:
  fixes a b :: u32
  assumes "unat a * unat b < 2 ^ 32"
  shows "unat (a * b) = unat a * unat b"
  using assms by (simp add: unat_word_ariths)

lemma unat_ucast_u32_u64 [simp]: "unat (ucast (a :: u32) :: u64) = unat a"
  by (simp add: unsigned_ucast_eq take_bit_nat_eq_self_iff less_trans[OF unat_u32_bound])

lemma unat_add_small64:
  fixes a b :: u64
  assumes "unat a + unat b < 2 ^ 64"
  shows "unat (a + b) = unat a + unat b"
  using assms by (simp add: unat_word_ariths)

lemma unat_mult_small64:
  fixes a b :: u64
  assumes "unat a * unat b < 2 ^ 64"
  shows "unat (a * b) = unat a * unat b"
  using assms by (simp add: unat_word_ariths)

text \<open>The product of two values that come from 32 bits fits in 64.\<close>

lemma u32_mult_le: "unat (a :: u32) * unat (b :: u32) \<le> 18446744065119617025"
  using mult_le_mono[OF unat_u32_bound_le[of a] unat_u32_bound_le[of b]] by simp

lemma unat_mult_u32_u64 [simp]:
  "unat (ucast (a :: u32) * ucast (b :: u32) :: u64) = unat a * unat b"
  using u32_mult_le[of a b] by (subst unat_mult_small64) simp_all

lemma unat_ucast_times4 [simp]: "unat (ucast (a :: u32) * 4 :: u64) = unat a * 4"
  using unat_u32_bound[of a] by (subst unat_mult_small64) simp_all

lemma unat_ucast_times8 [simp]: "unat (ucast (a :: u32) * 8 :: u64) = unat a * 8"
  using unat_u32_bound[of a] by (subst unat_mult_small64) simp_all

lemma unat_mult_add_u64:
  "unat c * 4 < 4294967296 \<Longrightarrow> unat (ucast (a :: u32) * ucast (b :: u32) + ucast (c :: u32) * 4 :: u64)
     = unat a * unat b + unat c * 4"
  using u32_mult_le[of a b] by (subst unat_add_small64) simp_all

lemma unat_ucast_plus4 [simp]: "unat (ucast (a :: u32) + 4 :: u64) = unat a + 4"
  using unat_u32_bound[of a] by (subst unat_add_small64) simp_all

lemma times_Suc_le:
  assumes "(i :: nat) < n"
  shows "i * s + s \<le> n * s"
proof -
  have "Suc i * s \<le> n * s" using assms by (intro mult_le_mono1) simp
  then show ?thesis by simp
qed

lemma row_in_bounds:
  fixes y h s k m :: nat
  assumes "y < h" "k \<le> s" "h * s \<le> m"
  shows "y * s + k \<le> m"
  using times_Suc_le[OF assms(1), of s] assms(2,3) by linarith

end
