(* ===== verification/Memory.thy ===== *)
theory Memory
  imports Prelude
begin

text \<open>
  Byte-addressed memory. A heap maps an object (a mapping, a malloc'd buffer, a caller's
  buffer) to its bytes; a pointer into it is the object and an offset. Every access carries
  its bounds: rd and wr answer None outside the object, so a theorem that a routine returns
  Some is a theorem that it never reads or writes outside its buffers. The second half is
  the calculus of the pixel loops: a row of writes is one patch, a frame is a sequence of
  splices at multiples of the stride, and each byte of the result is read off it.
\<close>

section \<open>Objects, reads and writes\<close>

type_synonym obj = nat
type_synonym heap = "obj \<Rightarrow> byte list option"

definition rd :: "heap \<Rightarrow> obj \<Rightarrow> nat \<Rightarrow> nat \<Rightarrow> byte list option" where
  "rd hp p off n = (case hp p of None \<Rightarrow> None | Some c \<Rightarrow>
     (if off + n \<le> length c then Some (take n (drop off c)) else None))"

definition patch :: "'a list \<Rightarrow> nat \<Rightarrow> 'a list \<Rightarrow> 'a list" where
  "patch c off bs = take off c @ bs @ drop (off + length bs) c"

definition wr :: "heap \<Rightarrow> obj \<Rightarrow> nat \<Rightarrow> byte list \<Rightarrow> heap option" where
  "wr hp p off bs = (case hp p of None \<Rightarrow> None | Some c \<Rightarrow>
     (if off + length bs \<le> length c then Some (hp(p \<mapsto> patch c off bs)) else None))"

text \<open>
  memcpy is undefined on overlapping ranges, so it answers None there; memset writes one byte
  n times.
\<close>

definition memcpy :: "heap \<Rightarrow> obj \<Rightarrow> nat \<Rightarrow> obj \<Rightarrow> nat \<Rightarrow> nat \<Rightarrow> heap option" where
  "memcpy hp d doff s soff n =
    (if d = s \<and> 0 < n \<and> doff < soff + n \<and> soff < doff + n then None
     else rd hp s soff n \<bind> wr hp d doff)"

definition memset :: "heap \<Rightarrow> obj \<Rightarrow> nat \<Rightarrow> byte \<Rightarrow> nat \<Rightarrow> heap option" where
  "memset hp d off b n = wr hp d off (replicate n b)"

lemma memcpy_distinct: "d \<noteq> s \<Longrightarrow> memcpy hp d doff s soff n = rd hp s soff n \<bind> wr hp d doff"
  by (simp add: memcpy_def)

text \<open>Little-endian 32-bit loads and stores, as the pixel loops make through uint32_t pointers.\<close>

definition le32 :: "byte list \<Rightarrow> u32" where
  "le32 bs = ucast (bs ! 0) OR push_bit 8 (ucast (bs ! 1))
     OR push_bit 16 (ucast (bs ! 2)) OR push_bit 24 (ucast (bs ! 3))"

definition bytes32 :: "u32 \<Rightarrow> byte list" where
  "bytes32 w = [ucast w, ucast (drop_bit 8 w), ucast (drop_bit 16 w), ucast (drop_bit 24 w)]"

definition le16 :: "byte list \<Rightarrow> u16" where
  "le16 bs = ucast (bs ! 0) OR push_bit 8 (ucast (bs ! 1))"

definition ld32 :: "heap \<Rightarrow> obj \<Rightarrow> nat \<Rightarrow> u32 option" where
  "ld32 hp p off = map_option le32 (rd hp p off 4)"

definition ld16 :: "heap \<Rightarrow> obj \<Rightarrow> nat \<Rightarrow> u16 option" where
  "ld16 hp p off = map_option le16 (rd hp p off 2)"

definition st32 :: "heap \<Rightarrow> obj \<Rightarrow> nat \<Rightarrow> u32 \<Rightarrow> heap option" where
  "st32 hp p off w = wr hp p off (bytes32 w)"

lemma length_bytes32 [simp]: "length (bytes32 w) = 4"
  by (simp add: bytes32_def)

lemma le32_bytes32 [simp]: "le32 (bytes32 w) = w"
proof (rule bit_word_eqI)
  fix n assume "n < LENGTH(32)"
  then consider "n < 8" | "8 \<le> n" "n < 16" | "16 \<le> n" "n < 24" | "24 \<le> n" "n < 32"
    by force
  then show "bit (le32 (bytes32 w)) n = bit w n"
    by cases (auto simp: le32_def bytes32_def bit_simps nth_Cons')
qed

lemma rd_Some_length: "rd hp p off n = Some bs \<Longrightarrow> length bs = n"
  by (auto simp: rd_def split: option.splits if_splits)

lemma rd_in_bounds: "hp p = Some c \<Longrightarrow> off + n \<le> length c \<Longrightarrow> rd hp p off n = Some (take n (drop off c))"
  by (simp add: rd_def)

lemma wr_in_bounds:
  "hp p = Some c \<Longrightarrow> off + length bs \<le> length c \<Longrightarrow> wr hp p off bs = Some (hp(p \<mapsto> patch c off bs))"
  by (simp add: wr_def)

lemma rd_other [simp]: "p \<noteq> q \<Longrightarrow> rd (hp(p \<mapsto> c)) q off n = rd hp q off n"
  by (simp add: rd_def)

lemma ld32_other [simp]: "p \<noteq> q \<Longrightarrow> ld32 (hp(p \<mapsto> c)) q off = ld32 hp q off"
  by (simp add: ld32_def)

lemma ld16_other [simp]: "p \<noteq> q \<Longrightarrow> ld16 (hp(p \<mapsto> c)) q off = ld16 hp q off"
  by (simp add: ld16_def)

section \<open>Splices\<close>

lemma length_patch [simp]: "off + length bs \<le> length c \<Longrightarrow> length (patch c off bs) = length c"
  by (simp add: patch_def)

lemma nth_patch:
  assumes "off + length bs \<le> length c" "j < length c"
  shows "patch c off bs ! j =
    (if off \<le> j \<and> j < off + length bs then bs ! (j - off) else c ! j)"
  using assms by (auto simp: patch_def nth_append)

lemma patch_Nil [simp]: "off \<le> length c \<Longrightarrow> patch c off [] = c"
  by (simp add: patch_def)

lemma patch_append:
  assumes "off + length xs + length ys \<le> length c"
  shows "patch (patch c off xs) (off + length xs) ys = patch c off (xs @ ys)"
  using assms by (intro nth_equalityI) (auto simp: nth_patch nth_append)

lemma length_concat_const:
  "(\<And>x. x \<in> set xs \<Longrightarrow> length (f x) = n) \<Longrightarrow> length (concat (map f xs)) = n * length xs"
  by (induction xs) auto

lemma nth_concat_const:
  assumes "\<And>x. x < w \<Longrightarrow> length (f x) = n" "x < w" "k < n"
  shows "concat (map f [0..<w]) ! (n * x + k) = f x ! k"
  using assms
proof (induction w)
  case (Suc w)
  have len: "length (concat (map f [0..<w])) = n * w"
    using Suc.prems(1) by (subst length_concat_const[where n = n]) auto
  show ?case
  proof (cases "x = w")
    case True
    then show ?thesis using len Suc.prems by (simp add: nth_append)
  next
    case False
    then have "x < w" using Suc.prems(2) by simp
    then have "n * x + k < n * w"
      using times_Suc_le[of x w n] Suc.prems(3) by (simp add: mult.commute)
    with \<open>x < w\<close> show ?thesis using Suc.IH Suc.prems len by (simp add: nth_append)
  qed
qed simp

section \<open>A row of writes is one patch\<close>

text \<open>
  The step at column x may read the destination itself (the converters run in place), so
  its value is required for every content that still has the original bytes from column x on.
\<close>

lemma row_loop:
  assumes dst: "length c = m" "base + n * w \<le> m"
    and len: "\<And>x. x < w \<Longrightarrow> length (v x) = n"
    and step: "\<And>x c'. x < w \<Longrightarrow> length c' = m \<Longrightarrow>
        (\<And>j. base + n * x \<le> j \<Longrightarrow> j < m \<Longrightarrow> c' ! j = c ! j) \<Longrightarrow>
        body x (hp(d \<mapsto> c')) = Some (hp(d \<mapsto> patch c' (base + n * x) (v x)))"
  shows "loop w body (hp(d \<mapsto> c)) = Some (hp(d \<mapsto> patch c base (concat (map v [0..<w]))))"
  using dst(2) len step
proof (induction w)
  case 0
  then show ?case using dst(1) by simp
next
  case (Suc w)
  let ?bs = "concat (map v [0..<w])"
  have len: "length ?bs = n * w"
    using Suc.prems(2) by (subst length_concat_const[where n = n]) auto
  have IH: "loop w body (hp(d \<mapsto> c)) = Some (hp(d \<mapsto> patch c base ?bs))"
    using Suc.prems by (intro Suc.IH) auto
  have "body w (hp(d \<mapsto> patch c base ?bs))
      = Some (hp(d \<mapsto> patch (patch c base ?bs) (base + n * w) (v w)))"
    using Suc.prems(1) len dst(1) by (intro Suc.prems(3)) (auto simp: nth_patch)
  moreover have "patch (patch c base ?bs) (base + n * w) (v w) = patch c base (?bs @ v w)"
    using patch_append[of base ?bs "v w" c] Suc.prems(1,2) len dst(1)
    by (simp add: algebra_simps)
  moreover have "concat (map v [0..<Suc w]) = ?bs @ v w" by simp
  ultimately show ?case using IH by (simp only: loop.simps bind.bind_lunit)
qed

section \<open>A frame is one patch per row\<close>

primrec patch_rows :: "'a list \<Rightarrow> nat \<Rightarrow> (nat \<Rightarrow> 'a list) \<Rightarrow> nat \<Rightarrow> 'a list" where
  "patch_rows c stride row 0 = c"
| "patch_rows c stride row (Suc h) = patch (patch_rows c stride row h) (h * stride) (row h)"

lemma patch_rows_props:
  assumes "\<And>y. y < h \<Longrightarrow> length (row y) = L" "L \<le> S" "h * S \<le> length c"
  shows "length (patch_rows c S row h) = length c \<and>
    (\<forall>y j. y < h \<longrightarrow> j < L \<longrightarrow> patch_rows c S row h ! (y * S + j) = row y ! j) \<and>
    (\<forall>i. i < length c \<longrightarrow> (\<forall>y j. y < h \<longrightarrow> j < L \<longrightarrow> i \<noteq> y * S + j) \<longrightarrow> patch_rows c S row h ! i = c ! i) \<and>
    (\<forall>i. h * S \<le> i \<longrightarrow> i < length c \<longrightarrow> patch_rows c S row h ! i = c ! i)"
  using assms
proof (induction h)
  case (Suc h)
  let ?c = "patch_rows c S row h"
  have hS: "h * S + L \<le> length c" using Suc.prems by simp
  have IH: "length ?c = length c"
    "\<And>y j. y < h \<Longrightarrow> j < L \<Longrightarrow> ?c ! (y * S + j) = row y ! j"
    "\<And>i. i < length c \<Longrightarrow> (\<forall>y j. y < h \<longrightarrow> j < L \<longrightarrow> i \<noteq> y * S + j) \<Longrightarrow> ?c ! i = c ! i"
    "\<And>i. h * S \<le> i \<Longrightarrow> i < length c \<Longrightarrow> ?c ! i = c ! i"
    using Suc.IH Suc.prems by auto
  have nth: "patch ?c (h * S) (row h) ! i =
      (if h * S \<le> i \<and> i < h * S + L then row h ! (i - h * S) else ?c ! i)" if "i < length c" for i
    using that IH(1) hS Suc.prems(1)[of h] by (simp add: nth_patch)
  have low: "y * S + j < h * S" if "y < h" "j < L" for y j
    using times_Suc_le[OF that(1), of S] that(2) Suc.prems(2) by linarith
  show ?case
  proof (intro conjI allI impI)
    show "length (patch_rows c S row (Suc h)) = length c"
      using IH(1) hS Suc.prems(1)[of h] by simp
  next
    fix y j assume y: "y < Suc h" and j: "j < L"
    show "patch_rows c S row (Suc h) ! (y * S + j) = row y ! j"
    proof (cases "y = h")
      case True
      then show ?thesis using nth[of "h * S + j"] hS j by simp
    next
      case False
      then have "y < h" using y by simp
      from low[OF this j] IH(2)[OF this j] nth[of "y * S + j"] hS show ?thesis by simp
    qed
  next
    fix i assume i: "i < length c" "\<forall>y j. y < Suc h \<longrightarrow> j < L \<longrightarrow> i \<noteq> y * S + j"
    have "i \<noteq> h * S + (i - h * S)" if "i - h * S < L" using i(2) that by blast
    then have "\<not> (h * S \<le> i \<and> i < h * S + L)" by linarith
    then show "patch_rows c S row (Suc h) ! i = c ! i"
      using nth[OF i(1)] IH(3)[OF i(1)] i(2) by auto
  next
    fix i assume i: "Suc h * S \<le> i" "i < length c"
    then have "\<not> i < h * S + L" using Suc.prems(2) by simp
    with i show "patch_rows c S row (Suc h) ! i = c ! i" using nth IH(4) by simp
  qed
qed simp

lemma frame_loop:
  assumes dst: "length c = m" "h * S \<le> m" "L \<le> S"
    and len: "\<And>y. y < h \<Longrightarrow> length (row y) = L"
    and step: "\<And>y c'. y < h \<Longrightarrow> length c' = m \<Longrightarrow>
        (\<And>j. y * S \<le> j \<Longrightarrow> j < m \<Longrightarrow> c' ! j = c ! j) \<Longrightarrow>
        body y (hp(d \<mapsto> c')) = Some (hp(d \<mapsto> patch c' (y * S) (row y)))"
  shows "loop h body (hp(d \<mapsto> c)) = Some (hp(d \<mapsto> patch_rows c S row h))"
  using dst(2) len step
proof (induction h)
  case (Suc h)
  have IH: "loop h body (hp(d \<mapsto> c)) = Some (hp(d \<mapsto> patch_rows c S row h))"
    using Suc.prems by (intro Suc.IH) auto
  have pr: "length (patch_rows c S row h) = m"
    "\<And>i. h * S \<le> i \<Longrightarrow> i < m \<Longrightarrow> patch_rows c S row h ! i = c ! i"
    using patch_rows_props[of h row L S c] Suc.prems dst by auto
  have "body h (hp(d \<mapsto> patch_rows c S row h))
      = Some (hp(d \<mapsto> patch (patch_rows c S row h) (h * S) (row h)))"
    using pr by (intro Suc.prems(3)) auto
  with IH show ?case by (simp only: loop.simps bind.bind_lunit patch_rows.simps)
qed (use dst in simp)

section \<open>The result of a frame loop, byte by byte\<close>

text \<open>
  \<open>framed c c' w h S px\<close>: c' is c with the w by h image px (4 bytes a pixel) written at
  stride S, and nothing else changed.
\<close>

definition framed :: "byte list \<Rightarrow> byte list \<Rightarrow> nat \<Rightarrow> nat \<Rightarrow> nat \<Rightarrow> (nat \<Rightarrow> nat \<Rightarrow> byte list) \<Rightarrow> bool" where
  "framed c c' w h S px \<longleftrightarrow> length c' = length c \<and>
    (\<forall>y < h. \<forall>x < w. \<forall>k < 4. c' ! (y * S + 4 * x + k) = px y x ! k) \<and>
    (\<forall>i < length c. (\<forall>y < h. \<forall>j < 4 * w. i \<noteq> y * S + j) \<longrightarrow> c' ! i = c ! i)"

lemma framed_patch_rows:
  assumes "4 * w \<le> S" "h * S \<le> length c" "\<And>y x. y < h \<Longrightarrow> x < w \<Longrightarrow> length (px y x) = 4"
  shows "framed c (patch_rows c S (\<lambda>y. concat (map (px y) [0..<w])) h) w h S px"
proof -
  let ?row = "\<lambda>y. concat (map (px y) [0..<w])"
  have len: "length (?row y) = 4 * w" if "y < h" for y
    using assms(3)[OF that] by (subst length_concat_const[where n = 4]) auto
  note props = patch_rows_props[of h ?row "4 * w" S c, OF len assms(1,2)]
  have "patch_rows c S ?row h ! (y * S + 4 * x + k) = px y x ! k"
    if "y < h" "x < w" "k < 4" for y x k
  proof -
    have "4 * x + k < 4 * w" using that by simp
    then have "patch_rows c S ?row h ! (y * S + (4 * x + k)) = ?row y ! (4 * x + k)"
      using props that(1) by blast
    also have "\<dots> = px y x ! k"
      using nth_concat_const[of w "px y" 4 x k] assms(3)[OF that(1)] that by simp
    finally show ?thesis by (simp add: add.assoc)
  qed
  then show ?thesis using props unfolding framed_def by blast
qed

lemma framed_cong:
  assumes "framed c c' w h S px" "\<And>y x. y < h \<Longrightarrow> x < w \<Longrightarrow> px y x = px' y x"
  shows "framed c c' w h S px'"
  using assms unfolding framed_def by metis

lemma framed_rows:
  assumes "4 * w \<le> S" "h * S \<le> length c" "\<And>y. y < h \<Longrightarrow> length (row y) = 4 * w"
  shows "framed c (patch_rows c S row h) w h S (\<lambda>y x. take 4 (drop (4 * x) (row y)))"
proof -
  note props = patch_rows_props[of h row "4 * w" S c, OF assms(3,1,2)]
  have "patch_rows c S row h ! (y * S + 4 * x + k) = take 4 (drop (4 * x) (row y)) ! k"
    if "y < h" "x < w" "k < 4" for y x k
  proof -
    have j: "4 * x + k < 4 * w" using that by simp
    then have "patch_rows c S row h ! (y * S + (4 * x + k)) = row y ! (4 * x + k)"
      using props that(1) by blast
    then show ?thesis using assms(3)[OF that(1)] j that(3) by (simp add: add.assoc)
  qed
  then show ?thesis using props unfolding framed_def by blast
qed

text \<open>Under a destination of at most 4 GiB the uint32_t offsets of the loops do not wrap.\<close>

lemma dst_offsets:
  assumes "x < unat w" "y < unat h" "4 * unat (w :: u32) \<le> unat (S :: u32)"
    "unat (h :: u32) * unat S \<le> 2 ^ 32"
  shows "unat (of_nat x * 4 :: u32) = 4 * x" "unat (of_nat y * S :: u32) = y * unat S"
proof -
  have "4 * x < 2 ^ 32" using assms(1,3) unat_u32_bound[of S] by simp
  then show "unat (of_nat x * 4 :: u32) = 4 * x"
    using assms(1) by (subst unat_mult_small) simp_all
  have "y * unat S + unat S \<le> 2 ^ 32"
    using times_Suc_le[OF assms(2), of "unat S"] assms(4) by linarith
  moreover have "0 < unat S" using assms(1,3) by linarith
  ultimately have "y * unat S < 2 ^ 32" by linarith
  then show "unat (of_nat y * S :: u32) = y * unat S"
    using assms(2) by (subst unat_mult_small) simp_all
qed

end
