(* ===== verification/Convert.thy ===== *)
theory Convert
  imports Memory
begin

text \<open>
  Integer pixel formats to XRGB8888 (src/pixel_convert.c): the 10-bit reduction, the
  ABGR swap and the dispatcher drmtap_convert_format. The converters run in place, source and
  destination the same object, as well as between two buffers; the loop lemma covers both.
\<close>

section \<open>The code\<close>

definition DRM_FMT_XRGB8888 :: u32 where "DRM_FMT_XRGB8888 = 0x34325258"
definition DRM_FMT_ARGB8888 :: u32 where "DRM_FMT_ARGB8888 = 0x34325241"
definition DRM_FMT_ABGR8888 :: u32 where "DRM_FMT_ABGR8888 = 0x34324241"
definition DRM_FMT_XRGB2101010 :: u32 where "DRM_FMT_XRGB2101010 = 0x30335258"
definition DRM_FMT_ARGB2101010 :: u32 where "DRM_FMT_ARGB2101010 = 0x30335241"
definition DRM_FMT_XBGR2101010 :: u32 where "DRM_FMT_XBGR2101010 = 0x30334258"
definition DRM_FMT_ABGR2101010 :: u32 where "DRM_FMT_ABGR2101010 = 0x30334241"

lemmas fourcc_defs = DRM_FMT_XRGB8888_def DRM_FMT_ARGB8888_def DRM_FMT_ABGR8888_def
  DRM_FMT_XRGB2101010_def DRM_FMT_ARGB2101010_def DRM_FMT_XBGR2101010_def DRM_FMT_ABGR2101010_def

text \<open>\<open>(0xFFu << 24) | r << 16 | g << 8 | b\<close>, the store of every converter.\<close>

definition xrgb :: "byte \<Rightarrow> byte \<Rightarrow> byte \<Rightarrow> u32" where
  "xrgb r g b = push_bit 24 0xFF OR push_bit 16 (ucast r) OR push_bit 8 (ucast g) OR ucast b"

definition ar30_pixel :: "bool \<Rightarrow> u32 \<Rightarrow> u32" where
  "ar30_pixel bgr pixel =
    (let c_hi = ucast (drop_bit 22 pixel AND 0xFF) :: byte;
         g = ucast (drop_bit 12 pixel AND 0xFF) :: byte;
         c_lo = ucast (drop_bit 2 pixel AND 0xFF) :: byte;
         r = (if bgr then c_lo else c_hi);
         b = (if bgr then c_hi else c_lo) in
     xrgb r g b)"

definition convert_ar30_to_xrgb8888 ::
  "obj \<Rightarrow> obj \<Rightarrow> u32 \<Rightarrow> u32 \<Rightarrow> u32 \<Rightarrow> u32 \<Rightarrow> bool \<Rightarrow> heap \<Rightarrow> heap option" where
  "convert_ar30_to_xrgb8888 src dst width height src_stride dst_stride bgr =
    loop32 height (\<lambda>y. loop32 width (\<lambda>x hp.
      do { pixel \<leftarrow> ld32 hp src (unat (y * src_stride) + 4 * unat x);
           st32 hp dst (unat (y * dst_stride) + 4 * unat x) (ar30_pixel bgr pixel) }))"

definition abgr_pixel :: "u32 \<Rightarrow> u32" where
  "abgr_pixel pixel =
    (let a = ucast (drop_bit 24 pixel) :: byte;
         b_ch = ucast (drop_bit 16 pixel) :: byte;
         g = ucast (drop_bit 8 pixel) :: byte;
         r = ucast pixel :: byte in
     push_bit 24 (ucast a) OR push_bit 16 (ucast r) OR push_bit 8 (ucast g) OR ucast b_ch)"

definition convert_abgr_to_argb ::
  "obj \<Rightarrow> obj \<Rightarrow> u32 \<Rightarrow> u32 \<Rightarrow> u32 \<Rightarrow> u32 \<Rightarrow> heap \<Rightarrow> heap option" where
  "convert_abgr_to_argb src dst width height src_stride dst_stride =
    loop32 height (\<lambda>y. loop32 width (\<lambda>x hp.
      do { pixel \<leftarrow> ld32 hp src (unat (y * src_stride) + 4 * unat x);
           st32 hp dst (unat (y * dst_stride) + 4 * unat x) (abgr_pixel pixel) }))"

definition drmtap_convert_format ::
  "obj option \<Rightarrow> obj option \<Rightarrow> u32 \<Rightarrow> u32 \<Rightarrow> u32 \<Rightarrow> u32 \<Rightarrow> u32 \<Rightarrow> u32 \<Rightarrow> heap
    \<Rightarrow> (int \<times> heap) option" where
  "drmtap_convert_format src dst width height src_stride dst_stride src_format dst_format hp =
    (case (src, dst) of
      (Some s, Some d) \<Rightarrow>
        if width = 0 \<or> height = 0 then Some (- EINVAL, hp)
        else if ucast src_stride < (ucast width * 4 :: u64) \<or>
                ucast dst_stride < (ucast width * 4 :: u64) then Some (- EINVAL, hp)
        else if src_format = dst_format then
          map_option (Pair 0) (loop32 height (\<lambda>y hp.
            memcpy hp d (unat (y * dst_stride)) s (unat (y * src_stride)) (unat (width * 4))) hp)
        else if (src_format = DRM_FMT_XRGB2101010 \<or> src_format = DRM_FMT_ARGB2101010 \<or>
                 src_format = DRM_FMT_XBGR2101010 \<or> src_format = DRM_FMT_ABGR2101010) \<and>
                (dst_format = DRM_FMT_XRGB8888 \<or> dst_format = DRM_FMT_ARGB8888) then
          map_option (Pair 0) (convert_ar30_to_xrgb8888 s d width height src_stride dst_stride
            (src_format = DRM_FMT_XBGR2101010 \<or> src_format = DRM_FMT_ABGR2101010) hp)
        else if src_format = DRM_FMT_ABGR8888 \<and>
                (dst_format = DRM_FMT_ARGB8888 \<or> dst_format = DRM_FMT_XRGB8888) then
          map_option (Pair 0) (convert_abgr_to_argb s d width height src_stride dst_stride hp)
        else Some (- ENOTSUP, hp)
    | _ \<Rightarrow> Some (- EINVAL, hp))"

section \<open>The pixel loop, in place or not\<close>

text \<open>
  \<open>get hp y x\<close> loads pixel (x, y); it may read the destination object, as long as what it
  reads is not written before its turn.
\<close>

lemma pixel_loop:
  assumes S: "4 * w \<le> S" "h * S \<le> length cd"
    and get: "\<And>y x c'. y < h \<Longrightarrow> x < w \<Longrightarrow> length c' = length cd \<Longrightarrow>
      (\<And>j. y * S + 4 * x \<le> j \<Longrightarrow> j < length cd \<Longrightarrow> c' ! j = cd ! j) \<Longrightarrow>
      get y x (hp(d \<mapsto> c')) = Some (v y x)"
    and body: "\<And>y x hp'. y < h \<Longrightarrow> x < w \<Longrightarrow>
      body y x hp' = get y x hp' \<bind> st32 hp' d (y * S + 4 * x)"
  shows "loop h (\<lambda>y. loop w (body y)) (hp(d \<mapsto> cd)) = Some (hp(d \<mapsto>
    patch_rows cd S (\<lambda>y. concat (map (\<lambda>x. bytes32 (v y x)) [0..<w])) h))"
proof -
  let ?row = "\<lambda>y. concat (map (\<lambda>x. bytes32 (v y x)) [0..<w])"
  have len: "length (?row y) = 4 * w" for y
    by (subst length_concat_const[where n = 4]) auto
  show ?thesis
  proof (rule frame_loop[OF refl S(2,1) len])
    fix y c' assume y: "y < h" and c': "length c' = length cd"
      and same: "\<And>j. y * S \<le> j \<Longrightarrow> j < length cd \<Longrightarrow> c' ! j = cd ! j"
    have le: "y * S + 4 * w \<le> length cd" using row_in_bounds[OF y S] .
    show "loop w (body y) (hp(d \<mapsto> c')) = Some (hp(d \<mapsto> patch c' (y * S) (?row y)))"
    proof (rule row_loop[where n = 4, OF c' le length_bytes32])
      fix x c'' assume x: "x < w" and c'': "length c'' = length cd"
        and same': "\<And>j. y * S + 4 * x \<le> j \<Longrightarrow> j < length cd \<Longrightarrow> c'' ! j = c' ! j"
      have "get y x (hp(d \<mapsto> c'')) = Some (v y x)"
        using same same' by (intro get[OF y x c'']) simp
      moreover have "y * S + 4 * x + 4 \<le> length cd" using le x by linarith
      ultimately show "body y x (hp(d \<mapsto> c''))
          = Some (hp(d \<mapsto> patch c'' (y * S + 4 * x) (bytes32 (v y x))))"
        using c'' by (simp add: body[OF y x] st32_def wr_in_bounds)
    qed
  qed
qed

lemma ld32_src:
  assumes "hp s = Some cs" "s \<noteq> d \<or> s = d \<and> cs = cd" "length c' = length cd"
    "\<And>j. s = d \<Longrightarrow> off \<le> j \<Longrightarrow> j < length cd \<Longrightarrow> c' ! j = cd ! j" "off + 4 \<le> length cs"
  shows "ld32 (hp(d \<mapsto> c')) s off = Some (le32 (take 4 (drop off cs)))"
proof (cases "s = d")
  case True
  then have "take 4 (drop off c') = take 4 (drop off cs)"
    using assms by (intro nth_equalityI) auto
  with True assms show ?thesis by (simp add: ld32_def rd_in_bounds)
next
  case False
  with assms show ?thesis by (simp add: ld32_def rd_in_bounds)
qed

text \<open>What a 4-byte to 4-byte converter does to a frame, for any pixel function.\<close>

lemma pixel_map_framed:
  assumes src: "hp s = Some cs" "unat h * unat SS \<le> length cs" "unat h * unat SS \<le> 2 ^ 32"
      "4 * unat w \<le> unat SS"
    and dst: "hp d = Some cd" "unat h * unat S \<le> length cd" "unat h * unat S \<le> 2 ^ 32"
      "4 * unat w \<le> unat S"
    and ovl: "s \<noteq> d \<or> SS = S"
  shows "\<exists>cd'. loop32 h (\<lambda>y. loop32 w (\<lambda>x hp.
      do { p \<leftarrow> ld32 hp s (unat (y * SS) + 4 * unat x);
           st32 hp d (unat (y * S) + 4 * unat x) (f p) })) hp = Some (hp(d \<mapsto> cd')) \<and>
    framed cd cd' (unat w) (unat h) (unat S)
      (\<lambda>y x. bytes32 (f (le32 (take 4 (drop (y * unat SS + 4 * x) cs)))))"
proof -
  let ?v = "\<lambda>y x. f (le32 (take 4 (drop (y * unat SS + 4 * x) cs)))"
  let ?body = "\<lambda>y (x :: u32) hp. do { p \<leftarrow> ld32 hp s (unat (y * SS) + 4 * unat x);
           st32 hp d (unat (y * S) + 4 * unat x) (f p) }"
  let ?get = "\<lambda>y x hp. map_option f (ld32 hp s (y * unat SS + 4 * x))"
  have same: "hp(d \<mapsto> cd) = hp" using dst(1) by auto
  have "loop (unat h) (\<lambda>y. loop (unat w) (\<lambda>x. ?body (of_nat y) (of_nat x))) (hp(d \<mapsto> cd))
      = Some (hp(d \<mapsto> patch_rows cd (unat S)
          (\<lambda>y. concat (map (\<lambda>x. bytes32 (?v y x)) [0..<unat w])) (unat h)))"
  proof (rule pixel_loop[where get = ?get, OF dst(4,2)])
    fix y x c' assume yx: "y < unat h" "x < unat w" and c': "length c' = length cd"
      and agree: "\<And>j. y * unat S + 4 * x \<le> j \<Longrightarrow> j < length cd \<Longrightarrow> c' ! j = cd ! j"
    have "y * unat SS + (4 * x + 4) \<le> length cs"
      using yx(2) src(4) by (intro row_in_bounds[OF yx(1) _ src(2)]) linarith
    then have "ld32 (hp(d \<mapsto> c')) s (y * unat SS + 4 * x)
        = Some (le32 (take 4 (drop (y * unat SS + 4 * x) cs)))"
      using ovl agree src(1) dst(1) c' by (intro ld32_src[where cd = cd]) auto
    then show "?get y x (hp(d \<mapsto> c')) = Some (?v y x)" by simp
  next
    fix y x and hp' :: heap assume yx: "y < unat h" "x < unat w"
    show "?body (of_nat y) (of_nat x) hp' = ?get y x hp' \<bind> st32 hp' d (y * unat S + 4 * x)"
      using dst_offsets(2)[OF yx(2,1) dst(4,3)] dst_offsets(2)[OF yx(2,1) src(4,3)] yx
      by (cases "ld32 hp' s (y * unat SS + 4 * x)") simp_all
  qed
  moreover have "framed cd (patch_rows cd (unat S) (\<lambda>y. concat (map (\<lambda>x. bytes32 (?v y x)) [0..<unat w]))
      (unat h)) (unat w) (unat h) (unat S) (\<lambda>y x. bytes32 (?v y x))"
    by (rule framed_patch_rows[OF dst(4,2)]) simp
  ultimately show ?thesis unfolding loop32_def same by blast
qed

text \<open>Row copies between two objects: the same-format branch.\<close>

lemma row_copy_framed:
  assumes src: "hp s = Some cs" "unat h * unat SS \<le> length cs" "unat h * unat SS \<le> 2 ^ 32"
      "4 * unat w \<le> unat SS"
    and dst: "hp d = Some cd" "unat h * unat S \<le> length cd" "unat h * unat S \<le> 2 ^ 32"
      "4 * unat w \<le> unat S"
    and ovl: "s \<noteq> d" and w: "0 < unat (w :: u32)"
  shows "\<exists>cd'. loop32 h (\<lambda>y hp. memcpy hp d (unat (y * S)) s (unat (y * SS)) (unat (w * 4))) hp
      = Some (hp(d \<mapsto> cd')) \<and>
    framed cd cd' (unat w) (unat h) (unat S) (\<lambda>y x. take 4 (drop (y * unat SS + 4 * x) cs))"
proof -
  let ?row = "\<lambda>y. take (4 * unat w) (drop (y * unat SS) cs)"
  have same: "hp(d \<mapsto> cd) = hp" using dst(1) by auto
  have w4: "unat (w * 4) = 4 * unat w"
    using dst(4) unat_u32_bound[of S] by (subst unat_mult_small) simp_all
  have bs: "y * unat SS + 4 * unat w \<le> length cs" if "y < unat h" for y
    using row_in_bounds[OF that src(4,2)] .
  have len: "length (?row y) = 4 * unat w" if "y < unat h" for y using bs[OF that] by simp
  have "loop (unat h) (\<lambda>y hp. memcpy hp d (unat (of_nat y * S)) s (unat (of_nat y * SS)) (unat (w * 4)))
      (hp(d \<mapsto> cd)) = Some (hp(d \<mapsto> patch_rows cd (unat S) ?row (unat h)))"
  proof (rule frame_loop[OF refl dst(2,4) len])
    fix y and c' :: "byte list" assume y: "y < unat h" and c': "length c' = length cd"
    have "y * unat S + 4 * unat w \<le> length cd" using row_in_bounds[OF y dst(4,2)] .
    then show "memcpy (hp(d \<mapsto> c')) d (unat (of_nat y * S)) s (unat (of_nat y * SS)) (unat (w * 4))
        = Some (hp(d \<mapsto> patch c' (y * unat S) (?row y)))"
      using bs[OF y] c' src(1) ovl
      by (simp add: dst_offsets(2)[OF w y dst(4,3)] dst_offsets(2)[OF w y src(4,3)] w4
        memcpy_distinct rd_in_bounds wr_in_bounds)
  qed
  moreover have "framed cd (patch_rows cd (unat S) ?row (unat h)) (unat w) (unat h) (unat S)
      (\<lambda>y x. take 4 (drop (y * unat SS + 4 * x) cs))"
  proof (rule framed_cong[OF framed_rows[OF dst(4,2) len]])
    fix y x assume "x < unat w"
    then have "min 4 (4 * unat w - 4 * x) = 4" by linarith
    then show "take 4 (drop (4 * x) (?row y)) = take 4 (drop (y * unat SS + 4 * x) cs)"
      by (simp only: drop_take take_take drop_drop add.commute)
  qed
  ultimately show ?thesis unfolding loop32_def same by blast
qed

section \<open>drmtap_convert_format\<close>

text \<open>The pixel function a format pair selects, None when the pair is not supported.\<close>

definition conversion :: "u32 \<Rightarrow> u32 \<Rightarrow> (u32 \<Rightarrow> u32) option" where
  "conversion sf df =
    (if sf = df then Some id
     else if df \<in> {DRM_FMT_XRGB8888, DRM_FMT_ARGB8888} then
       (if sf \<in> {DRM_FMT_XRGB2101010, DRM_FMT_ARGB2101010} then Some (ar30_pixel False)
        else if sf \<in> {DRM_FMT_XBGR2101010, DRM_FMT_ABGR2101010} then Some (ar30_pixel True)
        else if sf = DRM_FMT_ABGR8888 then Some abgr_pixel else None)
     else None)"

lemma bit_byte_high: "8 \<le> n \<Longrightarrow> \<not> bit (a :: byte) n"
  using bit_imp_le_length[of a n] by auto

lemma bytes32_le32: "length bs = 4 \<Longrightarrow> bytes32 (le32 bs) = bs"
proof -
  assume "length bs = 4"
  then obtain a b c d where bs: "bs = [a, b, c, d]"
    by (auto simp: length_Suc_conv eval_nat_numeral)
  show ?thesis unfolding bs bytes32_def le32_def
    by (auto intro!: bit_word_eqI simp: bit_simps nth_Cons' bit_byte_high)
qed

lemma stride_narrow_iff:
  "ucast (S :: u32) < (ucast (w :: u32) * 4 :: u64) \<longleftrightarrow> unat S < 4 * unat w"
  by (simp add: word_less_nat_alt mult.commute)

lemma convert_format_framed:
  assumes src: "hp s = Some cs" "unat height * unat src_stride \<le> length cs"
      "unat height * unat src_stride \<le> 2 ^ 32" "4 * unat width \<le> unat src_stride"
    and dst: "hp d = Some cd" "unat height * unat dst_stride \<le> length cd"
      "unat height * unat dst_stride \<le> 2 ^ 32" "4 * unat width \<le> unat dst_stride"
    and dims: "width \<noteq> 0" "height \<noteq> 0"
    and ovl: "s \<noteq> d \<or> src_stride = dst_stride \<and> src_format \<noteq> dst_format"
    and conv: "conversion src_format dst_format = Some f"
  shows "\<exists>cd'. drmtap_convert_format (Some s) (Some d) width height src_stride dst_stride
      src_format dst_format hp = Some (0, hp(d \<mapsto> cd')) \<and>
    framed cd cd' (unat width) (unat height) (unat dst_stride)
      (\<lambda>y x. bytes32 (f (le32 (take 4 (drop (y * unat src_stride + 4 * x) cs)))))"
proof (cases "src_format = dst_format")
  case True
  then have f: "f = id" and sd: "s \<noteq> d" using conv ovl by (auto simp: conversion_def)
  have "0 < unat width" using dims(1) by (simp add: unat_gt_0)
  from row_copy_framed[OF src dst sd this] obtain cd' where
    cd': "loop32 height (\<lambda>y hp. memcpy hp d (unat (y * dst_stride)) s (unat (y * src_stride))
      (unat (width * 4))) hp = Some (hp(d \<mapsto> cd'))"
    "framed cd cd' (unat width) (unat height) (unat dst_stride)
      (\<lambda>y x. take 4 (drop (y * unat src_stride + 4 * x) cs))" by blast
  have "framed cd cd' (unat width) (unat height) (unat dst_stride)
      (\<lambda>y x. bytes32 (f (le32 (take 4 (drop (y * unat src_stride + 4 * x) cs)))))"
  proof (rule framed_cong[OF cd'(2)])
    fix y x assume "y < unat height" "x < unat width"
    then have "y * unat src_stride + (4 * x + 4) \<le> length cs"
      using src(4) by (intro row_in_bounds[OF _ _ src(2)]) linarith+
    then show "take 4 (drop (y * unat src_stride + 4 * x) cs)
        = bytes32 (f (le32 (take 4 (drop (y * unat src_stride + 4 * x) cs))))"
      by (simp add: f bytes32_le32)
  qed
  then show ?thesis
    using True cd'(1) dims src(4) dst(4) by (auto simp: drmtap_convert_format_def stride_narrow_iff)
next
  case False
  have ovl': "s \<noteq> d \<or> src_stride = dst_stride" using ovl by blast
  have "drmtap_convert_format (Some s) (Some d) width height src_stride dst_stride
      src_format dst_format hp = map_option (Pair 0) (loop32 height (\<lambda>y. loop32 width (\<lambda>x hp.
      do { p \<leftarrow> ld32 hp s (unat (y * src_stride) + 4 * unat x);
           st32 hp d (unat (y * dst_stride) + 4 * unat x) (f p) })) hp)"
    using False conv dims src(4) dst(4)
    by (auto simp: drmtap_convert_format_def stride_narrow_iff conversion_def fourcc_defs
      convert_ar30_to_xrgb8888_def convert_abgr_to_argb_def split: if_splits)
  with pixel_map_framed[OF src dst ovl', of f] show ?thesis by auto
qed

text \<open>
  C30. A supported conversion converts every pixel: the destination holds, at its own stride,
  the selected pixel function of each source pixel, byte for byte, and nothing else of it
  changes. It holds in place too, when both strides agree, except for the same-format copy,
  which needs two objects.
\<close>

theorem convert_format_correct:
  assumes src: "hp s = Some cs" "unat height * unat src_stride \<le> length cs"
      "unat height * unat src_stride \<le> 2 ^ 32" "4 * unat width \<le> unat src_stride"
    and dst: "hp d = Some cd" "unat height * unat dst_stride \<le> length cd"
      "unat height * unat dst_stride \<le> 2 ^ 32" "4 * unat width \<le> unat dst_stride"
    and dims: "width \<noteq> 0" "height \<noteq> 0"
    and ovl: "s \<noteq> d \<or> src_stride = dst_stride \<and> src_format \<noteq> dst_format"
    and conv: "conversion src_format dst_format = Some f"
  shows "\<exists>cd'. drmtap_convert_format (Some s) (Some d) width height src_stride dst_stride
      src_format dst_format hp = Some (0, hp(d \<mapsto> cd')) \<and>
    framed cd cd' (unat width) (unat height) (unat dst_stride)
      (\<lambda>y x. bytes32 (f (le32 (take 4 (drop (y * unat src_stride + 4 * x) cs)))))"
  by (rule convert_format_framed[OF assms])

theorem convert_format_correct_witness:
  "\<exists>cd'. drmtap_convert_format (Some 0) (Some 0) 1 1 4 4 DRM_FMT_XRGB2101010 DRM_FMT_XRGB8888
      [0 \<mapsto> [0, 0, 0, 0xC0]] = Some (0, [0 \<mapsto> [0, 0, 0, 0xC0]](0 \<mapsto> cd')) \<and>
    framed [0, 0, 0, 0xC0] cd' (unat (1 :: u32)) (unat (1 :: u32)) (unat (4 :: u32))
      (\<lambda>y x. bytes32 (ar30_pixel False (le32 (take 4 (drop (y * unat (4 :: u32) + 4 * x) [0, 0, 0, 0xC0])))))"
  by (rule convert_format_correct) (simp_all add: conversion_def fourcc_defs)

text \<open>
  Everything else is refused before memory is touched: an empty image or a stride that
  cannot hold a row is -EINVAL, and any format pair without a converter is -ENOTSUP.
\<close>

lemma convert_format_refuses:
  assumes "conversion src_format dst_format = None \<or> width = 0 \<or> height = 0 \<or>
    unat src_stride < 4 * unat width \<or> unat dst_stride < 4 * unat width"
  shows "drmtap_convert_format (Some s) (Some d) width height src_stride dst_stride
      src_format dst_format hp
    = Some (if width = 0 \<or> height = 0 \<or> unat src_stride < 4 * unat width \<or>
              unat dst_stride < 4 * unat width then - EINVAL else - ENOTSUP, hp)"
  using assms by (auto simp: drmtap_convert_format_def stride_narrow_iff conversion_def
    split: if_splits)

section \<open>The pixel functions\<close>

text \<open>Fields of a packed pixel: \<open>field p o n\<close> is the n-bit field at bit o.\<close>

definition field :: "u32 \<Rightarrow> nat \<Rightarrow> nat \<Rightarrow> nat" where
  "field p off n = unat (drop_bit off p) mod 2 ^ n"

lemma field_eqI:
  assumes "\<And>i. i < n \<Longrightarrow> bit p (off + i) = bit q (off' + i)"
  shows "field p off n = field q off' n"
  unfolding field_def take_bit_eq_mod[symmetric]
  using assms by (intro bit_eqI) (auto simp: bit_simps bit_take_bit_iff)

lemma field_top: "field p (off + k) n = field p off (k + n) div 2 ^ k"
  unfolding field_def take_bit_eq_mod[symmetric] drop_bit_eq_div[symmetric]
  by (rule bit_eqI) (auto simp: bit_simps bit_take_bit_iff add.assoc)

lemma bit_ff32: "bit (0xFF :: u32) n \<longleftrightarrow> n < 8"
proof -
  have "bit (mask 8 :: u32) n \<longleftrightarrow> n < 8" by (auto simp: bit_mask_iff)
  then show ?thesis by (simp add: mask_eq_exp_minus_1)
qed

lemma bit_ff8: "bit (0xFF :: byte) n \<longleftrightarrow> n < 8"
proof -
  have "bit (mask 8 :: byte) n \<longleftrightarrow> n < 8" by (auto simp: bit_mask_iff)
  then show ?thesis by (simp add: mask_eq_exp_minus_1)
qed

lemma bit_ffi: "bit (0xFF :: int) n \<longleftrightarrow> n < 8"
proof -
  have "bit (mask 8 :: int) n \<longleftrightarrow> n < 8" by (auto simp: bit_mask_iff)
  then show ?thesis by (simp add: mask_eq_exp_minus_1)
qed

lemma bit_xrgb:
  "bit (xrgb r g b) n \<longleftrightarrow> n < 32 \<and>
    (if n < 8 then bit b n else if n < 16 then bit g (n - 8) else if n < 24 then bit r (n - 16)
     else True)"
proof -
  have "bit (push_bit 24 (0xFF :: u32)) n \<longleftrightarrow> 24 \<le> n \<and> n < 32"
    by (simp only: bit_push_bit_iff bit_ff32) auto
  then show ?thesis
    unfolding xrgb_def by (auto simp: bit_simps bit_byte_high simp del: push_bit_numeral)
qed

lemma bit_ar30:
  "bit (ar30_pixel bgr p) n \<longleftrightarrow> n < 32 \<and>
    (if n < 8 then bit p (n + (if bgr then 22 else 2)) else if n < 16 then bit p (n + 4)
     else if n < 24 then bit p (if bgr then n - 14 else n + 6) else True)"
proof -
  have "Suc (Suc (n - 16)) = n - 14" if "\<not> n < 16" using that by linarith
  then show ?thesis
    by (auto simp: ar30_pixel_def Let_def bit_xrgb bit_simps bit_ff32 bit_ff8 bit_ffi add.commute)
qed

text \<open>
  The 10-bit reduction keeps the top eight bits of each channel: every output channel is
  the input channel divided by 4, red and blue change places for the BGR orders, and the
  output is opaque.
\<close>

lemma ten_bit_reduction:
  "field (ar30_pixel bgr p) 24 8 = 255 \<and>
   field (ar30_pixel bgr p) 16 8 = field p (if bgr then 0 else 20) 10 div 4 \<and>
   field (ar30_pixel bgr p) 8 8 = field p 10 10 div 4 \<and>
   field (ar30_pixel bgr p) 0 8 = field p (if bgr then 20 else 0) 10 div 4"
proof -
  have q: "field p off 10 div 4 = field p (off + 2) 8" for off
    using field_top[of p off 2 8] by simp
  have "field (ar30_pixel bgr p) 24 8 = field 0xFF 0 8"
    by (rule field_eqI) (simp only: bit_ar30 bit_ff32, simp)
  then have alpha: "field (ar30_pixel bgr p) 24 8 = 255" by (simp add: field_def)
  show ?thesis unfolding q
    by (intro conjI alpha field_eqI) (auto simp: bit_ar30 add.commute)
qed

end
