(* ===== verification/Tonemap.thy ===== *)
theory Tonemap
  imports Convert Complex_Main "HOL-Library.Log_Nat"
begin

text \<open>
  HDR and 16-bit scanouts to XRGB8888 (src/pixel_convert.c): the PQ and sRGB tables, the tone
  curve, drmtap_tonemap_hdr10, drmtap_convert_rgb16, half_to_float and drmtap_convert_rgb16f.
  Floating point is IEEE arithmetic on the rationals: every operation is the exact result
  rounded to nearest even at the format's precision (fround). The operands are finite and
  bounded by 10000 nits, so no operation overflows and finite rationals represent all of them;
  the value a half decodes to may be infinite or NaN and is a datatype. Only libm's pow is a
  parameter. A table access outside the table, like an access outside an object, is None.
\<close>

section \<open>IEEE arithmetic\<close>

text \<open>The exponent of a positive rational: \<open>2 powi ilog2 x \<le> x < 2 powi (ilog2 x + 1)\<close>.\<close>

definition ilog2 :: "rat \<Rightarrow> int" where
  "ilog2 x = (let (n, d) = quotient_of x; e = int (floorlog 2 (nat n)) - int (floorlog 2 (nat d)) in
    if 2 powi e \<le> x then e else e - 1)"

definition rne :: "rat \<Rightarrow> int" where
  "rne y = (let f = \<lfloor>y\<rfloor>; r = y - of_int f in
    if r < 1 / 2 then f else if 1 / 2 < r then f + 1 else if even f then f else f + 1)"

definition fround :: "nat \<Rightarrow> int \<Rightarrow> rat \<Rightarrow> rat" where
  "fround p emin x = (if x = 0 then 0
    else let u = 2 powi max emin (ilog2 \<bar>x\<bar> - (int p - 1)) in u * of_int (rne (x / u)))"

abbreviation dbl :: "rat \<Rightarrow> rat" where "dbl \<equiv> fround 53 (- 1074)"
abbreviation sgl :: "rat \<Rightarrow> rat" where "sgl \<equiv> fround 24 (- 149)"

lemma pow2_rat: "(2 ^ k \<le> n \<longrightarrow> (2 :: rat) ^ k \<le> of_int n) \<and> (n \<le> 2 ^ k \<longrightarrow> of_int n \<le> (2 :: rat) ^ k)"
  using of_int_le_iff[of "2 ^ k" n, where ?'a = rat] of_int_le_iff[of n "2 ^ k", where ?'a = rat] by simp

lemma ilog2_le: "0 < x \<Longrightarrow> 2 powi ilog2 x \<le> x"
proof -
  assume x: "0 < x"
  obtain n d where q: "quotient_of x = (n, d)" by (cases "quotient_of x")
  then have d: "0 < d" and xq: "x = of_int n / of_int d"
    by (simp_all add: quotient_of_denom_pos quotient_of_div)
  with x have n: "0 < n" by (simp add: zero_less_divide_iff)
  let ?a = "floorlog 2 (nat n)" and ?b = "floorlog 2 (nat d)"
  have fl: "2 ^ (floorlog 2 k - 1) \<le> k \<and> k < 2 ^ floorlog 2 k \<and> 0 < floorlog 2 k" if "0 < k" for k :: nat
    using floorlog_bounds[of k 2] that floorlog_eq_zero_iff[of 2 k] by (auto intro: gr0I)
  have "(2 :: nat) ^ (?a - 1) \<le> nat n" "nat d < 2 ^ ?b" "0 < ?a" using fl[of "nat n"] fl[of "nat d"] n d by auto
  then have "(2 :: int) ^ (?a - 1) \<le> n" "d \<le> 2 ^ ?b" using n d
    by (simp_all add: le_nat_iff nat_less_iff)
  then have "(2 :: rat) ^ (?a - 1) \<le> of_int n" "of_int d \<le> (2 :: rat) ^ ?b"
    using pow2_rat by blast+
  then have "(2 :: rat) ^ (?a - 1) / 2 ^ ?b \<le> x" unfolding xq using d n
    by (intro frac_le) auto
  moreover have "(2 :: rat) powi (int ?a - int ?b - 1) = 2 ^ (?a - 1) / 2 ^ ?b"
  proof -
    have "int ?a - int ?b - 1 = int (?a - 1) - int ?b" using \<open>0 < ?a\<close> by simp
    then have "(2 :: rat) powi (int ?a - int ?b - 1) = 2 powi (int (?a - 1) - int ?b)" by (rule arg_cong)
    also have "\<dots> = 2 powi int (?a - 1) / 2 powi int ?b" by (rule power_int_diff) simp
    finally show ?thesis by (simp only: power_int_of_nat)
  qed
  ultimately show ?thesis by (simp add: ilog2_def q Let_def)
qed

lemma rne_error: "\<bar>of_int (rne y) - y\<bar> \<le> 1 / 2"
proof -
  have "of_int \<lfloor>y\<rfloor> \<le> y" "y < of_int \<lfloor>y\<rfloor> + 1" by linarith+
  then show ?thesis by (auto simp: rne_def Let_def abs_le_iff)
qed

text \<open>Rounding errs by half a unit in the last place.\<close>

lemma fround_error:
  assumes "0 \<le> x"
  shows "\<bar>fround p emin x - x\<bar> \<le> max (2 powi emin) (x * 2 powi (1 - int p)) / 2"
proof (cases "x = 0")
  case True
  then show ?thesis by (simp add: fround_def le_max_iff_disj)
next
  case False
  then have x: "0 < x" using assms by simp
  define e where "e = max emin (ilog2 x - (int p - 1))"
  let ?u = "(2 :: rat) powi e"
  have "\<bar>of_int (rne (x / ?u)) - x / ?u\<bar> \<le> 1 / 2" by (rule rne_error)
  then have "?u * \<bar>of_int (rne (x / ?u)) - x / ?u\<bar> \<le> ?u * (1 / 2)"
    by (intro mult_left_mono) simp_all
  moreover have "?u * \<bar>of_int (rne (x / ?u)) - x / ?u\<bar> = \<bar>?u * of_int (rne (x / ?u)) - x\<bar>"
  proof -
    have "?u * of_int (rne (x / ?u)) - x = ?u * (of_int (rne (x / ?u)) - x / ?u)" by (simp add: field_simps)
    then show ?thesis by (simp only: abs_mult) simp
  qed
  moreover have "fround p emin x = ?u * of_int (rne (x / ?u))"
    using x by (simp add: fround_def Let_def e_def)
  ultimately have "\<bar>fround p emin x - x\<bar> \<le> ?u / 2" by linarith
  moreover have "?u \<le> max (2 powi emin) (x * 2 powi (1 - int p))"
  proof (cases "emin \<le> ilog2 x - (int p - 1)")
    case True
    have "?u = 2 powi ilog2 x * 2 powi (1 - int p)"
      using True by (simp add: e_def max_def power_int_add[symmetric] algebra_simps)
    also have "\<dots> \<le> x * 2 powi (1 - int p)" using ilog2_le[OF x] by (intro mult_right_mono) simp_all
    finally show ?thesis by simp
  qed (simp add: e_def max_def)
  ultimately show ?thesis by linarith
qed

section \<open>Tables and the tone curve\<close>

definition DRMTAP_SRGB_LUT_N :: int where "DRMTAP_SRGB_LUT_N = 4096"
definition DRMTAP_SDR_WHITE_NITS :: rat where "DRMTAP_SDR_WHITE_NITS = 203"

definition pq_eotf_nits :: "(rat \<Rightarrow> rat \<Rightarrow> rat) \<Rightarrow> rat \<Rightarrow> rat" where
  "pq_eotf_nits pow e =
    (let m1 = dbl (2610 / 16384); m2 = dbl (dbl (2523 / 4096) * 128);
         c1 = dbl (3424 / 4096); c2 = dbl (dbl (2413 / 4096) * 32); c3 = dbl (dbl (2392 / 4096) * 32) in
     if e \<le> 0 then 0
     else
       let ep = pow e (dbl (1 / m2)); num = dbl (ep - c1); num = (if num < 0 then 0 else num);
           den = dbl (c2 - dbl (c3 * ep)) in
       if den \<le> 0 then 10000 else dbl (10000 * pow (dbl (num / den)) (dbl (1 / m1))))"

definition srgb_oetf :: "(rat \<Rightarrow> rat \<Rightarrow> rat) \<Rightarrow> rat \<Rightarrow> rat" where
  "srgb_oetf pow c =
    (if c \<le> 0 then 0 else if 1 \<le> c then 1
     else if c \<le> dbl (31308 / 10000000) then dbl (dbl (1292 / 100) * c)
     else dbl (dbl (dbl (1055 / 1000) * pow c (dbl (1 / dbl (24 / 10)))) - dbl (55 / 1000)))"

text \<open>C's conversion of a floating value to int.\<close>

definition to_int :: "rat \<Rightarrow> int" where
  "to_int x = (if 0 \<le> x then \<lfloor>x\<rfloor> else \<lceil>x\<rceil>)"

text \<open>The tables hdr_lut_init fills: a 10-bit and a 16-bit PQ table, and the sRGB table.\<close>

definition g_pq_lut :: "(rat \<Rightarrow> rat \<Rightarrow> rat) \<Rightarrow> u32 \<Rightarrow> rat option" where
  "g_pq_lut pow i = (if i < 1024 then Some (sgl (pq_eotf_nits pow (dbl (of_int (uint i) / 1023)))) else None)"

definition g_pq_lut16 :: "(rat \<Rightarrow> rat \<Rightarrow> rat) \<Rightarrow> u16 \<Rightarrow> rat option" where
  "g_pq_lut16 pow i = Some (sgl (pq_eotf_nits pow (dbl (of_int (uint i) / 65535))))"

definition g_srgb_lut :: "(rat \<Rightarrow> rat \<Rightarrow> rat) \<Rightarrow> int \<Rightarrow> byte option" where
  "g_srgb_lut pow i =
    (if 0 \<le> i \<and> i < DRMTAP_SRGB_LUT_N then
       let s = srgb_oetf pow (dbl (of_int i / of_int (DRMTAP_SRGB_LUT_N - 1)));
           v = to_int (dbl (dbl (s * 255) + 1 / 2));
           v = (if v < 0 then 0 else v); v = (if 255 < v then 255 else v) in
       Some (word_of_int v)
     else None)"

definition tonemap_softknee :: "rat \<Rightarrow> rat \<Rightarrow> rat" where
  "tonemap_softknee x peak_n =
    (let knee = dbl (90 / 100) in
     if x \<le> knee then x
     else
       let peak_n = (if peak_n < dbl (knee + 1 / 2) then dbl (knee + 1 / 2) else peak_n) in
       if peak_n \<le> x then 1
       else
         let t = dbl (dbl (x - knee) / dbl (peak_n - knee)) in
         dbl (knee + dbl (dbl (1 - knee) * dbl (t * dbl (2 - t)))))"

definition to_srgb8 :: "(rat \<Rightarrow> rat \<Rightarrow> rat) \<Rightarrow> rat \<Rightarrow> byte option" where
  "to_srgb8 pow lin =
    (if lin \<le> 0 then g_srgb_lut pow 0
     else if 1 \<le> lin then g_srgb_lut pow (DRMTAP_SRGB_LUT_N - 1)
     else g_srgb_lut pow (to_int (dbl (dbl (lin * of_int (DRMTAP_SRGB_LUT_N - 1)) + 1 / 2))))"

definition tonemap_rgb_linear ::
  "(rat \<Rightarrow> rat \<Rightarrow> rat) \<Rightarrow> rat \<Rightarrow> rat \<Rightarrow> rat \<Rightarrow> rat \<Rightarrow> (byte \<times> byte \<times> byte) option" where
  "tonemap_rgb_linear pow r_lin g_lin b_lin peak_n =
    (let mix = (\<lambda>a b c. dbl (dbl (dbl (a * r_lin) + dbl (b * g_lin)) + dbl (c * b_lin)));
         r = mix (dbl (1660491 / 1000000)) (- dbl (587641 / 1000000)) (- dbl (72850 / 1000000));
         g = mix (- dbl (124550 / 1000000)) (dbl (1132900 / 1000000)) (- dbl (8349 / 1000000));
         b = mix (- dbl (18151 / 1000000)) (- dbl (100579 / 1000000)) (dbl (1118730 / 1000000));
         r = (if r < 0 then 0 else r); g = (if g < 0 then 0 else g); b = (if b < 0 then 0 else b);
         enc = (\<lambda>c. to_srgb8 pow (tonemap_softknee (dbl (c / DRMTAP_SDR_WHITE_NITS)) peak_n)) in
     do { r8 \<leftarrow> enc r; g8 \<leftarrow> enc g; b8 \<leftarrow> enc b; Some (r8, g8, b8) })"

definition hdr_peak_units :: "u32 \<Rightarrow> rat" where
  "hdr_peak_units max_nits =
    (let peak = (if 0 < max_nits then of_int (uint max_nits) else 1000) in dbl (peak / DRMTAP_SDR_WHITE_NITS))"

section \<open>HDR10\<close>

definition hdr10_pixel :: "(rat \<Rightarrow> rat \<Rightarrow> rat) \<Rightarrow> bool \<Rightarrow> rat \<Rightarrow> u32 \<Rightarrow> u32 option" where
  "hdr10_pixel pow is_bgr peak_n pixel =
    (let c_hi = drop_bit 20 pixel AND 0x3FF; c_lo = pixel AND 0x3FF in
     do { r \<leftarrow> g_pq_lut pow (if is_bgr then c_lo else c_hi);
          g \<leftarrow> g_pq_lut pow (drop_bit 10 pixel AND 0x3FF);
          b \<leftarrow> g_pq_lut pow (if is_bgr then c_hi else c_lo);
          (r8, g8, b8) \<leftarrow> tonemap_rgb_linear pow r g b peak_n;
          Some (xrgb r8 g8 b8) })"

definition drmtap_tonemap_hdr10 ::
  "(rat \<Rightarrow> rat \<Rightarrow> rat) \<Rightarrow> obj option \<Rightarrow> obj option \<Rightarrow> u32 \<Rightarrow> u32 \<Rightarrow> u32 \<Rightarrow> u32 \<Rightarrow> u32 \<Rightarrow> u32 \<Rightarrow> heap
    \<Rightarrow> (int \<times> heap) option" where
  "drmtap_tonemap_hdr10 pow src dst width height src_stride dst_stride src_format max_nits hp =
    (case (src, dst) of
      (Some s, Some d) \<Rightarrow>
        if width = 0 \<or> height = 0 then Some (- EINVAL, hp)
        else
          let is_rgb = (src_format = 0x30335258 \<or> src_format = 0x30335241);
              is_bgr = (src_format = 0x30334258 \<or> src_format = 0x30334241) in
          if \<not> is_rgb \<and> \<not> is_bgr then Some (- ENOTSUP, hp)
          else
            let row_bytes = ucast width * 4 :: u64 in
            if 0xFFFFFFFF < row_bytes \<or> ucast src_stride < row_bytes \<or> ucast dst_stride < row_bytes
            then Some (- EINVAL, hp)
            else
              let peak_n = hdr_peak_units max_nits in
              map_option (Pair 0) (loop32 height (\<lambda>y. loop32 width (\<lambda>x hp.
                do { pixel \<leftarrow> ld32 hp s (unat y * unat src_stride + 4 * unat x);
                     out \<leftarrow> hdr10_pixel pow is_bgr peak_n pixel;
                     st32 hp d (unat y * unat dst_stride + 4 * unat x) out })) hp)
    | _ \<Rightarrow> Some (- EINVAL, hp))"

section \<open>16-bit integer channels\<close>

definition rgb16_pixel ::
  "(rat \<Rightarrow> rat \<Rightarrow> rat) \<Rightarrow> bool \<Rightarrow> rat \<Rightarrow> u16 \<Rightarrow> u16 \<Rightarrow> u16 \<Rightarrow> u32 option" where
  "rgb16_pixel pow hdr peak_n cr cg cb =
    (if hdr then
       do { r \<leftarrow> g_pq_lut16 pow cr; g \<leftarrow> g_pq_lut16 pow cg; b \<leftarrow> g_pq_lut16 pow cb;
            (r8, g8, b8) \<leftarrow> tonemap_rgb_linear pow r g b peak_n;
            Some (xrgb r8 g8 b8) }
     else Some (xrgb (ucast (drop_bit 8 cr)) (ucast (drop_bit 8 cg)) (ucast (drop_bit 8 cb))))"

definition drmtap_convert_rgb16 ::
  "(rat \<Rightarrow> rat \<Rightarrow> rat) \<Rightarrow> obj option \<Rightarrow> obj option \<Rightarrow> u32 \<Rightarrow> u32 \<Rightarrow> u32 \<Rightarrow> u32 \<Rightarrow> bool \<Rightarrow> u32 \<Rightarrow> u32 \<Rightarrow> heap
    \<Rightarrow> (int \<times> heap) option" where
  "drmtap_convert_rgb16 pow src dst width height src_stride dst_stride bgr eotf max_nits hp =
    (case (src, dst) of
      (Some s, Some d) \<Rightarrow>
        if width = 0 \<or> height = 0 then Some (- EINVAL, hp)
        else
          let src_row = ucast width * 8 :: u64; dst_row = ucast width * 4 :: u64 in
          if 0xFFFFFFFF < src_row \<or> 0xFFFFFFFF < dst_row \<or>
             ucast src_stride < src_row \<or> ucast dst_stride < dst_row then Some (- EINVAL, hp)
          else
            let hdr = (eotf = 2); peak_n = hdr_peak_units max_nits;
                ri = (if bgr then 0 else 2); bi = (if bgr then 2 else 0) in
            map_option (Pair 0) (loop32 height (\<lambda>y. loop32 width (\<lambda>x hp.
              do { let px = unat y * unat src_stride + 8 * unat x;
                   cr \<leftarrow> ld16 hp s (px + 2 * ri);
                   cg \<leftarrow> ld16 hp s (px + 2);
                   cb \<leftarrow> ld16 hp s (px + 2 * bi);
                   out \<leftarrow> rgb16_pixel pow hdr peak_n cr cg cb;
                   st32 hp d (unat y * unat dst_stride + 4 * unat x) out })) hp)
    | _ \<Rightarrow> Some (- EINVAL, hp))"

section \<open>Half floats\<close>

text \<open>The normalising loop of a subnormal; it would not end on 0.\<close>

partial_function (option) half_norm :: "u32 \<Rightarrow> u32 \<Rightarrow> (u32 \<times> u32) option" where
  "half_norm mant expo = (if mant AND 0x400 = 0 then half_norm (push_bit 1 mant) (expo - 1) else Some (mant, expo))"

definition half_to_float :: "u16 \<Rightarrow> u32 option" where
  "half_to_float h =
    (let sign = push_bit 16 (ucast (h AND 0x8000)) :: u32;
         expo = ucast (drop_bit 10 h AND 0x1F) :: u32;
         mant = ucast (h AND 0x3FF) :: u32 in
     if expo = 0 then
       if mant = 0 then Some sign
       else map_option (\<lambda>(mant, expo). sign OR push_bit 23 expo OR push_bit 13 (mant AND 0x3FF))
              (half_norm mant (127 - 15 + 1))
     else if expo = 0x1F then Some (sign OR 0x7F800000 OR push_bit 13 mant)
     else Some (sign OR push_bit 23 (expo - 15 + 127) OR push_bit 13 mant))"

text \<open>The value of a binary32 and of a binary16 encoding.\<close>

datatype fval = Fin rat | Inf bool | NaN

definition f32_value :: "u32 \<Rightarrow> fval" where
  "f32_value bits =
    (let s = bit bits 31; e = unat (drop_bit 23 bits) mod 256; m = unat bits mod 2 ^ 23;
         sg = (if s then - 1 else 1) in
     if e = 255 then (if m = 0 then Inf s else NaN)
     else if e = 0 then Fin (sg * of_nat m * 2 powi - 149)
     else Fin (sg * (2 ^ 23 + of_nat m) * 2 powi (int e - 150)))"

definition f16_value :: "u16 \<Rightarrow> fval" where
  "f16_value h =
    (let s = bit h 15; e = unat (drop_bit 10 h) mod 32; m = unat h mod 2 ^ 10;
         sg = (if s then - 1 else 1) in
     if e = 31 then (if m = 0 then Inf s else NaN)
     else if e = 0 then Fin (sg * of_nat m * 2 powi - 24)
     else Fin (sg * (2 ^ 10 + of_nat m) * 2 powi (int e - 25)))"

definition srgb8_from_linear :: "(rat \<Rightarrow> rat \<Rightarrow> rat) \<Rightarrow> fval \<Rightarrow> byte option" where
  "srgb8_from_linear pow v =
    (case v of
      NaN \<Rightarrow> Some 0
    | Inf neg \<Rightarrow> Some (if neg then 0 else 255)
    | Fin f \<Rightarrow>
        if \<not> 0 < f then Some 0 else if 1 \<le> f then Some 255
        else g_srgb_lut pow (to_int (sgl (sgl (f * of_int (DRMTAP_SRGB_LUT_N - 1)) + 1 / 2))))"

definition rgb16f_pixel :: "(rat \<Rightarrow> rat \<Rightarrow> rat) \<Rightarrow> u16 \<Rightarrow> u16 \<Rightarrow> u16 \<Rightarrow> u32 option" where
  "rgb16f_pixel pow hr hg hb =
    do { fr \<leftarrow> half_to_float hr; r8 \<leftarrow> srgb8_from_linear pow (f32_value fr);
         fg \<leftarrow> half_to_float hg; g8 \<leftarrow> srgb8_from_linear pow (f32_value fg);
         fb \<leftarrow> half_to_float hb; b8 \<leftarrow> srgb8_from_linear pow (f32_value fb);
         Some (xrgb r8 g8 b8) }"

definition drmtap_convert_rgb16f ::
  "(rat \<Rightarrow> rat \<Rightarrow> rat) \<Rightarrow> obj option \<Rightarrow> obj option \<Rightarrow> u32 \<Rightarrow> u32 \<Rightarrow> u32 \<Rightarrow> u32 \<Rightarrow> bool \<Rightarrow> heap
    \<Rightarrow> (int \<times> heap) option" where
  "drmtap_convert_rgb16f pow src dst width height src_stride dst_stride bgr hp =
    (case (src, dst) of
      (Some s, Some d) \<Rightarrow>
        if width = 0 \<or> height = 0 then Some (- EINVAL, hp)
        else
          let src_row = ucast width * 8 :: u64; dst_row = ucast width * 4 :: u64 in
          if 0xFFFFFFFF < src_row \<or> 0xFFFFFFFF < dst_row \<or>
             ucast src_stride < src_row \<or> ucast dst_stride < dst_row then Some (- EINVAL, hp)
          else
            let ri = (if bgr then 0 else 2); bi = (if bgr then 2 else 0) in
            map_option (Pair 0) (loop32 height (\<lambda>y. loop32 width (\<lambda>x hp.
              do { let px = unat y * unat src_stride + 8 * unat x;
                   hr \<leftarrow> ld16 hp s (px + 2 * ri);
                   hg \<leftarrow> ld16 hp s (px + 2);
                   hb \<leftarrow> ld16 hp s (px + 2 * bi);
                   out \<leftarrow> rgb16f_pixel pow hr hg hb;
                   st32 hp d (unat y * unat dst_stride + 4 * unat x) out })) hp)
    | _ \<Rightarrow> Some (- EINVAL, hp))"

section \<open>Table accesses stay in the table\<close>

lemma fround_near:
  assumes "0 \<le> x" "x \<le> 8192" "emin \<le> - 3" "17 \<le> p"
  shows "\<bar>fround p emin x - x\<bar> \<le> 1 / 8"
proof -
  have a: "(2 :: rat) powi emin \<le> 2 powi - 3" using assms(3) by (intro power_int_increasing) simp_all
  have b: "(2 :: rat) powi (1 - int p) \<le> 2 powi - 16" using assms(4) by (intro power_int_increasing) simp_all
  have c: "(2 :: rat) powi - 3 = 1 / 8" "(2 :: rat) powi - 16 = 1 / 65536"
    by (simp_all add: power_int_minus)
  have "x * 2 powi (1 - int p) \<le> 8192 * (1 / 65536)"
    using assms(1,2) b c(2) by (intro mult_mono) simp_all
  then have "max (2 powi emin) (x * 2 powi (1 - int p)) / 2 \<le> 1 / 8"
    using a c(1) by (auto simp: max_def)
  with fround_error[OF assms(1), of p emin] show ?thesis by linarith
qed

lemma lut_index:
  assumes "0 \<le> x" "x \<le> 1" "emin \<le> - 3" "17 \<le> p"
  shows "0 \<le> to_int (fround p emin (fround p emin (x * of_int (DRMTAP_SRGB_LUT_N - 1)) + 1 / 2)) \<and>
    to_int (fround p emin (fround p emin (x * of_int (DRMTAP_SRGB_LUT_N - 1)) + 1 / 2)) < DRMTAP_SRGB_LUT_N"
proof -
  let ?y = "fround p emin (x * 4095)"
  have "\<bar>?y - x * 4095\<bar> \<le> 1 / 8" using assms by (intro fround_near) simp_all
  then have y: "- 1 / 8 \<le> ?y" "?y \<le> 4095 + 1 / 8" using assms(1,2) by linarith+
  then have "\<bar>fround p emin (?y + 1 / 2) - (?y + 1 / 2)\<bar> \<le> 1 / 8"
    using assms(3,4) by (intro fround_near) simp_all
  then have "0 \<le> fround p emin (?y + 1 / 2)" "fround p emin (?y + 1 / 2) < 4096" using y by linarith+
  then show ?thesis by (simp add: to_int_def DRMTAP_SRGB_LUT_N_def floor_less_iff)
qed

lemma srgb_lut_total: "0 \<le> i \<Longrightarrow> i < DRMTAP_SRGB_LUT_N \<Longrightarrow> \<exists>v. g_srgb_lut pow i = Some v"
  by (simp add: g_srgb_lut_def Let_def)

lemma to_srgb8_total: "\<exists>v. to_srgb8 pow x = Some v"
proof -
  have "\<exists>v. g_srgb_lut pow 0 = Some v" "\<exists>v. g_srgb_lut pow (DRMTAP_SRGB_LUT_N - 1) = Some v"
    by (rule srgb_lut_total; simp add: DRMTAP_SRGB_LUT_N_def)+
  moreover have "0 < x \<Longrightarrow> x < 1 \<Longrightarrow>
      \<exists>v. g_srgb_lut pow (to_int (dbl (dbl (x * of_int (DRMTAP_SRGB_LUT_N - 1)) + 1 / 2))) = Some v"
    using lut_index[of x "- 1074" 53] by (intro srgb_lut_total) simp_all
  ultimately show ?thesis by (simp add: to_srgb8_def)
qed

lemma tonemap_total: "\<exists>r8 g8 b8. tonemap_rgb_linear pow r g b peak = Some (r8, g8, b8)"
proof -
  have bind: "\<exists>v. a = Some v \<Longrightarrow> \<exists>v. b = Some v \<Longrightarrow> \<exists>v. c = Some v \<Longrightarrow>
      \<exists>x y z. do { r8 \<leftarrow> a; g8 \<leftarrow> b; b8 \<leftarrow> c; Some (r8, g8, b8) } = Some (x, y, z)"
    for a b c :: "byte option" by auto
  show ?thesis unfolding tonemap_rgb_linear_def Let_def by (rule bind; rule to_srgb8_total)
qed

lemma ten_bits_lt: "(p :: u32) AND 0x3FF < 1024"
proof -
  have "p AND 0x3FF \<le> 0x3FF" by (rule word_and_le1)
  then show ?thesis by (rule order_le_less_trans) simp
qed

lemma hdr10_total: "\<exists>v. hdr10_pixel pow bgr peak p = Some v"
proof -
  have lut: "\<exists>v. g_pq_lut pow (q AND 0x3FF) = Some v" for q by (simp add: g_pq_lut_def ten_bits_lt)
  obtain a b c where lut3: "g_pq_lut pow (if bgr then p AND 0x3FF else drop_bit 20 p AND 0x3FF) = Some a"
      "g_pq_lut pow (drop_bit 10 p AND 0x3FF) = Some b"
      "g_pq_lut pow (if bgr then drop_bit 20 p AND 0x3FF else p AND 0x3FF) = Some c"
    using lut[of p] lut[of "drop_bit 20 p"] lut[of "drop_bit 10 p"] by (cases bgr) auto
  obtain x y z where "tonemap_rgb_linear pow a b c peak = Some (x, y, z)" using tonemap_total by blast
  then show ?thesis by (simp only: hdr10_pixel_def Let_def lut3 Option.bind.bind_lunit prod.case) simp
qed

lemma rgb16_total: "\<exists>v. rgb16_pixel pow hdr peak r g b = Some v"
proof -
  obtain x y z where "tonemap_rgb_linear pow (the (g_pq_lut16 pow r)) (the (g_pq_lut16 pow g))
      (the (g_pq_lut16 pow b)) peak = Some (x, y, z)" using tonemap_total by blast
  then show ?thesis by (simp add: rgb16_pixel_def g_pq_lut16_def)
qed

lemma srgb8_total: "\<exists>v. srgb8_from_linear pow x = Some v"
proof (cases x)
  case (Fin f)
  have "0 < f \<Longrightarrow> f < 1 \<Longrightarrow>
      \<exists>v. g_srgb_lut pow (to_int (sgl (sgl (f * of_int (DRMTAP_SRGB_LUT_N - 1)) + 1 / 2))) = Some v"
    using lut_index[of f "- 149" 24] by (intro srgb_lut_total) simp_all
  then show ?thesis by (simp add: srgb8_from_linear_def Fin)
qed (simp_all add: srgb8_from_linear_def)

section \<open>Half floats decode exactly\<close>

lemma and_0x400: "unat (m :: u32) < 2048 \<Longrightarrow> m AND 0x400 = 0 \<longleftrightarrow> unat m < 1024"
proof -
  assume m: "unat m < 2048"
  have "m AND 0x400 = 0 \<longleftrightarrow> \<not> bit m 10"
    using and_exp_eq_0_iff_not_bit[of m 10] by simp
  also have "bit m 10 \<longleftrightarrow> odd (unat m div 1024)"
  proof -
    have "bit m 10 \<longleftrightarrow> bit (unat m) 10" by (simp add: bit_unsigned_iff)
    then show ?thesis by (simp only: bit_iff_odd) simp
  qed
  also have "\<not> odd (unat m div 1024) \<longleftrightarrow> unat m < 1024"
  proof -
    have "unat m div 1024 = (if unat m < 1024 then 0 else 1)" using m by (auto simp: div_nat_eqI)
    then show ?thesis by simp
  qed
  finally show ?thesis .
qed

lemma half_norm_steps:
  "1024 \<le> unat m * 2 ^ k \<Longrightarrow> unat m * 2 ^ k < 2048 \<Longrightarrow>
    half_norm m e = Some (push_bit k m, e - of_nat k)"
proof (induction k arbitrary: m e)
  case 0
  then show ?case by (subst half_norm.simps) (simp add: and_0x400)
next
  case (Suc k)
  have "unat m * 2 \<le> unat m * 2 ^ Suc k" by simp
  then have lt: "unat m * 2 < 2048" "unat m < 1024" using Suc.prems(2) by linarith+
  have u: "unat (push_bit 1 m) = unat m * 2"
    using lt by (simp add: push_bit_eq_mult unat_mult_small)
  have "half_norm (push_bit 1 m) (e - 1) = Some (push_bit k (push_bit 1 m), e - 1 - of_nat k)"
    using Suc.prems by (intro Suc.IH) (simp_all only: u power_Suc mult.assoc)
  moreover have "push_bit k (push_bit 1 m) = push_bit (Suc k) m" by (simp only: push_bit_push_bit Suc_eq_plus1)
  moreover have "e - 1 - of_nat k = e - of_nat (Suc k)" by simp
  moreover have "m AND 0x400 = 0" using lt by (simp add: and_0x400)
  ultimately show ?case by (subst half_norm.simps) (simp only: if_True refl)
qed

lemma bit_unat: "bit (unat (m :: 'a :: len word)) n = bit m n"
  by (simp add: bit_unsigned_iff)

lemma bit_above: "unat (m :: 'a :: len word) < 2 ^ k \<Longrightarrow> k \<le> n \<Longrightarrow> \<not> bit m n"
proof -
  assume "unat m < 2 ^ k" "k \<le> n"
  then have "unat m < 2 ^ n" by (meson less_le_trans one_le_numeral power_increasing)
  then have "\<not> bit (unat m) n" by (simp add: bit_iff_odd)
  then show ?thesis by (simp only: bit_unat not_False_eq_True)
qed

definition pack32 :: "u16 \<Rightarrow> u32 \<Rightarrow> u32 \<Rightarrow> u32" where
  "pack32 h e m = push_bit 16 (ucast (h AND 0x8000)) OR push_bit 23 e OR push_bit 13 m"

lemma bit_8000: "bit (0x8000 :: u16) n \<longleftrightarrow> n = 15"
proof -
  have "bit (2 ^ 15 :: u16) n \<longleftrightarrow> n = 15" by (simp only: bit_exp_iff) auto
  then show ?thesis by simp
qed

lemma bit_sign: "bit (push_bit 16 (ucast (h AND 0x8000 :: u16)) :: u32) n \<longleftrightarrow> n = 31 \<and> bit h 15"
  by (simp only: bit_push_bit_iff bit_unsigned_iff bit_and_iff bit_8000) auto

lemma bit_pack32:
  assumes "unat e < 256" "unat m < 1024"
  shows "bit (pack32 h e m) n \<longleftrightarrow> n < 32 \<and> (if n = 31 then bit h 15 else if 23 \<le> n then bit e (n - 23)
    else 13 \<le> n \<and> bit m (n - 13))"
proof -
  have "\<not> bit e k" if "8 \<le> k" for k using bit_above[of e 8 k] assms(1) that by simp
  moreover have "\<not> bit m k" if "10 \<le> k" for k using bit_above[of m 10 k] assms(2) that by simp
  ultimately show ?thesis
    unfolding pack32_def bit_or_iff bit_sign by (auto simp: bit_simps simp del: push_bit_numeral)
qed

lemma pack32_fields:
  assumes "unat e < 256" "unat m < 1024"
  shows "bit (pack32 h e m) 31 = bit h 15" "unat (drop_bit 23 (pack32 h e m)) mod 256 = unat e"
    "unat (pack32 h e m) mod 2 ^ 23 = unat m * 2 ^ 13"
proof -
  show "bit (pack32 h e m) 31 = bit h 15" by (simp add: bit_pack32[OF assms])
  have be: "bit e k \<Longrightarrow> k < 8" for k using bit_above[of e 8 k] assms(1) by (cases "k < 8") simp_all
  have bm: "bit m k \<Longrightarrow> k < 10" for k using bit_above[of m 10 k] assms(2) by (cases "k < 10") simp_all
  have "take_bit 8 (unat (drop_bit 23 (pack32 h e m))) = unat e"
    by (rule bit_eqI) (auto simp: bit_take_bit_iff bit_unat bit_drop_bit_eq bit_pack32[OF assms] dest: be)
  then show "unat (drop_bit 23 (pack32 h e m)) mod 256 = unat e" by (simp add: take_bit_eq_mod)
  have "take_bit 23 (unat (pack32 h e m)) = push_bit 13 (unat m)"
    by (rule bit_eqI) (auto simp: bit_take_bit_iff bit_unat bit_push_bit_iff bit_pack32[OF assms] dest: bm)
  then show "unat (pack32 h e m) mod 2 ^ 23 = unat m * 2 ^ 13"
    by (simp add: take_bit_eq_mod push_bit_eq_mult)
qed

lemma unat_and_mask: "unat ((x :: 'a :: len word) AND mask k) = unat x mod 2 ^ k"
  by (metis take_bit_eq_mask take_bit_eq_mod unsigned_take_bit_eq)

lemma u16_fields:
  "unat (ucast (drop_bit 10 (h :: u16) AND 0x1F) :: u32) = unat (drop_bit 10 h) mod 32"
  "unat (ucast (h AND 0x3FF) :: u32) = unat h mod 1024"
proof -
  have up: "unat (ucast (x :: u16) :: u32) = unat x" for x
  proof -
    have "unat x < 2 ^ LENGTH(16)" by (rule unsigned_less)
    then show ?thesis by (simp add: unsigned_ucast_eq take_bit_nat_eq_self_iff)
  qed
  show "unat (ucast (drop_bit 10 h AND 0x1F) :: u32) = unat (drop_bit 10 h) mod 32"
    unfolding up using unat_and_mask[of "drop_bit 10 h" 5] by (simp add: mask_eq_exp_minus_1)
  show "unat (ucast (h AND 0x3FF) :: u32) = unat h mod 1024"
    unfolding up using unat_and_mask[of h 10] by (simp add: mask_eq_exp_minus_1)
qed

text \<open>A subnormal half is normalised within ten shifts.\<close>

lemma half_norm_exists:
  assumes "0 < n" "n < (1024 :: nat)"
  shows "\<exists>k \<le> 10. 1024 \<le> n * 2 ^ k \<and> n * 2 ^ k < 2048"
proof -
  let ?j = "floorlog 2 n"
  have b: "2 ^ (?j - 1) \<le> n" "n < 2 ^ ?j" using floorlog_bounds[of n 2] assms(1) by simp_all
  have "?j \<le> 10" using assms(2) floorlog_leI[of n 2 10] by simp
  moreover have "0 < ?j" using assms(1) floorlog_eq_zero_iff[of 2 n] by (auto intro: gr0I)
  moreover have "n * 2 ^ (11 - ?j) < 2 ^ ?j * 2 ^ (11 - ?j)" using b(2) by simp
  moreover have "2 ^ (?j - 1) * 2 ^ (11 - ?j) \<le> n * 2 ^ (11 - ?j)" using b(1) by simp
  ultimately show ?thesis
    by (intro exI[of _ "11 - ?j"]) (simp add: power_add[symmetric])
qed

lemma half_decodes: "\<exists>b. half_to_float h = Some b \<and> f32_value b = f16_value h"
proof -
  let ?e = "ucast (drop_bit 10 h AND 0x1F) :: u32" and ?m = "ucast (h AND 0x3FF) :: u32"
  let ?sg = "(if bit h 15 then - 1 else 1) :: rat"
  note f = u16_fields[of h]
  have e: "unat ?e < 32" and m: "unat ?m < 1024" unfolding f by simp_all
  have dec: "f32_value (pack32 h x y) = (if unat x = 255 then if unat y = 0 then Inf (bit h 15) else NaN
      else if unat x = 0 then Fin (?sg * (of_nat (unat y) * 2 ^ 13) * 2 powi - 149)
      else Fin (?sg * (2 ^ 23 + of_nat (unat y) * 2 ^ 13) * 2 powi (int (unat x) - 150)))"
    if "unat x < 256" "unat y < 1024" for x y
    unfolding f32_value_def Let_def pack32_fields[OF that] by simp
  have val: "f16_value h = (if unat ?e = 31 then if unat ?m = 0 then Inf (bit h 15) else NaN
      else if unat ?e = 0 then Fin (?sg * of_nat (unat ?m) * 2 powi - 24)
      else Fin (?sg * (2 ^ 10 + of_nat (unat ?m)) * 2 powi (int (unat ?e) - 25)))"
    unfolding f16_value_def Let_def f by simp
  consider (zero) "?e = 0" "?m = 0" | (sub) "?e = 0" "?m \<noteq> 0" | (inf) "?e = 31" | (norm) "?e \<noteq> 0" "?e \<noteq> 31"
    by blast
  then show ?thesis
  proof cases
    case zero
    then have "half_to_float h = Some (pack32 h 0 0)" by (simp add: half_to_float_def pack32_def)
    moreover have "f32_value (pack32 h 0 0) = f16_value h" by (subst dec) (simp_all add: val zero)
    ultimately show ?thesis by blast
  next
    case inf
    then have "half_to_float h = Some (pack32 h 255 ?m)" by (simp add: half_to_float_def pack32_def)
    moreover have "f32_value (pack32 h 255 ?m) = f16_value h" by (subst dec) (use m in \<open>simp_all add: val inf\<close>)
    ultimately show ?thesis by blast
  next
    case norm
    let ?x = "?e - 15 + 127"
    have "?x = ?e + 112" by simp
    then have x: "unat ?x = unat ?e + 112" using e by (simp only:) (subst unat_add_small, simp_all)
    have ne: "unat ?e \<noteq> 0" "unat ?e \<noteq> 31" using norm by (auto simp: unat_eq_0 dest: unat_imp_eq)
    have "half_to_float h = Some (pack32 h ?x ?m)" using norm by (simp add: half_to_float_def pack32_def)
    moreover have "f32_value (pack32 h ?x ?m)
        = Fin (?sg * (2 ^ 23 + of_nat (unat ?m) * 2 ^ 13) * 2 powi (int (unat ?e) + 112 - 150))"
      using e m by (subst dec) (simp_all only: x, simp_all)
    moreover have "(2 :: rat) powi (int (unat ?e) - 25) = 2 powi (int (unat ?e) + 112 - 150) * 2 ^ 13"
      by (subst power_int_of_nat[symmetric], subst power_int_add[symmetric]) simp_all
    ultimately show ?thesis by (intro exI[of _ "pack32 h ?x ?m"]) (simp only: val ne if_False, simp add: algebra_simps)
  next
    case sub
    have "0 < unat ?m" using sub by (simp add: unat_gt_0)
    then obtain k where k: "k \<le> 10" "1024 \<le> unat ?m * 2 ^ k" "unat ?m * 2 ^ k < 2048"
      using half_norm_exists m by blast
    let ?x = "113 - of_nat k :: u32" and ?y = "push_bit k ?m AND 0x3FF"
    have uk: "unat (of_nat k :: u32) = k" using k(1) by (simp add: unat_of_nat)
    have "unat ?x = 113 - unat (of_nat k :: u32)" using k(1) uk by (subst unat_sub) (simp_all add: word_le_nat_alt)
    then have x: "unat ?x = 113 - k" using uk by simp
    have "unat (push_bit k ?m) = unat ?m * 2 ^ k"
      using k(3) by (simp add: unsigned_push_bit_eq push_bit_eq_mult[of k "unat ?m"] take_bit_nat_eq_self_iff)
    moreover have "unat (z AND 0x3FF) = unat z mod 1024" for z :: u32
      using unat_and_mask[of z 10] by (simp add: mask_eq_exp_minus_1)
    ultimately have y: "unat ?y = unat ?m * 2 ^ k - 1024" using k(2,3) by (simp add: mod_if)
    have "half_to_float h = Some (pack32 h ?x ?y)"
      using sub half_norm_steps[OF k(2,3), of 113] by (simp add: half_to_float_def pack32_def Let_def)
    moreover have "f32_value (pack32 h ?x ?y) = f16_value h"
    proof -
      have "int (113 - k) - 150 = - 37 - int k" using k(1) by simp
      moreover have "of_nat (unat ?m * 2 ^ k - 1024) = (of_nat (unat ?m) * 2 ^ k - 1024 :: rat)"
        using k(2) by (simp add: of_nat_diff)
      moreover have "(2 :: rat) powi - 24 = 2 powi (- 37 - int k) * 2 ^ k * 2 ^ 13"
        by (subst power_int_of_nat[symmetric], subst power_int_of_nat[symmetric],
          subst power_int_add[symmetric], simp, subst power_int_add[symmetric]) simp_all
      moreover have "113 - k \<noteq> 0" "113 - k \<noteq> 255" using k(1) by simp_all
      moreover have "unat ?x < 256" "unat ?y < 1024" unfolding x y using k by simp_all
      ultimately show ?thesis using sub
        by (simp only: dec x y val if_False) (simp add: algebra_simps)
    qed
    ultimately show ?thesis by blast
  qed
qed

section \<open>What the converters write\<close>

text \<open>
  The loop of the three converters: it reads \<open>bpp\<close> bytes of each source pixel, which
  decide the word \<open>g\<close> stored in the destination.
\<close>

lemma load_map_framed:
  assumes src: "hp s = Some cs" "unat h * unat SS \<le> length cs" "bpp * unat w \<le> unat SS" "4 \<le> bpp"
    and dst: "hp d = Some cd" "unat h * unat S \<le> length cd" "4 * unat w \<le> unat S"
    and ovl: "s \<noteq> d \<or> SS = S"
    and load: "\<And>hp off bs. rd hp s off bpp = Some bs \<Longrightarrow> L hp off = Some (g bs)"
  shows "\<exists>cd'. loop32 h (\<lambda>y. loop32 w (\<lambda>x hp.
      do { v \<leftarrow> L hp (unat y * unat SS + bpp * unat x);
           st32 hp d (unat y * unat S + 4 * unat x) v })) hp = Some (hp(d \<mapsto> cd')) \<and>
    framed cd cd' (unat w) (unat h) (unat S)
      (\<lambda>y x. bytes32 (g (take bpp (drop (y * unat SS + bpp * x) cs))))"
proof -
  let ?v = "\<lambda>y x. g (take bpp (drop (y * unat SS + bpp * x) cs))"
  let ?body = "\<lambda>y (x :: u32) hp. do { v \<leftarrow> L hp (unat y * unat SS + bpp * unat x);
           st32 hp d (unat (y :: u32) * unat S + 4 * unat x) v }"
  let ?get = "\<lambda>y x hp. L hp (y * unat SS + bpp * x)"
  have same: "hp(d \<mapsto> cd) = hp" using dst(1) by auto
  have "loop (unat h) (\<lambda>y. loop (unat w) (\<lambda>x. ?body (of_nat y) (of_nat x))) (hp(d \<mapsto> cd))
      = Some (hp(d \<mapsto> patch_rows cd (unat S)
          (\<lambda>y. concat (map (\<lambda>x. bytes32 (?v y x)) [0..<unat w])) (unat h)))"
  proof (rule pixel_loop[where get = ?get, OF dst(3,2)])
    fix y x c' assume yx: "y < unat h" "x < unat w" and c': "length c' = length cd"
      and agree: "\<And>j. y * unat S + 4 * x \<le> j \<Longrightarrow> j < length cd \<Longrightarrow> c' ! j = cd ! j"
    let ?off = "y * unat SS + bpp * x"
    have "bpp * Suc x \<le> bpp * unat w" using yx(2) by (intro mult_le_mono2) simp
    then have "bpp * x + bpp \<le> unat SS" using src(3) by simp
    then have le: "?off + bpp \<le> length cs"
      using row_in_bounds[OF yx(1) _ src(2), of "bpp * x + bpp"] by simp
    have "rd (hp(d \<mapsto> c')) s ?off bpp = Some (take bpp (drop ?off cs))"
    proof (cases "s = d")
      case True
      then have cs: "cs = cd" "SS = S" using src(1) dst(1) ovl by auto
      have le4: "4 * x \<le> bpp * x" using src(4) by (rule mult_le_mono1)
      have "c' ! j = cs ! j" if "?off \<le> j" "j < length cs" for j
        using that le4 unfolding cs by (intro agree) linarith+
      then have "take bpp (drop ?off c') = take bpp (drop ?off cs)"
        using c' le cs(1) by (intro nth_equalityI) simp_all
      then show ?thesis using True c' le cs by (simp add: rd_in_bounds)
    next
      case False
      then show ?thesis using src(1) le by (simp add: rd_in_bounds)
    qed
    then show "?get y x (hp(d \<mapsto> c')) = Some (?v y x)" by (rule load)
  next
    fix y x and hp' :: heap assume yx: "y < unat h" "x < unat w"
    show "?body (of_nat y) (of_nat x) hp' = ?get y x hp' \<bind> st32 hp' d (y * unat S + 4 * x)"
      using yx by (cases "L hp' (y * unat SS + bpp * x)") simp_all
  qed
  moreover have "framed cd (patch_rows cd (unat S) (\<lambda>y. concat (map (\<lambda>x. bytes32 (?v y x)) [0..<unat w]))
      (unat h)) (unat w) (unat h) (unat S) (\<lambda>y x. bytes32 (?v y x))"
    by (rule framed_patch_rows[OF dst(3,2)]) simp
  ultimately show ?thesis unfolding loop32_def same by blast
qed

lemma rd_part: "rd hp p off n = Some bs \<Longrightarrow> k + m \<le> n \<Longrightarrow> rd hp p (off + k) m = Some (take m (drop k bs))"
  by (auto simp: rd_def drop_take take_drop[symmetric] min_def add.commute add.left_commute split: option.splits if_splits)

text \<open>Channel i of a pixel of four 16-bit channels.\<close>

definition chan16 :: "byte list \<Rightarrow> nat \<Rightarrow> u16" where
  "chan16 bs i = le16 (take 2 (drop (2 * i) bs))"

lemma ld16_chan: "rd hp p off 8 = Some bs \<Longrightarrow> i < 4 \<Longrightarrow> ld16 hp p (off + 2 * i) = Some (chan16 bs i)"
  using rd_part[of hp p off 8 bs "2 * i" 2] by (simp add: ld16_def chan16_def)

lemma narrow8_iff: "ucast (S :: u32) < (ucast (w :: u32) * 8 :: u64) \<longleftrightarrow> unat S < 8 * unat w"
  by (simp add: word_less_nat_alt mult.commute)

lemma narrow4_iff: "ucast (S :: u32) < (ucast (w :: u32) * 4 :: u64) \<longleftrightarrow> unat S < 4 * unat w"
  by (simp add: word_less_nat_alt mult.commute)

lemma row_fits_u32: "n * unat (w :: u32) \<le> unat (S :: u32) \<Longrightarrow> n = 4 \<or> n = 8 \<Longrightarrow>
    \<not> (0xFFFFFFFF :: u64) < ucast w * 4 \<and> (n = 8 \<longrightarrow> \<not> (0xFFFFFFFF :: u64) < ucast w * 8)"
  using unat_u32_bound_le[of S] by (auto simp: word_less_nat_alt)

lemma hdr10_framed:
  assumes src: "hp s = Some cs" "unat h * unat SS \<le> length cs" "4 * unat w \<le> unat SS"
    and dst: "hp d = Some cd" "unat h * unat S \<le> length cd" "4 * unat w \<le> unat S"
    and dims: "w \<noteq> 0" "h \<noteq> 0" and ovl: "s \<noteq> d \<or> SS = S"
    and fmt: "fmt \<in> {0x30335258, 0x30335241, 0x30334258, 0x30334241}"
  shows "\<exists>cd'. drmtap_tonemap_hdr10 pow (Some s) (Some d) w h SS S fmt nits hp = Some (0, hp(d \<mapsto> cd')) \<and>
    framed cd cd' (unat w) (unat h) (unat S) (\<lambda>y x. bytes32 (the (hdr10_pixel pow
      (fmt \<in> {0x30334258, 0x30334241}) (hdr_peak_units nits) (le32 (take 4 (drop (y * unat SS + 4 * x) cs))))))"
proof -
  let ?L = "\<lambda>hp off. ld32 hp s off \<bind> hdr10_pixel pow (fmt \<in> {0x30334258, 0x30334241}) (hdr_peak_units nits)"
  have pix: "hdr10_pixel pow b k v = Some (the (hdr10_pixel pow b k v))" for b k v
    using hdr10_total[of pow b k v] by auto
  have load: "?L hp off = Some (the (hdr10_pixel pow (fmt \<in> {0x30334258, 0x30334241}) (hdr_peak_units nits) (le32 bs)))"
    if "rd hp s off 4 = Some bs" for hp off bs
    unfolding ld32_def that by (simp only: option.map Option.bind.bind_lunit pix[symmetric])
  have "drmtap_tonemap_hdr10 pow (Some s) (Some d) w h SS S fmt nits hp = map_option (Pair 0)
      (loop32 h (\<lambda>y. loop32 w (\<lambda>x hp. do { v \<leftarrow> ?L hp (unat y * unat SS + 4 * unat x);
           st32 hp d (unat y * unat S + 4 * unat x) v })) hp)"
    using dims fmt src(3) dst(3) row_fits_u32[of 4 w S]
    by (auto simp: drmtap_tonemap_hdr10_def narrow4_iff Let_def)
  with load_map_framed[OF src _ dst ovl load] show ?thesis by auto
qed

lemma rgb16_framed:
  assumes src: "hp s = Some cs" "unat h * unat SS \<le> length cs" "8 * unat w \<le> unat SS"
    and dst: "hp d = Some cd" "unat h * unat S \<le> length cd" "4 * unat w \<le> unat S"
    and dims: "w \<noteq> 0" "h \<noteq> 0" and ovl: "s \<noteq> d \<or> SS = S"
  shows "\<exists>cd'. drmtap_convert_rgb16 pow (Some s) (Some d) w h SS S bgr eotf nits hp = Some (0, hp(d \<mapsto> cd')) \<and>
    framed cd cd' (unat w) (unat h) (unat S) (\<lambda>y x. let px = take 8 (drop (y * unat SS + 8 * x) cs) in
      bytes32 (the (rgb16_pixel pow (eotf = 2) (hdr_peak_units nits)
        (chan16 px (if bgr then 0 else 2)) (chan16 px 1) (chan16 px (if bgr then 2 else 0)))))"
proof -
  let ?ri = "if bgr then 0 else 2 :: nat" and ?bi = "if bgr then 2 else 0 :: nat"
  let ?P = "rgb16_pixel pow (eotf = 2) (hdr_peak_units nits)"
  let ?L = "\<lambda>hp px. do { cr \<leftarrow> ld16 hp s (px + 2 * ?ri); cg \<leftarrow> ld16 hp s (px + 2);
                   cb \<leftarrow> ld16 hp s (px + 2 * ?bi); ?P cr cg cb }"
  have pix: "?P a b c = Some (the (?P a b c))" for a b c using rgb16_total[of pow _ _ a b c] by auto
  have load: "?L hp off = Some (the (?P (chan16 bs ?ri) (chan16 bs 1) (chan16 bs ?bi)))"
    if "rd hp s off 8 = Some bs" for hp off bs
    using ld16_chan[OF that, of ?ri] ld16_chan[OF that, of 1] ld16_chan[OF that, of ?bi]
    by (simp only: pix[symmetric] Option.bind.bind_lunit) simp
  have "drmtap_convert_rgb16 pow (Some s) (Some d) w h SS S bgr eotf nits hp = map_option (Pair 0)
      (loop32 h (\<lambda>y. loop32 w (\<lambda>x hp. do { v \<leftarrow> ?L hp (unat y * unat SS + 8 * unat x);
           st32 hp d (unat y * unat S + 4 * unat x) v })) hp)"
    using dims src(3) dst(3) row_fits_u32[of 8 w SS]
    by (auto simp: drmtap_convert_rgb16_def narrow4_iff narrow8_iff Let_def)
  with load_map_framed[OF src _ dst ovl load] show ?thesis unfolding Let_def by auto
qed

lemma rgb16f_framed:
  assumes src: "hp s = Some cs" "unat h * unat SS \<le> length cs" "8 * unat w \<le> unat SS"
    and dst: "hp d = Some cd" "unat h * unat S \<le> length cd" "4 * unat w \<le> unat S"
    and dims: "w \<noteq> 0" "h \<noteq> 0" and ovl: "s \<noteq> d \<or> SS = S"
  shows "\<exists>cd'. drmtap_convert_rgb16f pow (Some s) (Some d) w h SS S bgr hp = Some (0, hp(d \<mapsto> cd')) \<and>
    framed cd cd' (unat w) (unat h) (unat S) (\<lambda>y x. let px = take 8 (drop (y * unat SS + 8 * x) cs);
        enc = (\<lambda>i. the (srgb8_from_linear pow (f16_value (chan16 px i)))) in
      bytes32 (xrgb (enc (if bgr then 0 else 2)) (enc 1) (enc (if bgr then 2 else 0))))"
proof -
  let ?ri = "if bgr then 0 else 2 :: nat" and ?bi = "if bgr then 2 else 0 :: nat"
  let ?L = "\<lambda>hp px. do { hr \<leftarrow> ld16 hp s (px + 2 * ?ri); hg \<leftarrow> ld16 hp s (px + 2);
                   hb \<leftarrow> ld16 hp s (px + 2 * ?bi); rgb16f_pixel pow hr hg hb }"
  let ?enc = "\<lambda>h. the (srgb8_from_linear pow (f16_value h))"
  have dec: "do { f \<leftarrow> half_to_float h; r \<leftarrow> srgb8_from_linear pow (f32_value f); K r } = K (?enc h)"
    for h and K :: "byte \<Rightarrow> u32 option"
  proof -
    obtain b where b: "half_to_float h = Some b" "f32_value b = f16_value h" using half_decodes by blast
    obtain v where "srgb8_from_linear pow (f16_value h) = Some v" using srgb8_total by blast
    then show ?thesis by (simp add: b)
  qed
  have pix: "rgb16f_pixel pow a b c = Some (xrgb (?enc a) (?enc b) (?enc c))" for a b c
    unfolding rgb16f_pixel_def dec ..
  have load: "?L hp off = Some (xrgb (?enc (chan16 bs ?ri)) (?enc (chan16 bs 1)) (?enc (chan16 bs ?bi)))"
    if "rd hp s off 8 = Some bs" for hp off bs
    using ld16_chan[OF that, of ?ri] ld16_chan[OF that, of 1] ld16_chan[OF that, of ?bi]
    by (simp only: pix Option.bind.bind_lunit) simp
  have "drmtap_convert_rgb16f pow (Some s) (Some d) w h SS S bgr hp = map_option (Pair 0)
      (loop32 h (\<lambda>y. loop32 w (\<lambda>x hp. do { v \<leftarrow> ?L hp (unat y * unat SS + 8 * unat x);
           st32 hp d (unat y * unat S + 4 * unat x) v })) hp)"
    using dims src(3) dst(3) row_fits_u32[of 8 w SS]
    by (auto simp: drmtap_convert_rgb16f_def narrow4_iff narrow8_iff Let_def)
  with load_map_framed[OF src _ dst ovl load] show ?thesis unfolding Let_def by auto
qed

section \<open>The claims\<close>

text \<open>
  C31. Half-float decoding is exact and total: for every 16-bit pattern the normalising loop
  ends, and the binary32 the code assembles denotes exactly the value of the half, with its
  sign, for zeros, subnormals, normals, infinities and NaNs.
\<close>

theorem half_to_float_exact: "\<exists>b. half_to_float h = Some b \<and> f32_value b = f16_value h"
  by (rule half_decodes)

text \<open>
  A 16-bit-per-channel SDR scanout keeps the high byte of every channel: with any transfer
  function but PQ, the conversion succeeds, each destination pixel is opaque and carries the red,
  green and blue channels of its source quad divided by 256, read in the order the format
  stores them, and no other byte changes, in place as well.
\<close>

lemma rgb16_sdr_exact:
  assumes "hp s = Some cs" "unat height * unat src_stride \<le> length cs" "8 * unat width \<le> unat src_stride"
    and "hp d = Some cd" "unat height * unat dst_stride \<le> length cd" "4 * unat width \<le> unat dst_stride"
    and "width \<noteq> 0" "height \<noteq> 0" and "s \<noteq> d \<or> src_stride = dst_stride"
    and sdr: "eotf \<noteq> 2"
  shows "\<exists>cd'. drmtap_convert_rgb16 pow (Some s) (Some d) width height src_stride dst_stride bgr eotf nits hp
      = Some (0, hp(d \<mapsto> cd')) \<and>
    framed cd cd' (unat width) (unat height) (unat dst_stride)
      (\<lambda>y x. let px = take 8 (drop (y * unat src_stride + 8 * x) cs);
                 hi = (\<lambda>i. ucast (drop_bit 8 (chan16 px i)) :: byte) in
        bytes32 (xrgb (hi (if bgr then 0 else 2)) (hi 1) (hi (if bgr then 2 else 0))))"
proof -
  have "the (rgb16_pixel pow (eotf = 2) k a b c)
      = xrgb (ucast (drop_bit 8 a)) (ucast (drop_bit 8 b)) (ucast (drop_bit 8 c))" for k a b c
    using sdr by (simp only: rgb16_pixel_def if_False option.sel)
  with rgb16_framed[OF assms(1-9), of pow bgr eotf nits] show ?thesis by (simp only: Let_def)
qed



end
