(* ===== verification/Diff.thy ===== *)
theory Diff
  imports Memory
begin

text \<open>
  Frame differencing (src/pixel_convert.c, drmtap_diff_frames): the tile grid in uint32_t
  arithmetic, the early-out row comparison, and the write of at most max_rects rectangles into
  the caller's array. The abstract result is the row-major list of the tiles that differ.
\<close>

section \<open>The code\<close>

record drmtap_rect =
  rect_x :: u32
  rect_y :: u32
  rect_w :: u32
  rect_h :: u32

definition INT_MAX :: int where "INT_MAX = 2147483647"

text \<open>The row loop of one tile; it stops comparing once a row differs.\<close>

definition tile_dirty ::
  "heap \<Rightarrow> obj \<Rightarrow> obj \<Rightarrow> u32 \<Rightarrow> u32 \<Rightarrow> u32 \<Rightarrow> u32 \<Rightarrow> u32 \<Rightarrow> bool option" where
  "tile_dirty hp frame_a frame_b stride rx ry rw rh =
    loop (unat (ry + rh) - unat ry) (\<lambda>i dirty.
      if dirty then Some True
      else let row = ry + of_nat i;
               off = unat (row * stride) + unat (rx * 4) in
        do { a \<leftarrow> rd hp frame_a off (unat (rw * 4));
             b \<leftarrow> rd hp frame_b off (unat (rw * 4));
             Some (a \<noteq> b) }) False"

text \<open>\<open>rects_out[dirty_count] = ...; dirty_count++\<close>: the store is skipped past max_rects.\<close>

definition emit_rect :: "int \<Rightarrow> drmtap_rect \<Rightarrow> int \<times> drmtap_rect list \<Rightarrow> (int \<times> drmtap_rect list) option" where
  "emit_rect max_rects r st =
    (case st of (dirty_count, rects) \<Rightarrow>
      if dirty_count = INT_MAX then None
      else if dirty_count < max_rects then
        (if nat dirty_count < length rects
         then Some (dirty_count + 1, rects[nat dirty_count := r]) else None)
      else Some (dirty_count + 1, rects))"

definition drmtap_diff_frames ::
  "heap \<Rightarrow> obj option \<Rightarrow> obj option \<Rightarrow> u32 \<Rightarrow> u32 \<Rightarrow> u32 \<Rightarrow> drmtap_rect list option \<Rightarrow> int \<Rightarrow> int
    \<Rightarrow> (int \<times> drmtap_rect list option) option" where
  "drmtap_diff_frames hp frame_a frame_b width height stride rects_out max_rects tile_size =
    (case (frame_a, frame_b, rects_out) of
      (Some a, Some b, Some rects) \<Rightarrow>
        if max_rects \<le> 0 \<or> tile_size \<le> 0 then Some (- EINVAL, rects_out)
        else
          let ts = of_int tile_size :: u32;
              tiles_x = (width + ts - 1) div ts;
              tiles_y = (height + ts - 1) div ts in
          map_option (\<lambda>(n, rs). (n, Some rs))
            (loop32 tiles_y (\<lambda>ty. loop32 tiles_x (\<lambda>tx st.
              let rx = tx * ts; ry = ty * ts;
                  rw = (if width < rx + ts then width - rx else ts);
                  rh = (if height < ry + ts then height - ry else ts) in
              do { dirty \<leftarrow> tile_dirty hp a b stride rx ry rw rh;
                   if dirty then emit_rect max_rects (drmtap_rect.make rx ry rw rh) st
                   else Some st })) (0, rects))
    | _ \<Rightarrow> Some (- EINVAL, rects_out))"

section \<open>Loops that always succeed are folds\<close>

lemma loop_fold:
  assumes "P s" "\<And>i t. i < n \<Longrightarrow> P t \<Longrightarrow> f i t = Some (g i t) \<and> P (g i t)"
  shows "loop n f s = Some (fold g [0..<n] s) \<and> P (fold g [0..<n] s)"
  using assms by (induction n) auto

lemma loop_or:
  assumes "\<And>i d. i < n \<Longrightarrow> f i d = Some (d \<or> D i)"
  shows "loop n f b = Some (b \<or> (\<exists>i < n. D i))"
  using assms by (induction n) (auto simp: less_Suc_eq)

section \<open>The abstract result\<close>

text \<open>
  Tile (tx, ty) of size ts covers columns \<open>tx*ts ..< min w ((tx+1)*ts)\<close>, rows likewise. Two
  frames differ in it when some row segment differs.
\<close>

definition tile_extent :: "nat \<Rightarrow> nat \<Rightarrow> nat \<Rightarrow> nat" where
  "tile_extent w ts t = min ts (w - t * ts)"

definition segment :: "byte list \<Rightarrow> nat \<Rightarrow> nat \<Rightarrow> nat \<Rightarrow> nat \<Rightarrow> byte list" where
  "segment c stride y x0 n = take (4 * n) (drop (y * stride + 4 * x0) c)"

definition tile_differs ::
  "byte list \<Rightarrow> byte list \<Rightarrow> nat \<Rightarrow> nat \<Rightarrow> nat \<Rightarrow> nat \<Rightarrow> nat \<times> nat \<Rightarrow> bool" where
  "tile_differs ca cb w h stride ts = (\<lambda>(ty, tx).
    list_ex (\<lambda>i. segment ca stride (ty * ts + i) (tx * ts) (tile_extent w ts tx)
      \<noteq> segment cb stride (ty * ts + i) (tx * ts) (tile_extent w ts tx))
      [0..<tile_extent h ts ty])"

definition tile_rect :: "nat \<Rightarrow> nat \<Rightarrow> nat \<Rightarrow> nat \<times> nat \<Rightarrow> drmtap_rect" where
  "tile_rect w h ts = (\<lambda>(ty, tx). drmtap_rect.make (of_nat (tx * ts)) (of_nat (ty * ts))
    (of_nat (tile_extent w ts tx)) (of_nat (tile_extent h ts ty)))"

definition tile_count :: "nat \<Rightarrow> nat \<Rightarrow> nat" where
  "tile_count n ts = (n + ts - 1) div ts"

definition dirty_tiles ::
  "byte list \<Rightarrow> byte list \<Rightarrow> nat \<Rightarrow> nat \<Rightarrow> nat \<Rightarrow> nat \<Rightarrow> (nat \<times> nat) list" where
  "dirty_tiles ca cb w h stride ts =
    filter (tile_differs ca cb w h stride ts)
      (List.product [0..<tile_count h ts] [0..<tile_count w ts])"

section \<open>One tile\<close>

lemma tile_start:
  assumes "t < tile_count n ts" "0 < ts"
  shows "t * ts < n"
proof -
  have "t * ts + ts \<le> tile_count n ts * ts" using times_Suc_le[OF assms(1)] .
  also have "\<dots> \<le> n + ts - 1" by (simp add: tile_count_def div_times_less_eq_dividend)
  finally show ?thesis using assms(2) by linarith
qed

lemma tile_word_extent:
  fixes w ts :: u32
  assumes t: "t < tile_count (unat w) (unat ts)" and ts: "0 < unat ts" and fit: "unat w + unat ts \<le> 2 ^ 32"
  shows "unat (of_nat t * ts) = t * unat ts"
    and "unat (if w < of_nat t * ts + ts then w - of_nat t * ts else ts) = tile_extent (unat w) (unat ts) t"
proof -
  have start: "t * unat ts < unat w" using tile_start[OF t ts] .
  have "t * 1 \<le> t * unat ts" using ts by (intro mult_le_mono2) linarith
  then have "t < 4294967296" using start unat_u32_bound[of w] by linarith
  then have t': "unat (of_nat t :: u32) = t" by (simp add: unat_of_nat take_bit_nat_eq_self_iff)
  show rx: "unat (of_nat t * ts) = t * unat ts"
    using start unat_u32_bound[of w] by (subst unat_mult_small) (simp_all add: t')
  have sum: "unat (of_nat t * ts + ts) = t * unat ts + unat ts"
    using start fit rx by (subst unat_add_small) simp_all
  show "unat (if w < of_nat t * ts + ts then w - of_nat t * ts else ts) = tile_extent (unat w) (unat ts) t"
    using start rx sum by (auto simp: tile_extent_def word_less_nat_alt unat_sub word_le_nat_alt)
qed

lemma tile_dirty_result:
  fixes w h ts stride :: u32
  assumes mem: "hp a = Some ca" "hp b = Some cb" "unat h * unat stride \<le> length ca"
      "unat h * unat stride \<le> length cb" "unat h * unat stride \<le> 2 ^ 32" "4 * unat w \<le> unat stride"
    and ts: "0 < unat ts" "unat w + unat ts \<le> 2 ^ 32" "unat h + unat ts \<le> 2 ^ 32"
    and t: "ty < tile_count (unat h) (unat ts)" "tx < tile_count (unat w) (unat ts)"
    and rw: "unat rw = tile_extent (unat w) (unat ts) tx" and rh: "unat rh = tile_extent (unat h) (unat ts) ty"
    and rx: "unat rx = tx * unat ts" and ry: "unat ry = ty * unat ts"
  shows "tile_dirty hp a b stride rx ry rw rh
    = Some (tile_differs ca cb (unat w) (unat h) (unat stride) (unat ts) (ty, tx))"
proof -
  let ?n = "tile_extent (unat h) (unat ts) ty"
  let ?seg = "\<lambda>c i. segment c (unat stride) (ty * unat ts + i) (tx * unat ts) (tile_extent (unat w) (unat ts) tx)"
  have x: "tx * unat ts + tile_extent (unat w) (unat ts) tx \<le> unat w"
    using tile_start[OF t(2) ts(1)] by (simp add: tile_extent_def)
  have y: "ty * unat ts + ?n \<le> unat h"
    using tile_start[OF t(1) ts(1)] by (simp add: tile_extent_def)
  have n: "unat (ry + rh) - unat ry = ?n"
    using y unat_u32_bound[of h] by (subst unat_add_small) (simp_all add: ry rh)
  have S: "4 * unat w < 2 ^ 32" using mem(6) unat_u32_bound[of stride] by simp
  have x4: "unat (rx * 4) = 4 * (tx * unat ts)" "unat (rw * 4) = 4 * tile_extent (unat w) (unat ts) tx"
    using x S by (subst unat_mult_small; simp add: rx rw)+
  have step: "(if dirty then Some True
      else let row = ry + of_nat i; off = unat (row * stride) + unat (rx * 4) in
        do { s \<leftarrow> rd hp a off (unat (rw * 4)); s' \<leftarrow> rd hp b off (unat (rw * 4)); Some (s \<noteq> s') })
      = Some (dirty \<or> ?seg ca i \<noteq> ?seg cb i)" if i: "i < ?n" for i dirty
  proof -
    have lt: "ty * unat ts + i < unat h" using i y by linarith
    then have i32: "unat (of_nat i :: u32) = i"
      using unat_u32_bound[of h] by (simp add: unat_of_nat take_bit_nat_eq_self_iff)
    have row: "unat (ry + of_nat i) = ty * unat ts + i"
      using lt unat_u32_bound[of h] by (subst unat_add_small) (simp_all add: ry i32)
    have le: "(ty * unat ts + i) * unat stride + unat stride \<le> unat h * unat stride"
      using times_Suc_le[OF lt] .
    have wpos: "0 < unat stride" using tile_start[OF t(2) ts(1)] mem(6) by linarith
    have off: "unat ((ry + of_nat i) * stride) = (ty * unat ts + i) * unat stride"
      using le wpos mem(5) unfolding row[symmetric] by (intro unat_mult_small) linarith
    have "(ty * unat ts + i) * unat stride + 4 * (tx * unat ts)
        + 4 * tile_extent (unat w) (unat ts) tx \<le> unat h * unat stride"
      using le x mem(6) by linarith
    then show ?thesis
      using mem(1-4) by (simp add: off x4 rd_in_bounds segment_def Let_def)
  qed
  show ?thesis
    unfolding tile_dirty_def n by (subst loop_or[OF step]) (auto simp: tile_differs_def list_ex_iff)
qed

section \<open>The whole grid\<close>

text \<open>What emitting the tiles ts into the array does, once no counter overflows.\<close>

lemma fold_emit:
  assumes "length rects = L" "nat m \<le> L" "0 \<le> k" "k + int (length rs) \<le> INT_MAX" "0 < m"
  shows "fold (\<lambda>r st. st \<bind> emit_rect m r) rs (Some (k, rects))
    = Some (k + int (length rs), patch rects (min (nat k) (nat m)) (take (nat (m - k)) rs))"
  using assms
proof (induction rs arbitrary: k rects)
  case Nil
  then show ?case by simp
next
  case (Cons r rs)
  have lt: "k < INT_MAX" using Cons.prems(4) by simp
  show ?case
  proof (cases "k < m")
    case True
    then have "nat k < length rects" using Cons.prems by linarith
    then have e: "emit_rect m r (k, rects) = Some (k + 1, rects[nat k := r])"
      using True lt by (simp add: emit_rect_def)
    have "fold (\<lambda>r st. st \<bind> emit_rect m r) rs (Some (k + 1, rects[nat k := r]))
        = Some (k + 1 + int (length rs), patch (rects[nat k := r]) (min (nat (k + 1)) (nat m))
            (take (nat (m - (k + 1))) rs))"
      using Cons.prems by (intro Cons.IH) auto
    moreover have "patch (rects[nat k := r]) (min (nat (k + 1)) (nat m)) (take (nat (m - (k + 1))) rs)
        = patch rects (min (nat k) (nat m)) (take (nat (m - k)) (r # rs))"
    proof -
      define n where "n = nat (m - (k + 1))"
      have n: "nat (m - k) = Suc n" "min (nat (k + 1)) (nat m) = Suc (nat k)" "min (nat k) (nat m) = nat k"
        "Suc (nat k) + n = nat m"
        using True Cons.prems(3) by (auto simp: n_def)
      have "nat k + length (take n rs) + 1 \<le> length rects" using n(4) Cons.prems(1,2) by simp
      then show ?thesis
        unfolding n n_def[symmetric]
        by (intro nth_equalityI) (auto simp: nth_patch nth_list_update nth_Cons' Suc_diff_le)
    qed
    ultimately show ?thesis by (simp add: e)
  next
    case False
    then have e: "emit_rect m r (k, rects) = Some (k + 1, rects)"
      using lt by (simp add: emit_rect_def)
    have "fold (\<lambda>r st. st \<bind> emit_rect m r) rs (Some (k + 1, rects))
        = Some (k + 1 + int (length rs), patch rects (min (nat (k + 1)) (nat m)) (take (nat (m - (k + 1))) rs))"
      using Cons.prems by (intro Cons.IH) auto
    then show ?thesis using False Cons.prems by (simp add: e)
  qed
qed

lemma loop_as_fold: "loop n f s = fold (\<lambda>i st. st \<bind> f i) [0..<n] (Some s)"
  by (induction n) simp_all

lemma nested_loop_as_fold:
  "loop h (\<lambda>y. loop w (g y)) s = fold (\<lambda>(y, x) st. st \<bind> g y x) (List.product [0..<h] [0..<w]) (Some s)"
proof (induction h)
  case (Suc h)
  have none: "fold (\<lambda>x st. st \<bind> g h x) xs None = None" for xs by (induction xs) simp_all
  have "fold (\<lambda>(y, x) st. st \<bind> g y x) (map (Pair h) xs) o' = o' \<bind> (\<lambda>t. fold (\<lambda>x st. st \<bind> g h x) xs (Some t))" for xs o'
    by (cases o') (simp_all add: fold_map comp_def none)
  moreover have "List.product [0..<Suc h] [0..<w] = List.product [0..<h] [0..<w] @ map (Pair h) [0..<w]"
    by (simp add: product_concat_map)
  ultimately show ?case using Suc by (simp add: loop_as_fold[of w])
qed simp

lemma fold_filter_emit:
  assumes "\<And>p st. p \<in> set ps \<Longrightarrow> g p st = (if D p then emit_rect m (R p) st else Some st)"
  shows "fold (\<lambda>p st. st \<bind> g p) ps s = fold (\<lambda>r st. st \<bind> emit_rect m r) (map R (filter D ps)) s"
  using assms
proof (induction ps arbitrary: s)
  case (Cons p ps)
  have "s \<bind> g p = (if D p then s \<bind> emit_rect m (R p) else s)"
    using Cons.prems[of p] by (cases s) auto
  then show ?case using Cons by simp
qed simp

section \<open>drmtap_diff_frames\<close>

lemma diff_frames_run:
  fixes width height stride :: u32 and ts :: u32
  assumes mem: "hp a = Some ca" "hp b = Some cb" "unat height * unat stride \<le> length ca"
      "unat height * unat stride \<le> length cb" "unat height * unat stride \<le> 2 ^ 32"
      "4 * unat width \<le> unat stride"
    and par: "0 < max_rects" "nat max_rects \<le> length rects" "0 < tile_size" "tile_size \<le> INT_MAX"
      "unat width + nat tile_size \<le> 2 ^ 32" "unat height + nat tile_size \<le> 2 ^ 32"
    and dirty: "D = dirty_tiles ca cb (unat width) (unat height) (unat stride) (nat tile_size)"
      "int (length D) \<le> INT_MAX"
  shows "drmtap_diff_frames hp (Some a) (Some b) width height stride (Some rects) max_rects tile_size
    = Some (int (length D), Some (patch rects 0
        (map (tile_rect (unat width) (unat height) (nat tile_size)) (take (nat max_rects) D))))"
proof -
  let ?ts = "of_int tile_size :: u32"
  have ts: "unat ?ts = nat tile_size"
    using par(3,4) by (simp add: unat_eq_nat_uint uint_word_of_int INT_MAX_def)
  have ts': "0 < unat ?ts" "unat width + unat ?ts \<le> 2 ^ 32" "unat height + unat ?ts \<le> 2 ^ 32"
    using par(3,5,6) unfolding ts by simp_all
  have count: "unat ((n + ?ts - 1) div ?ts) = tile_count (unat n) (unat ?ts)"
    if "unat n + unat ?ts \<le> 2 ^ 32" for n :: u32
  proof -
    have "unat (n + (?ts - 1)) = unat n + (unat ?ts - 1)"
      using that ts'(1) by (subst unat_add_small) (simp_all add: unat_sub word_le_nat_alt)
    then show ?thesis
      using ts'(1) by (simp add: unat_div tile_count_def add_diff_eq[symmetric])
  qed
  let ?h = "tile_count (unat height) (nat tile_size)" and ?w = "tile_count (unat width) (nat tile_size)"
  let ?R = "tile_rect (unat width) (unat height) (nat tile_size)"
  let ?T = "tile_differs ca cb (unat width) (unat height) (unat stride) (nat tile_size)"
  let ?g = "\<lambda>ty tx st. let rx = tx * ?ts; ry = ty * ?ts;
                  rw = (if width < rx + ?ts then width - rx else ?ts);
                  rh = (if height < ry + ?ts then height - ry else ?ts) in
              do { dirty \<leftarrow> tile_dirty hp a b stride rx ry rw rh;
                   if dirty then emit_rect max_rects (drmtap_rect.make rx ry rw rh) st
                   else Some st }"
  have g: "?g (of_nat ty) (of_nat tx) st = (if ?T (ty, tx) then emit_rect max_rects (?R (ty, tx)) st else Some st)"
    if t: "ty < ?h" "tx < ?w" for ty tx st
  proof -
    note tx = tile_word_extent[OF t(2)[folded ts] ts'(1,2)]
    note ty = tile_word_extent[OF t(1)[folded ts] ts'(1,3)]
    have rx: "of_nat tx * ?ts = of_nat (tx * nat tile_size)" "of_nat ty * ?ts = of_nat (ty * nat tile_size)"
      using unat_imp_eq[OF tx(1)] unat_imp_eq[OF ty(1)] unfolding ts by blast+
    have rw: "(if width < of_nat tx * ?ts + ?ts then width - of_nat tx * ?ts else ?ts)
        = of_nat (tile_extent (unat width) (nat tile_size) tx)"
      "(if height < of_nat ty * ?ts + ?ts then height - of_nat ty * ?ts else ?ts)
        = of_nat (tile_extent (unat height) (nat tile_size) ty)"
      using unat_imp_eq[OF tx(2)] unat_imp_eq[OF ty(2)] unfolding ts by blast+
    show ?thesis
      unfolding Let_def tile_dirty_result[OF mem ts' t(1)[folded ts] t(2)[folded ts] tx(2) ty(2) tx(1) ty(1)]
      unfolding rw unfolding rx ts by (simp only: bind.bind_lunit tile_rect_def split)
  qed
  have "loop ?h (\<lambda>ty. loop ?w (\<lambda>tx. ?g (of_nat ty) (of_nat tx))) (0, rects)
      = fold (\<lambda>r st. st \<bind> emit_rect max_rects r) (map ?R D) (Some (0, rects))"
    unfolding nested_loop_as_fold dirty(1) dirty_tiles_def split_beta
    by (rule fold_filter_emit) (use g in \<open>auto simp: mem_Times_iff\<close>)
  also have "\<dots> = Some (int (length D), patch rects 0 (map ?R (take (nat max_rects) D)))"
    using fold_emit[OF refl par(2), of 0 "map ?R D"] par(1) dirty(2) by (simp add: take_map)
  finally show ?thesis
    using par(1,3) count[OF ts'(2)] count[OF ts'(3)]
    by (simp add: drmtap_diff_frames_def loop32_def ts)
qed

lemma list_ex_product:
  "list_ex P (List.product [0..<h] [0..<w]) \<longleftrightarrow> (\<exists>y < h. \<exists>x < w. P (y, x))"
  unfolding list_ex_iff set_product Bex_def by (simp add: split_paired_Ex)

section \<open>Pixels\<close>

text \<open>Two frames differ at a pixel when its four bytes do.\<close>

definition pixel_differs :: "byte list \<Rightarrow> byte list \<Rightarrow> nat \<Rightarrow> nat \<Rightarrow> nat \<Rightarrow> bool" where
  "pixel_differs ca cb stride y x \<longleftrightarrow>
    take 4 (drop (y * stride + 4 * x) ca) \<noteq> take 4 (drop (y * stride + 4 * x) cb)"

text \<open>The tiles, in row-major order, that contain a differing pixel.\<close>

definition differing_tiles ::
  "byte list \<Rightarrow> byte list \<Rightarrow> nat \<Rightarrow> nat \<Rightarrow> nat \<Rightarrow> nat \<Rightarrow> (nat \<times> nat) list" where
  "differing_tiles ca cb w h stride ts =
    filter (\<lambda>(ty, tx). list_ex (\<lambda>(y, x). y div ts = ty \<and> x div ts = tx \<and>
        pixel_differs ca cb stride y x) (List.product [0..<h] [0..<w]))
      (List.product [0..<tile_count h ts] [0..<tile_count w ts])"

lemma mem_differing_tiles:
  "(ty, tx) \<in> set (differing_tiles ca cb w h S ts) \<longleftrightarrow> ty < tile_count h ts \<and> tx < tile_count w ts \<and>
    (\<exists>y < h. \<exists>x < w. y div ts = ty \<and> x div ts = tx \<and> pixel_differs ca cb S y x)"
  by (simp add: differing_tiles_def list_ex_product)

lemma segment_eq_iff:
  assumes "y * S + 4 * (x0 + n) \<le> length ca" "y * S + 4 * (x0 + n) \<le> length cb"
  shows "segment ca S y x0 n = segment cb S y x0 n \<longleftrightarrow> (\<forall>x < n. \<not> pixel_differs ca cb S y (x0 + x))"
proof -
  have len: "length (segment ca S y x0 n) = 4 * n" "length (segment cb S y x0 n) = 4 * n"
    using assms by (simp_all add: segment_def)
  have px: "\<not> pixel_differs ca cb S y (x0 + x) \<longleftrightarrow>
      (\<forall>k < 4. ca ! (y * S + 4 * (x0 + x) + k) = cb ! (y * S + 4 * (x0 + x) + k))" if "x < n" for x
  proof -
    have "4 * (x0 + x) + 4 \<le> 4 * (x0 + n)" using that by simp
    then have "y * S + 4 * (x0 + x) + 4 \<le> length ca" "y * S + 4 * (x0 + x) + 4 \<le> length cb"
      using assms by linarith+
    then show ?thesis by (simp add: pixel_differs_def list_eq_iff_nth_eq)
  qed
  have "segment ca S y x0 n = segment cb S y x0 n \<longleftrightarrow>
      (\<forall>i < 4 * n. ca ! (y * S + 4 * x0 + i) = cb ! (y * S + 4 * x0 + i))"
    using len assms by (simp add: list_eq_iff_nth_eq segment_def)
  also have "\<dots> \<longleftrightarrow> (\<forall>x < n. \<forall>k < 4. ca ! (y * S + 4 * x0 + (4 * x + k)) = cb ! (y * S + 4 * x0 + (4 * x + k)))"
  proof (intro iffI allI impI)
    fix i assume all: "\<forall>x < n. \<forall>k < 4. ca ! (y * S + 4 * x0 + (4 * x + k)) = cb ! (y * S + 4 * x0 + (4 * x + k))"
      and i: "i < 4 * n"
    have "i div 4 < n" "i mod 4 < 4" "4 * (i div 4) + i mod 4 = i" using i by auto
    with all show "ca ! (y * S + 4 * x0 + i) = cb ! (y * S + 4 * x0 + i)" by metis
  next
    fix x k :: nat assume "\<forall>i < 4 * n. ca ! (y * S + 4 * x0 + i) = cb ! (y * S + 4 * x0 + i)" "x < n" "k < 4"
    moreover from this have "4 * x + k < 4 * n" by linarith
    ultimately show "ca ! (y * S + 4 * x0 + (4 * x + k)) = cb ! (y * S + 4 * x0 + (4 * x + k))" by blast
  qed
  also have "\<dots> \<longleftrightarrow> (\<forall>x < n. \<not> pixel_differs ca cb S y (x0 + x))"
    using px by (simp add: add_mult_distrib2 add.assoc)
  finally show ?thesis .
qed

lemma in_tile_iff:
  assumes "0 < ts"
  shows "(y < h \<and> y div ts = t) \<longleftrightarrow> (\<exists>i < tile_extent h ts t. y = t * ts + i)"
proof (intro iffI conjI; (elim conjE exE)?)
  assume "y < h" "y div ts = t"
  then have "y = t * ts + y mod ts" "y mod ts < ts" using assms by auto
  then show "\<exists>i < tile_extent h ts t. y = t * ts + i"
    using \<open>y < h\<close> by (intro exI[of _ "y mod ts"]) (simp add: tile_extent_def)
next
  fix i assume "i < tile_extent h ts t" "y = t * ts + i"
  then show "y < h" "y div ts = t" using assms by (auto simp: tile_extent_def)
qed

lemma differing_tiles_eq:
  assumes "0 < ts" "4 * w \<le> S" "h * S \<le> length ca" "h * S \<le> length cb"
  shows "differing_tiles ca cb w h S ts = dirty_tiles ca cb w h S ts"
  unfolding differing_tiles_def dirty_tiles_def
proof (rule filter_cong[OF refl], clarify)
  fix ty tx assume "(ty, tx) \<in> set (List.product [0..<tile_count h ts] [0..<tile_count w ts])"
  then have t: "tx * ts < w" using tile_start assms(1) by auto
  have seg: "segment ca S (ty * ts + i) (tx * ts) (tile_extent w ts tx)
      = segment cb S (ty * ts + i) (tx * ts) (tile_extent w ts tx) \<longleftrightarrow>
      (\<forall>j < tile_extent w ts tx. \<not> pixel_differs ca cb S (ty * ts + i) (tx * ts + j))"
    if i: "i < tile_extent h ts ty" for i
  proof -
    have "ty * ts + i < h" using i by (auto simp: tile_extent_def)
    moreover have "4 * (tx * ts + tile_extent w ts tx) \<le> S"
      using t assms(2) by (auto simp: tile_extent_def)
    ultimately show ?thesis
      using row_in_bounds[of "ty * ts + i" h "4 * (tx * ts + tile_extent w ts tx)" S] assms(3,4)
      by (intro segment_eq_iff) blast+
  qed
  have "list_ex (\<lambda>(y, x). y div ts = ty \<and> x div ts = tx \<and> pixel_differs ca cb S y x)
      (List.product [0..<h] [0..<w]) \<longleftrightarrow>
      (\<exists>y x. (y < h \<and> y div ts = ty) \<and> (x < w \<and> x div ts = tx) \<and> pixel_differs ca cb S y x)"
    unfolding list_ex_product by auto
  also have "\<dots> \<longleftrightarrow> (\<exists>i < tile_extent h ts ty. \<exists>j < tile_extent w ts tx.
      pixel_differs ca cb S (ty * ts + i) (tx * ts + j))"
    unfolding in_tile_iff[OF assms(1)] by blast
  also have "\<dots> \<longleftrightarrow> tile_differs ca cb w h S ts (ty, tx)"
    using seg by (auto simp: tile_differs_def list_ex_iff)
  finally show "list_ex (\<lambda>(y, x). y div ts = ty \<and> x div ts = tx \<and> pixel_differs ca cb S y x)
      (List.product [0..<h] [0..<w]) = tile_differs ca cb w h S ts (ty, tx)" .
qed

section \<open>drmtap_diff_frames\<close>

text \<open>
  C29. drmtap_diff_frames reports exactly the tiles that hold a differing pixel: it returns
  their number, stores the first max_rects of them in row-major order, each as the part of the
  tile inside the frame, and leaves the rest of the caller's array alone - without reading past
  either frame or writing past the array.
\<close>

theorem diff_frames_exact:
  assumes "hp a = Some ca" "hp b = Some cb" "unat height * unat stride \<le> length ca"
      "unat height * unat stride \<le> length cb" "unat height * unat stride \<le> 2 ^ 32"
      "4 * unat width \<le> unat stride"
    and "0 < max_rects" "nat max_rects \<le> length rects" "0 < tile_size" "tile_size \<le> INT_MAX"
      "unat width + nat tile_size \<le> 2 ^ 32" "unat height + nat tile_size \<le> 2 ^ 32"
    and "D = differing_tiles ca cb (unat width) (unat height) (unat stride) (nat tile_size)"
      "int (length D) \<le> INT_MAX"
  shows "drmtap_diff_frames hp (Some a) (Some b) width height stride (Some rects) max_rects tile_size
    = Some (int (length D), Some (patch rects 0
        (map (tile_rect (unat width) (unat height) (nat tile_size)) (take (nat max_rects) D))))"
  using assms(9) by (intro diff_frames_run[OF assms(1-12) _ assms(14)])
    (simp add: assms(13) differing_tiles_eq[OF _ assms(6,3,4)])

theorem diff_frames_exact_witness:
  "drmtap_diff_frames [0 \<mapsto> [1, 2, 3, 4], 1 \<mapsto> [1, 2, 3, 5]] (Some 0) (Some 1) 1 1 4
      (Some [drmtap_rect.make 0 0 0 0]) 1 64
    = Some (int (length [(0 :: nat, 0 :: nat)]), Some (patch [drmtap_rect.make 0 0 0 0] 0
        (map (tile_rect (unat (1 :: u32)) (unat (1 :: u32)) (nat 64)) (take (nat 1) [(0, 0)]))))"
  by (rule diff_frames_exact[where ca = "[1, 2, 3, 4]" and cb = "[1, 2, 3, 5]"]) (simp_all add: INT_MAX_def differing_tiles_def tile_count_def pixel_differs_def)

text \<open>
  drmtap_diff_frames returns 0 exactly for frames that agree on every visible pixel;
  bytes in the padding between rows never make a frame dirty.
\<close>

lemma diff_frames_zero_iff:
  assumes "hp a = Some ca" "hp b = Some cb" "unat height * unat stride \<le> length ca"
      "unat height * unat stride \<le> length cb" "unat height * unat stride \<le> 2 ^ 32"
      "4 * unat width \<le> unat stride"
    and "0 < max_rects" "nat max_rects \<le> length rects" "0 < tile_size" "tile_size \<le> INT_MAX"
      "unat width + nat tile_size \<le> 2 ^ 32" "unat height + nat tile_size \<le> 2 ^ 32"
      "tile_count (unat height) (nat tile_size) * tile_count (unat width) (nat tile_size) \<le> 2147483647"
  shows "map_option fst (drmtap_diff_frames hp (Some a) (Some b) width height stride (Some rects)
      max_rects tile_size) = Some 0 \<longleftrightarrow>
    (\<forall>y < unat height. \<forall>x < unat width. \<not> pixel_differs ca cb (unat stride) y x)"
proof -
  let ?ts = "nat tile_size"
  let ?D = "differing_tiles ca cb (unat width) (unat height) (unat stride) ?ts"
  have ts: "0 < ?ts" using assms(9) by simp
  have D: "?D = dirty_tiles ca cb (unat width) (unat height) (unat stride) ?ts"
    by (rule differing_tiles_eq[OF ts assms(6,3,4)])
  have "length ?D \<le> tile_count (unat height) ?ts * tile_count (unat width) ?ts"
    unfolding differing_tiles_def by (rule order_trans[OF length_filter_le]) simp
  then have "int (length ?D) \<le> INT_MAX" using assms(13) by (simp add: INT_MAX_def)
  from diff_frames_run[OF assms(1-12) D this]
  have "map_option fst (drmtap_diff_frames hp (Some a) (Some b) width height stride (Some rects)
      max_rects tile_size) = Some 0 \<longleftrightarrow> ?D = []" by simp
  also have "\<dots> \<longleftrightarrow> (\<forall>y < unat height. \<forall>x < unat width. \<not> pixel_differs ca cb (unat stride) y x)"
  proof -
    have "n div ?ts < tile_count m ?ts" if "n < m" for n m :: nat
    proof -
      have "n + ?ts \<le> m + ?ts - 1" using that by linarith
      then have "(n + ?ts) div ?ts \<le> (m + ?ts - 1) div ?ts" by (rule div_le_mono)
      moreover have "(n + ?ts) div ?ts = n div ?ts + 1" using ts by (intro div_add_self2) linarith
      ultimately show ?thesis unfolding tile_count_def by linarith
    qed
    then have tile: "y div ?ts < tile_count (unat height) ?ts" "x div ?ts < tile_count (unat width) ?ts"
      if "y < unat height" "x < unat width" for y x using that by auto
    have "(y div ?ts, x div ?ts) \<in> set ?D"
      if "y < unat height" "x < unat width" "pixel_differs ca cb (unat stride) y x" for y x
      unfolding mem_differing_tiles using tile[OF that(1,2)] that by auto
    then have "?D = [] \<Longrightarrow> \<forall>y < unat height. \<forall>x < unat width. \<not> pixel_differs ca cb (unat stride) y x"
      by (metis empty_iff list.set(1))
    moreover have "\<exists>y < unat height. \<exists>x < unat width. pixel_differs ca cb (unat stride) y x" if ne: "?D \<noteq> []"
    proof -
      obtain ty tx where "(ty, tx) \<in> set ?D" using hd_in_set[OF ne] by (metis prod.exhaust)
      then show ?thesis unfolding mem_differing_tiles by blast
    qed
    ultimately show ?thesis by blast
  qed
  finally show ?thesis .
qed

end
