(* ===== verification/EglState.thy ===== *)
theory EglState
  imports Memory
begin

text \<open>
  The state of the GPU detile (src/gpu_egl.c): what the calling thread keeps between frames
  (egl_image_slot_t, egl_hash_t, egl_state_t), the objects alive in the GL driver, and what EGL,
  GL, fstat and the environment variables answer at one moment (glenv). Object names are minted
  fresh and 0 stands for none, so an object used after its deletion is a fault, and one nobody
  deletes stays in gl_live.
\<close>

datatype gl_obj = GlImage nat | GlTexture nat | GlFramebuffer nat | GlProgram nat | GlShader nat | GlContext nat

record egl_image_slot =
  i_owner :: nat
  i_fb_id :: u32
  i_width :: u32
  i_height :: u32
  i_stride :: u32
  i_fourcc :: u32
  i_modifier :: u64
  i_num_planes :: int
  i_offsets :: "u32 list"
  i_pitches :: "u32 list"
  i_buf_inode :: nat
  i_image :: nat
  i_texture :: nat

text \<open>One texel of the hash target (RGBA32UI); a grid that is not allocated is None.\<close>

type_synonym hash_cell = "u32 \<times> u32 \<times> u32 \<times> u32"

record egl_hash =
  h_on :: bool
  h_es3 :: bool
  h_fresh :: bool
  h_prog :: nat
  h_tex :: nat
  h_fbo :: nat
  h_gw :: u32
  h_gh :: u32
  h_cur :: "hash_cell list option"
  h_prev :: "hash_cell list option"
  h_cap :: nat
  h_valid :: bool
  h_owner :: nat
  h_w :: u32
  h_h :: u32
  h_fourcc :: u32
  h_modifier :: u64
  h_out :: "obj option"
  h_gen :: u32

text \<open>The attributes an EGLImage is created from.\<close>

datatype egl_attr = EGL_WIDTH | EGL_HEIGHT | EGL_LINUX_DRM_FOURCC
  | EGL_PLANE_FD nat | EGL_PLANE_OFFSET nat | EGL_PLANE_PITCH nat
  | EGL_PLANE_MODIFIER_LO nat | EGL_PLANE_MODIFIER_HI nat

type_synonym attribs = "(egl_attr \<times> int) list"

text \<open>
  The thread's state, then the driver's: the objects alive, the attributes and the buffer each
  image was created from, the pixels of the linear texture; and the process-wide display table
  (display 0 is EGL_NO_DISPLAY) and proc-loading latch.
\<close>

record egl_state =
  e_display :: nat
  e_device_path :: string
  e_context :: nat
  e_program :: nat
  e_fbo :: nat
  e_linear_texture :: nat
  e_tex_width :: u32
  e_tex_height :: u32
  e_initialized :: bool
  e_slots :: "egl_image_slot list"
  e_next_evict :: u32
  e_cache_disabled :: bool
  e_hash :: egl_hash
  gl_live :: "gl_obj set"
  gl_next :: nat
  gl_faults :: nat
  gl_made :: "nat \<Rightarrow> attribs \<times> nat"
  gl_linear :: "byte list"
  g_displays :: "(string \<times> nat) list"
  g_procs_ok :: int

record egl_device =
  ed_card :: "string option"
  ed_render :: "string option"
  ed_display :: nat

record glenv =
  g_no_egl :: bool
  g_load_procs :: int
  g_device_ext :: bool
  g_devices :: "egl_device list option"
  g_default :: nat
  g_initialize :: "nat \<Rightarrow> bool"
  g_choose_config :: bool
  g_create_context :: "nat \<Rightarrow> bool"
  g_create_shader :: "nat \<Rightarrow> bool"
  g_compile :: "nat \<Rightarrow> bool"
  g_link :: "nat \<Rightarrow> bool"
  g_skip_unchanged :: bool
  g_no_image_cache :: bool
  g_make_current :: bool
  g_inode :: "int \<Rightarrow> nat option"
  g_create_image :: "attribs \<Rightarrow> bool"
  g_bind_image :: bool
  g_render :: "nat \<Rightarrow> u32 \<Rightarrow> u32 \<Rightarrow> bool \<Rightarrow> u32 \<Rightarrow> byte list"
  g_draw_ok :: bool
  g_read_ok :: bool
  g_grid_alloc :: bool
  g_target_ok :: bool
  g_hash_pass_ok :: bool

definition DRMTAP_EGL_IMAGE_SLOTS :: nat where "DRMTAP_EGL_IMAGE_SLOTS = 4"
definition DRMTAP_EGL_DISPLAY_SLOTS :: nat where "DRMTAP_EGL_DISPLAY_SLOTS = 4"

text \<open>\<open>memset(slot, 0, sizeof(*slot))\<close> and \<open>memset(h, 0, sizeof(*h))\<close>\<close>

definition empty_image_slot :: egl_image_slot where
  "empty_image_slot = \<lparr>i_owner = 0, i_fb_id = 0, i_width = 0, i_height = 0, i_stride = 0, i_fourcc = 0,
    i_modifier = 0, i_num_planes = 0, i_offsets = [0, 0, 0, 0], i_pitches = [0, 0, 0, 0], i_buf_inode = 0,
    i_image = 0, i_texture = 0\<rparr>"

definition empty_hash :: egl_hash where
  "empty_hash = \<lparr>h_on = False, h_es3 = False, h_fresh = False, h_prog = 0, h_tex = 0, h_fbo = 0, h_gw = 0, h_gh = 0,
    h_cur = None, h_prev = None, h_cap = 0, h_valid = False, h_owner = 0, h_w = 0, h_h = 0, h_fourcc = 0,
    h_modifier = 0, h_out = None, h_gen = 0\<rparr>"

text \<open>A thread that never converted.\<close>

definition empty_egl :: egl_state where
  "empty_egl = \<lparr>e_display = 0, e_device_path = [], e_context = 0, e_program = 0, e_fbo = 0, e_linear_texture = 0,
    e_tex_width = 0, e_tex_height = 0, e_initialized = False,
    e_slots = replicate DRMTAP_EGL_IMAGE_SLOTS empty_image_slot, e_next_evict = 0, e_cache_disabled = False,
    e_hash = empty_hash, gl_live = {}, gl_next = 1, gl_faults = 0, gl_made = (\<lambda>_. ([], 0)), gl_linear = [],
    g_displays = [], g_procs_ok = - 1\<rparr>"

end
