(* ===== verification/Kernel.thy ===== *)
theory Kernel
  imports EglState
begin

text \<open>
  The operating system the library runs on. The answers of the kernel, libdrm, EGL and malloc
  are the parameter env: functions of a clock (tick, advanced by every query) and of the
  arguments, so they may change from call to call. What the calls do to the process is explicit
  state: world holds the memory, the open file descriptors, the GEM handles, the live mappings,
  the open DMA-BUF CPU-access windows per descriptor, and a count of faults (closing what is not
  open, ending a window that never began, unmapping what is not mapped). Descriptors, handles
  and mappings are minted fresh, so a use after release is a fault and a resource never
  released stays visible in the state.
\<close>

section \<open>Objects of the DRM interface\<close>

record drm_plane =
  pl_id :: u32
  pl_crtc_id :: u32
  pl_fb_id :: u32

text \<open>A property as drmModeGetProperty names it; Inl errno when that call fails.\<close>

record drm_prop =
  pr_id :: u32
  pr_name :: "int + string"
  pr_value :: u64

record drm_mode =
  md_hdisplay :: u16
  md_vdisplay :: u16
  md_htotal :: u16
  md_vtotal :: u16
  md_clock :: u32
  md_vscan :: u16
  md_flags :: u32
  md_vrefresh :: u32
  md_type :: u32

record drm_crtc =
  cr_id :: u32
  cr_mode_valid :: bool
  cr_mode :: drm_mode
  cr_x :: u32
  cr_y :: u32
  cr_buffer_id :: u32

record drm_connector =
  cn_id :: u32
  cn_connection :: u32
  cn_type :: u32
  cn_type_id :: u32
  cn_encoder_id :: u32
  cn_modes :: "drm_mode list"

record drm_res =
  rs_crtcs :: "u32 list"
  rs_connectors :: "u32 list"

record hdr_blob =
  hb_length_ok :: bool
  hb_eotf :: byte
  hb_max_cll :: u16
  hb_max_mastering :: u16

text \<open>
  The mode-setting tables of one device at one moment. A function that walks them reads one
  moment; between functions they may change. \<open>km_connector\<close> is the cached state
  drmModeGetConnectorCurrent reports, \<open>km_connector_probed\<close> what a probing
  drmModeGetConnector finds.
\<close>

record kms =
  km_plane_res :: "u32 list option"
  km_plane :: "u32 \<Rightarrow> drm_plane option"
  km_props :: "u32 \<Rightarrow> int + drm_prop list"
  km_res :: "drm_res option"
  km_crtc :: "u32 \<Rightarrow> int + drm_crtc"
  km_connector :: "u32 \<Rightarrow> drm_connector option"
  km_connector_probed :: "u32 \<Rightarrow> drm_connector option"
  km_encoder_crtc :: "u32 \<Rightarrow> u32 option"
  km_blob :: "u32 \<Rightarrow> hdr_blob option"

text \<open>
  A framebuffer as drmModeGetFB2 describes it. The handles are buffer-object indices, equal
  for planes that share an object and 0 for a plane without one (and for all planes when the
  caller lacks CAP_SYS_ADMIN); the kernel call below turns them into fresh GEM handles.
\<close>

record drm_fb2 =
  fb2_width :: u32
  fb2_height :: u32
  fb2_format :: u32
  fb2_modifier :: u64
  fb2_flag_modifiers :: bool
  fb2_handles :: "nat list"
  fb2_pitches :: "u32 list"
  fb2_offsets :: "u32 list"

text \<open>
  What the peer of a stream socket has put on the wire, in order: a chunk of bytes with the
  descriptors sent along and whether the kernel truncated them, or an interruption, an error,
  an end of file. A socket with nothing left reads as closed. Sends see how much the kernel
  accepts each time.
\<close>

datatype rx_event = Chunk "byte list" "nat" bool | Rx_EINTR | Rx_Err | Rx_EOF
datatype tx_event = Accept nat | Tx_EINTR | Tx_Err

record channel =
  ch_rx :: "rx_event list"
  ch_tx :: "tx_event list"

record env =
  v_kms :: "nat \<Rightarrow> kms"
  v_fb2 :: "nat \<Rightarrow> u32 \<Rightarrow> int + drm_fb2"
  v_prime :: "nat \<Rightarrow> nat \<Rightarrow> int option"
  v_mmap :: "nat \<Rightarrow> int \<Rightarrow> nat \<Rightarrow> nat \<Rightarrow> int + byte list"
  v_map_dumb :: "nat \<Rightarrow> nat \<Rightarrow> nat option"
  v_sync_start :: "nat \<Rightarrow> int \<Rightarrow> bool"
  v_transfer :: "nat \<Rightarrow> nat \<Rightarrow> u32 \<Rightarrow> u32 \<Rightarrow> int"
  v_wait :: "nat \<Rightarrow> nat \<Rightarrow> int"
  v_malloc :: "nat \<Rightarrow> nat \<Rightarrow> byte list option"
  v_calloc_priv :: "nat \<Rightarrow> bool"
  v_cap_atomic :: "nat \<Rightarrow> bool"
  v_gl :: "nat \<Rightarrow> glenv"
  v_access :: "nat \<Rightarrow> string \<Rightarrow> bool"
  v_spawn :: "nat \<Rightarrow> int + int \<times> channel"
  v_fd_size :: "nat \<Rightarrow> int \<Rightarrow> nat option"

section \<open>Process state\<close>

record world =
  tick :: nat
  mem :: heap
  next_obj :: obj
  live_maps :: "obj set"
  live_fds :: "int set"
  next_fd :: int
  live_gems :: "nat set"
  next_gem :: nat
  live_privs :: nat
  windows :: "int \<Rightarrow> nat"
  faults :: nat
  chan :: channel
  sent :: "byte list"

text \<open>What a call owes back to the system: everything but memory contents and the clock.\<close>

definition resources :: "'a world_scheme \<Rightarrow> obj set \<times> int set \<times> nat set \<times> nat \<times> (int \<Rightarrow> nat) \<times> nat" where
  "resources w = (live_maps w, live_fds w, live_gems w, live_privs w, windows w, faults w)"

text \<open>The names still to be minted are not in use.\<close>

definition fresh_ok :: "'a world_scheme \<Rightarrow> bool" where
  "fresh_ok w \<longleftrightarrow> (\<forall>p. next_obj w \<le> p \<longrightarrow> mem w p = None \<and> p \<notin> live_maps w) \<and>
    (\<forall>fd \<in> live_fds w. 0 \<le> fd \<and> fd < next_fd w) \<and> 0 \<le> next_fd w \<and>
    (\<forall>h \<in> live_gems w. h < next_gem w) \<and> 0 < next_gem w \<and>
    (\<forall>fd. next_fd w \<le> fd \<longrightarrow> windows w fd = 0)"

section \<open>System calls\<close>

definition pad :: "nat \<Rightarrow> byte list \<Rightarrow> byte list" where
  "pad n bs = take n (bs @ replicate n 0)"

lemma length_pad [simp]: "length (pad n bs) = n"
  by (simp add: pad_def)

definition step_clock :: "'a world_scheme \<Rightarrow> 'a world_scheme" where
  "step_clock w = w\<lparr>tick := Suc (tick w)\<rparr>"

text \<open>Closing -1 is refused by the kernel (EBADF) and changes nothing.\<close>

definition sys_close :: "int \<Rightarrow> 'a world_scheme \<Rightarrow> 'a world_scheme" where
  "sys_close fd w =
    (if fd \<in> live_fds w then w\<lparr>live_fds := live_fds w - {fd}\<rparr>
     else if fd < 0 then w else w\<lparr>faults := Suc (faults w)\<rparr>)"

definition gem_close :: "nat \<Rightarrow> 'a world_scheme \<Rightarrow> 'a world_scheme" where
  "gem_close h w =
    (if h \<in> live_gems w then w\<lparr>live_gems := live_gems w - {h}\<rparr> else w\<lparr>faults := Suc (faults w)\<rparr>)"

definition sys_mint_fd :: "'a world_scheme \<Rightarrow> int \<times> 'a world_scheme" where
  "sys_mint_fd w = (next_fd w, w\<lparr>live_fds := insert (next_fd w) (live_fds w), next_fd := next_fd w + 1\<rparr>)"

text \<open>\<open>drmModeGetFB2\<close>: mints one handle per distinct buffer object.\<close>

definition mint_handle :: "nat \<Rightarrow> nat \<Rightarrow> nat" where
  "mint_handle base h = (if h = 0 then 0 else base + h)"

definition sys_getfb2 :: "env \<Rightarrow> u32 \<Rightarrow> 'a world_scheme \<Rightarrow> (int + drm_fb2) \<times> 'a world_scheme" where
  "sys_getfb2 env fb_id w =
    (case v_fb2 env (tick w) fb_id of
      Inl e \<Rightarrow> (Inl e, step_clock w)
    | Inr fb \<Rightarrow>
        let hs = map (mint_handle (next_gem w)) (take 4 (fb2_handles fb @ [0, 0, 0, 0])) in
        (Inr (fb\<lparr>fb2_handles := hs, fb2_pitches := take 4 (fb2_pitches fb @ [0, 0, 0, 0]),
              fb2_offsets := take 4 (fb2_offsets fb @ [0, 0, 0, 0])\<rparr>),
         step_clock (w\<lparr>live_gems := live_gems w \<union> {h \<in> set hs. h \<noteq> 0},
           next_gem := Suc (Max (insert (next_gem w) (set hs)))\<rparr>)))"

definition sys_prime :: "env \<Rightarrow> nat \<Rightarrow> 'a world_scheme \<Rightarrow> (int + int) \<times> 'a world_scheme" where
  "sys_prime env h w =
    (case v_prime env (tick w) h of
      Some e \<Rightarrow> (Inl e, step_clock w)
    | None \<Rightarrow> let (fd, w') = sys_mint_fd w in (Inr fd, step_clock w'))"

definition sys_mmap :: "env \<Rightarrow> int \<Rightarrow> nat \<Rightarrow> nat \<Rightarrow> 'a world_scheme \<Rightarrow> (int + obj) \<times> 'a world_scheme" where
  "sys_mmap env fd off n w =
    (case v_mmap env (tick w) fd off n of
      Inl e \<Rightarrow> (Inl e, step_clock w)
    | Inr bs \<Rightarrow> (Inr (next_obj w), step_clock (w\<lparr>mem := (mem w)(next_obj w \<mapsto> pad n bs),
        live_maps := insert (next_obj w) (live_maps w), next_obj := Suc (next_obj w)\<rparr>)))"

definition sys_munmap :: "obj \<Rightarrow> 'a world_scheme \<Rightarrow> 'a world_scheme" where
  "sys_munmap p w =
    (if p \<in> live_maps w then w\<lparr>live_maps := live_maps w - {p}, mem := (mem w)(p := None)\<rparr>
     else w\<lparr>faults := Suc (faults w)\<rparr>)"

definition sys_malloc :: "env \<Rightarrow> nat \<Rightarrow> 'a world_scheme \<Rightarrow> obj option \<times> 'a world_scheme" where
  "sys_malloc env n w =
    (case v_malloc env (tick w) n of
      None \<Rightarrow> (None, step_clock w)
    | Some bs \<Rightarrow> (Some (next_obj w), step_clock (w\<lparr>mem := (mem w)(next_obj w \<mapsto> pad n bs),
        next_obj := Suc (next_obj w)\<rparr>)))"

definition sys_free :: "obj option \<Rightarrow> 'a world_scheme \<Rightarrow> 'a world_scheme" where
  "sys_free p w = (case p of None \<Rightarrow> w | Some q \<Rightarrow>
    (if mem w q \<noteq> None \<and> q \<notin> live_maps w then w\<lparr>mem := (mem w)(q := None)\<rparr>
     else w\<lparr>faults := Suc (faults w)\<rparr>))"

definition calloc_priv :: "env \<Rightarrow> 'a world_scheme \<Rightarrow> bool \<times> 'a world_scheme" where
  "calloc_priv env w =
    (if v_calloc_priv env (tick w) then (True, step_clock (w\<lparr>live_privs := Suc (live_privs w)\<rparr>))
     else (False, step_clock w))"

definition free_priv :: "'a world_scheme \<Rightarrow> 'a world_scheme" where
  "free_priv w = (if live_privs w = 0 then w\<lparr>faults := Suc (faults w)\<rparr>
    else w\<lparr>live_privs := live_privs w - 1\<rparr>)"

text \<open>DMA_BUF_IOCTL_SYNC with START and END: a window opens only when START succeeds.\<close>

definition dmabuf_sync_start :: "env \<Rightarrow> int \<Rightarrow> 'a world_scheme \<Rightarrow> bool \<times> 'a world_scheme" where
  "dmabuf_sync_start env fd w =
    (if v_sync_start env (tick w) fd \<and> fd \<in> live_fds w
     then (True, step_clock (w\<lparr>windows := (windows w)(fd := Suc (windows w fd))\<rparr>))
     else (False, step_clock w))"

definition dmabuf_sync_end :: "int \<Rightarrow> 'a world_scheme \<Rightarrow> 'a world_scheme" where
  "dmabuf_sync_end fd w =
    (if fd \<in> live_fds w \<and> 0 < windows w fd
     then w\<lparr>windows := (windows w)(fd := windows w fd - 1)\<rparr>
     else w\<lparr>faults := Suc (faults w)\<rparr>)"

definition sys_map_dumb :: "env \<Rightarrow> nat \<Rightarrow> 'a world_scheme \<Rightarrow> nat option \<times> 'a world_scheme" where
  "sys_map_dumb env h w = (v_map_dumb env (tick w) h, step_clock w)"

lemmas sys_defs = step_clock_def sys_close_def gem_close_def sys_mint_fd_def sys_prime_def
  sys_mmap_def sys_munmap_def sys_malloc_def sys_free_def calloc_priv_def free_priv_def
  dmabuf_sync_start_def dmabuf_sync_end_def sys_map_dumb_def

section \<open>Freshness is kept\<close>

named_theorems fresh

lemma fresh_step_clock [fresh]: "fresh_ok w \<Longrightarrow> fresh_ok (step_clock w)"
  by (simp add: fresh_ok_def step_clock_def)

lemma fresh_close [fresh]: "fresh_ok w \<Longrightarrow> fresh_ok (sys_close fd w)"
  by (auto simp: fresh_ok_def sys_close_def)

lemma fresh_gem_close [fresh]: "fresh_ok w \<Longrightarrow> fresh_ok (gem_close h w)"
  by (auto simp: fresh_ok_def gem_close_def)

lemma fresh_mint_fd [fresh]: "fresh_ok w \<Longrightarrow> fresh_ok (snd (sys_mint_fd w))"
  by (auto simp: fresh_ok_def sys_mint_fd_def)

lemma fresh_prime [fresh]: "fresh_ok w \<Longrightarrow> fresh_ok (snd (sys_prime env h w))"
  by (auto simp: sys_prime_def sys_mint_fd_def step_clock_def fresh_ok_def split: option.splits)

lemma fresh_getfb2 [fresh]: "fresh_ok w \<Longrightarrow> fresh_ok (snd (sys_getfb2 env fb w))"
proof (cases "v_fb2 env (tick w) fb")
  case (Inr f)
  let ?hs = "set (map (mint_handle (next_gem w)) (take 4 (fb2_handles f @ [0, 0, 0, 0])))"
  assume ok: "fresh_ok w"
  have "h < Suc (Max (insert (next_gem w) ?hs))" if "h \<in> ?hs \<or> h \<le> next_gem w" for h
  proof -
    have "next_gem w \<le> Max (insert (next_gem w) ?hs)" by (rule Max_ge) simp_all
    moreover have "h \<in> ?hs \<Longrightarrow> h \<le> Max (insert (next_gem w) ?hs)"
      by (rule Max_ge) (simp_all del: set_map)
    ultimately show ?thesis using that by linarith
  qed
  then show ?thesis using ok Inr
    by (auto simp: fresh_ok_def sys_getfb2_def step_clock_def Let_def dest: less_imp_le)
qed (auto simp: sys_getfb2_def intro: fresh)

lemma fresh_mmap [fresh]: "fresh_ok w \<Longrightarrow> fresh_ok (snd (sys_mmap env fd off n w))"
  by (auto simp: sys_mmap_def step_clock_def fresh_ok_def split: sum.splits)

lemma fresh_munmap [fresh]: "fresh_ok w \<Longrightarrow> fresh_ok (sys_munmap p w)"
  by (auto simp: sys_munmap_def fresh_ok_def)

lemma fresh_malloc [fresh]: "fresh_ok w \<Longrightarrow> fresh_ok (snd (sys_malloc env n w))"
  by (auto simp: sys_malloc_def step_clock_def fresh_ok_def split: option.splits)

lemma fresh_free [fresh]: "fresh_ok w \<Longrightarrow> fresh_ok (sys_free p w)"
  by (auto simp: sys_free_def fresh_ok_def split: option.splits)

lemma fresh_calloc [fresh]: "fresh_ok w \<Longrightarrow> fresh_ok (snd (calloc_priv env w))"
  by (auto simp: calloc_priv_def step_clock_def fresh_ok_def)

lemma fresh_free_priv [fresh]: "fresh_ok w \<Longrightarrow> fresh_ok (free_priv w)"
  by (auto simp: free_priv_def fresh_ok_def)

lemma fresh_sync_start [fresh]: "fresh_ok w \<Longrightarrow> fresh_ok (snd (dmabuf_sync_start env fd w))"
  by (auto simp: dmabuf_sync_start_def step_clock_def fresh_ok_def)

lemma fresh_sync_end [fresh]: "fresh_ok w \<Longrightarrow> fresh_ok (dmabuf_sync_end fd w)"
  by (auto simp: dmabuf_sync_end_def fresh_ok_def)

end
