(* ===== verification/Wire.thy ===== *)
theory Wire
  imports Kernel
begin

text \<open>
  The helper protocol (src/wire.h): the fixed-size frames in native byte order, their
  validation, and the four transfer primitives. A socket is the list of events its peer and the
  kernel produce (Kernel.thy), so short reads, interruptions and truncated control messages are
  all inputs; the loops terminate because every iteration consumes an event or bytes.
\<close>

section \<open>Command frames\<close>

definition HELPER_PROTO_MAGIC :: u32 where "HELPER_PROTO_MAGIC = 0x544D5244"
definition HELPER_PROTO_VERSION :: u16 where "HELPER_PROTO_VERSION = 1"
definition CMD_GRAB :: u16 where "CMD_GRAB = 0x01"
definition CMD_GET_CURSOR :: u16 where "CMD_GET_CURSOR = 0x02"
definition CMD_GET_CURSOR2 :: u16 where "CMD_GET_CURSOR2 = 0x03"
definition CMD_QUIT :: u16 where "CMD_QUIT = 0xFF"

lemmas cmd_defs = HELPER_PROTO_MAGIC_def HELPER_PROTO_VERSION_def CMD_GRAB_def CMD_GET_CURSOR_def
  CMD_GET_CURSOR2_def CMD_QUIT_def

record helper_cmd_grab =
  cmd_magic :: u32
  cmd_version :: u16
  cmd_type :: u16
  cmd_length :: u32
  cmd_crtc_id :: u32

definition wire_cmd :: "u16 \<Rightarrow> u32 \<Rightarrow> helper_cmd_grab" where
  "wire_cmd type crtc_id = \<lparr>cmd_magic = HELPER_PROTO_MAGIC, cmd_version = HELPER_PROTO_VERSION,
    cmd_type = type, cmd_length = 16, cmd_crtc_id = crtc_id\<rparr>"

definition wire_cmd_valid :: "helper_cmd_grab \<Rightarrow> bool" where
  "wire_cmd_valid c \<longleftrightarrow> cmd_magic c = HELPER_PROTO_MAGIC \<and> cmd_version c = HELPER_PROTO_VERSION \<and>
    cmd_length c = 16 \<and>
    (cmd_type c = CMD_GRAB \<or> cmd_type c = CMD_GET_CURSOR \<or> cmd_type c = CMD_GET_CURSOR2 \<or>
     cmd_type c = CMD_QUIT)"

text \<open>The memory image of the struct, which is what goes over the socket.\<close>

definition bytes16 :: "u16 \<Rightarrow> byte list" where
  "bytes16 w = [ucast w, ucast (drop_bit 8 w)]"

definition encode_cmd :: "helper_cmd_grab \<Rightarrow> byte list" where
  "encode_cmd c = bytes32 (cmd_magic c) @ bytes16 (cmd_version c) @ bytes16 (cmd_type c)
    @ bytes32 (cmd_length c) @ bytes32 (cmd_crtc_id c)"

definition decode_cmd :: "byte list \<Rightarrow> helper_cmd_grab" where
  "decode_cmd bs = \<lparr>cmd_magic = le32 (take 4 bs), cmd_version = le16 (take 2 (drop 4 bs)),
    cmd_type = le16 (take 2 (drop 6 bs)), cmd_length = le32 (take 4 (drop 8 bs)),
    cmd_crtc_id = le32 (take 4 (drop 12 bs))\<rparr>"

section \<open>Reply frames\<close>

record helper_grab_wire =
  gw_width :: u32
  gw_height :: u32
  gw_stride :: u32
  gw_format :: u32
  gw_fb_id :: u32
  gw_data_size :: u32
  gw_modifier :: u64
  gw_seq :: u32
  gw_timestamp_ms :: u64
  gw_flags :: u32
  gw_hdr_eotf :: u32
  gw_hdr_max_nits :: u32

definition HELPER_FLAG_HAS_DMABUF :: u32 where "HELPER_FLAG_HAS_DMABUF = 0x01"
definition HELPER_FLAG_VIRGL :: u32 where "HELPER_FLAG_VIRGL = 0x02"

definition bytes64 :: "u64 \<Rightarrow> byte list" where
  "bytes64 w = bytes32 (ucast w) @ bytes32 (ucast (drop_bit 32 w))"

definition le64 :: "byte list \<Rightarrow> u64" where
  "le64 bs = ucast (le32 (take 4 bs)) OR push_bit 32 (ucast (le32 (drop 4 bs)))"

text \<open>64 bytes on LP64: four bytes of padding before the timestamp and four at the end.\<close>

definition encode_grab :: "helper_grab_wire \<Rightarrow> byte list" where
  "encode_grab g = bytes32 (gw_width g) @ bytes32 (gw_height g) @ bytes32 (gw_stride g)
    @ bytes32 (gw_format g) @ bytes32 (gw_fb_id g) @ bytes32 (gw_data_size g)
    @ bytes64 (gw_modifier g) @ bytes32 (gw_seq g) @ replicate 4 0 @ bytes64 (gw_timestamp_ms g)
    @ bytes32 (gw_flags g) @ bytes32 (gw_hdr_eotf g) @ bytes32 (gw_hdr_max_nits g) @ replicate 4 0"

definition word_at :: "byte list \<Rightarrow> nat \<Rightarrow> u32" where
  "word_at bs off = le32 (take 4 (drop off bs))"

definition decode_grab :: "byte list \<Rightarrow> helper_grab_wire" where
  "decode_grab bs = \<lparr>gw_width = word_at bs 0, gw_height = word_at bs 4, gw_stride = word_at bs 8,
    gw_format = word_at bs 12, gw_fb_id = word_at bs 16, gw_data_size = word_at bs 20,
    gw_modifier = le64 (take 8 (drop 24 bs)), gw_seq = word_at bs 32,
    gw_timestamp_ms = le64 (take 8 (drop 40 bs)), gw_flags = word_at bs 48,
    gw_hdr_eotf = word_at bs 52, gw_hdr_max_nits = word_at bs 56\<rparr>"

record helper_cursor_wire =
  cw_x :: u32
  cw_y :: u32
  cw_hot_x :: u32
  cw_hot_y :: u32
  cw_width :: u32
  cw_height :: u32
  cw_visible :: u32
  cw_data_size :: u32
  cw_hot_from_property :: u32

text \<open>
  The frozen 32-byte reply is the first eight words; the CMD_GET_CURSOR2 reply appends the
  provenance word. The client reads either into one zeroed struct.
\<close>

definition encode_cursor :: "helper_cursor_wire \<Rightarrow> byte list" where
  "encode_cursor c = bytes32 (cw_x c) @ bytes32 (cw_y c) @ bytes32 (cw_hot_x c) @ bytes32 (cw_hot_y c)
    @ bytes32 (cw_width c) @ bytes32 (cw_height c) @ bytes32 (cw_visible c) @ bytes32 (cw_data_size c)"

definition encode_cursor2 :: "helper_cursor_wire \<Rightarrow> byte list" where
  "encode_cursor2 c = encode_cursor c @ bytes32 (cw_hot_from_property c)"

definition decode_cursor :: "byte list \<Rightarrow> helper_cursor_wire" where
  "decode_cursor bs0 = (let bs = pad 36 bs0 in
    \<lparr>cw_x = word_at bs 0, cw_y = word_at bs 4, cw_hot_x = word_at bs 8, cw_hot_y = word_at bs 12,
     cw_width = word_at bs 16, cw_height = word_at bs 20, cw_visible = word_at bs 24,
     cw_data_size = word_at bs 28, cw_hot_from_property = word_at bs 32\<rparr>)"

definition wire_hot_measured :: "bool \<Rightarrow> bool \<Rightarrow> u32" where
  "wire_hot_measured have_hot_x have_hot_y = (if have_hot_x \<and> have_hot_y then 1 else 0)"

section \<open>The socket\<close>

datatype recv_result = Got "byte list" | Recv_EINTR | Recv_Err

text \<open>
  One recv of at most n bytes. A chunk left partly unread stays, without its descriptors: the
  kernel delivers those with the first byte only.
\<close>

fun sock_recv :: "nat \<Rightarrow> rx_event list \<Rightarrow> recv_result \<times> rx_event list" where
  "sock_recv n [] = (Got [], [])"
| "sock_recv n (Rx_EOF # es) = (Got [], Rx_EOF # es)"
| "sock_recv n (Rx_EINTR # es) = (Recv_EINTR, es)"
| "sock_recv n (Rx_Err # es) = (Recv_Err, es)"
| "sock_recv n (Chunk bs fds trunc # es) =
    (if bs = [] then sock_recv n es
     else (Got (take n bs), if length bs \<le> n then es else Chunk (drop n bs) 0 False # es))"

text \<open>One send: how many of the n bytes offered the kernel takes; an idle socket takes all.\<close>

datatype send_result = Took nat | Send_EINTR | Send_Err

fun sock_send :: "nat \<Rightarrow> tx_event list \<Rightarrow> send_result \<times> tx_event list" where
  "sock_send n [] = (Took n, [])"
| "sock_send n (Accept k # es) = (Took (min k n), es)"
| "sock_send n (Tx_EINTR # es) = (Send_EINTR, es)"
| "sock_send n (Tx_Err # es) = (Send_Err, es)"

lemma sock_recv_length: "length (snd (sock_recv n es)) \<le> length es"
  by (induction n es rule: sock_recv.induct) auto

lemma sock_recv_EINTR: "sock_recv n es = (Recv_EINTR, es') \<Longrightarrow> length es' < length es"
  by (induction n es rule: sock_recv.induct) (auto split: if_splits)

lemma sock_recv_Got_length: "sock_recv n es = (Got bs, es') \<Longrightarrow> length bs \<le> n"
  by (induction n es rule: sock_recv.induct) (auto split: if_splits)

section \<open>Exact transfers\<close>

function wire_recv_loop :: "nat \<Rightarrow> byte list \<Rightarrow> rx_event list \<Rightarrow> byte list option \<times> rx_event list" where
  "wire_recv_loop need got rx =
    (if need = 0 then (Some got, rx)
     else (case sock_recv need rx of
       (Recv_EINTR, rx') \<Rightarrow> wire_recv_loop need got rx'
     | (Recv_Err, rx') \<Rightarrow> (None, rx')
     | (Got bs, rx') \<Rightarrow> if bs = [] then (None, rx')
         else wire_recv_loop (need - length bs) (got @ bs) rx'))"
  by pat_completeness auto
termination
proof (relation "measure (\<lambda>(need, got, rx). need + length rx)", goal_cases)
  case (2 need got rx x y bs)
  then have "0 < need" "0 < length bs" "length y \<le> length rx"
    using sock_recv_length[of need rx] by (simp, simp, metis snd_conv)
  then have "need - length bs + length y < need + length rx" by linarith
  then show ?case by simp
next
  case (3 need got rx x y)
  then show ?case using sock_recv_EINTR[of need rx y] by simp
qed simp

declare wire_recv_loop.simps [simp del]

definition wire_recv_all :: "nat \<Rightarrow> rx_event list \<Rightarrow> byte list option \<times> rx_event list" where
  "wire_recv_all len rx = wire_recv_loop len [] rx"

text \<open>The bytes a socket will deliver before its first error or end of file.\<close>

fun stream :: "rx_event list \<Rightarrow> byte list" where
  "stream [] = []"
| "stream (Chunk bs fds trunc # es) = bs @ stream es"
| "stream (Rx_EINTR # es) = stream es"
| "stream (Rx_Err # es) = []"
| "stream (Rx_EOF # es) = []"

lemma sock_recv_stream:
  assumes "0 < n"
  shows "case sock_recv n es of
      (Got bs, es') \<Rightarrow> if bs = [] then stream es = [] else stream es = bs @ stream es' \<and> length bs \<le> n
    | (Recv_EINTR, es') \<Rightarrow> stream es = stream es'
    | (Recv_Err, es') \<Rightarrow> stream es = []"
  using assms
  by (induction n es rule: sock_recv.induct) (auto split: prod.splits recv_result.splits)

lemma recv_loop_exact:
  "(if need \<le> length (stream rx)
    then fst (wire_recv_loop need got rx) = Some (got @ take need (stream rx)) \<and>
      stream (snd (wire_recv_loop need got rx)) = drop need (stream rx)
    else fst (wire_recv_loop need got rx) = None)"
proof (induction need got rx rule: wire_recv_loop.induct)
  case (1 need got rx)
  show ?case
  proof (cases "need = 0")
    case True
    then show ?thesis by (simp add: wire_recv_loop.simps)
  next
    case False
    obtain r rx' where r: "sock_recv need rx = (r, rx')" by fastforce
    note s = sock_recv_stream[of need rx, unfolded r]
    note step = wire_recv_loop.simps[of need got rx, unfolded r]
    show ?thesis
    proof (cases r)
      case (Got bs)
      show ?thesis
      proof (cases "bs = []")
        case True
        then show ?thesis using s step Got False by simp
      next
        case ne: False
        have st: "stream rx = bs @ stream rx'" "length bs \<le> need"
          using s Got ne False by auto
        show ?thesis
          using "1"(1)[OF False r[symmetric] Got ne] st step Got ne False
          by (auto split: if_splits)
      qed
    next
      case Recv_EINTR
      then show ?thesis using "1"(2)[OF False r[symmetric] Recv_EINTR] s step Recv_EINTR False by simp
    next
      case Recv_Err
      then show ?thesis using s step Recv_Err False by simp
    qed
  qed
qed

lemma recv_all_exact:
  "(if len \<le> length (stream rx)
    then fst (wire_recv_all len rx) = Some (take len (stream rx)) \<and>
      stream (snd (wire_recv_all len rx)) = drop len (stream rx)
    else fst (wire_recv_all len rx) = None)"
  using recv_loop_exact[of len rx "[]"] by (simp add: wire_recv_all_def)

text \<open>
  The sender: \<open>out\<close> collects what reached the peer. The loop is structural on the events,
  and an idle socket takes the rest at once.
\<close>

fun wire_send_loop :: "byte list \<Rightarrow> byte list \<Rightarrow> tx_event list \<Rightarrow> bool \<times> byte list \<times> tx_event list" where
  "wire_send_loop bs out tx =
    (if bs = [] then (True, out, tx)
     else (case tx of
       [] \<Rightarrow> (True, out @ bs, [])
     | e # es \<Rightarrow> (case fst (sock_send (length bs) [e]) of
         Send_EINTR \<Rightarrow> wire_send_loop bs out es
       | Send_Err \<Rightarrow> (False, out, es)
       | Took n \<Rightarrow> if n = 0 then (False, out, es)
           else wire_send_loop (drop n bs) (out @ take n bs) es)))"

declare wire_send_loop.simps [simp del]

lemma wire_send_done: "wire_send_loop [] out tx = (True, out, tx)"
  by (simp add: wire_send_loop.simps)

lemma wire_send_idle: "wire_send_loop bs out [] = (True, out @ bs, [])"
  by (simp add: wire_send_loop.simps)

definition wire_send_all :: "byte list \<Rightarrow> tx_event list \<Rightarrow> bool \<times> byte list \<times> tx_event list" where
  "wire_send_all bs tx = wire_send_loop bs [] tx"

lemma send_loop_exact:
  "wire_send_loop bs out tx = (ok, out', tx') \<Longrightarrow>
    (if ok then out' = out @ bs else \<exists>n < length bs. out' = out @ take n bs)"
proof (induction bs out tx rule: wire_send_loop.induct)
  case (1 bs out tx)
  show ?case
  proof (cases "bs = [] \<or> tx = []")
    case True
    then have "wire_send_loop bs out tx = (True, out @ bs, tx)"
      by (auto simp: wire_send_done wire_send_idle)
    then show ?thesis using "1.prems" by simp
  next
    case False
    then obtain e es where tx: "tx = e # es" and bs: "bs \<noteq> []" by (cases tx) auto
    show ?thesis
    proof (cases "fst (sock_send (length bs) [e])")
      case Send_EINTR
      then show ?thesis
        using "1.prems" "1.IH"(2)[OF bs tx Send_EINTR] tx bs by (simp add: wire_send_loop.simps[of bs out "e # es"])
    next
      case Send_Err
      then have "ok = False \<and> out' = out @ take 0 bs"
        using "1.prems" tx bs by (simp add: wire_send_loop.simps[of bs out "e # es"])
      then show ?thesis using bs by (intro iffD2[OF if_bool_eq_disj] disjI2 conjI exI[of _ 0]) auto
    next
      case (Took n)
      show ?thesis
      proof (cases "n = 0")
        case True
        then have "ok = False \<and> out' = out @ take 0 bs"
          using "1.prems" tx bs Took by (simp add: wire_send_loop.simps[of bs out "e # es"])
        then show ?thesis using bs by (intro iffD2[OF if_bool_eq_disj] disjI2 conjI exI[of _ 0]) auto
      next
        case n: False
        have le: "n \<le> length bs" using Took by (cases e) auto
        have run: "wire_send_loop (drop n bs) (out @ take n bs) es = (ok, out', tx')"
          using "1.prems" tx bs Took n by (simp add: wire_send_loop.simps[of bs out "e # es"])
        have "\<exists>m < length bs. out' = out @ take m bs"
          if "k < length (drop n bs)" "out' = (out @ take n bs) @ take k (drop n bs)" for k
          using that le by (intro exI[of _ "n + k"]) (simp add: take_add)
        then show ?thesis using "1.IH"(1)[OF bs tx Took n run] by (auto split: if_splits)
      qed
    qed
  qed
qed

section \<open>Descriptors\<close>

text \<open>
  \<open>wire_send_fd\<close>: sendmsg is retried on EINTR; the descriptor travels with the first byte, and
  metadata the kernel did not take is finished by \<open>wire_send_all\<close>. The result tells whether
  the call succeeded, what reached the peer and whether the descriptor did.
\<close>

fun wire_send_fd :: "byte list \<Rightarrow> tx_event list \<Rightarrow> bool \<times> byte list \<times> bool \<times> tx_event list" where
  "wire_send_fd meta [] = (True, meta, True, [])"
| "wire_send_fd meta (Tx_EINTR # es) = wire_send_fd meta es"
| "wire_send_fd meta (Tx_Err # es) = (False, [], False, es)"
| "wire_send_fd meta (Accept k # es) =
    (let n = min k (length meta) in
     if n < length meta then
       (case wire_send_all (drop n meta) es of (ok, out, es') \<Rightarrow> (ok, take n meta @ out, 0 < n, es'))
     else (True, meta, True, es))"

fun sock_recvmsg :: "nat \<Rightarrow> rx_event list \<Rightarrow> (byte list \<times> nat \<times> bool) option \<times> rx_event list" where
  "sock_recvmsg n [] = (None, [])"
| "sock_recvmsg n (Rx_EOF # es) = (None, Rx_EOF # es)"
| "sock_recvmsg n (Rx_EINTR # es) = (None, es)"
| "sock_recvmsg n (Rx_Err # es) = (None, es)"
| "sock_recvmsg n (Chunk bs fds trunc # es) =
    (if bs = [] then sock_recvmsg n es
     else (Some (take n bs, fds, trunc),
           if length bs \<le> n then es else Chunk (drop n bs) 0 False # es))"

definition set_rx :: "rx_event list \<Rightarrow> 'a world_scheme \<Rightarrow> 'a world_scheme" where
  "set_rx rx w = w\<lparr>chan := (chan w)\<lparr>ch_rx := rx\<rparr>\<rparr>"

text \<open>The kernel installs the received descriptors before recvmsg returns.\<close>

definition fresh_fds :: "nat \<Rightarrow> 'a world_scheme \<Rightarrow> int list" where
  "fresh_fds k w = map (\<lambda>i. next_fd w + int i) [0..<k]"

definition mint_fds :: "nat \<Rightarrow> 'a world_scheme \<Rightarrow> int list \<times> 'a world_scheme" where
  "mint_fds k w = (fresh_fds k w,
    w\<lparr>live_fds := live_fds w \<union> set (fresh_fds k w), next_fd := next_fd w + int k\<rparr>)"

definition wire_recv_fd :: "nat \<Rightarrow> 'a world_scheme \<Rightarrow> (byte list option \<times> int) \<times> 'a world_scheme" where
  "wire_recv_fd meta_len w =
    (case sock_recvmsg meta_len (ch_rx (chan w)) of
      (None, rx) \<Rightarrow> ((None, -1), set_rx rx w)
    | (Some (bs, nfds, trunc), rx) \<Rightarrow>
        (case mint_fds nfds (set_rx rx w) of (fds, w1) \<Rightarrow>
          let accepted = (if fds = [] then -1 else hd fds);
              w2 = fold sys_close (tl fds) w1 in
          if trunc \<or> 1 < nfds then
            ((None, -1), if 0 \<le> accepted then sys_close accepted w2 else w2)
          else if length bs < meta_len then
            (case wire_recv_all (meta_len - length bs) (ch_rx (chan w2)) of
              (None, rx') \<Rightarrow> ((None, -1), sys_close accepted (set_rx rx' w2))
            | (Some rest, rx') \<Rightarrow> ((Some (bs @ rest), accepted), set_rx rx' w2))
          else ((Some bs, accepted), w2)))"

lemma resources_set_rx [simp]: "resources (set_rx rx w) = resources w"
  by (simp add: resources_def set_rx_def)

lemma fresh_set_rx [simp]: "fresh_ok (set_rx rx w) = fresh_ok w"
  by (simp add: fresh_ok_def set_rx_def)

lemma sock_recvmsg_length: "sock_recvmsg n es = (Some (bs, k, t), es') \<Longrightarrow> length bs \<le> n"
  by (induction n es rule: sock_recvmsg.induct) (auto split: if_splits)

lemma recv_all_length: "wire_recv_all n rx = (Some bs, rx') \<Longrightarrow> length bs = n"
  using recv_all_exact[of n rx] by (auto split: if_splits)

lemma fresh_fds_props:
  assumes "fresh_ok w"
  shows "length (fresh_fds k w) = k" "distinct (fresh_fds k w)"
    "set (fresh_fds k w) \<inter> live_fds w = {}" "fd \<in> set (fresh_fds k w) \<Longrightarrow> 0 \<le> fd"
proof -
  show "length (fresh_fds k w) = k" "distinct (fresh_fds k w)"
    by (simp_all add: fresh_fds_def distinct_map inj_on_def)
  have ge: "fd \<in> set (fresh_fds k w) \<Longrightarrow> next_fd w \<le> fd" for fd by (auto simp: fresh_fds_def)
  have lt: "fd \<in> live_fds w \<Longrightarrow> fd < next_fd w" "0 \<le> next_fd w" for fd
    using assms unfolding fresh_ok_def by blast+
  show "set (fresh_fds k w) \<inter> live_fds w = {}" using ge lt(1) by fastforce
  show "fd \<in> set (fresh_fds k w) \<Longrightarrow> 0 \<le> fd" using ge lt(2) by force
qed

lemma fold_close:
  "distinct fds \<Longrightarrow> set fds \<subseteq> live_fds w \<Longrightarrow> fold sys_close fds w = w\<lparr>live_fds := live_fds w - set fds\<rparr>"
proof (induction fds arbitrary: w)
  case (Cons fd fds)
  let ?w1 = "w\<lparr>live_fds := live_fds w - {fd}\<rparr>"
  have "sys_close fd w = ?w1" using Cons.prems(2) by (simp add: sys_close_def)
  then have "fold sys_close (fd # fds) w = fold sys_close fds ?w1" by simp
  also have "\<dots> = ?w1\<lparr>live_fds := live_fds ?w1 - set fds\<rparr>"
  proof (rule Cons.IH)
    show "distinct fds" using Cons.prems(1) by simp
    have "set fds \<subseteq> live_fds w - {fd}" using Cons.prems by auto
    then show "set fds \<subseteq> live_fds ?w1" by simp
  qed
  also have "\<dots> = w\<lparr>live_fds := live_fds w - {fd} - set fds\<rparr>" by simp
  also have "live_fds w - {fd} - set fds = live_fds w - set (fd # fds)" by auto
  finally show ?case .
qed simp

text \<open>
  The descriptor contract of a receive: on failure nothing is held; on success the metadata is
  complete and exactly the descriptor reported is held.
\<close>

definition recv_fd_ok :: "'a world_scheme \<Rightarrow> nat \<Rightarrow> (byte list option \<times> int) \<times> 'a world_scheme \<Rightarrow> bool" where
  "recv_fd_ok w n res = (case res of ((r, fd), w') \<Rightarrow>
    live_maps w' = live_maps w \<and> live_gems w' = live_gems w \<and> live_privs w' = live_privs w \<and>
    windows w' = windows w \<and> faults w' = faults w \<and> fresh_ok w' \<and>
    (case r of None \<Rightarrow> fd = -1 \<and> live_fds w' = live_fds w
     | Some bs \<Rightarrow> length bs = n \<and>
         (fd = -1 \<and> live_fds w' = live_fds w \<or>
          0 \<le> fd \<and> fd \<notin> live_fds w \<and> live_fds w' = insert fd (live_fds w))))"

text \<open>After the extra descriptors are closed, only the first one received is held.\<close>

definition kept_fds :: "nat \<Rightarrow> 'a world_scheme \<Rightarrow> int set" where
  "kept_fds k w = (if k = 0 then {} else {next_fd w})"

lemma close_extra_fds:
  assumes "fresh_ok w"
  shows "fold sys_close (tl (fresh_fds k w)) (snd (mint_fds k w))
    = w\<lparr>live_fds := live_fds w \<union> kept_fds k w, next_fd := next_fd w + int k\<rparr>"
proof -
  let ?fds = "fresh_fds k w"
  have hd: "?fds = (if k = 0 then [] else next_fd w # tl ?fds)"
    by (simp add: fresh_fds_def upt_conv_Cons)
  have nt: "next_fd w \<notin> set (tl ?fds)" using fresh_fds_props(2)[OF assms, of k] hd
    by (metis distinct.simps(2) list.sel(2) list.set(1) empty_iff)
  have disj: "set (tl ?fds) \<inter> live_fds w = {}"
    using fresh_fds_props(3)[OF assms, of k] by (cases "?fds") auto
  have "set ?fds = kept_fds k w \<union> set (tl ?fds)"
    by (subst hd) (simp add: kept_fds_def fresh_fds_def)
  then have "(live_fds w \<union> set ?fds) - set (tl ?fds) = live_fds w \<union> kept_fds k w"
    using nt disj by (auto simp: kept_fds_def split: if_splits)
  moreover have "set (tl ?fds) \<subseteq> live_fds (snd (mint_fds k w))"
    by (cases "?fds") (auto simp: mint_fds_def)
  ultimately show ?thesis
    using fold_close[OF distinct_tl[OF fresh_fds_props(2)[OF assms]], of k "snd (mint_fds k w)"]
    by (simp add: mint_fds_def)
qed

lemma accepted_fd: "(if fresh_fds k w = [] then -1 else hd (fresh_fds k w)) = (if k = 0 then -1 else next_fd w)"
  by (simp add: fresh_fds_def upt_conv_Cons)

lemma mint_fds_pair: "mint_fds k w = (fresh_fds k w, snd (mint_fds k w))"
  by (simp add: mint_fds_def)

lemma wire_recv_fd_ok:
  assumes "fresh_ok w"
  shows "recv_fd_ok w n (wire_recv_fd n w)"
proof (cases "sock_recvmsg n (ch_rx (chan w))")
  case (Pair r rx)
  show ?thesis
  proof (cases r)
    case None
    then show ?thesis using assms Pair
      by (simp add: wire_recv_fd_def recv_fd_ok_def set_rx_def fresh_ok_def)
  next
    case (Some m)
    obtain bs k trunc where m: "m = (bs, k, trunc)" by (cases m) auto
    define w0 where "w0 = set_rx rx w"
    have w0: "fresh_ok w0" using assms by (simp add: w0_def)
    define w2 where "w2 = w0\<lparr>live_fds := live_fds w0 \<union> kept_fds k w0, next_fd := next_fd w0 + int k\<rparr>"
    have fw2: "fresh_ok w2" using w0 by (auto simp: w2_def fresh_ok_def kept_fds_def)
    have run: "wire_recv_fd n w = (
        let accepted = (if k = 0 then -1 else next_fd w0) in
        if trunc \<or> 1 < k then ((None, -1), if 0 \<le> accepted then sys_close accepted w2 else w2)
        else if length bs < n then
          (case wire_recv_all (n - length bs) (ch_rx (chan w2)) of
            (None, rx') \<Rightarrow> ((None, -1), sys_close accepted (set_rx rx' w2))
          | (Some rest, rx') \<Rightarrow> ((Some (bs @ rest), accepted), set_rx rx' w2))
        else ((Some bs, accepted), w2))"
      unfolding wire_recv_fd_def Pair Some m prod.case option.case w0_def[symmetric]
      by (subst mint_fds_pair)
        (simp only: prod.case Let_def close_extra_fds[OF w0] accepted_fd w2_def[symmetric])
    have len: "length bs \<le> n" using sock_recvmsg_length[of n] Pair Some m by simp
    have nf: "0 \<le> next_fd w0" "next_fd w0 \<notin> live_fds w0" using w0 by (auto simp: fresh_ok_def)
    have same: "live_fds w0 = live_fds w" "live_maps w0 = live_maps w" "live_gems w0 = live_gems w"
      "live_privs w0 = live_privs w" "windows w0 = windows w" "faults w0 = faults w"
      by (simp_all add: w0_def set_rx_def)
    have w2: "live_fds w2 = live_fds w \<union> kept_fds k w0" "live_maps w2 = live_maps w"
      "live_gems w2 = live_gems w" "live_privs w2 = live_privs w" "windows w2 = windows w"
      "faults w2 = faults w"
      by (simp_all add: w2_def same)
    have neg: "fd < 0 \<Longrightarrow> fd \<notin> live_fds w" for fd using assms by (auto simp: fresh_ok_def)
    have closed: "recv_fd_ok w n ((None, -1), sys_close (if k = 0 then -1 else next_fd w0) (set_rx rx' w2))"
      for rx'
      using w2 nf same fw2 neg[of "-1"]
      by (cases "k = 0") (simp_all add: recv_fd_ok_def sys_close_def set_rx_def kept_fds_def fresh_ok_def)
    have kept: "recv_fd_ok w n ((Some bs', if k = 0 then -1 else next_fd w0), set_rx rx' w2)"
      if "length bs' = n" for bs' rx'
      using w2 nf same fw2 that
      by (cases "k = 0") (simp_all add: recv_fd_ok_def set_rx_def kept_fds_def fresh_ok_def)
    consider (bad) "trunc \<or> 1 < k" | (short) "\<not> (trunc \<or> 1 < k)" "length bs < n"
      | (full) "\<not> (trunc \<or> 1 < k)" "\<not> length bs < n" by blast
    then show ?thesis
    proof cases
      case bad
      have "set_rx (ch_rx (chan w2)) w2 = w2" by (simp add: set_rx_def)
      then have "wire_recv_fd n w = ((None, -1), sys_close (if k = 0 then -1 else next_fd w0) (set_rx (ch_rx (chan w2)) w2))"
        using bad nf neg[of "-1"] w2 unfolding run Let_def if_P[OF bad]
        by (simp add: sys_close_def kept_fds_def)
      then show ?thesis using closed by simp
    next
      case short
      obtain res rx' where res: "wire_recv_all (n - length bs) (ch_rx (chan w2)) = (res, rx')" by fastforce
      show ?thesis
      proof (cases res)
        case None
        then have "wire_recv_fd n w = ((None, -1), sys_close (if k = 0 then -1 else next_fd w0) (set_rx rx' w2))"
          unfolding run Let_def if_not_P[OF short(1)] if_P[OF short(2)] res by simp
        then show ?thesis using closed by simp
      next
        case (Some rest)
        have "length rest = n - length bs" using recv_all_length res Some by blast
        then have "length (bs @ rest) = n" using short(2) by simp
        moreover have "wire_recv_fd n w = ((Some (bs @ rest), if k = 0 then -1 else next_fd w0), set_rx rx' w2)"
          unfolding run Let_def if_not_P[OF short(1)] if_P[OF short(2)] res Some by simp
        ultimately show ?thesis using kept by simp
      qed
    next
      case full
      have same_rx: "set_rx (ch_rx (chan w2)) w2 = w2" by (simp add: set_rx_def)
      have "wire_recv_fd n w = ((Some bs, if k = 0 then -1 else next_fd w0), set_rx (ch_rx (chan w2)) w2)"
        unfolding run Let_def if_not_P[OF full(1)] if_not_P[OF full(2)] same_rx by (rule refl)
      moreover have "length bs = n" using len full(2) by linarith
      ultimately show ?thesis by (simp only: kept)
    qed
  qed
qed

section \<open>Frames round-trip\<close>

lemma le16_bytes16 [simp]: "le16 (bytes16 w) = w"
proof (rule bit_word_eqI)
  fix n assume "n < LENGTH(16)"
  then consider "n < 8" | "8 \<le> n" "n < 16" by force
  then show "bit (le16 (bytes16 w)) n = bit w n"
    by cases (auto simp: le16_def bytes16_def bit_simps nth_Cons')
qed

lemma length_bytes16 [simp]: "length (bytes16 w) = 2"
  by (simp add: bytes16_def)

lemma length_bytes64 [simp]: "length (bytes64 w) = 8"
  by (simp add: bytes64_def)

lemma le64_bytes64 [simp]: "le64 (bytes64 w) = w"
proof -
  have "le64 (bytes64 w) = ucast (ucast w :: u32) OR push_bit 32 (ucast (ucast (drop_bit 32 w) :: u32) :: u64)"
    by (simp add: le64_def bytes64_def)
  also have "\<dots> = w"
  proof (rule bit_word_eqI)
    fix n assume "n < LENGTH(64)"
    then consider "n < 32" | "32 \<le> n" "n < 64" by force
    then show "bit (ucast (ucast w :: u32) OR push_bit 32 (ucast (ucast (drop_bit 32 w) :: u32) :: u64)) n = bit w n"
      by cases (auto simp: bit_simps)
  qed
  finally show ?thesis .
qed

lemma decode_encode_cmd: "decode_cmd (encode_cmd c) = c" "length (encode_cmd c) = 16"
  by (simp_all add: decode_cmd_def encode_cmd_def)

lemma decode_encode_grab: "decode_grab (encode_grab g) = g" "length (encode_grab g) = 64"
  by (simp_all add: decode_grab_def encode_grab_def word_at_def)

lemma decode_encode_cursor2: "decode_cursor (encode_cursor2 c) = c" "length (encode_cursor2 c) = 36"
  by (simp_all add: decode_cursor_def encode_cursor2_def encode_cursor_def word_at_def pad_def)

lemma le32_zeros: "le32 (replicate 4 0) = 0"
  by (simp add: le32_def)

lemma decode_encode_cursor:
  "decode_cursor (encode_cursor c) = c\<lparr>cw_hot_from_property := 0\<rparr>" "length (encode_cursor c) = 32"
  by (cases c; simp add: decode_cursor_def encode_cursor_def word_at_def pad_def le32_zeros)+



text \<open>
  Fixed-size receives are all or nothing: wire_recv_all succeeds exactly when the peer
  delivers len bytes before its first error or end of file, returns the first len of them and
  consumes no byte beyond; a truncated frame is never handed on.
\<close>

lemma recv_all_all_or_nothing:
  "(fst (wire_recv_all len rx) = Some bs) = (len \<le> length (stream rx) \<and> bs = take len (stream rx)) \<and>
   (fst (wire_recv_all len rx) = None) = (length (stream rx) < len) \<and>
   stream (if len \<le> length (stream rx) then snd (wire_recv_all len rx) else rx)
     = (if len \<le> length (stream rx) then drop len (stream rx) else stream rx)"
  using recv_all_exact[of len rx] by (auto split: if_splits)

text \<open>
  C6. Receiving a descriptor never leaks one: when wire_recv_fd fails, by truncation, by an
  unexpected second descriptor or by a short frame, the process holds the descriptors it held
  before; when it succeeds the metadata is complete and it holds exactly the one descriptor it
  reports, or none.
\<close>

theorem recv_fd_never_leaks:
  assumes "fresh_ok w" "wire_recv_fd n w = ((r, fd), w')"
  shows "case r of
      None \<Rightarrow> fd = -1 \<and> resources w' = resources w
    | Some bs \<Rightarrow> length bs = n \<and>
        (fd = -1 \<and> resources w' = resources w \<or>
         0 \<le> fd \<and> fd \<notin> live_fds w \<and> resources (sys_close fd w') = resources w)"
  using wire_recv_fd_ok[OF assms(1), of n] unfolding assms(2)
  by (auto simp: recv_fd_ok_def resources_def sys_close_def split: option.splits)

definition wit_world :: world where
  "wit_world = \<lparr>tick = 0, mem = Map.empty, next_obj = 1, live_maps = {}, live_fds = {}, next_fd = 3,
    live_gems = {}, next_gem = 1, live_privs = 0, windows = (\<lambda>_. 0), faults = 0,
    chan = \<lparr>ch_rx = [Chunk [1, 2] 2 False], ch_tx = []\<rparr>, sent = []\<rparr>"

lemma wit_world_fresh: "fresh_ok wit_world"
  by (simp add: wit_world_def fresh_ok_def)

theorem recv_fd_never_leaks_witness:
  "case fst (fst (wire_recv_fd 2 wit_world)) of
      None \<Rightarrow> snd (fst (wire_recv_fd 2 wit_world)) = -1 \<and>
        resources (snd (wire_recv_fd 2 wit_world)) = resources wit_world
    | Some bs \<Rightarrow> length bs = 2 \<and>
        (snd (fst (wire_recv_fd 2 wit_world)) = -1 \<and>
           resources (snd (wire_recv_fd 2 wit_world)) = resources wit_world \<or>
         0 \<le> snd (fst (wire_recv_fd 2 wit_world)) \<and> snd (fst (wire_recv_fd 2 wit_world)) \<notin> live_fds wit_world \<and>
           resources (sys_close (snd (fst (wire_recv_fd 2 wit_world))) (snd (wire_recv_fd 2 wit_world))) = resources wit_world)"
  by (rule recv_fd_never_leaks[OF wit_world_fresh]) simp

text \<open>
  C35. The dispatch gate accepts exactly this build's commands: a frame passes wire_cmd_valid
  iff it is, byte for byte, a frame wire_cmd builds for one of the four declared types; and
  every reply frame of the protocol survives its encoding.
\<close>

theorem command_gate_exact:
  "wire_cmd_valid c = (\<exists>t \<in> {CMD_GRAB, CMD_GET_CURSOR, CMD_GET_CURSOR2, CMD_QUIT}. c = wire_cmd t (cmd_crtc_id c)) \<and>
   decode_cmd (encode_cmd c) = c \<and> decode_grab (encode_grab g) = g \<and>
   decode_cursor (encode_cursor2 k) = k \<and>
   decode_cursor (encode_cursor k) = k\<lparr>cw_hot_from_property := 0\<rparr>"
proof -
  have "wire_cmd_valid c = (\<exists>t \<in> {CMD_GRAB, CMD_GET_CURSOR, CMD_GET_CURSOR2, CMD_QUIT}. c = wire_cmd t (cmd_crtc_id c))"
    by (cases c) (auto simp: wire_cmd_valid_def wire_cmd_def)
  then show ?thesis
    using decode_encode_cmd(1) decode_encode_grab(1) decode_encode_cursor2(1) decode_encode_cursor(1)
    by simp
qed

end
