(* ===== verification/Ctx.thy ===== *)
theory Ctx
  imports Wire
begin

text \<open>
  The context a caller holds (struct drmtap_ctx, src/drmtap_internal.h), the frame it receives
  (drmtap_frame_info) and the private state behind a frame (frame_priv_t). The context extends
  the process state of Kernel.thy, so every operation of the library is a function from context
  to context. Pixel pointers are memory objects; NULL and MAP_FAILED are None.
\<close>

record fast_slot =
  s_fb_id :: u32
  s_gem_handle :: nat
  s_prime_fd :: int
  s_mmap_ptr :: "obj option"
  s_mmap_size :: nat
  s_width :: u32
  s_height :: u32
  s_stride :: u32
  s_fb_width :: u32
  s_format :: u32
  s_modifier :: u64
  s_num_planes :: int
  s_pitches :: "u32 list"
  s_offsets :: "u32 list"
  s_sync_started :: bool

record frame_priv =
  p_prime_fd :: int
  p_helper_drm_fd :: int
  p_mapped :: "obj option"
  p_mapped_size :: nat
  p_gem_handle :: nat
  p_used_dumb_map :: bool
  p_is_heap_buf :: bool
  p_sync_started :: bool

record drmtap_frame =
  f_data :: "obj option"
  f_dma_buf_fd :: int
  f_width :: u32
  f_height :: u32
  f_stride :: u32
  f_format :: u32
  f_modifier :: u64
  f_fb_id :: u32
  f_priv :: "frame_priv option"

record drmtap_desc =
  d_dma_buf_fd :: int
  d_width :: u32
  d_height :: u32
  d_format :: u32
  d_modifier :: u64
  d_fb_id :: u32
  d_num_planes :: u32
  d_offsets :: "u32 list"
  d_pitches :: "u32 list"
  d_hdr_eotf :: u32
  d_hdr_max_nits :: u32

record ctx = world +
  self :: nat
  egl :: egl_state
  drm_fd :: int
  device_path :: string
  driver_name :: string
  crtc_id :: u32
  is_render_only :: bool
  helper_path :: string
  helper_fd :: int
  helper_pid :: int
  fast_slots :: "fast_slot list"
  fast_plane_id :: u32
  fast_last_fb_id :: u32
  fast_initialized :: bool
  fast_no_cpu_map :: bool
  fast_no_privilege :: bool
  helper_no_cursor2 :: bool
  helper_cursor2_ok :: bool
  helper_cursor2_retried :: bool
  atomic_cap_tried :: bool
  sw_key_crtc :: u32
  sw_key_hdisplay :: u32
  sw_key_fb_width :: u32
  sw_key_modifier :: u64
  sw_cached_width :: u32
  sw_cached :: bool
  user_out :: "obj option"
  user_out_len :: nat
  deswizzle_buf :: "obj option"
  deswizzle_buf_size :: nat
  out_gen :: u32
  pixel_buf :: "obj option"
  pixel_buf_size :: nat
  cfb2_num_planes :: int
  cfb2_pitches :: "u32 list"
  cfb2_offsets :: "u32 list"
  grab_plane_id :: u32
  rot_prop_plane_id :: u32
  rot_prop_id :: u32
  rot_prop_state :: int
  cur_hdr_eotf :: u32
  cur_hdr_max_nits :: u32
  cached_topology_hash :: u64

definition DRMTAP_EOTF_PQ :: u32 where "DRMTAP_EOTF_PQ = 2"
definition DRMTAP_FAST_SLOTS :: nat where "DRMTAP_FAST_SLOTS = 4"

text \<open>\<open>memset(frame, 0, sizeof(*frame))\<close>\<close>

definition zero_frame :: drmtap_frame where
  "zero_frame = \<lparr>f_data = None, f_dma_buf_fd = 0, f_width = 0, f_height = 0, f_stride = 0,
    f_format = 0, f_modifier = 0, f_fb_id = 0, f_priv = None\<rparr>"

text \<open>A cleared slot: zeroed, with \<open>prime_fd = -1\<close>.\<close>

definition empty_slot :: fast_slot where
  "empty_slot = \<lparr>s_fb_id = 0, s_gem_handle = 0, s_prime_fd = -1, s_mmap_ptr = None, s_mmap_size = 0,
    s_width = 0, s_height = 0, s_stride = 0, s_fb_width = 0, s_format = 0, s_modifier = 0,
    s_num_planes = 0, s_pitches = [0, 0, 0, 0], s_offsets = [0, 0, 0, 0], s_sync_started = False\<rparr>"

section \<open>A concrete system for the examples\<close>

text \<open>
  One device with one connector (id 9, CRTC 5, 8 by 2 pixels) and one primary plane (id 7,
  framebuffer 2), a kernel that grants every request, and a context freshly opened on it.
\<close>

definition wit_mode :: drm_mode where
  "wit_mode = \<lparr>md_hdisplay = 8, md_vdisplay = 2, md_htotal = 10, md_vtotal = 4, md_clock = 60,
    md_vscan = 0, md_flags = 0, md_vrefresh = 60, md_type = 8\<rparr>"

definition wit_kms :: kms where
  "wit_kms = \<lparr>km_plane_res = Some [7],
    km_plane = (\<lambda>i. if i = 7 then Some \<lparr>pl_id = 7, pl_crtc_id = 5, pl_fb_id = 2\<rparr> else None),
    km_props = (\<lambda>i. if i = 7 then Inr [\<lparr>pr_id = 20, pr_name = Inr ''type'', pr_value = 1\<rparr>]
      else if i = 9 then Inr [\<lparr>pr_id = 21, pr_name = Inr ''CRTC_ID'', pr_value = 5\<rparr>] else Inl EINVAL),
    km_res = Some \<lparr>rs_crtcs = [5], rs_connectors = [9]\<rparr>,
    km_crtc = (\<lambda>i. if i = 5 then Inr \<lparr>cr_id = 5, cr_mode_valid = True, cr_mode = wit_mode, cr_x = 0, cr_y = 0, cr_buffer_id = 2\<rparr>
      else Inl ENOENT),
    km_connector = (\<lambda>i. if i = 9 then Some \<lparr>cn_id = 9, cn_connection = 1, cn_type = 11, cn_type_id = 1,
      cn_encoder_id = 0, cn_modes = [wit_mode]\<rparr> else None),
    km_connector_probed = (\<lambda>i. None), km_encoder_crtc = (\<lambda>i. None), km_blob = (\<lambda>i. None)\<rparr>"

definition wit_fb2 :: drm_fb2 where
  "wit_fb2 = \<lparr>fb2_width = 8, fb2_height = 2, fb2_format = 0x34325258, fb2_modifier = 0, fb2_flag_modifiers = True,
    fb2_handles = [1, 0, 0, 0], fb2_pitches = [32, 0, 0, 0], fb2_offsets = [0, 0, 0, 0]\<rparr>"

definition wit_gl :: glenv where
  "wit_gl = \<lparr>g_no_egl = False, g_load_procs = 0, g_device_ext = False, g_devices = None, g_default = 1,
    g_initialize = (\<lambda>d. True), g_choose_config = True, g_create_context = (\<lambda>v. True), g_create_shader = (\<lambda>s. True),
    g_compile = (\<lambda>s. True), g_link = (\<lambda>p. True), g_skip_unchanged = False, g_no_image_cache = False,
    g_make_current = True, g_inode = (\<lambda>fd. Some 7), g_create_image = (\<lambda>a. True), g_bind_image = True,
    g_render = (\<lambda>im w h hdr peak. []), g_draw_ok = True, g_read_ok = True, g_grid_alloc = True, g_target_ok = True,
    g_hash_pass_ok = True\<rparr>"

definition wit_env :: env where
  "wit_env = \<lparr>v_kms = (\<lambda>t. wit_kms), v_fb2 = (\<lambda>t fb. Inr wit_fb2), v_prime = (\<lambda>t h. None),
    v_mmap = (\<lambda>t fd off n. Inr []), v_map_dumb = (\<lambda>t h. Some 0), v_sync_start = (\<lambda>t fd. True),
    v_transfer = (\<lambda>t h w k. 0), v_wait = (\<lambda>t h. 0), v_malloc = (\<lambda>t n. Some []), v_calloc_priv = (\<lambda>t. True),
    v_cap_atomic = (\<lambda>t. True), v_gl = (\<lambda>t. wit_gl),
    v_access = (\<lambda>t p. p = ''/usr/bin/drmtap-helper''), v_spawn = (\<lambda>t. Inr (77, \<lparr>ch_rx = [], ch_tx = []\<rparr>)),
    v_fd_size = (\<lambda>t fd. Some 64)\<rparr>"

definition wit_ctx :: ctx where
  "wit_ctx = \<lparr>tick = 0, mem = Map.empty, next_obj = 1, live_maps = {}, live_fds = {}, next_fd = 4,
    live_gems = {}, next_gem = 1, live_privs = 0, windows = (\<lambda>_. 0), faults = 0,
    chan = \<lparr>ch_rx = [], ch_tx = []\<rparr>, sent = [],
    self = 1, egl = empty_egl, drm_fd = 3, device_path = ''/dev/dri/card0'', driver_name = ''i915'', crtc_id = 5, is_render_only = False, helper_path = [], helper_fd = - 1, helper_pid = 0,
    fast_slots = replicate 4 empty_slot, fast_plane_id = 0, fast_last_fb_id = 0, fast_initialized = False,
    fast_no_cpu_map = False, fast_no_privilege = False, helper_no_cursor2 = False, helper_cursor2_ok = False,
    helper_cursor2_retried = False, atomic_cap_tried = False, sw_key_crtc = 0, sw_key_hdisplay = 0,
    sw_key_fb_width = 0, sw_key_modifier = 0, sw_cached_width = 0, sw_cached = False, user_out = None,
    user_out_len = 0, deswizzle_buf = None, deswizzle_buf_size = 0, out_gen = 0, pixel_buf = None,
    pixel_buf_size = 0, cfb2_num_planes = 0, cfb2_pitches = [0, 0, 0, 0], cfb2_offsets = [0, 0, 0, 0],
    grab_plane_id = 0, rot_prop_plane_id = 0, rot_prop_id = 0, rot_prop_state = 0, cur_hdr_eotf = 0,
    cur_hdr_max_nits = 0, cached_topology_hash = 0\<rparr>"

lemma wit_ctx_fresh: "fresh_ok wit_ctx"
  by (simp add: wit_ctx_def fresh_ok_def)

end
