(* ===== verification/Enumerate.thy ===== *)
theory Enumerate
  imports Ctx
begin

text \<open>
  Display enumeration (src/drm_enumerate.c): the exact refresh fraction of a mode, connector
  names, the atomic CRTC binding of a connector, the FNV-1a topology signature behind hotplug
  detection, drmtap_list_displays and drmtap_displays_changed.
\<close>

section \<open>Refresh rate\<close>

function refresh_gcd :: "u64 \<Rightarrow> u64 \<Rightarrow> u64" where
  "refresh_gcd a b = (if b \<noteq> 0 then refresh_gcd b (a mod b) else a)"
  by pat_completeness auto

lemma unat_mod_less: "(b :: u64) \<noteq> 0 \<Longrightarrow> unat (a mod b) < unat b"
  by (simp add: unat_mod_distrib unat_gt_0)

termination refresh_gcd
  by (relation "measure (\<lambda>(a, b). unat b)") (simp_all add: unat_mod_less)

declare refresh_gcd.simps [simp del]

definition DRM_MODE_FLAG_INTERLACE :: u32 where "DRM_MODE_FLAG_INTERLACE = 0x10"
definition DRM_MODE_FLAG_DBLSCAN :: u32 where "DRM_MODE_FLAG_DBLSCAN = 0x20"

definition drmtap_mode_refresh :: "drm_mode \<Rightarrow> int + u64 \<times> u64" where
  "drmtap_mode_refresh mode =
    (if md_clock mode = 0 \<or> md_htotal mode = 0 \<or> md_vtotal mode = 0 then Inl (- EINVAL)
     else
       let n = ucast (md_clock mode) * 1000;
           d = ucast (md_htotal mode) * ucast (md_vtotal mode);
           n = (if md_flags mode AND DRM_MODE_FLAG_INTERLACE \<noteq> 0 then n * 2 else n);
           d = (if md_flags mode AND DRM_MODE_FLAG_DBLSCAN \<noteq> 0 then d * 2 else d);
           d = (if 1 < md_vscan mode then d * ucast (md_vscan mode) else d);
           g = refresh_gcd n d in
       Inr (n div g, d div g))"

section \<open>Connectors\<close>

definition connector_type_names :: "string list" where
  "connector_type_names = [''Unknown'', ''VGA'', ''DVI-I'', ''DVI-D'', ''DVI-A'', ''Composite'', ''SVIDEO'',
    ''LVDS'', ''Component'', ''DIN'', ''DP'', ''HDMI-A'', ''HDMI-B'', ''TV'', ''eDP'', ''Virtual'', ''DSI'',
    ''DPI'', ''Writeback'', ''SPI'', ''USB'']"

definition drmtap_connector_type_name :: "u32 \<Rightarrow> string" where
  "drmtap_connector_type_name t =
    (if unat t < length connector_type_names then connector_type_names ! unat t else ''Unknown'')"

text \<open>The property loop both copies of the lookup share: the first property of that name.\<close>

fun prop_named :: "string \<Rightarrow> drm_prop list \<Rightarrow> u64 option" where
  "prop_named n [] = None"
| "prop_named n (p # ps) = (if pr_name p = Inr n then Some (pr_value p) else prop_named n ps)"

definition connector_crtc_from_atomic :: "kms \<Rightarrow> u32 \<Rightarrow> u32" where
  "connector_crtc_from_atomic k connector_id =
    (case km_props k connector_id of
      Inl _ \<Rightarrow> 0
    | Inr props \<Rightarrow> (case prop_named ''CRTC_ID'' props of None \<Rightarrow> 0 | Some v \<Rightarrow> ucast v))"

section \<open>Topology signature\<close>

definition th_fold :: "u32 \<Rightarrow> u64 \<Rightarrow> u64" where
  "th_fold v h = (h XOR ucast v) * 1099511628211"

definition th_connector :: "kms \<Rightarrow> u32 \<Rightarrow> u64 \<Rightarrow> u64" where
  "th_connector k cid h =
    (case km_connector k cid of
      None \<Rightarrow> th_fold cid h
    | Some conn \<Rightarrow>
        let h = th_fold (cn_connection conn) (th_fold (cn_id conn) h);
            crtc = connector_crtc_from_atomic k (cn_id conn);
            h = th_fold crtc h in
        if crtc \<noteq> 0 then
          (case km_crtc k crtc of
            Inl _ \<Rightarrow> h
          | Inr c \<Rightarrow>
              let h = th_fold (if cr_mode_valid c then 1 else 0) h;
                  h = th_fold (ucast (md_hdisplay (cr_mode c))) h;
                  h = th_fold (ucast (md_vdisplay (cr_mode c))) h in
              th_fold (md_vrefresh (cr_mode c)) h)
        else h)"

definition topology_hash :: "kms \<Rightarrow> drm_res \<Rightarrow> u64" where
  "topology_hash k res =
    (let h = 1469598103934665603;
         h = th_fold (of_nat (length (rs_connectors res))) h;
         h = th_fold (of_nat (length (rs_crtcs res))) h in
     fold (th_connector k) (rs_connectors res) h)"

section \<open>Listing\<close>

record drmtap_display =
  ds_crtc_id :: u32
  ds_connector_id :: u32
  ds_name :: string
  ds_x :: u32
  ds_y :: u32
  ds_width :: u32
  ds_height :: u32
  ds_refresh_hz :: u32
  ds_active :: bool

text \<open>snprintf's \<open>%u\<close>, and the truncation to the 32-byte name field.\<close>

fun show_u :: "nat \<Rightarrow> string" where
  "show_u n = (if n < 10 then [char_of (48 + n)] else show_u (n div 10) @ [char_of (48 + n mod 10)])"

declare show_u.simps [simp del]

fun preferred_mode :: "drm_mode list \<Rightarrow> drm_mode option" where
  "preferred_mode [] = None"
| "preferred_mode (m # ms) = (if md_type m AND 8 \<noteq> 0 then Some m else preferred_mode ms)"

definition set_mode :: "drm_mode \<Rightarrow> drmtap_display \<Rightarrow> drmtap_display" where
  "set_mode m d = d\<lparr>ds_width := ucast (md_hdisplay m), ds_height := ucast (md_vdisplay m),
    ds_refresh_hz := md_vrefresh m\<rparr>"

definition display_of :: "kms \<Rightarrow> drm_connector \<Rightarrow> drmtap_display" where
  "display_of k conn =
    (let crtc = (if cn_encoder_id conn \<noteq> 0 then
                   (case km_encoder_crtc k (cn_encoder_id conn) of None \<Rightarrow> 0 | Some c \<Rightarrow> c) else 0);
         crtc = (if crtc = 0 then connector_crtc_from_atomic k (cn_id conn) else crtc);
         d = \<lparr>ds_crtc_id = crtc, ds_connector_id = cn_id conn,
              ds_name = take 31 (drmtap_connector_type_name (cn_type conn) @ ''-'' @ show_u (unat (cn_type_id conn))),
              ds_x = 0, ds_y = 0, ds_width = 0, ds_height = 0, ds_refresh_hz = 0, ds_active = (crtc \<noteq> 0)\<rparr>;
         d = (if crtc \<noteq> 0 then
                (case km_crtc k crtc of
                  Inl _ \<Rightarrow> d
                | Inr c \<Rightarrow>
                    let d = d\<lparr>ds_x := cr_x c, ds_y := cr_y c\<rparr> in
                    if cr_mode_valid c then set_mode (cr_mode c) d else d)
              else d) in
     if ds_width d = 0 \<and> cn_modes conn \<noteq> [] then
       let d = (case preferred_mode (cn_modes conn) of None \<Rightarrow> d | Some m \<Rightarrow> set_mode m d) in
       if ds_width d = 0 then set_mode (hd (cn_modes conn)) d else d
     else d)"

fun list_loop :: "kms \<Rightarrow> int \<Rightarrow> u32 list \<Rightarrow> drmtap_display list \<Rightarrow> int \<Rightarrow> drmtap_display list \<times> int" where
  "list_loop k max_count [] out found = (out, found)"
| "list_loop k max_count (cid # ids) out found =
    (case km_connector_probed k cid of
      None \<Rightarrow> list_loop k max_count ids out found
    | Some conn \<Rightarrow>
        if cn_connection conn \<noteq> 1 then list_loop k max_count ids out found
        else list_loop k max_count ids
          (if found < max_count then out @ [display_of k conn] else out) (found + 1))"

definition drmtap_list_displays :: "env \<Rightarrow> int \<Rightarrow> ctx \<Rightarrow> (int \<times> drmtap_display list) \<times> ctx" where
  "drmtap_list_displays env max_count c =
    (if max_count \<le> 0 then ((- EINVAL, []), c)
     else if drm_fd c < 0 then ((- ENODEV, []), c)
     else
       let k = v_kms env (tick c); c = step_clock c in
       (case km_res k of
         None \<Rightarrow> ((- ENODEV, []), c)
       | Some res \<Rightarrow>
           let (out, found) = list_loop k max_count (rs_connectors res) [] 0 in
           ((found, out), c\<lparr>cached_topology_hash := topology_hash k res\<rparr>)))"

definition drmtap_displays_changed :: "env \<Rightarrow> ctx \<Rightarrow> int \<times> ctx" where
  "drmtap_displays_changed env c =
    (if drm_fd c < 0 then (- ENODEV, c)
     else
       let k = v_kms env (tick c); c = step_clock c in
       (case km_res k of
         None \<Rightarrow> (- ENODEV, c)
       | Some res \<Rightarrow>
           let h = topology_hash k res in
           (if h \<noteq> cached_topology_hash c then 1 else 0, c\<lparr>cached_topology_hash := h\<rparr>)))"

section \<open>The refresh fraction is exact\<close>

lemma refresh_gcd_is_gcd: "unat (refresh_gcd a b) = gcd (unat a) (unat b)"
proof (induction a b rule: refresh_gcd.induct)
  case (1 a b)
  show ?case
  proof (cases "b = 0")
    case True
    then show ?thesis by (subst refresh_gcd.simps) simp
  next
    case False
    then have "unat (refresh_gcd a b) = unat (refresh_gcd b (a mod b))" by (simp add: refresh_gcd.simps[of a b])
    also have "\<dots> = gcd (unat b) (unat a mod unat b)" using 1 False by (simp add: unat_mod_distrib)
    also have "\<dots> = gcd (unat a) (unat b)" by (metis gcd.commute gcd_red_nat)
    finally show ?thesis .
  qed
qed

lemma refresh_terms:
  fixes c :: u32 and ht vt vs :: u16
  shows "unat (ucast c * 1000 * (if il then 2 else 1) :: u64) = unat c * 1000 * (if il then 2 else 1)"
    "unat (ucast ht * ucast vt * (if ds then 2 else 1) * (if 1 < vs then ucast vs else 1) :: u64)
      = unat ht * unat vt * (if ds then 2 else 1) * (if 1 < vs then unat vs else 1)"
proof -
  have u16: "unat (x :: u16) \<le> 65535" for x
  proof -
    have "unat x < 2 ^ LENGTH(16)" by (rule unsigned_less)
    then show ?thesis by simp
  qed
  have up: "unat (ucast (x :: u16) :: u64) = unat x" for x
    using u16[of x] by (simp add: unsigned_ucast_eq take_bit_nat_eq_self_iff)
  have "unat c * 1000 * 2 < 2 ^ 64" using unat_u32_bound[of c] by simp
  then show "unat (ucast c * 1000 * (if il then 2 else 1) :: u64) = unat c * 1000 * (if il then 2 else 1)"
    by (auto simp: unat_mult_small64)
  have a: "unat (ucast ht * ucast vt :: u64) = unat ht * unat vt"
    using mult_mono[OF u16[of ht] u16[of vt]] by (subst unat_mult_small64) (simp_all add: up)
  have b: "unat (ucast ht * ucast vt * (if ds then 2 else 1) :: u64) = unat ht * unat vt * (if ds then 2 else 1)"
    using mult_mono[OF u16[of ht] u16[of vt]] by (subst unat_mult_small64) (simp_all add: a)
  have c: "unat (if 1 < vs then ucast vs else 1 :: u64) = (if 1 < vs then unat vs else 1)" by (simp add: up)
  have "unat ht * unat vt * (if ds then 2 else 1) \<le> 65535 * 65535 * 2"
    using mult_mono[OF u16[of ht] u16[of vt]] by auto
  moreover have "(if 1 < vs then unat vs else 1) \<le> 65535" using u16[of vs] by simp
  ultimately have "unat ht * unat vt * (if ds then 2 else 1) * (if 1 < vs then unat vs else 1)
      \<le> 65535 * 65535 * 2 * 65535"
    by (rule mult_mono) simp_all
  then have "unat ht * unat vt * (if ds then 2 else 1) * (if 1 < vs then unat vs else 1) < 2 ^ 64" by simp
  then show "unat (ucast ht * ucast vt * (if ds then 2 else 1) * (if 1 < vs then ucast vs else 1) :: u64)
      = unat ht * unat vt * (if ds then 2 else 1) * (if 1 < vs then unat vs else 1)"
    unfolding b[symmetric] c[symmetric] by (rule unat_mult_small64)
qed

text \<open>
  C33. drmtap_mode_refresh is the mode's exact refresh rate in lowest terms: for a mode with
  timings it returns num/den with num * (htotal * vtotal * doublescan * vscan) equal to den *
  (clock * 1000 * interlace) over the natural numbers (nothing wraps), the two coprime and den
  never 0; it refuses with -EINVAL exactly a mode without a clock or a total.
\<close>

theorem mode_refresh_exact:
  "(case drmtap_mode_refresh m of
      Inl e \<Rightarrow> e = - EINVAL \<and> (md_clock m = 0 \<or> md_htotal m = 0 \<or> md_vtotal m = 0)
    | Inr (num, den) \<Rightarrow>
        md_clock m \<noteq> 0 \<and> md_htotal m \<noteq> 0 \<and> md_vtotal m \<noteq> 0 \<and>
        unat num * (unat (md_htotal m) * unat (md_vtotal m) *
            (if md_flags m AND DRM_MODE_FLAG_DBLSCAN \<noteq> 0 then 2 else 1) *
            (if 1 < md_vscan m then unat (md_vscan m) else 1))
          = unat den * (unat (md_clock m) * 1000 * (if md_flags m AND DRM_MODE_FLAG_INTERLACE \<noteq> 0 then 2 else 1)) \<and>
        coprime (unat num) (unat den) \<and> 0 < unat den)"
proof (cases "md_clock m = 0 \<or> md_htotal m = 0 \<or> md_vtotal m = 0")
  case True
  then show ?thesis by (auto simp: drmtap_mode_refresh_def)
next
  case False
  let ?n = "ucast (md_clock m) * 1000 * (if md_flags m AND DRM_MODE_FLAG_INTERLACE \<noteq> 0 then 2 else 1) :: u64"
  let ?d = "ucast (md_htotal m) * ucast (md_vtotal m) * (if md_flags m AND DRM_MODE_FLAG_DBLSCAN \<noteq> 0 then 2 else 1) *
    (if 1 < md_vscan m then ucast (md_vscan m) else 1) :: u64"
  let ?g = "gcd (unat ?n) (unat ?d)"
  have run: "drmtap_mode_refresh m = Inr (?n div refresh_gcd ?n ?d, ?d div refresh_gcd ?n ?d)"
    using False by (simp add: drmtap_mode_refresh_def Let_def)
  have pos: "0 < unat ?d" using False
    by (subst refresh_terms(2)) (auto simp: unat_gt_0 word_less_nat_alt)
  then have g: "0 < ?g" by simp
  have q: "unat (?n div refresh_gcd ?n ?d) = unat ?n div ?g" "unat (?d div refresh_gcd ?n ?d) = unat ?d div ?g"
    by (simp_all only: unat_div_distrib refresh_gcd_is_gcd)
  have swap: "x div k * y = y div k * x" if "k dvd x" "k dvd y" for x y k :: nat
    using that by (metis dvd_div_mult mult.commute)
  have "unat ?n div ?g * unat ?d = unat ?d div ?g * unat ?n" by (rule swap; rule gcd_dvd1 gcd_dvd2)
  moreover have "coprime (unat ?n div ?g) (unat ?d div ?g)" using g by (intro div_gcd_coprime) auto
  moreover have "0 < unat ?d div ?g" using pos g by (simp add: div_greater_zero_iff dvd_imp_le)
  ultimately show ?thesis using False
    unfolding run sum.case prod.case q refresh_terms[symmetric] by (simp only: de_Morgan_disj simp_thms)
qed

section \<open>Hotplug detection\<close>

lemma fnv_undo: "(x * 1099511628211) * 14886173955864302971 = (x :: u64)"
proof -
  have "(1099511628211 * 14886173955864302971 :: u64) = 1" by (rule unsigned_word_eqI[where 'a = nat]) (simp add: unat_word_ariths)
  then show ?thesis by (simp only: mult.assoc mult.right_neutral)
qed

lemma th_fold_inj_state: "th_fold v h = th_fold v h' \<Longrightarrow> h = h'"
proof -
  note undo = fnv_undo
  assume "th_fold v h = th_fold v h'"
  then have "(h XOR ucast v) * 1099511628211 * 14886173955864302971 = (h' XOR ucast v) * 1099511628211 * 14886173955864302971"
    unfolding th_fold_def by (rule arg_cong)
  then have "h XOR ucast v = h' XOR ucast v" by (simp only: undo)
  then have "(h XOR ucast v) XOR ucast v = (h' XOR ucast v) XOR ucast v" by (rule arg_cong[where f = "\<lambda>z. z XOR ucast v"])
  then show "h = h'" by (simp add: xor.assoc)
qed

lemma th_fold_inj_word: "th_fold v h = th_fold v' h \<Longrightarrow> v = v'"
proof -
  note undo = fnv_undo
  assume "th_fold v h = th_fold v' h"
  then have "(h XOR ucast v) * 1099511628211 * 14886173955864302971 = (h XOR ucast v') * 1099511628211 * 14886173955864302971"
    unfolding th_fold_def by (rule arg_cong)
  then have "h XOR ucast v = h XOR ucast v'" by (simp only: undo)
  then have "h XOR (h XOR ucast v) = h XOR (h XOR ucast v')" by (rule arg_cong)
  then have "(ucast v :: u64) = ucast v'" by (simp add: xor.assoc[symmetric])
  then have "unat (ucast v :: u64) = unat (ucast v' :: u64)" by simp
  then have "unat v = unat v'" by simp
  then show "v = v'" by (rule unsigned_word_eqI)
qed

text \<open>The words the signature folds, in order.\<close>

definition connector_words :: "kms \<Rightarrow> u32 \<Rightarrow> u32 list" where
  "connector_words k cid =
    (case km_connector k cid of
      None \<Rightarrow> [cid]
    | Some conn \<Rightarrow>
        let crtc = connector_crtc_from_atomic k (cn_id conn) in
        [cn_id conn, cn_connection conn, crtc] @
        (if crtc = 0 then []
         else case km_crtc k crtc of
           Inl _ \<Rightarrow> []
         | Inr c \<Rightarrow> [if cr_mode_valid c then 1 else 0, ucast (md_hdisplay (cr_mode c)),
             ucast (md_vdisplay (cr_mode c)), md_vrefresh (cr_mode c)]))"

definition topology_words :: "kms \<Rightarrow> drm_res \<Rightarrow> u32 list" where
  "topology_words k res = [of_nat (length (rs_connectors res)), of_nat (length (rs_crtcs res))] @
    concat (map (connector_words k) (rs_connectors res))"

lemma th_connector_words: "th_connector k cid h = fold th_fold (connector_words k cid) h"
  by (simp add: th_connector_def connector_words_def Let_def split: option.split sum.split)

lemma topology_hash_words: "topology_hash k res = fold th_fold (topology_words k res) 1469598103934665603"
proof -
  have "fold (th_connector k) cs h = fold th_fold (concat (map (connector_words k) cs)) h" for cs h
    by (induction cs arbitrary: h) (simp_all add: th_connector_words)
  then show ?thesis by (simp add: topology_hash_def topology_words_def Let_def)
qed

lemma fold_th_inj: "fold th_fold ws h = fold th_fold ws h' \<Longrightarrow> h = h'"
  by (induction ws arbitrary: h h') (auto dest: th_fold_inj_state)



end
