(* ===== verification/Kms.thy ===== *)
theory Kms
  imports Enumerate
begin

text \<open>
  Plane discovery (src/drm_grab.c): which CRTC a context captures and which plane scans it out,
  the connector's HDR metadata, drmtap_crtc_refresh and drmtap_plane_rotation. Each function
  walks the mode-setting tables of one moment (env, at the current tick) and advances the clock.
\<close>

section \<open>Connector and HDR state\<close>

definition connector_crtc_atomic :: "kms \<Rightarrow> u32 \<Rightarrow> u32" where
  "connector_crtc_atomic k connector_id =
    (case km_props k connector_id of
      Inl _ \<Rightarrow> 0
    | Inr props \<Rightarrow> (case prop_named ''CRTC_ID'' props of None \<Rightarrow> 0 | Some v \<Rightarrow> ucast v))"

fun connector_of :: "kms \<Rightarrow> u32 \<Rightarrow> u32 list \<Rightarrow> u32" where
  "connector_of k crtc [] = 0"
| "connector_of k crtc (cid # cids) =
    (case km_connector k cid of
      None \<Rightarrow> connector_of k crtc cids
    | Some conn \<Rightarrow>
        let conn_id = (if cn_connection conn = 1 \<and> connector_crtc_atomic k (cn_id conn) = crtc
                       then cn_id conn else 0) in
        if conn_id = 0 then connector_of k crtc cids else conn_id)"

text \<open>One property of the metadata loop; the last readable blob wins.\<close>

definition hdr_prop :: "kms \<Rightarrow> drm_prop \<Rightarrow> u32 \<times> u32 \<Rightarrow> u32 \<times> u32" where
  "hdr_prop k p hdr =
    (if pr_name p = Inr ''HDR_OUTPUT_METADATA'' \<and> pr_value p \<noteq> 0 then
       (case km_blob k (ucast (pr_value p)) of
         None \<Rightarrow> hdr
       | Some b \<Rightarrow>
           if hb_length_ok b then
             (ucast (hb_eotf b), if hb_max_cll b \<noteq> 0 then ucast (hb_max_cll b) else ucast (hb_max_mastering b))
           else hdr)
     else hdr)"

definition hdr_of_crtc :: "kms \<Rightarrow> u32 \<Rightarrow> u32 \<times> u32" where
  "hdr_of_crtc k crtc =
    (if crtc = 0 then (0, 0)
     else case km_res k of
       None \<Rightarrow> (0, 0)
     | Some res \<Rightarrow>
         let conn_id = connector_of k crtc (rs_connectors res) in
         if conn_id = 0 then (0, 0)
         else case km_props k conn_id of
           Inl _ \<Rightarrow> (0, 0)
         | Inr props \<Rightarrow> fold (hdr_prop k) props (0, 0))"

definition read_hdr_metadata_direct :: "env \<Rightarrow> u32 \<Rightarrow> ctx \<Rightarrow> ctx" where
  "read_hdr_metadata_direct env crtc c =
    (let (eotf, nits) = hdr_of_crtc (v_kms env (tick c)) crtc in
     step_clock (c\<lparr>cur_hdr_eotf := eotf, cur_hdr_max_nits := nits\<rparr>))"

definition read_hdr_for_current_crtc :: "env \<Rightarrow> ctx \<Rightarrow> ctx" where
  "read_hdr_for_current_crtc env c = read_hdr_metadata_direct env (crtc_id c) c"

section \<open>Choosing the CRTC and its plane\<close>

fun first_active :: "kms \<Rightarrow> u32 list \<Rightarrow> u32" where
  "first_active k [] = 0"
| "first_active k (r # rs) =
    (case km_crtc k r of
      Inl _ \<Rightarrow> first_active k rs
    | Inr crtc \<Rightarrow>
        let chosen = (if cr_mode_valid crtc then cr_id crtc else 0) in
        if chosen = 0 then first_active k rs else chosen)"

definition select_first_active_crtc :: "kms \<Rightarrow> ctx \<Rightarrow> u32 \<times> ctx" where
  "select_first_active_crtc k c =
    (case km_res k of
      None \<Rightarrow> (0, c)
    | Some res \<Rightarrow>
        let chosen = first_active k (rs_crtcs res) in
        (chosen, if chosen \<noteq> 0 then c\<lparr>crtc_id := chosen\<rparr> else c))"

definition is_primary_plane :: "kms \<Rightarrow> u32 \<Rightarrow> bool" where
  "is_primary_plane k plane_id =
    (case km_props k plane_id of
      Inl _ \<Rightarrow> False
    | Inr props \<Rightarrow> list_ex (\<lambda>p. pr_name p = Inr ''type'' \<and> pr_value p = 1) props)"

fun scan_planes :: "kms \<Rightarrow> u32 \<Rightarrow> u32 list \<Rightarrow> u32 \<Rightarrow> u32" where
  "scan_planes k target [] result = result"
| "scan_planes k target (p # ps) result =
    (case km_plane k p of
      None \<Rightarrow> scan_planes k target ps result
    | Some plane \<Rightarrow>
        if pl_crtc_id plane \<noteq> target then scan_planes k target ps result
        else
          let is_primary = (pl_fb_id plane \<noteq> 0 \<and> is_primary_plane k (pl_id plane));
              result = (if pl_fb_id plane \<noteq> 0 \<and> (is_primary \<or> result = 0) then pl_id plane else result) in
          if result \<noteq> 0 \<and> is_primary then result else scan_planes k target ps result)"

definition find_primary_plane_at :: "kms \<Rightarrow> ctx \<Rightarrow> u32 \<times> ctx" where
  "find_primary_plane_at k c =
    (case km_plane_res k of
      None \<Rightarrow> (0, c)
    | Some planes \<Rightarrow>
        let (target, c) = (if crtc_id c = 0 then select_first_active_crtc k c else (crtc_id c, c)) in
        if target = 0 then (0, c) else (scan_planes k target planes 0, c))"

definition find_primary_plane :: "env \<Rightarrow> ctx \<Rightarrow> u32 \<times> ctx" where
  "find_primary_plane env c =
    (let (p, c') = find_primary_plane_at (v_kms env (tick c)) c in (p, step_clock c'))"

section \<open>Refresh and rotation\<close>

definition errno_or_eio :: "int \<Rightarrow> int" where
  "errno_or_eio e = (if e \<noteq> 0 then e else EIO)"

definition drmtap_crtc_refresh :: "env \<Rightarrow> ctx \<Rightarrow> (int + u64 \<times> u64) \<times> ctx" where
  "drmtap_crtc_refresh env c =
    (if is_render_only c then (Inl (- ENOTSUP), c)
     else
       let k = v_kms env (tick c);
           (crtc, c) = (if crtc_id c \<noteq> 0 then (crtc_id c, c) else select_first_active_crtc k c);
           c = step_clock c in
       if crtc = 0 then (Inl (- ENOENT), c)
       else case km_crtc k crtc of
         Inl e \<Rightarrow> (Inl (- errno_or_eio e), c)
       | Inr cr \<Rightarrow>
           if cr_mode_valid cr then
             (case drmtap_mode_refresh (cr_mode cr) of
               Inl _ \<Rightarrow> (Inl (- ENODATA), c)
             | Inr r \<Rightarrow> (Inr r, c))
           else (Inl (- ENODATA), c))"

text \<open>The lookup by name: the rotation property, or the last error met on the way.\<close>

fun rotation_lookup :: "drm_prop list \<Rightarrow> int \<Rightarrow> (u32 \<times> u64) option \<times> int" where
  "rotation_lookup [] read_failed = (None, read_failed)"
| "rotation_lookup (p # ps) read_failed =
    (case pr_name p of
      Inl e \<Rightarrow> rotation_lookup ps (errno_or_eio e)
    | Inr n \<Rightarrow> if n = ''rotation'' then (Some (pr_id p, pr_value p), read_failed)
        else rotation_lookup ps read_failed)"

fun prop_by_id :: "u32 \<Rightarrow> drm_prop list \<Rightarrow> u64 option" where
  "prop_by_id i [] = None"
| "prop_by_id i (p # ps) = (if pr_id p = i then Some (pr_value p) else prop_by_id i ps)"

definition drmtap_plane_rotation :: "env \<Rightarrow> ctx \<Rightarrow> (int + u32) \<times> ctx" where
  "drmtap_plane_rotation env c =
    (if is_render_only c then (Inl (- ENOTSUP), c)
     else
       let (plane, c) = (if grab_plane_id c \<noteq> 0 then (grab_plane_id c, c) else find_primary_plane env c) in
       if plane = 0 then (Inl (- ENOENT), c)
       else
         let c = (if plane \<noteq> rot_prop_plane_id c
                  then c\<lparr>rot_prop_plane_id := plane, rot_prop_id := 0, rot_prop_state := 0\<rparr> else c) in
         if rot_prop_state c < 0 then (Inl (- ENOTSUP), c)
         else
           let k = v_kms env (tick c); c = step_clock c in
           (case km_props k plane of
             Inl e \<Rightarrow> (Inl (- errno_or_eio e), c)
           | Inr props \<Rightarrow>
               if rot_prop_state c = 0 then
                 (case rotation_lookup props 0 of
                   (Some (i, v), _) \<Rightarrow> (Inr (ucast v), c\<lparr>rot_prop_id := i, rot_prop_state := 1\<rparr>)
                 | (None, e) \<Rightarrow>
                     if e = 0 then (Inl (- ENOTSUP), c\<lparr>rot_prop_state := - 1\<rparr>) else (Inl (- e), c))
               else
                 (case prop_by_id (rot_prop_id c) props of
                   Some v \<Rightarrow> (Inr (ucast v), c)
                 | None \<Rightarrow> (Inl (- ENOTSUP), c\<lparr>rot_prop_state := 0, rot_prop_id := 0\<rparr>))))"

section \<open>The plane a grab reads\<close>

text \<open>The candidates: planes bound to the CRTC that scan out a framebuffer, in table order.\<close>

definition candidates :: "kms \<Rightarrow> u32 \<Rightarrow> u32 list \<Rightarrow> drm_plane list" where
  "candidates k target ps = filter (\<lambda>pl. pl_crtc_id pl = target \<and> pl_fb_id pl \<noteq> 0) (List.map_filter (km_plane k) ps)"

lemma candidates_simps [simp]:
  "candidates k t [] = []"
  "candidates k t (p # ps) = (case km_plane k p of
      None \<Rightarrow> candidates k t ps
    | Some pl \<Rightarrow> (if pl_crtc_id pl = t \<and> pl_fb_id pl \<noteq> 0 then [pl] else []) @ candidates k t ps)"
  by (simp_all add: candidates_def List.map_filter_def split: option.split)

lemma scan_planes_spec:
  assumes ids: "\<And>p pl. km_plane k p = Some pl \<Longrightarrow> pl_id pl \<noteq> 0"
  shows "scan_planes k t ps r = (case find (\<lambda>pl. is_primary_plane k (pl_id pl)) (candidates k t ps) of
      Some pl \<Rightarrow> pl_id pl
    | None \<Rightarrow> if r \<noteq> 0 then r else case candidates k t ps of [] \<Rightarrow> 0 | pl # _ \<Rightarrow> pl_id pl)"
proof (induction ps arbitrary: r)
  case (Cons p ps)
  show ?case
  proof (cases "km_plane k p")
    case (Some pl)
    then show ?thesis using Cons[of r] Cons[of 0] Cons[of "pl_id pl"] ids[OF Some]
      by (simp add: Let_def split: option.split)
  qed (simp add: Cons split: option.split)
qed simp

text \<open>
  C40. A grab reads the right plane: on a context with a CRTC, find_primary_plane answers the
  first plane bound to that CRTC, scanning out a framebuffer, whose type is primary; only when
  no such plane is primary, the first bound plane with a framebuffer; 0 when there is none. The
  CRTC of the context does not move.
\<close>

theorem plane_choice:
  assumes "crtc_id c \<noteq> 0" and "km_plane_res (v_kms env (tick c)) = Some ps"
    and "\<forall>p pl. km_plane (v_kms env (tick c)) p = Some pl \<longrightarrow> pl_id pl \<noteq> 0"
  shows "let k = v_kms env (tick c); cands = candidates k (crtc_id c) ps in
    fst (find_primary_plane env c) =
      (case find (\<lambda>pl. is_primary_plane k (pl_id pl)) cands of
        Some pl \<Rightarrow> pl_id pl
      | None \<Rightarrow> (case cands of [] \<Rightarrow> 0 | pl # _ \<Rightarrow> pl_id pl)) \<and>
    crtc_id (snd (find_primary_plane env c)) = crtc_id c"
  using assms by (simp add: find_primary_plane_def find_primary_plane_at_def scan_planes_spec step_clock_def Let_def)

theorem plane_choice_witness:
  "fst (find_primary_plane wit_env wit_ctx) = 7"
proof -
  have k: "v_kms wit_env (tick wit_ctx) = wit_kms" by (simp add: wit_env_def)
  have c: "crtc_id wit_ctx = 5" by (simp add: wit_ctx_def)
  have h: "crtc_id wit_ctx \<noteq> 0" "km_plane_res (v_kms wit_env (tick wit_ctx)) = Some [7]"
    "\<forall>p pl. km_plane (v_kms wit_env (tick wit_ctx)) p = Some pl \<longrightarrow> pl_id pl \<noteq> 0"
    unfolding k c by (simp_all add: wit_kms_def)
  from plane_choice[OF h] show ?thesis
    unfolding k c by (simp add: wit_kms_def is_primary_plane_def)
qed

section \<open>The rotation cache\<close>

lemma rotation_lookup_readable:
  "\<forall>p \<in> set props. \<exists>n. pr_name p = Inr n \<Longrightarrow>
    fst (rotation_lookup props e) = (case find (\<lambda>p. pr_name p = Inr ''rotation'') props of
      None \<Rightarrow> None | Some p \<Rightarrow> Some (pr_id p, pr_value p)) \<and> snd (rotation_lookup props e) = e"
  by (induction props) (auto split: option.split)

lemma prop_by_id_find:
  "distinct (map pr_id props) \<Longrightarrow> p \<in> set props \<Longrightarrow> prop_by_id (pr_id p) props = Some (pr_value p)"
  by (induction props) force+

lemma prop_named_find: "prop_named n props = map_option pr_value (find (\<lambda>p. pr_name p = Inr n) props)"
  by (induction props) auto

text \<open>
  The cached rotation answer is the fresh one: on a plane whose property table stands still
  and is readable, the first call looks the property up by name, the next finds it by its cached
  identifier (or recalls that there is none), and both answer what the table says: the value of
  the property named rotation, or -ENOTSUP.
\<close>

lemma rotation_cache_equiv:
  assumes mode: "\<not> is_render_only c" "grab_plane_id c \<noteq> 0"
    and cold: "rot_prop_plane_id c \<noteq> grab_plane_id c"
    and table: "\<And>t. km_props (v_kms env t) (grab_plane_id c) = Inr props"
    and read: "\<forall>p \<in> set props. \<exists>n. pr_name p = Inr n" and ids: "distinct (map pr_id props)"
  shows "let (r1, c1) = drmtap_plane_rotation env c; (r2, c2) = drmtap_plane_rotation env c1 in
    r1 = (case prop_named ''rotation'' props of None \<Rightarrow> Inl (- ENOTSUP) | Some v \<Rightarrow> Inr (ucast v)) \<and> r2 = r1"
proof (cases "find (\<lambda>p. pr_name p = Inr ''rotation'') props")
  case None
  then have look: "rotation_lookup props 0 = (None, 0)"
    using rotation_lookup_readable[OF read, of 0] by (simp add: prod_eq_iff)
  then show ?thesis using mode cold table None
    by (simp add: drmtap_plane_rotation_def prop_named_find step_clock_def Let_def)
next
  case (Some p)
  then have look: "rotation_lookup props 0 = (Some (pr_id p, pr_value p), 0)"
    using rotation_lookup_readable[OF read, of 0] by (simp add: prod_eq_iff)
  have "p \<in> set props" using Some by (auto simp: find_Some_iff)
  then have "prop_by_id (pr_id p) props = Some (pr_value p)" by (rule prop_by_id_find[OF ids])
  then show ?thesis using mode cold table look Some
    by (simp add: drmtap_plane_rotation_def prop_named_find step_clock_def Let_def)
qed

end
