(* ===== verification/Deswizzle.thy ===== *)
theory Deswizzle
  imports Memory
begin

text \<open>
  GPU tiling to linear (src/pixel_convert.c, drmtap_deswizzle and its two decoders). The
  loops are the code's, with every index in uint32_t arithmetic and every access bounded by
  the object it touches. The locale tiling states what a tile geometry owes a decoder: the
  in-tile offset is injective, stays inside the tile and keeps each 4-byte pixel contiguous;
  it is interpreted on Intel X and Y tiling. The reference encoder tile_image writes a linear
  image in tile order, and the decoders are shown to invert it.
\<close>

section \<open>The code\<close>

definition DRM_FORMAT_MOD_LINEAR :: u64 where "DRM_FORMAT_MOD_LINEAR = 0"
definition DRM_FORMAT_MOD_INVALID :: u64 where "DRM_FORMAT_MOD_INVALID = 0x00ffffffffffffff"
definition DRM_FORMAT_MOD_VENDOR_INTEL :: byte where "DRM_FORMAT_MOD_VENDOR_INTEL = 0x01"
definition DRM_FORMAT_MOD_VENDOR_NVIDIA :: byte where "DRM_FORMAT_MOD_VENDOR_NVIDIA = 0x03"

definition deswizzle_intel_x_tiled ::
  "obj \<Rightarrow> obj \<Rightarrow> u32 \<Rightarrow> u32 \<Rightarrow> u32 \<Rightarrow> u32 \<Rightarrow> u64 \<Rightarrow> heap \<Rightarrow> heap option" where
  "deswizzle_intel_x_tiled s d width height src_stride dst_stride src_size =
    (let bpp = 4; tile_w_bytes = 512; tile_h = 8;
         tiles_x = (src_stride + tile_w_bytes - 1) div tile_w_bytes in
     loop32 height (\<lambda>y.
       let tile_row = y div tile_h; tile_y = y mod tile_h in
       loop32 width (\<lambda>x hp.
         let x_bytes = x * bpp;
             tile_col = x_bytes div tile_w_bytes;
             tile_x_bytes = x_bytes mod tile_w_bytes;
             tile_idx = tile_row * tiles_x + tile_col;
             tile_size = tile_w_bytes * tile_h;
             src_off = tile_idx * tile_size + tile_y * tile_w_bytes + tile_x_bytes;
             dst_off = unat (y * dst_stride) + unat (x * bpp) in
         if ucast src_off + ucast bpp \<le> src_size
         then memcpy hp d dst_off s (unat src_off) (unat bpp)
         else memset hp d dst_off 0 (unat bpp))))"

definition deswizzle_intel_y_tiled ::
  "obj \<Rightarrow> obj \<Rightarrow> u32 \<Rightarrow> u32 \<Rightarrow> u32 \<Rightarrow> u32 \<Rightarrow> u64 \<Rightarrow> heap \<Rightarrow> heap option" where
  "deswizzle_intel_y_tiled s d width height src_stride dst_stride src_size =
    (let bpp = 4; tile_w_bytes = 128; tile_h = 32;
         tiles_x = (src_stride + tile_w_bytes - 1) div tile_w_bytes;
         oword = 16 in
     loop32 height (\<lambda>y.
       let tile_row = y div tile_h; tile_y = y mod tile_h in
       loop32 width (\<lambda>x hp.
         let x_bytes = x * bpp;
             tile_col = x_bytes div tile_w_bytes;
             in_tile_x = x_bytes mod tile_w_bytes;
             column = in_tile_x div oword;
             column_offset = in_tile_x mod oword;
             tile_idx = tile_row * tiles_x + tile_col;
             tile_size = tile_w_bytes * tile_h;
             src_off = tile_idx * tile_size + column * (oword * tile_h) + tile_y * oword
               + column_offset;
             dst_off = unat (y * dst_stride) + unat (x * bpp) in
         if ucast src_off + ucast bpp \<le> src_size
         then memcpy hp d dst_off s (unat src_off) (unat bpp)
         else memset hp d dst_off 0 (unat bpp))))"

text \<open>The row copy of the LINEAR and INVALID branches, the same loop twice in the code.\<close>

definition deswizzle_copy_rows ::
  "obj \<Rightarrow> obj \<Rightarrow> u32 \<Rightarrow> u32 \<Rightarrow> u32 \<Rightarrow> u32 \<Rightarrow> u64 \<Rightarrow> heap \<Rightarrow> heap option" where
  "deswizzle_copy_rows s d width height src_stride dst_stride src_size =
    loop32 height (\<lambda>y hp.
      let row_off = ucast y * ucast src_stride :: u64 in
      if src_size < row_off + ucast width * 4
      then memset hp d (unat (y * dst_stride)) 0 (unat (ucast width * 4 :: u64))
      else memcpy hp d (unat (y * dst_stride)) s (unat row_off) (unat (width * 4)))"

definition drmtap_deswizzle ::
  "obj option \<Rightarrow> obj option \<Rightarrow> u32 \<Rightarrow> u32 \<Rightarrow> u32 \<Rightarrow> u32 \<Rightarrow> u64 \<Rightarrow> u64 \<Rightarrow> heap
    \<Rightarrow> (int \<times> heap) option" where
  "drmtap_deswizzle src dst width height src_stride dst_stride modifier src_size hp =
    (case (src, dst) of
      (Some s, Some d) \<Rightarrow>
        if width = 0 \<or> height = 0 then Some (- EINVAL, hp)
        else
          let row_fits = (ucast width * 4 :: u64) \<le> ucast dst_stride;
              vendor = ucast (drop_bit 56 modifier) :: byte;
              mod_type = ucast (modifier AND 0xFF) :: byte;
              ok = map_option (Pair 0) in
          if modifier = DRM_FORMAT_MOD_LINEAR then
            (if \<not> row_fits then Some (- EINVAL, hp)
             else ok (deswizzle_copy_rows s d width height src_stride dst_stride src_size hp))
          else if vendor = DRM_FORMAT_MOD_VENDOR_INTEL then
            (if mod_type = 0x01 then
               (if \<not> row_fits then Some (- EINVAL, hp)
                else ok (deswizzle_intel_x_tiled s d width height src_stride dst_stride src_size hp))
             else if mod_type = 0x02 \<or> mod_type = 0x03 then
               (if \<not> row_fits then Some (- EINVAL, hp)
                else ok (deswizzle_intel_y_tiled s d width height src_stride dst_stride src_size hp))
             else Some (- ENOTSUP, hp))
          else if vendor = DRM_FORMAT_MOD_VENDOR_NVIDIA then Some (- ENOTSUP, hp)
          else if modifier = DRM_FORMAT_MOD_INVALID then
            (if \<not> row_fits then Some (- EINVAL, hp)
             else ok (deswizzle_copy_rows s d width height src_stride dst_stride src_size hp))
          else Some (- ENOTSUP, hp)
    | _ \<Rightarrow> Some (- EINVAL, hp))"

section \<open>Both decoders are one loop over an address function\<close>

definition tiled_copy ::
  "(u32 \<Rightarrow> u32 \<Rightarrow> u32) \<Rightarrow> obj \<Rightarrow> obj \<Rightarrow> u32 \<Rightarrow> u32 \<Rightarrow> u32 \<Rightarrow> u64 \<Rightarrow> heap \<Rightarrow> heap option" where
  "tiled_copy A s d width height dst_stride src_size =
    loop32 height (\<lambda>y. loop32 width (\<lambda>x hp.
            if ucast (A y x) + ucast (4 :: u32) \<le> src_size
      then memcpy hp d (unat (y * dst_stride) + unat (x * 4)) s (unat (A y x)) (unat (4 :: u32))
      else memset hp d (unat (y * dst_stride) + unat (x * 4)) 0 (unat (4 :: u32))))"

definition x_addr32 :: "u32 \<Rightarrow> u32 \<Rightarrow> u32 \<Rightarrow> u32" where
  "x_addr32 src_stride y x =
    (y div 8 * ((src_stride + 512 - 1) div 512) + x * 4 div 512) * (512 * 8)
      + y mod 8 * 512 + x * 4 mod 512"

definition y_addr32 :: "u32 \<Rightarrow> u32 \<Rightarrow> u32 \<Rightarrow> u32" where
  "y_addr32 src_stride y x =
    (y div 32 * ((src_stride + 128 - 1) div 128) + x * 4 div 128) * (128 * 32)
      + x * 4 mod 128 div 16 * (16 * 32) + y mod 32 * 16 + x * 4 mod 128 mod 16"

lemma x_tiled_eq: "deswizzle_intel_x_tiled s d w h ss ds n = tiled_copy (x_addr32 ss) s d w h ds n"
  unfolding deswizzle_intel_x_tiled_def tiled_copy_def x_addr32_def Let_def by (rule refl)

lemma y_tiled_eq: "deswizzle_intel_y_tiled s d w h ss ds n = tiled_copy (y_addr32 ss) s d w h ds n"
  unfolding deswizzle_intel_y_tiled_def tiled_copy_def y_addr32_def Let_def by (rule refl)

text \<open>The pixel a decoder stores: the four source bytes, or zero past the end of the source.\<close>

definition fetch4 :: "byte list \<Rightarrow> nat \<Rightarrow> nat \<Rightarrow> byte list" where
  "fetch4 cs sz off = (if off + 4 \<le> sz then take 4 (drop off cs) else replicate 4 0)"

lemma length_fetch4: "sz \<le> length cs \<Longrightarrow> length (fetch4 cs sz off) = 4"
  by (simp add: fetch4_def)

lemma tiled_copy_result:
  assumes src: "hp s = Some cs" "unat n \<le> length cs" and dst: "hp d = Some cd" and sd: "s \<noteq> d"
    and S: "4 * unat w \<le> unat S" "unat h * unat S \<le> length cd" "unat h * unat S \<le> 2 ^ 32"
  shows "tiled_copy A s d w h S n hp = Some (hp(d \<mapsto>
    patch_rows cd (unat S) (\<lambda>y. concat (map (\<lambda>x. fetch4 cs (unat n)
      (unat (A (of_nat y) (of_nat x)))) [0..<unat w])) (unat h)))"
proof -
  let ?px = "\<lambda>y x. fetch4 cs (unat n) (unat (A (of_nat y) (of_nat x)))"
  let ?row = "\<lambda>y. concat (map (?px y) [0..<unat w])"
  let ?body = "\<lambda>y x hp. if ucast (A y x) + ucast (4 :: u32) \<le> n
      then memcpy hp d (unat (y * S) + unat (x * 4)) s (unat (A y x)) (unat (4 :: u32))
      else memset hp d (unat (y * S) + unat (x * 4)) 0 (unat (4 :: u32))"
  have step: "?body (of_nat y) (of_nat x) (hp(d \<mapsto> c'))
      = Some (hp(d \<mapsto> patch c' (y * unat S + 4 * x) (?px y x)))"
    if yx: "y < unat h" "x < unat w" and c': "length c' = length cd" for y x c'
  proof -
    have le: "y * unat S + (4 * x + 4) \<le> length cd"
      using yx(2) S by (intro row_in_bounds[OF yx(1) _ S(2)]) linarith
    have off: "unat (of_nat x * 4 :: u32) = 4 * x" "unat (of_nat y * S :: u32) = y * unat S"
      using dst_offsets[OF yx(2,1) S(1,3)] by auto
    show ?thesis
      using le c' src sd by (simp add: off fetch4_def word_le_nat_alt rd_in_bounds
        wr_in_bounds add.assoc memcpy_distinct memset_def)
  qed
  have row: "loop (unat w) (\<lambda>x. ?body (of_nat y) (of_nat x)) (hp(d \<mapsto> c'))
      = Some (hp(d \<mapsto> patch c' (y * unat S) (?row y)))"
    if y: "y < unat h" and c': "length c' = length cd" for y c'
  proof (rule row_loop[where n = 4, OF c'])
    show "y * unat S + 4 * unat w \<le> length cd"
      using row_in_bounds[OF y S(1,2)] .
    show "length (?px y x) = 4" for x using length_fetch4[OF src(2)] .
  qed (use step[OF y] in simp)
  have len: "length (?row y) = 4 * unat w" for y
    using length_fetch4[OF src(2)] by (subst length_concat_const[where n = 4]) auto
  have "loop (unat h) (\<lambda>y. loop (unat w) (\<lambda>x. ?body (of_nat y) (of_nat x))) (hp(d \<mapsto> cd))
      = Some (hp(d \<mapsto> patch_rows cd (unat S) ?row (unat h)))"
    by (rule frame_loop[OF refl S(2,1) len]) (rule row)
  moreover have "hp(d \<mapsto> cd) = hp" using dst by auto
  ultimately show ?thesis unfolding tiled_copy_def loop32_def by (simp only:)
qed

lemma tiled_copy_framed:
  assumes "hp s = Some cs" "unat n \<le> length cs" "hp d = Some cd" "s \<noteq> d"
    "4 * unat w \<le> unat S" "unat h * unat S \<le> length cd" "unat h * unat S \<le> 2 ^ 32"
  shows "\<exists>cd'. tiled_copy A s d w h S n hp = Some (hp(d \<mapsto> cd')) \<and>
    framed cd cd' (unat w) (unat h) (unat S)
      (\<lambda>y x. fetch4 cs (unat n) (unat (A (of_nat y) (of_nat x))))"
  by (intro exI conjI, rule tiled_copy_result[OF assms], rule framed_patch_rows[OF assms(5,6)])
    (rule length_fetch4[OF assms(2)])

section \<open>Tile geometry as an interface\<close>

definition tile_addr :: "nat \<Rightarrow> nat \<Rightarrow> (nat \<Rightarrow> nat \<Rightarrow> nat) \<Rightarrow> nat \<Rightarrow> nat \<Rightarrow> nat \<Rightarrow> nat" where
  "tile_addr tw th f tiles y xb =
    (y div th * tiles + xb div tw) * (tw * th) + f (y mod th) (xb mod tw)"

text \<open>The reference encoder: writes a linear image in tile order, pixel by pixel.\<close>

definition pixels :: "nat \<Rightarrow> nat \<Rightarrow> (nat \<times> nat) list" where
  "pixels w h = List.product [0..<h] [0..<w]"

definition tile_image ::
  "nat \<Rightarrow> nat \<Rightarrow> (nat \<Rightarrow> nat \<Rightarrow> nat) \<Rightarrow> nat \<Rightarrow> nat \<Rightarrow> nat \<Rightarrow> (nat \<Rightarrow> nat \<Rightarrow> byte list) \<Rightarrow> nat \<Rightarrow> byte list" where
  "tile_image tw th f tiles w h img n =
    fold (\<lambda>(y, x) T. patch T (tile_addr tw th f tiles y (4 * x)) (img y x)) (pixels w h)
      (replicate n 0)"

lemma fold_patch_length:
  assumes "\<And>p. p \<in> set ps \<Longrightarrow> A p + length (v p) \<le> length T"
  shows "length (fold (\<lambda>p T. patch T (A p) (v p)) ps T) = length T"
  using assms by (induction ps arbitrary: T) auto

lemma fold_patch_nth_other:
  assumes "\<And>p. p \<in> set ps \<Longrightarrow> A p + length (v p) \<le> length T"
    and "\<And>p. p \<in> set ps \<Longrightarrow> i < A p \<or> A p + length (v p) \<le> i" and "i < length T"
  shows "fold (\<lambda>p T. patch T (A p) (v p)) ps T ! i = T ! i"
  using assms
proof (induction ps arbitrary: T)
  case (Cons q ps)
  have "A q + length (v q) \<le> length T" "i < A q \<or> A q + length (v q) \<le> i"
    using Cons.prems by auto
  then have "patch T (A q) (v q) ! i = T ! i" "length (patch T (A q) (v q)) = length T"
    using Cons.prems(3) by (auto simp: nth_patch)
  with Cons show ?case by simp
qed simp

lemma fold_patch_nth:
  assumes "\<And>p. p \<in> set ps \<Longrightarrow> A p + length (v p) \<le> length T"
    and "distinct ps" "p \<in> set ps" "k < length (v p)"
    and "\<And>q. q \<in> set ps \<Longrightarrow> q \<noteq> p \<Longrightarrow> A p + k < A q \<or> A q + length (v q) \<le> A p + k"
  shows "fold (\<lambda>p T. patch T (A p) (v p)) ps T ! (A p + k) = v p ! k"
  using assms
proof (induction ps arbitrary: T)
  case (Cons q ps)
  have b: "A p + length (v p) \<le> length T" using Cons.prems(1,3) by blast
  show ?case
  proof (cases "q = p")
    case True
    have "fold (\<lambda>p T. patch T (A p) (v p)) ps (patch T (A p) (v p)) ! (A p + k)
        = patch T (A p) (v p) ! (A p + k)"
    proof (rule fold_patch_nth_other)
      fix r assume r: "r \<in> set ps"
      show "A r + length (v r) \<le> length (patch T (A p) (v p))"
        using Cons.prems(1) r b by simp
      have "r \<noteq> p" using r Cons.prems(2) True by auto
      then show "A p + k < A r \<or> A r + length (v r) \<le> A p + k"
        using Cons.prems(5)[of r] r by simp
    qed (use b Cons.prems(4) in simp)
    then show ?thesis using True b Cons.prems(4) by (simp add: nth_patch)
  next
    case False
    have "A q + length (v q) \<le> length T" using Cons.prems(1) by simp
    then have "A r + length (v r) \<le> length (patch T (A q) (v q))" if "r \<in> set ps" for r
      using Cons.prems(1) that by simp
    then show ?thesis using Cons.prems False by (auto intro!: Cons.IH)
  qed
qed simp

lemma div_mod_unique:
  "(r :: nat) < t \<Longrightarrow> (q * t + r) div t = q \<and> (q * t + r) mod t = r"
  by simp

locale tiling =
  fixes tw th :: nat and in_tile :: "nat \<Rightarrow> nat \<Rightarrow> nat"
  assumes tw_pos: "0 < tw" and tw4: "4 dvd tw" and th_pos: "0 < th"
    and in_tile_bound: "r < th \<Longrightarrow> c < tw \<Longrightarrow> in_tile r c < tw * th"
    and in_tile_inj: "r < th \<Longrightarrow> c < tw \<Longrightarrow> r' < th \<Longrightarrow> c' < tw \<Longrightarrow>
      in_tile r c = in_tile r' c' \<Longrightarrow> r = r' \<and> c = c'"
    and in_tile_pixel: "r < th \<Longrightarrow> c < tw \<Longrightarrow> 4 dvd c \<Longrightarrow> k < 4 \<Longrightarrow>
      in_tile r (c + k) = in_tile r c + k"
begin

abbreviation addr where "addr \<equiv> tile_addr tw th in_tile"

lemma addr_split:
  "addr tiles y xb div (tw * th) = y div th * tiles + xb div tw"
  "addr tiles y xb mod (tw * th) = in_tile (y mod th) (xb mod tw)"
  using in_tile_bound[of "y mod th" "xb mod tw"] tw_pos th_pos
  by (simp_all add: tile_addr_def div_mult_self3)

lemma tile_index_inj:
  fixes a b c d tiles :: nat
  assumes "a * tiles + b = c * tiles + d" "b < tiles" "d < tiles"
  shows "a = c \<and> b = d"
proof -
  have "(a * tiles + b) div tiles = a" "(c * tiles + d) div tiles = c"
    "(a * tiles + b) mod tiles = b" "(c * tiles + d) mod tiles = d"
    using assms(2,3) by simp_all
  then show ?thesis using assms(1) by simp
qed

lemma addr_inj:
  assumes "addr tiles y xb = addr tiles y' xb'" "xb < tiles * tw" "xb' < tiles * tw"
  shows "y = y' \<and> xb = xb'"
proof -
  have "y div th * tiles + xb div tw = y' div th * tiles + xb' div tw"
    using assms(1) addr_split(1) by metis
  moreover have "xb div tw < tiles" "xb' div tw < tiles"
    using assms(2,3) tw_pos by (simp_all add: less_mult_imp_div_less)
  ultimately have d: "y div th = y' div th \<and> xb div tw = xb' div tw"
    by (rule tile_index_inj)
  have "in_tile (y mod th) (xb mod tw) = in_tile (y' mod th) (xb' mod tw)"
    using assms(1) addr_split(2) by metis
  then have "y mod th = y' mod th \<and> xb mod tw = xb' mod tw"
    using tw_pos th_pos by (intro in_tile_inj) auto
  with d show ?thesis by (metis div_mult_mod_eq)
qed

lemma addr_pixel:
  assumes "k < 4"
  shows "addr tiles y (4 * x + k) = addr tiles y (4 * x) + k"
proof -
  obtain m where m: "tw = 4 * m" using tw4 by (auto elim: dvdE)
  have r: "4 * x mod tw = 4 * (x mod m)" by (simp only: m mult_mod_right)
  have "x mod m < m" using tw_pos m by (intro mod_less_divisor) linarith
  then have "4 * (x mod m) + k < 4 * m" using assms by linarith
  then have mm: "4 * x mod tw + k < tw" by (simp only: r m[symmetric])
  have "4 * x + k = 4 * x div tw * tw + (4 * x mod tw + k)"
    using div_mult_mod_eq[of "4 * x" tw] by linarith
  with div_mod_unique[OF mm, of "4 * x div tw"]
  have "(4 * x + k) div tw = 4 * x div tw" "(4 * x + k) mod tw = 4 * x mod tw + k"
    by (simp_all only:)
  moreover have "in_tile (y mod th) (4 * x mod tw + k) = in_tile (y mod th) (4 * x mod tw) + k"
    using tw_pos th_pos assms by (intro in_tile_pixel) (auto simp: m dvd_mod_iff)
  ultimately show ?thesis by (simp add: tile_addr_def)
qed

lemma addr_bound:
  assumes "y < rows * th" "xb < tiles * tw"
  shows "addr tiles y xb < rows * tiles * (tw * th)"
proof -
  have "y div th < rows" "xb div tw < tiles"
    using assms by (simp_all add: less_mult_imp_div_less)
  then have "y div th * tiles + xb div tw < rows * tiles"
    using times_Suc_le[of "y div th" rows tiles] by linarith
  then have "(y div th * tiles + xb div tw) * (tw * th) + tw * th \<le> rows * tiles * (tw * th)"
    by (rule times_Suc_le)
  moreover have "in_tile (y mod th) (xb mod tw) < tw * th"
    using tw_pos th_pos by (intro in_tile_bound) auto
  ultimately show ?thesis by (simp add: tile_addr_def)
qed

lemma addr_pixel_bound:
  assumes "y < rows * th" "4 * x < tiles * tw"
  shows "addr tiles y (4 * x) + 4 \<le> rows * tiles * (tw * th)"
proof -
  obtain m where m: "tw = 4 * m" using tw4 by (auto elim: dvdE)
  have "4 * x < 4 * (tiles * m)" using assms(2) m by simp
  then have "4 * x + 3 < tiles * tw" using m by simp
  from addr_bound[OF assms(1) this] addr_pixel[of 3 tiles y x] show ?thesis by simp
qed

lemma tile_image_lookup:
  assumes "y < h" "x < w" "h \<le> rows * th" "4 * w \<le> tiles * tw"
    "rows * tiles * (tw * th) \<le> n"
    "\<And>y x. y < h \<Longrightarrow> x < w \<Longrightarrow> length (img y x) = 4"
  shows "take 4 (drop (addr tiles y (4 * x)) (tile_image tw th in_tile tiles w h img n)) = img y x"
    and "length (tile_image tw th in_tile tiles w h img n) = n"
proof -
  let ?A = "\<lambda>p. addr tiles (fst p) (4 * snd p)" and ?v = "\<lambda>p. img (fst p) (snd p)"
  let ?T = "tile_image tw th in_tile tiles w h img n"
  have T: "?T = fold (\<lambda>p T. patch T (?A p) (?v p)) (pixels w h) (replicate n 0)"
    unfolding tile_image_def by (intro arg_cong[where f = "\<lambda>g. fold g _ _"]) (auto simp: fun_eq_iff)
  have dist: "distinct (pixels w h)" by (simp add: pixels_def distinct_product)
  have mem: "p \<in> set (pixels w h) \<longleftrightarrow> fst p < h \<and> snd p < w" for p
    by (cases p) (auto simp: pixels_def)
  have len: "length (?v p) = 4" if "p \<in> set (pixels w h)" for p
    using that assms(6) mem by blast
  have bd: "?A p + length (?v p) \<le> length (replicate n (0 :: byte))" if p: "p \<in> set (pixels w h)" for p
  proof -
    have "fst p < h" "snd p < w" using p mem by auto
    then have "fst p < rows * th" "4 * snd p < tiles * tw" using assms(3,4) by linarith+
    from addr_pixel_bound[OF this] show ?thesis using len[OF p] assms(5) by simp
  qed
  show len_T: "length ?T = n" unfolding T using fold_patch_length[OF bd] by simp
  have nth: "?T ! (addr tiles y (4 * x) + k) = img y x ! k" if k: "k < 4" for k
  proof -
    have "?T ! (?A (y, x) + k) = ?v (y, x) ! k"
      unfolding T
    proof (rule fold_patch_nth[OF bd dist])
      show "(y, x) \<in> set (pixels w h)" using assms(1,2) mem by simp
      show "k < length (?v (y, x))" using assms(1,2,6) k by simp
    next
      fix q assume q: "q \<in> set (pixels w h)" and ne: "q \<noteq> (y, x)"
      show "?A (y, x) + k < ?A q \<or> ?A q + length (?v q) \<le> ?A (y, x) + k"
      proof (rule ccontr)
        assume "\<not> ?thesis"
        then obtain j where j: "?A (y, x) + k = ?A q + j" "j < 4"
          using len[OF q] by (metis le_iff_add linorder_not_less nat_add_left_cancel_less)
        have "4 * x + k < tiles * tw" "4 * snd q + j < tiles * tw"
          using k j(2) assms(2,4) q mem[of q] by linarith+
        with j k have "y = fst q \<and> 4 * x + k = 4 * snd q + j"
          by (intro addr_inj[of tiles]) (simp_all add: addr_pixel)
        then have "y = fst q" "x = snd q" using k j(2) by presburger+
        then show False using ne by simp
      qed
    qed
    then show ?thesis by simp
  qed
  have "y < rows * th" "4 * x < tiles * tw" using assms(1-4) by linarith+
  from addr_pixel_bound[OF this] have "addr tiles y (4 * x) + 4 \<le> length ?T"
    using assms(5) len_T by linarith
  then show "take 4 (drop (addr tiles y (4 * x)) ?T) = img y x"
    using nth assms(1,2,6) by (intro nth_equalityI) auto
qed

end

context tiling
begin

lemma tiled_copy_image:
  assumes tiled: "hp s = Some (tile_image tw th in_tile tiles (unat w) (unat h) img (unat n))"
    and dst: "hp d = Some cd" "s \<noteq> d" "unat h * unat S \<le> length cd" "unat h * unat S \<le> 2 ^ 32"
    and dims: "w \<noteq> 0" "h \<noteq> 0" "4 * unat w \<le> unat S" "4 * unat w \<le> tiles * tw"
    and footprint: "unat h \<le> rows * th" "rows * tiles * (tw * th) \<le> unat n"
    and img: "\<And>y x. length (img y x) = 4"
    and A: "\<And>y x. y < unat h \<Longrightarrow> x < unat w \<Longrightarrow> y < rows * th \<Longrightarrow> 4 * x < tiles * tw \<Longrightarrow>
      unat (A (of_nat y) (of_nat x)) = addr tiles y (4 * x)"
  shows "\<exists>cd'. tiled_copy A s d w h S n hp = Some (hp(d \<mapsto> cd')) \<and>
    framed cd cd' (unat w) (unat h) (unat S) img"
proof -
  let ?cs = "tile_image tw th in_tile tiles (unat w) (unat h) img (unat n)"
  have look: "take 4 (drop (addr tiles y (4 * x)) ?cs) = img y x"
    and len: "length ?cs = unat n" if "y < unat h" "x < unat w" for y x
    using tile_image_lookup[OF that footprint(1) dims(4) footprint(2) img] by auto
  have cs_len: "unat n \<le> length ?cs"
    using len[of 0 0] dims(1,2) by (simp add: unat_gt_0)
  obtain cd' where cd': "tiled_copy A s d w h S n hp = Some (hp(d \<mapsto> cd'))"
    "framed cd cd' (unat w) (unat h) (unat S)
      (\<lambda>y x. fetch4 ?cs (unat n) (unat (A (of_nat y) (of_nat x))))"
    using tiled_copy_framed[OF tiled cs_len dst(1,2) dims(3) dst(3,4)] by blast
  have px: "fetch4 ?cs (unat n) (unat (A (of_nat y) (of_nat x))) = img y x"
    if yx: "y < unat h" "x < unat w" for y x
  proof -
    have b: "y < rows * th" "4 * x < tiles * tw" using yx footprint(1) dims(4) by linarith+
    show ?thesis
      using addr_pixel_bound[OF b] look[OF yx] footprint(2) unfolding A[OF yx b]
      by (simp add: fetch4_def)
  qed
  from cd'(1) framed_cong[OF cd'(2) px] show ?thesis by blast
qed

end

section \<open>Intel X and Y tiling provide the interface\<close>

definition x_in_tile :: "nat \<Rightarrow> nat \<Rightarrow> nat" where
  "x_in_tile r c = r * 512 + c"

definition y_in_tile :: "nat \<Rightarrow> nat \<Rightarrow> nat" where
  "y_in_tile r c = c div 16 * 512 + r * 16 + c mod 16"

lemma y_in_tile_div:
  assumes "r < 32"
  shows "y_in_tile r c div 16 div 32 = c div 16" "y_in_tile r c div 16 mod 32 = r"
    "y_in_tile r c mod 16 = c mod 16"
proof -
  have "y_in_tile r c = (c div 16 * 32 + r) * 16 + c mod 16"
    by (simp add: y_in_tile_def algebra_simps)
  moreover have "c mod 16 < 16" by simp
  ultimately have q: "y_in_tile r c div 16 = c div 16 * 32 + r" "y_in_tile r c mod 16 = c mod 16"
    using div_mod_unique by metis+
  show "y_in_tile r c mod 16 = c mod 16" by (rule q(2))
  show "y_in_tile r c div 16 div 32 = c div 16" "y_in_tile r c div 16 mod 32 = r"
    unfolding q(1) using div_mod_unique[OF assms, of "c div 16"] by blast+
qed

interpretation xt: tiling 512 8 x_in_tile
proof
  show "r = r' \<and> c = c'"
    if "x_in_tile r c = x_in_tile r' c'" "c < 512" "c' < 512" for r c r' c'
    using that div_mod_unique[of c 512 r] div_mod_unique[of c' 512 r']
    by (simp add: x_in_tile_def)
qed (auto simp: x_in_tile_def)

interpretation yt: tiling 128 32 y_in_tile
proof
  show "r = r' \<and> c = c'"
    if "y_in_tile r c = y_in_tile r' c'" "r < 32" "r' < 32" for r c r' c'
    using that y_in_tile_div[of r c] y_in_tile_div[of r' c'] by (metis div_mult_mod_eq)
  show "y_in_tile r c < 128 * 32" if "r < 32" "c < 128" for r c
  proof -
    have "c div 16 \<le> 7" using that(2) by linarith
    then show ?thesis using that(1) mod_less_divisor[of 16 c] unfolding y_in_tile_def by linarith
  qed
  show "y_in_tile r (c + k) = y_in_tile r c + k" if "4 dvd c" "k < 4" for r c k
  proof -
    have "4 dvd c mod 16" using that(1) by (simp add: dvd_mod)
    then obtain z where z: "c mod 16 = 4 * z" by (elim dvdE)
    have "c mod 16 < 16" by simp
    then have "z < 4" unfolding z by simp
    then have "4 * z + k < 16" using that(2) by linarith
    then have lt: "c mod 16 + k < 16" unfolding z .
    have "c + k = c div 16 * 16 + (c mod 16 + k)" using div_mult_mod_eq[of c 16] by linarith
    with div_mod_unique[OF lt, of "c div 16"]
    have "(c + k) div 16 = c div 16 \<and> (c + k) mod 16 = c mod 16 + k" by (simp only:)
    then show ?thesis by (simp add: y_in_tile_def)
  qed
qed auto

text \<open>
  The decoders compute these addresses in uint32_t. Under a footprint of at most 4 GiB no
  step wraps, and the code's offset is the tile address.
\<close>

definition tiles_across :: "nat \<Rightarrow> u32 \<Rightarrow> nat" where
  "tiles_across tw stride = (unat stride + tw - 1) div tw"

lemma tiles_across_cover:
  "0 < tw \<Longrightarrow> unat stride \<le> tiles_across tw stride * tw"
  using dividend_less_div_times[of tw "unat stride + tw - 1"] unfolding tiles_across_def
  by linarith

lemma x_addr_unat:
  fixes b t a :: u32
  assumes "(unat b div 8 * unat t + unat a div 512) * (512 * 8) + unat b mod 8 * 512
    + unat a mod 512 < 2 ^ 32"
  shows "unat ((b div 8 * t + a div 512) * (512 * 8) + b mod 8 * 512 + a mod 512)
    = (unat b div 8 * unat t + unat a div 512) * (512 * 8) + unat b mod 8 * 512 + unat a mod 512"
  using assms by (simp add: unat_word_ariths unat_div unat_mod mod_simps)

lemma y_addr_unat:
  fixes b t a :: u32
  assumes "(unat b div 32 * unat t + unat a div 128) * (128 * 32) + (unat a mod 128 div 16 * (16 * 32)
    + unat b mod 32 * 16 + unat a mod 128 mod 16) < 2 ^ 32"
  shows "unat ((b div 32 * t + a div 128) * (128 * 32) + a mod 128 div 16 * (16 * 32)
      + b mod 32 * 16 + a mod 128 mod 16)
    = (unat b div 32 * unat t + unat a div 128) * (128 * 32) + (unat a mod 128 div 16 * (16 * 32)
      + unat b mod 32 * 16 + unat a mod 128 mod 16)"
  using assms by (simp add: unat_word_ariths unat_div unat_mod mod_simps)

lemma x_addr32_eq:
  assumes "4 * x < 2 ^ 32" "y < 2 ^ 32" "unat ss + 511 < 2 ^ 32"
    "4 * x < tiles_across 512 ss * 512" "y < rows * 8"
    "rows * tiles_across 512 ss * 4096 \<le> 2 ^ 32"
  shows "unat (x_addr32 ss (of_nat y) (of_nat x)) = tile_addr 512 8 x_in_tile (tiles_across 512 ss) y (4 * x)"
proof -
  let ?T = "tiles_across 512 ss"
  have x4: "unat (of_nat x * 4 :: u32) = 4 * x"
    using assms(1) by (subst unat_mult_small) (simp_all add: unat_of_nat take_bit_nat_eq_self_iff)
  have y: "unat (of_nat y :: u32) = y"
    using assms(2) by (simp add: unat_of_nat take_bit_nat_eq_self_iff)
  have T: "unat ((ss + 512 - 1) div 512) = ?T"
  proof -
    have "unat (511 + ss) = 511 + unat ss" using assms(3) by (subst unat_add_small) simp_all
    then show ?thesis by (simp add: unat_div tiles_across_def)
  qed
  have "tile_addr 512 8 x_in_tile ?T y (4 * x) < rows * ?T * (512 * 8)"
    using assms(4,5) by (intro xt.addr_bound) auto
  then have lt: "(y div 8 * ?T + 4 * x div 512) * (512 * 8) + y mod 8 * 512 + 4 * x mod 512 < 2 ^ 32"
    using assms(6) by (simp add: tile_addr_def x_in_tile_def)
  show ?thesis
    using x_addr_unat[of "of_nat y" "(ss + 512 - 1) div 512" "of_nat x * 4"] lt
    by (simp only: x_addr32_def x4 y T tile_addr_def x_in_tile_def add.assoc)
qed

lemma y_addr32_eq:
  assumes "4 * x < 2 ^ 32" "y < 2 ^ 32" "unat ss + 127 < 2 ^ 32"
    "4 * x < tiles_across 128 ss * 128" "y < rows * 32"
    "rows * tiles_across 128 ss * 4096 \<le> 2 ^ 32"
  shows "unat (y_addr32 ss (of_nat y) (of_nat x)) = tile_addr 128 32 y_in_tile (tiles_across 128 ss) y (4 * x)"
proof -
  let ?T = "tiles_across 128 ss"
  have x4: "unat (of_nat x * 4 :: u32) = 4 * x"
    using assms(1) by (subst unat_mult_small) (simp_all add: unat_of_nat take_bit_nat_eq_self_iff)
  have y: "unat (of_nat y :: u32) = y"
    using assms(2) by (simp add: unat_of_nat take_bit_nat_eq_self_iff)
  have T: "unat ((ss + 128 - 1) div 128) = ?T"
  proof -
    have "unat (127 + ss) = 127 + unat ss" using assms(3) by (subst unat_add_small) simp_all
    then show ?thesis by (simp add: unat_div tiles_across_def)
  qed
  have "tile_addr 128 32 y_in_tile ?T y (4 * x) < rows * ?T * (128 * 32)"
    using assms(4,5) by (intro yt.addr_bound) auto
  then have lt: "(y div 32 * ?T + 4 * x div 128) * (128 * 32)
      + (4 * x mod 128 div 16 * 512 + y mod 32 * 16 + 4 * x mod 128 mod 16) < 2 ^ 32"
    using assms(6) unfolding tile_addr_def y_in_tile_def by simp
  show ?thesis
    using y_addr_unat[of "of_nat y" "(ss + 128 - 1) div 128" "of_nat x * 4"] lt
    by (simp only: y_addr32_def x4 y T tile_addr_def y_in_tile_def add.assoc)
qed

section \<open>The row copy\<close>

definition copied_row :: "byte list \<Rightarrow> nat \<Rightarrow> nat \<Rightarrow> nat \<Rightarrow> byte list" where
  "copied_row cs sz off n = (if sz < off + n then replicate n 0 else take n (drop off cs))"

lemma copy_rows_result:
  assumes src: "hp s = Some cs" "unat n \<le> length cs" and dst: "hp d = Some cd" and sd: "s \<noteq> d"
    and S: "4 * unat w \<le> unat S" "unat h * unat S \<le> length cd" "unat h * unat S \<le> 2 ^ 32"
    and w: "0 < unat w"
  shows "deswizzle_copy_rows s d w h ss S n hp = Some (hp(d \<mapsto>
    patch_rows cd (unat S) (\<lambda>y. copied_row cs (unat n) (y * unat ss) (4 * unat w)) (unat h)))"
proof -
  let ?row = "\<lambda>y. copied_row cs (unat n) (y * unat ss) (4 * unat w)"
  let ?body = "\<lambda>y hp. let row_off = ucast y * ucast ss :: u64 in
      if n < row_off + ucast w * 4
      then memset hp d (unat (y * S)) 0 (unat (ucast w * 4 :: u64))
      else memcpy hp d (unat (y * S)) s (unat row_off) (unat (w * 4))"
  have w4: "unat w * 4 < 4294967296" using S(1) unat_u32_bound[of S] by linarith
  have w4': "unat (w * 4) = unat w * 4" using w4 by (subst unat_mult_small) simp_all
  have len: "length (?row y) = 4 * unat w" for y using src(2) by (simp add: copied_row_def)
  have step: "?body (of_nat y) (hp(d \<mapsto> c')) = Some (hp(d \<mapsto> patch c' (y * unat S) (?row y)))"
    if y: "y < unat h" and c': "length c' = length cd" for y c'
  proof -
    have off: "unat (of_nat y * S :: u32) = y * unat S"
      using dst_offsets(2)[OF w y S(1,3)] .
    have le: "y * unat S + 4 * unat w \<le> length cd" using row_in_bounds[OF y S(1,2)] .
    show ?thesis
    proof (cases "unat n < y * unat ss + 4 * unat w")
      case True
      then show ?thesis using le c' y w4
        by (simp add: off copied_row_def wr_in_bounds memcpy_distinct memset_def word_less_nat_alt unat_mult_add_u64 mult.commute[of 4])
    next
      case False
      then have "rd (hp(d \<mapsto> c')) s (y * unat ss) (4 * unat w) = Some (?row y)"
        using src sd by (simp add: rd_in_bounds copied_row_def)
      then show ?thesis using le c' y w4 False len[of y] sd
        by (simp add: off w4' wr_in_bounds memcpy_distinct memset_def word_less_nat_alt unat_mult_add_u64 mult.commute[of 4])
    qed
  qed
  have "loop (unat h) (\<lambda>y. ?body (of_nat y)) (hp(d \<mapsto> cd))
      = Some (hp(d \<mapsto> patch_rows cd (unat S) ?row (unat h)))"
    by (rule frame_loop[OF refl S(2,1) len]) (rule step)
  moreover have "hp(d \<mapsto> cd) = hp" using dst by auto
  ultimately show ?thesis unfolding deswizzle_copy_rows_def loop32_def by (simp only:)
qed

section \<open>drmtap_deswizzle\<close>

lemmas deswizzle_defs = drmtap_deswizzle_def x_tiled_eq y_tiled_eq DRM_FORMAT_MOD_LINEAR_def
  DRM_FORMAT_MOD_INVALID_def DRM_FORMAT_MOD_VENDOR_INTEL_def DRM_FORMAT_MOD_VENDOR_NVIDIA_def

lemma row_fits_iff: "(ucast (w :: u32) * 4 :: u64) \<le> ucast (S :: u32) \<longleftrightarrow> 4 * unat w \<le> unat S"
  by (simp add: word_le_nat_alt mult.commute)

text \<open>The modifiers the CPU decoder accepts; everything else is a layout it does not know.\<close>

definition cpu_decodable :: "u64 \<Rightarrow> bool" where
  "cpu_decodable m \<longleftrightarrow> m = DRM_FORMAT_MOD_LINEAR \<or> m = DRM_FORMAT_MOD_INVALID \<or>
    (ucast (drop_bit 56 m) = DRM_FORMAT_MOD_VENDOR_INTEL \<and>
      ucast (m AND 0xFF) \<in> {0x01, 0x02, 0x03 :: byte})"

lemma deswizzle_bounds:
  assumes "hp s = Some cs" "unat src_size \<le> length cs" "hp d = Some cd" "s \<noteq> d"
    and "unat height * unat dst_stride \<le> length cd" "unat height * unat dst_stride \<le> 2 ^ 32"
  shows "\<exists>r cd'. drmtap_deswizzle (Some s) (Some d) width height src_stride dst_stride
      modifier src_size hp = Some (r, hp(d \<mapsto> cd')) \<and>
    length cd' = length cd \<and> (r \<noteq> 0 \<longrightarrow> cd' = cd) \<and> r \<in> {0, - EINVAL, - ENOTSUP}"
proof (cases "width = 0 \<or> \<not> 4 * unat width \<le> unat dst_stride")
  case True
  have same: "hp(d \<mapsto> cd) = hp" using assms(3) by auto
  have "width = 0 \<or> \<not> (ucast width * 4 :: u64) \<le> ucast dst_stride"
    using True unfolding row_fits_iff by linarith
  then have "\<exists>r. drmtap_deswizzle (Some s) (Some d) width height src_stride dst_stride
      modifier src_size hp = Some (r, hp) \<and> r \<in> {0, - EINVAL, - ENOTSUP}"
    unfolding drmtap_deswizzle_def by (auto simp: Let_def)
  then show ?thesis using same by metis
next
  case False
  then have S: "4 * unat width \<le> unat dst_stride" and w: "0 < unat width"
    by (simp_all add: unat_gt_0)
  have copy: "\<exists>cd'. deswizzle_copy_rows s d width height src_stride dst_stride src_size hp
      = Some (hp(d \<mapsto> cd')) \<and> length cd' = length cd"
    using copy_rows_result[OF assms(1-4) S assms(5,6) w, of src_stride]
      framed_rows[OF S assms(5), of "\<lambda>y. copied_row cs (unat src_size) (y * unat src_stride) (4 * unat width)"]
      assms(2) by (auto simp: framed_def copied_row_def)
  have tiled: "\<exists>cd'. tiled_copy A s d width height dst_stride src_size hp
      = Some (hp(d \<mapsto> cd')) \<and> length cd' = length cd" for A
    using tiled_copy_framed[OF assms(1-4) S assms(5,6), of A] by (auto simp: framed_def)
  have same: "hp(d \<mapsto> cd) = hp" using assms(3) by auto
  have "(\<exists>r. drmtap_deswizzle (Some s) (Some d) width height src_stride dst_stride
      modifier src_size hp = Some (r, hp) \<and> r \<in> {- EINVAL, - ENOTSUP}) \<or>
    (\<exists>cd'. drmtap_deswizzle (Some s) (Some d) width height src_stride dst_stride
      modifier src_size hp = Some (0, hp(d \<mapsto> cd')) \<and> length cd' = length cd)"
    unfolding drmtap_deswizzle_def x_tiled_eq y_tiled_eq Let_def row_fits_iff
    using copy tiled[of "x_addr32 src_stride"] tiled[of "y_addr32 src_stride"] by auto
  then show ?thesis using same by (metis insertCI)
qed


definition wit_heap :: heap where
  "wit_heap = [0 \<mapsto> [1, 2, 3, 4], 1 \<mapsto> replicate 4 0]"

lemma wit_heap_simps [simp]: "wit_heap 0 = Some [1, 2, 3, 4]" "wit_heap (Suc 0) = Some (replicate 4 0)"
  by (simp_all add: wit_heap_def)


definition I915_FORMAT_MOD_X_TILED :: u64 where "I915_FORMAT_MOD_X_TILED = 0x0100000000000001"
definition I915_FORMAT_MOD_Y_TILED :: u64 where "I915_FORMAT_MOD_Y_TILED = 0x0100000000000002"

lemma deswizzle_dispatch_x:
  "width \<noteq> 0 \<Longrightarrow> height \<noteq> 0 \<Longrightarrow> 4 * unat width \<le> unat dst_stride \<Longrightarrow>
    drmtap_deswizzle (Some s) (Some d) width height src_stride dst_stride
      I915_FORMAT_MOD_X_TILED src_size hp
    = map_option (Pair 0) (tiled_copy (x_addr32 src_stride) s d width height dst_stride src_size hp)"
  by (simp add: drmtap_deswizzle_def x_tiled_eq y_tiled_eq row_fits_iff I915_FORMAT_MOD_X_TILED_def
    DRM_FORMAT_MOD_LINEAR_def DRM_FORMAT_MOD_VENDOR_INTEL_def drop_bit_eq_div)

lemma deswizzle_dispatch_y:
  "width \<noteq> 0 \<Longrightarrow> height \<noteq> 0 \<Longrightarrow> 4 * unat width \<le> unat dst_stride \<Longrightarrow>
    drmtap_deswizzle (Some s) (Some d) width height src_stride dst_stride
      I915_FORMAT_MOD_Y_TILED src_size hp
    = map_option (Pair 0) (tiled_copy (y_addr32 src_stride) s d width height dst_stride src_size hp)"
  by (simp add: drmtap_deswizzle_def x_tiled_eq y_tiled_eq row_fits_iff I915_FORMAT_MOD_Y_TILED_def
    DRM_FORMAT_MOD_LINEAR_def DRM_FORMAT_MOD_VENDOR_INTEL_def drop_bit_eq_div)

lemma x_decodes:
  assumes tiled: "hp s = Some (tile_image 512 8 x_in_tile (tiles_across 512 src_stride)
      (unat width) (unat height) img (unat src_size))"
    and dst: "hp d = Some cd" "s \<noteq> d" "unat height * unat dst_stride \<le> length cd"
      "unat height * unat dst_stride \<le> 2 ^ 32"
    and dims: "width \<noteq> 0" "height \<noteq> 0" "4 * unat width \<le> unat dst_stride"
      "4 * unat width \<le> unat src_stride" "unat src_stride + 511 < 2 ^ 32"
    and footprint: "unat height \<le> rows * 8"
      "rows * tiles_across 512 src_stride * 4096 \<le> unat src_size" "unat src_size \<le> 2 ^ 32"
    and img: "\<And>y x. length (img y x) = 4"
  shows "\<exists>cd'. drmtap_deswizzle (Some s) (Some d) width height src_stride dst_stride
      I915_FORMAT_MOD_X_TILED src_size hp = Some (0, hp(d \<mapsto> cd')) \<and>
    framed cd cd' (unat width) (unat height) (unat dst_stride) img"
proof -
  have cover: "4 * unat width \<le> tiles_across 512 src_stride * 512"
    using tiles_across_cover[of 512 src_stride] dims(4) by linarith
  have size: "rows * tiles_across 512 src_stride * (512 * 8) \<le> unat src_size"
    using footprint(2) by simp
  have "unat (x_addr32 src_stride (of_nat y) (of_nat x))
      = tile_addr 512 8 x_in_tile (tiles_across 512 src_stride) y (4 * x)"
    if "y < unat height" "x < unat width" "y < rows * 8"
      "4 * x < tiles_across 512 src_stride * 512" for y x
    using that dims(4) unat_u32_bound[of src_stride] unat_u32_bound[of height]
    by (intro x_addr32_eq[where rows = rows, OF _ _ dims(5) _ _ order_trans[OF footprint(2,3)]])
      simp_all
  from xt.tiled_copy_image[OF tiled dst dims(1-3) cover footprint(1) size img this]
  show ?thesis unfolding deswizzle_dispatch_x[OF dims(1-3)] by auto
qed

text \<open>
  C4. X-tiled scanouts decode exactly: whatever image a driver laid out in Intel X tiling
  (the reference encoder tile_image), drmtap_deswizzle writes that image, pixel for pixel, into
  the destination at its stride, and changes nothing between or after the rows.
\<close>

theorem deswizzle_x_roundtrip:
  assumes tiled: "hp s = Some (tile_image 512 8 x_in_tile (tiles_across 512 src_stride)
      (unat width) (unat height) img (unat src_size))"
    and dst: "hp d = Some cd" "s \<noteq> d" "unat height * unat dst_stride \<le> length cd"
      "unat height * unat dst_stride \<le> 2 ^ 32"
    and dims: "width \<noteq> 0" "height \<noteq> 0" "4 * unat width \<le> unat dst_stride"
      "4 * unat width \<le> unat src_stride" "unat src_stride + 511 < 2 ^ 32"
    and footprint: "unat height \<le> rows * 8"
      "rows * tiles_across 512 src_stride * 4096 \<le> unat src_size" "unat src_size \<le> 2 ^ 32"
    and img: "\<And>y x. length (img y x) = 4"
  shows "\<exists>cd'. drmtap_deswizzle (Some s) (Some d) width height src_stride dst_stride
      I915_FORMAT_MOD_X_TILED src_size hp = Some (0, hp(d \<mapsto> cd')) \<and>
    framed cd cd' (unat width) (unat height) (unat dst_stride) img"
  by (rule x_decodes[OF assms])

theorem deswizzle_x_roundtrip_witness:
  "\<exists>cd'. drmtap_deswizzle (Some 0) (Some 1) 1 1 4 4 I915_FORMAT_MOD_X_TILED 4096
      [0 \<mapsto> tile_image 512 8 x_in_tile (tiles_across 512 4) (unat (1 :: u32)) (unat (1 :: u32))
        (\<lambda>y x. [1, 2, 3, 4]) (unat (4096 :: u64)), 1 \<mapsto> replicate 4 0]
      = Some (0, [0 \<mapsto> tile_image 512 8 x_in_tile (tiles_across 512 4) (unat (1 :: u32)) (unat (1 :: u32))
        (\<lambda>y x. [1, 2, 3, 4]) (unat (4096 :: u64)), 1 \<mapsto> replicate 4 0](1 \<mapsto> cd')) \<and>
    framed (replicate 4 0) cd' (unat (1 :: u32)) (unat (1 :: u32)) (unat (4 :: u32)) (\<lambda>y x. [1, 2, 3, 4])"
  by (rule deswizzle_x_roundtrip[where rows = 1]) (simp_all add: tiles_across_def)

text \<open>
  C5. Y-tiled scanouts decode exactly: as for X tiling, with the 16-byte column order of
  Intel Y tiling.
\<close>

theorem deswizzle_y_roundtrip:
  assumes tiled: "hp s = Some (tile_image 128 32 y_in_tile (tiles_across 128 src_stride)
      (unat width) (unat height) img (unat src_size))"
    and dst: "hp d = Some cd" "s \<noteq> d" "unat height * unat dst_stride \<le> length cd"
      "unat height * unat dst_stride \<le> 2 ^ 32"
    and dims: "width \<noteq> 0" "height \<noteq> 0" "4 * unat width \<le> unat dst_stride"
      "4 * unat width \<le> unat src_stride" "unat src_stride + 127 < 2 ^ 32"
    and footprint: "unat height \<le> rows * 32"
      "rows * tiles_across 128 src_stride * 4096 \<le> unat src_size" "unat src_size \<le> 2 ^ 32"
    and img: "\<And>y x. length (img y x) = 4"
  shows "\<exists>cd'. drmtap_deswizzle (Some s) (Some d) width height src_stride dst_stride
      I915_FORMAT_MOD_Y_TILED src_size hp = Some (0, hp(d \<mapsto> cd')) \<and>
    framed cd cd' (unat width) (unat height) (unat dst_stride) img"
proof -
  have cover: "4 * unat width \<le> tiles_across 128 src_stride * 128"
    using tiles_across_cover[of 128 src_stride] dims(4) by linarith
  have size: "rows * tiles_across 128 src_stride * (128 * 32) \<le> unat src_size"
    using footprint(2) by simp
  have "unat (y_addr32 src_stride (of_nat y) (of_nat x))
      = tile_addr 128 32 y_in_tile (tiles_across 128 src_stride) y (4 * x)"
    if "y < unat height" "x < unat width" "y < rows * 32"
      "4 * x < tiles_across 128 src_stride * 128" for y x
    using that dims(4) unat_u32_bound[of src_stride] unat_u32_bound[of height]
    by (intro y_addr32_eq[where rows = rows, OF _ _ dims(5) _ _ order_trans[OF footprint(2,3)]])
      simp_all
  from yt.tiled_copy_image[OF tiled dst dims(1-3) cover footprint(1) size img this]
  show ?thesis unfolding deswizzle_dispatch_y[OF dims(1-3)] by auto
qed

theorem deswizzle_y_roundtrip_witness:
  "\<exists>cd'. drmtap_deswizzle (Some 0) (Some 1) 1 1 4 4 I915_FORMAT_MOD_Y_TILED 4096
      [0 \<mapsto> tile_image 128 32 y_in_tile (tiles_across 128 4) (unat (1 :: u32)) (unat (1 :: u32))
        (\<lambda>y x. [1, 2, 3, 4]) (unat (4096 :: u64)), 1 \<mapsto> replicate 4 0]
      = Some (0, [0 \<mapsto> tile_image 128 32 y_in_tile (tiles_across 128 4) (unat (1 :: u32)) (unat (1 :: u32))
        (\<lambda>y x. [1, 2, 3, 4]) (unat (4096 :: u64)), 1 \<mapsto> replicate 4 0](1 \<mapsto> cd')) \<and>
    framed (replicate 4 0) cd' (unat (1 :: u32)) (unat (1 :: u32)) (unat (4 :: u32)) (\<lambda>y x. [1, 2, 3, 4])"
  by (rule deswizzle_y_roundtrip[where rows = 1]) (simp_all add: tiles_across_def)

text \<open>
  Every layout the CPU cannot decode fails closed: with real buffers and a non-empty
  image, drmtap_deswizzle answers -ENOTSUP, and leaves memory alone, exactly for the modifiers
  outside LINEAR, INVALID and Intel X, Y and Yf tiling - a compressed, Tile4, NVIDIA, AMD or
  unknown layout is never copied out as if it were linear.
\<close>

lemma deswizzle_fails_closed:
  assumes "width \<noteq> 0" "height \<noteq> 0"
  shows "drmtap_deswizzle (Some s) (Some d) width height src_stride dst_stride modifier src_size hp
      = Some (- ENOTSUP, hp) \<longleftrightarrow> \<not> cpu_decodable modifier"
  using assms by (auto simp: drmtap_deswizzle_def cpu_decodable_def Let_def errno_defs
    DRM_FORMAT_MOD_LINEAR_def DRM_FORMAT_MOD_INVALID_def DRM_FORMAT_MOD_VENDOR_INTEL_def
    DRM_FORMAT_MOD_VENDOR_NVIDIA_def)

lemma mtl_ccs_not_decodable: "\<not> cpu_decodable 0x010000000000000f"
  by (simp add: cpu_decodable_def DRM_FORMAT_MOD_LINEAR_def DRM_FORMAT_MOD_INVALID_def
    DRM_FORMAT_MOD_VENDOR_INTEL_def drop_bit_eq_div)

text \<open>
  LINEAR and unstated (INVALID) layouts are copied row by row from the source stride to
  the destination stride, and a row the source does not back in full is zero, never stale
  memory.
\<close>

lemma deswizzle_linear_copies:
  assumes "hp s = Some cs" "unat src_size \<le> length cs" "hp d = Some cd" "s \<noteq> d"
    and "4 * unat width \<le> unat dst_stride" "unat height * unat dst_stride \<le> length cd"
      "unat height * unat dst_stride \<le> 2 ^ 32" "width \<noteq> 0" "height \<noteq> 0"
    and "modifier = DRM_FORMAT_MOD_LINEAR \<or> modifier = DRM_FORMAT_MOD_INVALID"
  shows "\<exists>cd'. drmtap_deswizzle (Some s) (Some d) width height src_stride dst_stride
      modifier src_size hp = Some (0, hp(d \<mapsto> cd')) \<and>
    framed cd cd' (unat width) (unat height) (unat dst_stride)
      (\<lambda>y x. take 4 (drop (4 * x) (copied_row cs (unat src_size) (y * unat src_stride) (4 * unat width))))"
proof -
  have "drmtap_deswizzle (Some s) (Some d) width height src_stride dst_stride modifier src_size hp
      = map_option (Pair 0) (deswizzle_copy_rows s d width height src_stride dst_stride src_size hp)"
    using assms(5,8-10) by (auto simp: deswizzle_defs row_fits_iff drop_bit_eq_div)
  moreover have "length (copied_row cs (unat src_size) (y * unat src_stride) (4 * unat width))
      = 4 * unat width" for y
    using assms(2) by (simp add: copied_row_def)
  ultimately show ?thesis
    using copy_rows_result[OF assms(1-7), of src_stride] framed_rows[OF assms(5,6)] assms(8)
    by (auto simp: unat_gt_0)
qed

end
