(* ===== verification/Scanout.thy ===== *)
theory Scanout
  imports Kms Deswizzle
begin

text \<open>
  The width a CRTC really scans out (src/drm_grab.c): a framebuffer padded to a pitch alignment
  is reported at the visible width, never a scaled, offset or tiled one. drmtap_scanout_width
  memoises the decision in the context.
\<close>

datatype drmtap_scanout_why = DRMTAP_SCANOUT_AS_IS | DRMTAP_SCANOUT_NARROWED
  | DRMTAP_SCANOUT_OFFSET_UNSUPPORTED | DRMTAP_SCANOUT_TILED_NOT_NARROWED
  | DRMTAP_SCANOUT_SCALING_NOT_NARROWED | DRMTAP_SCANOUT_NO_PLANE_RECT

record drmtap_plane_rect =
  r_valid :: bool
  r_src_x :: u32
  r_src_y :: u32
  r_src_w :: u32
  r_src_h :: u32
  r_crtc_w :: u32
  r_crtc_h :: u32

definition drmtap_scanout_width_of ::
  "u32 \<Rightarrow> drmtap_plane_rect option \<Rightarrow> bool \<Rightarrow> u32 \<times> drmtap_scanout_why" where
  "drmtap_scanout_width_of fb_width rect layout_is_linear =
    (if \<not> layout_is_linear then
       (fb_width, case rect of
          Some r \<Rightarrow> if r_valid r \<and> 0 < r_src_w r \<and> r_src_w r < fb_width
            then DRMTAP_SCANOUT_TILED_NOT_NARROWED else DRMTAP_SCANOUT_AS_IS
        | None \<Rightarrow> DRMTAP_SCANOUT_AS_IS)
     else case rect of
       None \<Rightarrow> (fb_width, if 0 < fb_width then DRMTAP_SCANOUT_NO_PLANE_RECT else DRMTAP_SCANOUT_AS_IS)
     | Some r \<Rightarrow>
         if \<not> r_valid r then
           (fb_width, if 0 < fb_width then DRMTAP_SCANOUT_NO_PLANE_RECT else DRMTAP_SCANOUT_AS_IS)
         else if r_src_x r \<noteq> 0 \<or> r_src_y r \<noteq> 0 then (fb_width, DRMTAP_SCANOUT_OFFSET_UNSUPPORTED)
         else if r_src_w r \<noteq> r_crtc_w r \<or> r_src_h r \<noteq> r_crtc_h r then
           (fb_width, DRMTAP_SCANOUT_SCALING_NOT_NARROWED)
         else if 0 < r_src_w r \<and> r_src_w r < fb_width then (r_src_w r, DRMTAP_SCANOUT_NARROWED)
         else (fb_width, DRMTAP_SCANOUT_AS_IS))"

text \<open>One property of the rectangle; \<open>got\<close> collects which of the six were seen.\<close>

definition rect_prop :: "drm_prop \<Rightarrow> drmtap_plane_rect \<times> nat set \<Rightarrow> drmtap_plane_rect \<times> nat set" where
  "rect_prop p rg =
    (let (r, got) = rg; v = pr_value p; hi = ucast (drop_bit 16 v) :: u32; lo = ucast v :: u32 in
     case pr_name p of
       Inl _ \<Rightarrow> (r, got)
     | Inr n \<Rightarrow>
         if n = ''SRC_X'' then (r\<lparr>r_src_x := hi\<rparr>, insert 1 got)
         else if n = ''SRC_Y'' then (r\<lparr>r_src_y := hi\<rparr>, insert 2 got)
         else if n = ''SRC_W'' then (r\<lparr>r_src_w := hi\<rparr>, insert 4 got)
         else if n = ''SRC_H'' then (r\<lparr>r_src_h := hi\<rparr>, insert 8 got)
         else if n = ''CRTC_W'' then (r\<lparr>r_crtc_w := lo\<rparr>, insert 16 got)
         else if n = ''CRTC_H'' then (r\<lparr>r_crtc_h := lo\<rparr>, insert 32 got)
         else (r, got))"

definition read_primary_plane_rect :: "env \<Rightarrow> ctx \<Rightarrow> drmtap_plane_rect \<times> ctx" where
  "read_primary_plane_rect env c =
    (let zero = \<lparr>r_valid = False, r_src_x = 0, r_src_y = 0, r_src_w = 0, r_src_h = 0, r_crtc_w = 0, r_crtc_h = 0\<rparr>;
         c = (if atomic_cap_tried c then c else step_clock (c\<lparr>atomic_cap_tried := True\<rparr>));
         k = v_kms env (tick c); (plane, c) = find_primary_plane env c in
     if plane = 0 then (zero, c)
     else case km_props k plane of
       Inl _ \<Rightarrow> (zero, c)
     | Inr props \<Rightarrow>
         let (r, got) = fold rect_prop props (zero, {}) in
         (r\<lparr>r_valid := (got = {1, 2, 4, 8, 16, 32})\<rparr>, c))"

definition layout_linear :: "u64 \<Rightarrow> bool" where
  "layout_linear modifier \<longleftrightarrow> modifier = DRM_FORMAT_MOD_LINEAR \<or> modifier = DRM_FORMAT_MOD_INVALID"

definition drmtap_scanout_width :: "env \<Rightarrow> u32 \<Rightarrow> u64 \<Rightarrow> ctx \<Rightarrow> u32 \<times> ctx" where
  "drmtap_scanout_width env fb_width modifier c =
    (if crtc_id c = 0 then (fb_width, c)
     else
       let k = v_kms env (tick c); c = step_clock c in
       case km_crtc k (crtc_id c) of
         Inl _ \<Rightarrow> (fb_width, c)
       | Inr crtc \<Rightarrow>
           let hdisplay = ucast (md_hdisplay (cr_mode crtc)) :: u32 in
           if \<not> (cr_mode_valid crtc \<and> 0 < hdisplay \<and> hdisplay < fb_width) then (fb_width, c)
           else if sw_cached c \<and> sw_key_crtc c = crtc_id c \<and> sw_key_hdisplay c = hdisplay \<and>
                   sw_key_fb_width c = fb_width \<and> sw_key_modifier c = modifier
           then (sw_cached_width c, c)
           else
             let (rect, c) = read_primary_plane_rect env c;
                 (out, why) = drmtap_scanout_width_of fb_width (Some rect) (layout_linear modifier) in
             (out, c\<lparr>sw_key_crtc := crtc_id c, sw_key_hdisplay := hdisplay, sw_key_fb_width := fb_width,
                 sw_key_modifier := modifier, sw_cached_width := out, sw_cached := True\<rparr>))"

section \<open>The reported width never grows\<close>

text \<open>What a memoised decision may say.\<close>

definition width_ok :: "u32 \<Rightarrow> u64 \<Rightarrow> u32 \<Rightarrow> bool" where
  "width_ok fb_width modifier w \<longleftrightarrow> w \<le> fb_width \<and> (w = 0 \<longrightarrow> fb_width = 0) \<and>
    (w < fb_width \<longrightarrow> layout_linear modifier)"

definition memo_ok :: "ctx \<Rightarrow> bool" where
  "memo_ok c \<longleftrightarrow> (sw_cached c \<longrightarrow> width_ok (sw_key_fb_width c) (sw_key_modifier c) (sw_cached_width c))"

lemma width_ok_same [simp]: "width_ok w m w"
  by (simp add: width_ok_def)

lemma scanout_width_of_ok: "width_ok fb m (fst (drmtap_scanout_width_of fb rect (layout_linear m)))"
  by (auto simp: drmtap_scanout_width_of_def width_ok_def split: option.split)

lemma scanout_width_narrows:
  assumes "memo_ok c"
  shows "width_ok fb_width modifier (fst (drmtap_scanout_width env fb_width modifier c)) \<and>
    memo_ok (snd (drmtap_scanout_width env fb_width modifier c)) \<and>
    (fst (drmtap_scanout_width_of fb_width (Some r) linear) \<noteq> fb_width \<longrightarrow>
      linear \<and> r_valid r \<and> r_src_x r = 0 \<and> r_src_y r = 0 \<and> r_src_w r = r_crtc_w r \<and> r_src_h r = r_crtc_h r \<and>
      fst (drmtap_scanout_width_of fb_width (Some r) linear) = r_src_w r)"
proof (intro conjI)
  let ?k = "v_kms env (tick c)" and ?c = "step_clock c"
  have mc: "memo_ok ?c" using assms by (simp add: memo_ok_def step_clock_def)
  have "width_ok fb_width modifier (fst (drmtap_scanout_width env fb_width modifier c)) \<and>
    memo_ok (snd (drmtap_scanout_width env fb_width modifier c))"
  proof (cases "crtc_id c = 0 \<or> (\<exists>e. km_crtc ?k (crtc_id c) = Inl e)")
    case True
    then show ?thesis using assms mc by (auto simp: drmtap_scanout_width_def Let_def step_clock_def)
  next
    case False
    then obtain crtc where "crtc_id c \<noteq> 0" "km_crtc ?k (crtc_id c) = Inr crtc"
      by (cases "km_crtc ?k (crtc_id c)") auto
    then have crtc: "crtc_id ?c \<noteq> 0" "km_crtc ?k (crtc_id ?c) = Inr crtc" "crtc_id c \<noteq> 0"
      by (simp_all add: step_clock_def)
    obtain rect c2 where rd: "read_primary_plane_rect env ?c = (rect, c2)" by fastforce
    obtain out why where w: "drmtap_scanout_width_of fb_width (Some rect) (layout_linear modifier) = (out, why)"
      by fastforce
    have "width_ok fb_width modifier out"
      using scanout_width_of_ok[of fb_width modifier "Some rect"] by (simp add: w)
    moreover have "sw_cached ?c \<and> sw_key_fb_width ?c = fb_width \<and> sw_key_modifier ?c = modifier \<Longrightarrow>
        width_ok fb_width modifier (sw_cached_width ?c)" using mc by (auto simp: memo_ok_def)
    ultimately show ?thesis
      using crtc mc by (simp add: drmtap_scanout_width_def Let_def rd w memo_ok_def)
  qed
  then show "width_ok fb_width modifier (fst (drmtap_scanout_width env fb_width modifier c))"
    "memo_ok (snd (drmtap_scanout_width env fb_width modifier c))" by blast+
  show "fst (drmtap_scanout_width_of fb_width (Some r) linear) \<noteq> fb_width \<longrightarrow>
      linear \<and> r_valid r \<and> r_src_x r = 0 \<and> r_src_y r = 0 \<and> r_src_w r = r_crtc_w r \<and> r_src_h r = r_crtc_h r \<and>
      fst (drmtap_scanout_width_of fb_width (Some r) linear) = r_src_w r"
    by (simp add: drmtap_scanout_width_of_def)
qed

text \<open>
  Padding is only ever cut off: whatever the mode-setting tables say and whatever was
  memoised before, drmtap_scanout_width reports at most the framebuffer's width, never 0 for a
  framebuffer that has one, and less only for a linear layout; the memoised decision keeps
  obeying the same rule. A fresh decision narrows only to the source width of a plane that
  reads from the origin and does not scale.
\<close>

lemma scanout_width_only_narrows:
  assumes "memo_ok c"
  shows "width_ok fb_width modifier (fst (drmtap_scanout_width env fb_width modifier c)) \<and>
    memo_ok (snd (drmtap_scanout_width env fb_width modifier c)) \<and>
    (fst (drmtap_scanout_width_of fb_width (Some r) linear) \<noteq> fb_width \<longrightarrow>
      linear \<and> r_valid r \<and> r_src_x r = 0 \<and> r_src_y r = 0 \<and> r_src_w r = r_crtc_w r \<and> r_src_h r = r_crtc_h r \<and>
      fst (drmtap_scanout_width_of fb_width (Some r) linear) = r_src_w r)"
  by (rule scanout_width_narrows[OF assms])

end
