(* ===== verification/Buffers.thy ===== *)
theory Buffers
  imports Ctx
begin

text \<open>
  Geometry validation and the output buffer (src/drm_grab.c, src/drmtap.c): the bounds every
  framebuffer passes before anything multiplies its dimensions, the grow-once buffers, and
  drmtap_ensure_out, which decides where converted pixels go. The locale output states what a
  producer of pixels relies on - a destination at least as large as it asked for, or an error -
  and is interpreted on the code.
\<close>

section \<open>Geometry\<close>

definition DRMTAP_MAX_FB_BYTES :: nat where "DRMTAP_MAX_FB_BYTES = 7680 * 4320 * 4"
definition DRMTAP_MAX_DIM :: u32 where "DRMTAP_MAX_DIM = 32768"

lemma max_fb_bytes [simp]: "DRMTAP_MAX_FB_BYTES = 132710400"
  by (simp add: DRMTAP_MAX_FB_BYTES_def)

definition drmtap_validate_fb_dims :: "u32 \<Rightarrow> u32 \<Rightarrow> int" where
  "drmtap_validate_fb_dims width height =
    (if width = 0 \<or> height = 0 then - EINVAL
     else if DRMTAP_MAX_DIM < width \<or> DRMTAP_MAX_DIM < height then - EFBIG
     else if DRMTAP_MAX_FB_BYTES div 4 < unat width * unat height then - EFBIG
     else 0)"

definition validate_fb_size :: "u32 \<Rightarrow> u32 \<Rightarrow> int" where
  "validate_fb_size stride height =
    (if stride = 0 \<or> height = 0 then - EINVAL
     else if DRMTAP_MAX_FB_BYTES div unat stride < unat height then - EFBIG
     else 0)"

definition fb2_effective_modifier :: "drm_fb2 \<Rightarrow> u64" where
  "fb2_effective_modifier fb2 =
    (if fb2_flag_modifiers fb2 then fb2_modifier fb2 else 0x00ffffffffffffff)"

definition DRMTAP_FMT_XR48 :: u32 where "DRMTAP_FMT_XR48 = 0x38345258"
definition DRMTAP_FMT_AR48 :: u32 where "DRMTAP_FMT_AR48 = 0x38345241"
definition DRMTAP_FMT_XB48 :: u32 where "DRMTAP_FMT_XB48 = 0x38344258"
definition DRMTAP_FMT_AB48 :: u32 where "DRMTAP_FMT_AB48 = 0x38344241"

definition format_min_bpp :: "u32 \<Rightarrow> u32" where
  "format_min_bpp fourcc =
    (if fourcc \<in> {DRMTAP_FMT_XR48, DRMTAP_FMT_AR48, DRMTAP_FMT_XB48, DRMTAP_FMT_AB48} then 8 else 4)"

section \<open>Buffers\<close>

definition drmtap_ensure_buf ::
  "env \<Rightarrow> obj option \<Rightarrow> nat \<Rightarrow> nat \<Rightarrow> ctx \<Rightarrow> int \<times> obj option \<times> nat \<times> ctx" where
  "drmtap_ensure_buf env buf cap sz c =
    (if sz = 0 then (- EINVAL, buf, cap, c)
     else if DRMTAP_MAX_FB_BYTES < sz then (- EFBIG, buf, cap, c)
     else if buf \<noteq> None \<and> sz \<le> cap then (0, buf, cap, c)
     else case sys_malloc env sz (sys_free buf c) of
       (None, c') \<Rightarrow> (- ENOMEM, None, 0, c')
     | (Some p, c') \<Rightarrow> (0, Some p, sz, c'))"

definition drmtap_ensure_out :: "env \<Rightarrow> nat \<Rightarrow> ctx \<Rightarrow> int \<times> obj option \<times> ctx" where
  "drmtap_ensure_out env sz c0 =
    (if sz = 0 then (- EINVAL, None, c0)
     else
       let c = c0\<lparr>out_gen := out_gen c0 + 1\<rparr> in
       if DRMTAP_MAX_FB_BYTES < sz then (- EFBIG, None, c)
       else (case user_out c of
         Some dst \<Rightarrow>
           if user_out_len c < sz then (- ENOSPC, None, c) else (0, Some dst, c)
       | None \<Rightarrow>
           (case drmtap_ensure_buf env (deswizzle_buf c) (deswizzle_buf_size c) sz c of
             (ret, buf, cap, c') \<Rightarrow>
               let c'' = c'\<lparr>deswizzle_buf := buf, deswizzle_buf_size := cap\<rparr> in
               if ret \<noteq> 0 then (ret, None, c'') else (0, buf, c''))))"

definition drmtap_set_output_buffer :: "obj option \<Rightarrow> nat \<Rightarrow> ctx \<Rightarrow> int \<times> ctx" where
  "drmtap_set_output_buffer dst len c =
    (case dst of
      None \<Rightarrow> (0, c\<lparr>user_out := None, user_out_len := 0\<rparr>)
    | Some p \<Rightarrow>
        if len = 0 then (- EINVAL, c)
        else (0, c\<lparr>user_out := Some p, user_out_len := len\<rparr>))"

section \<open>Geometry is bounded before it is multiplied\<close>

lemma validate_dims_ok:
  "drmtap_validate_fb_dims w h = 0 \<longleftrightarrow> w \<noteq> 0 \<and> h \<noteq> 0 \<and> unat w \<le> 32768 \<and> unat h \<le> 32768 \<and>
    unat w * unat h * 4 \<le> DRMTAP_MAX_FB_BYTES"
proof -
  have "DRMTAP_MAX_FB_BYTES div 4 < n \<longleftrightarrow> \<not> n * 4 \<le> DRMTAP_MAX_FB_BYTES" for n :: nat
    unfolding DRMTAP_MAX_FB_BYTES_def by linarith
  moreover have "DRMTAP_MAX_DIM < n \<longleftrightarrow> \<not> unat n \<le> 32768" for n
    by (simp add: DRMTAP_MAX_DIM_def word_less_nat_alt not_le)
  ultimately show ?thesis
    by (auto simp: drmtap_validate_fb_dims_def errno_defs simp del: max_fb_bytes)
qed

lemma validate_size_ok:
  "validate_fb_size s h = 0 \<longleftrightarrow> s \<noteq> 0 \<and> h \<noteq> 0 \<and> unat s * unat h \<le> DRMTAP_MAX_FB_BYTES"
proof (cases "s = 0")
  case False
  then have "0 < unat s" by (simp add: unat_gt_0)
  then have "\<not> DRMTAP_MAX_FB_BYTES div unat s < unat h \<longleftrightarrow> unat h * unat s \<le> DRMTAP_MAX_FB_BYTES"
    by (simp only: not_less less_eq_div_iff_mult_less_eq)
  then show ?thesis using False
    by (auto simp: validate_fb_size_def errno_defs mult.commute simp del: max_fb_bytes)
qed (simp add: validate_fb_size_def errno_defs)

text \<open>
  C36. A framebuffer that passes both geometry checks is safe to size: neither width*height*4
  nor stride*height exceeds the library's cap (so neither wraps, in 32-bit or 64-bit
  arithmetic), and each check refuses with -EINVAL exactly the empty geometries and with -EFBIG
  exactly the oversized ones.
\<close>

theorem geometry_checks_exact:
  "(drmtap_validate_fb_dims w h = 0 \<longleftrightarrow> w \<noteq> 0 \<and> h \<noteq> 0 \<and> unat w \<le> 32768 \<and> unat h \<le> 32768 \<and>
     unat w * unat h * 4 \<le> 132710400) \<and>
   (validate_fb_size s h = 0 \<longleftrightarrow> s \<noteq> 0 \<and> h \<noteq> 0 \<and> unat s * unat h \<le> 132710400) \<and>
   (drmtap_validate_fb_dims w h = - EINVAL \<longleftrightarrow> w = 0 \<or> h = 0) \<and>
   (validate_fb_size s h = - EINVAL \<longleftrightarrow> s = 0 \<or> h = 0) \<and>
   drmtap_validate_fb_dims w h \<in> {0, - EINVAL, - EFBIG} \<and>
   validate_fb_size s h \<in> {0, - EINVAL, - EFBIG}"
proof (intro conjI)
  show "drmtap_validate_fb_dims w h = 0 \<longleftrightarrow> w \<noteq> 0 \<and> h \<noteq> 0 \<and> unat w \<le> 32768 \<and> unat h \<le> 32768 \<and>
     unat w * unat h * 4 \<le> 132710400"
    using validate_dims_ok[of w h] by simp
  show "validate_fb_size s h = 0 \<longleftrightarrow> s \<noteq> 0 \<and> h \<noteq> 0 \<and> unat s * unat h \<le> 132710400"
    using validate_size_ok[of s h] by simp
qed (auto simp: drmtap_validate_fb_dims_def validate_fb_size_def errno_defs)

section \<open>The output buffer as an interface\<close>

text \<open>
  What every producer of pixels relies on: a granted destination has room for what was asked
  for, a refusal hands out nothing, and the provider's own invariant survives.
\<close>

locale output_provider =
  fixes ensure :: "nat \<Rightarrow> 's \<Rightarrow> int \<times> obj option \<times> 's"
    and room :: "'s \<Rightarrow> obj \<Rightarrow> nat option"
    and ok :: "'s \<Rightarrow> bool"
  assumes granted: "ok s \<Longrightarrow> ensure n s = (0, out, s') \<Longrightarrow> \<exists>p k. out = Some p \<and> room s' p = Some k \<and> n \<le> k"
    and refused: "ok s \<Longrightarrow> ensure n s = (r, out, s') \<Longrightarrow> r \<noteq> 0 \<Longrightarrow> out = None"
    and kept: "ok s \<Longrightarrow> ensure n s = (r, out, s') \<Longrightarrow> ok s'"
begin

lemma rows_fit:
  assumes "ok s" "ensure n s = (0, out, s')" "h * stride \<le> n"
  shows "\<exists>p k. out = Some p \<and> room s' p = Some k \<and> h * stride \<le> k"
  using granted[OF assms(1,2)] assms(3) by (metis order_trans)

lemma all_or_nothing:
  assumes "ok s" "ensure n s = (r, out, s')"
  shows "r = 0 \<longleftrightarrow> out \<noteq> None"
proof (cases "r = 0")
  case True
  then show ?thesis using granted[OF assms(1), of n out s'] assms(2) by auto
next
  case False
  then show ?thesis using refused[OF assms] by simp
qed

end

text \<open>
  The context's buffers are live, as large as recorded, and distinct objects; the caller's
  buffer is at least as large as it said.
\<close>

definition holds :: "'a world_scheme \<Rightarrow> obj \<Rightarrow> nat \<Rightarrow> bool" where
  "holds w p n \<longleftrightarrow> (case mem w p of None \<Rightarrow> False | Some bs \<Rightarrow> n \<le> length bs)"

definition buf_inv :: "ctx \<Rightarrow> bool" where
  "buf_inv c \<longleftrightarrow>
    (\<forall>p. deswizzle_buf c = Some p \<longrightarrow> holds c p (deswizzle_buf_size c) \<and> p \<notin> live_maps c \<and>
      user_out c \<noteq> Some p \<and> pixel_buf c \<noteq> Some p) \<and>
    (\<forall>p. pixel_buf c = Some p \<longrightarrow> holds c p (pixel_buf_size c) \<and> p \<notin> live_maps c \<and> user_out c \<noteq> Some p) \<and>
    (\<forall>p. user_out c = Some p \<longrightarrow> holds c p (user_out_len c) \<and> p \<notin> live_maps c)"

text \<open>Memory an operation may not touch: everything but one object and fresh ones.\<close>

definition frame_mem :: "obj option \<Rightarrow> 'a world_scheme \<Rightarrow> 'b world_scheme \<Rightarrow> bool" where
  "frame_mem b w w' \<longleftrightarrow> (\<forall>q. Some q \<noteq> b \<longrightarrow> q < next_obj w \<longrightarrow> mem w' q = mem w q) \<and> next_obj w \<le> next_obj w'"

lemma holds_lt: "fresh_ok w \<Longrightarrow> holds w p n \<Longrightarrow> p < next_obj w"
  by (rule ccontr) (auto simp: fresh_ok_def holds_def)

lemma ensure_buf_ok:
  assumes fr: "fresh_ok c"
    and own: "\<forall>p. buf = Some p \<longrightarrow> holds c p cap \<and> p \<notin> live_maps c"
    and run: "drmtap_ensure_buf env buf cap n c = (r, buf', cap', c')"
  shows "fresh_ok c'" "resources c' = resources c" "frame_mem buf c c'"
    "\<And>p. buf' = Some p \<Longrightarrow> holds c' p cap' \<and> p \<notin> live_maps c' \<and> (buf = Some p \<or> next_obj c \<le> p)"
    "r = 0 \<Longrightarrow> \<exists>p. buf' = Some p \<and> n \<le> cap'"
    "r \<in> {0, - EINVAL, - EFBIG, - ENOMEM}" "0 < n \<and> n \<le> DRMTAP_MAX_FB_BYTES \<or> r \<noteq> 0"
    "\<exists>t m p. c' = c\<lparr>tick := t, mem := m, next_obj := p\<rparr>"
proof -
  let ?c1 = "sys_free buf c"
  have free: "fresh_ok ?c1" "?c1 = c\<lparr>mem := (case buf of None \<Rightarrow> mem c | Some p \<Rightarrow> (mem c)(p := None))\<rparr>"
    using fresh_free[OF fr, of buf] fr own by (auto simp: sys_free_def holds_def split: option.splits)
  note run' = run[unfolded drmtap_ensure_buf_def]
  have cases: "(c' = c \<and> buf' = buf \<and> cap' = cap \<and> (r = - EINVAL \<and> n = 0 \<or> r = - EFBIG \<and> DRMTAP_MAX_FB_BYTES < n \<or>
      r = 0 \<and> buf \<noteq> None \<and> n \<le> cap \<and> 0 < n \<and> n \<le> DRMTAP_MAX_FB_BYTES)) \<or>
    (0 < n \<and> n \<le> DRMTAP_MAX_FB_BYTES \<and> r = - ENOMEM \<and> buf' = None \<and> c' = step_clock ?c1) \<or>
    (0 < n \<and> n \<le> DRMTAP_MAX_FB_BYTES \<and> r = 0 \<and> buf' = Some (next_obj c) \<and> cap' = n \<and>
      (\<exists>bs. c' = step_clock (?c1\<lparr>mem := (mem ?c1)(next_obj c \<mapsto> pad n bs), next_obj := Suc (next_obj c)\<rparr>)))"
    using run' free(2) by (auto simp: sys_malloc_def split: if_splits option.splits)
  then consider (same) "c' = c" "buf' = buf" "cap' = cap" | (fail) "c' = step_clock ?c1" "buf' = None"
    | (new) bs where "buf' = Some (next_obj c)" "cap' = n"
      "c' = step_clock (?c1\<lparr>mem := (mem ?c1)(next_obj c \<mapsto> pad n bs), next_obj := Suc (next_obj c)\<rparr>)"
    by blast
  note three = this
  show "fresh_ok c'"
    using three by cases (use fr free fresh_step_clock in \<open>auto simp: fresh_ok_def step_clock_def split: option.splits\<close>)
  show "resources c' = resources c"
    using three by cases (auto simp: free(2) resources_def step_clock_def)
  show "frame_mem buf c c'"
    using three by cases (auto simp: free(2) frame_mem_def step_clock_def split: option.splits)
  show "holds c' p cap' \<and> p \<notin> live_maps c' \<and> (buf = Some p \<or> next_obj c \<le> p)" if "buf' = Some p" for p
    using three
  proof cases
    case new
    then show ?thesis using that fr by (simp add: free(2) holds_def step_clock_def fresh_ok_def)
  qed (use own that in auto)
  show "\<exists>t m p. c' = c\<lparr>tick := t, mem := m, next_obj := p\<rparr>"
    using three
  proof cases
    case same
    then show ?thesis by (intro exI[of _ "tick c"] exI[of _ "mem c"] exI[of _ "next_obj c"]) simp
  next
    case fail
    then show ?thesis unfolding step_clock_def free(2)
      by (intro exI[of _ "Suc (tick c)"] exI[of _ "mem ?c1"] exI[of _ "next_obj c"]) (simp add: free(2))
  next
    case (new bs)
    then show ?thesis unfolding step_clock_def free(2)
      by (intro exI[of _ "Suc (tick c)"] exI[of _ "(mem ?c1)(next_obj c \<mapsto> pad n bs)"] exI[of _ "Suc (next_obj c)"])
        (simp add: free(2))
  qed
  show "\<exists>p. buf' = Some p \<and> n \<le> cap'" if "r = 0"
    using cases that by (auto simp: errno_defs)
  show "r \<in> {0, - EINVAL, - EFBIG, - ENOMEM}" "0 < n \<and> n \<le> DRMTAP_MAX_FB_BYTES \<or> r \<noteq> 0"
    using cases by (auto simp: errno_defs)
qed

lemma ensure_out_eqs:
  "drmtap_ensure_out env 0 c = (- EINVAL, None, c)"
  "DRMTAP_MAX_FB_BYTES < n \<Longrightarrow> drmtap_ensure_out env n c = (- EFBIG, None, c\<lparr>out_gen := out_gen c + 1\<rparr>)"
  "0 < n \<Longrightarrow> n \<le> DRMTAP_MAX_FB_BYTES \<Longrightarrow> user_out c = Some dst \<Longrightarrow> drmtap_ensure_out env n c =
    (if user_out_len c < n then (- ENOSPC, None, c\<lparr>out_gen := out_gen c + 1\<rparr>)
     else (0, Some dst, c\<lparr>out_gen := out_gen c + 1\<rparr>))"
  "0 < n \<Longrightarrow> n \<le> DRMTAP_MAX_FB_BYTES \<Longrightarrow> user_out c = None \<Longrightarrow>
    drmtap_ensure_buf env (deswizzle_buf c) (deswizzle_buf_size c) n (c\<lparr>out_gen := out_gen c + 1\<rparr>) = (b2, b3, k3, c3) \<Longrightarrow>
    drmtap_ensure_out env n c =
      (b2, if b2 = 0 then b3 else None, c3\<lparr>deswizzle_buf := b3, deswizzle_buf_size := k3\<rparr>)"
  by (simp_all add: drmtap_ensure_out_def Let_def)

lemma ensure_out_ok:
  assumes fr: "fresh_ok c" and inv: "buf_inv c"
    and run: "drmtap_ensure_out env n c = (r, out, c')"
  shows "fresh_ok c'" "buf_inv c'" "resources c' = resources c"
    "frame_mem (if user_out c = None then deswizzle_buf c else None) c c'"
    "user_out c' = user_out c" "user_out_len c' = user_out_len c"
    "r = 0 \<Longrightarrow> \<exists>p. out = Some p \<and> holds c' p n \<and> p \<notin> live_maps c' \<and>
      out = (if user_out c = None then deswizzle_buf c' else user_out c)"
    "r \<noteq> 0 \<Longrightarrow> out = None" "r \<in> {0, - EINVAL, - EFBIG, - ENOMEM, - ENOSPC}"
    "\<exists>t m p g b k. c' = c\<lparr>tick := t, mem := m, next_obj := p, out_gen := g, deswizzle_buf := b, deswizzle_buf_size := k\<rparr>"
proof -
  let ?c1 = "c\<lparr>out_gen := out_gen c + 1\<rparr>"
  have c1: "fresh_ok ?c1" "buf_inv ?c1" "resources ?c1 = resources c"
    using fr inv by (simp_all add: fresh_ok_def buf_inv_def resources_def holds_def)
  obtain b2 k2 c2 where eb: "drmtap_ensure_buf env (deswizzle_buf c) (deswizzle_buf_size c) n ?c1 = (b2, k2, c2)"
    by (metis prod_cases3)
  obtain b3 k3 c3 where kc: "(k2, c2) = (b3, k3, c3)" by (metis prod_cases3)
  have eb: "drmtap_ensure_buf env (deswizzle_buf c) (deswizzle_buf_size c) n ?c1 = (b2, b3, k3, c3)"
    using eb kc by simp
  consider (early) "r \<noteq> 0" "out = None" "r \<in> {- EINVAL, - EFBIG, - ENOSPC}" "c' = c \<or> c' = ?c1"
    | (user) dst where "user_out c = Some dst" "n \<le> user_out_len c" "r = 0" "out = Some dst" "c' = ?c1"
    | (own) "user_out c = None" "r = b2" "c' = c3\<lparr>deswizzle_buf := b3, deswizzle_buf_size := k3\<rparr>"
      "out = (if r = 0 then b3 else None)"
  proof -
    have pick: "(r, out, c') = t \<Longrightarrow> r = fst t \<and> out = fst (snd t) \<and> c' = snd (snd t)" for t by auto
    note res = pick[OF trans[OF run[symmetric]], unfolded fst_conv snd_conv]
    consider (zero) "n = 0" | (big) "DRMTAP_MAX_FB_BYTES < n" | (fits) "0 < n" "n \<le> DRMTAP_MAX_FB_BYTES"
      by linarith
    then show ?thesis
    proof cases
      case zero
      show ?thesis using res[OF ensure_out_eqs(1)[of env c, folded zero]] by (intro early) (simp_all add: errno_defs)
    next
      case big
      show ?thesis using res[OF ensure_out_eqs(2)[OF big, of env c]] by (intro early) (simp_all add: errno_defs)
    next
      case fits
      show ?thesis
      proof (cases "user_out c")
        case None
        show ?thesis using res[OF ensure_out_eqs(4)[OF fits None eb]] None by (intro own) simp_all
      next
        case (Some dst)
        note eq = res[OF ensure_out_eqs(3)[OF fits Some, of env]]
        show ?thesis
        proof (cases "user_out_len c < n")
          case True
          show ?thesis using eq True by (intro early) (simp_all add: errno_defs)
        next
          case False
          show ?thesis using eq False Some by (intro user) simp_all
        qed
      qed
    qed
  qed
  note four = this
  have own: "\<forall>q. deswizzle_buf c = Some q \<longrightarrow> holds ?c1 q (deswizzle_buf_size c) \<and> q \<notin> live_maps ?c1"
    using inv by (simp add: buf_inv_def holds_def)
  note ebp = ensure_buf_ok[OF c1(1) own eb]
  obtain t m p where c3: "c3 = ?c1\<lparr>tick := t, mem := m, next_obj := p\<rparr>" using ebp(8) by blast
  show "fresh_ok c'" using four
    by cases (use fr c1 ebp(1) in \<open>auto simp: fresh_ok_def\<close>)
  show "resources c' = resources c" using four
    by cases (use c1 ebp(2) in \<open>auto simp: resources_def\<close>)
  show "user_out c' = user_out c" using four
    by cases (auto simp: c3)
  show "user_out_len c' = user_out_len c" using four
    by cases (auto simp: c3)
  show "frame_mem (if user_out c = None then deswizzle_buf c else None) c c'" using four
    by cases (use ebp(3) in \<open>auto simp: frame_mem_def\<close>)
  show "r \<noteq> 0 \<Longrightarrow> out = None" using four by cases auto
  show "r \<in> {0, - EINVAL, - EFBIG, - ENOMEM, - ENOSPC}" using four by cases (use ebp(6) in auto)
  show "\<exists>t m p g b k. c' = c\<lparr>tick := t, mem := m, next_obj := p, out_gen := g, deswizzle_buf := b, deswizzle_buf_size := k\<rparr>"
    using four
  proof cases
    case own
    then show ?thesis unfolding c3
      by (intro exI[of _ t] exI[of _ m] exI[of _ p] exI[of _ "out_gen c + 1"] exI[of _ b3] exI[of _ k3]) simp
  next
    case early
    then show ?thesis
      by (intro exI[of _ "tick c"] exI[of _ "mem c"] exI[of _ "next_obj c"] exI[of _ "out_gen c'"]
        exI[of _ "deswizzle_buf c"] exI[of _ "deswizzle_buf_size c"]) auto
  next
    case user
    then show ?thesis
      by (intro exI[of _ "tick c"] exI[of _ "mem c"] exI[of _ "next_obj c"] exI[of _ "out_gen c'"]
        exI[of _ "deswizzle_buf c"] exI[of _ "deswizzle_buf_size c"]) auto
  qed
  have keep: "holds c3 q k" if "holds c q k" "Some q \<noteq> deswizzle_buf c" for q k
    using that ebp(3) holds_lt[OF fr that(1)] by (simp add: frame_mem_def holds_def)
  have live: "live_maps c3 = live_maps c" using ebp(2) by (simp add: resources_def)
  show "buf_inv c'" using four
  proof cases
    case own
    have pix: "pixel_buf c = Some q \<Longrightarrow> holds c3 q (pixel_buf_size c) \<and> q \<notin> live_maps c \<and> b3 \<noteq> Some q" for q
    proof -
      assume q: "pixel_buf c = Some q"
      then have h: "holds c q (pixel_buf_size c)" "q \<notin> live_maps c" "Some q \<noteq> deswizzle_buf c"
        using inv unfolding buf_inv_def by (blast, blast, metis)
      then show ?thesis using keep[OF h(1,3)] ebp(4)[of q] holds_lt[OF fr h(1)] by auto
    qed
    show ?thesis using own ebp(4) pix live inv by (auto simp: buf_inv_def c3 holds_def)
  qed (use inv c1 in auto)
  show "\<exists>p. out = Some p \<and> holds c' p n \<and> p \<notin> live_maps c' \<and>
      out = (if user_out c = None then deswizzle_buf c' else user_out c)" if "r = 0"
    using four
  proof cases
    case user
    then show ?thesis using inv by (auto simp: buf_inv_def holds_def split: option.splits)
  next
    case own
    then have "b2 = 0" using that by simp
    from ebp(5)[OF this] obtain q where "b3 = Some q" "n \<le> k3" by blast
    then show ?thesis using own that ebp(4)[of q] by (auto simp: holds_def split: option.splits)
  qed (use that in auto)
qed

interpretation out: output_provider "drmtap_ensure_out env"
  "\<lambda>c p. map_option length (mem c p)" "\<lambda>c. fresh_ok c \<and> buf_inv c" for env
proof (unfold_locales, goal_cases)
  case (1 s n out s')
  then obtain p where "out = Some p" "holds s' p n"
    using ensure_out_ok(7)[of s env n 0 out s'] by blast
  then show ?case by (auto simp: holds_def split: option.splits)
next
  case (2 s n r out s')
  then show ?case using ensure_out_ok(8)[of s env n r out s'] by blast
next
  case (3 s n r out s')
  then show ?case using ensure_out_ok(1,2)[of s env n r out s'] by blast
qed

end
