(* ===== verification/HelperClient.thy ===== *)
theory HelperClient
  imports Ctx
begin

text \<open>
  The client end of the privileged helper (src/privilege_helper.c): finding and spawning it,
  stopping it, asking it for a frame (drmtap_helper_grab) and for the cursor
  (drmtap_helper_get_cursor). The peer is the channel of the world: any sequence of chunks,
  interruptions and failures. What the helper process itself does, and reaping it, is outside.
\<close>

section \<open>Lifecycle\<close>

definition helper_search_paths :: "string list" where
  "helper_search_paths = [''/usr/lib/rustdesk/drmtap-helper'', ''/usr/libexec/drmtap-helper'',
    ''/usr/local/libexec/drmtap-helper'', ''/usr/local/bin/drmtap-helper'', ''/usr/bin/drmtap-helper'',
    ''/usr/lib/drmtap/drmtap-helper'']"

definition find_helper :: "env \<Rightarrow> ctx \<Rightarrow> string option" where
  "find_helper env c =
    (if helper_path c \<noteq> [] \<and> v_access env (tick c) (helper_path c) then Some (helper_path c)
     else find (v_access env (tick c)) helper_search_paths)"

definition drmtap_helper_spawn :: "env \<Rightarrow> ctx \<Rightarrow> int \<times> ctx" where
  "drmtap_helper_spawn env c =
    (if 0 \<le> helper_fd c then (0, c)
     else case find_helper env c of
       None \<Rightarrow> (- EACCES, step_clock c)
     | Some _ \<Rightarrow>
         (case v_spawn env (tick c) of
           Inl e \<Rightarrow> (- e, step_clock c)
         | Inr (pid, ch) \<Rightarrow>
             let (fd, c') = sys_mint_fd c in
             (0, step_clock (c'\<lparr>chan := ch, sent := [], helper_fd := fd, helper_pid := pid\<rparr>))))"

text \<open>One send on the helper socket: the count it reports, -1 on an error or interruption.\<close>

definition helper_send :: "byte list \<Rightarrow> ctx \<Rightarrow> int \<times> ctx" where
  "helper_send bs c =
    (case sock_send (length bs) (ch_tx (chan c)) of
      (Took n, tx) \<Rightarrow> (int n, c\<lparr>chan := (chan c)\<lparr>ch_tx := tx\<rparr>, sent := sent c @ take n bs\<rparr>)
    | (_, tx) \<Rightarrow> (- 1, c\<lparr>chan := (chan c)\<lparr>ch_tx := tx\<rparr>\<rparr>))"

definition drmtap_helper_stop :: "ctx \<Rightarrow> ctx" where
  "drmtap_helper_stop c =
    (let c = (if 0 \<le> helper_fd c then
                let (_, c1) = helper_send (encode_cmd (wire_cmd CMD_QUIT 0)) c in
                (sys_close (helper_fd c1) c1)\<lparr>helper_fd := - 1\<rparr>
              else c) in
     if 0 < helper_pid c then c\<lparr>helper_pid := - 1\<rparr> else c)"

section \<open>Grab\<close>

definition recv_all :: "nat \<Rightarrow> ctx \<Rightarrow> byte list option \<times> ctx" where
  "recv_all len c = (case wire_recv_all len (ch_rx (chan c)) of (r, rx) \<Rightarrow> (r, set_rx rx c))"

text \<open>The drain of an oversized payload: False when the socket fails on the way.\<close>

function drain :: "nat \<Rightarrow> rx_event list \<Rightarrow> bool \<times> rx_event list" where
  "drain remaining rx =
    (if remaining = 0 then (True, rx)
     else case sock_recv (min remaining 4096) rx of
       (Got bs, rx') \<Rightarrow> if bs = [] then (False, rx') else drain (remaining - length bs) rx'
     | (_, rx') \<Rightarrow> (False, rx'))"
  by pat_completeness auto
termination by (relation "measure fst") auto

declare drain.simps [simp del]

definition send_grab :: "env \<Rightarrow> byte list \<Rightarrow> ctx \<Rightarrow> int \<times> ctx" where
  "send_grab env cmd c =
    (case helper_send cmd c of
      (n, c1) \<Rightarrow>
        if n = int (length cmd) then (0, c1)
        else
          (case drmtap_helper_spawn env (drmtap_helper_stop c1) of
            (ret, c2) \<Rightarrow>
              if ret < 0 then (ret, c2)
              else (case helper_send cmd c2 of
                (n, c3) \<Rightarrow> (if n = int (length cmd) then 0 else - EIO, c3))))"

text \<open>
  The reply: the wire part, and the descriptor (-1 for none). Pixels go to \<open>buf\<close>, the
  caller's object of at least \<open>buf_size\<close> bytes.
\<close>

definition drmtap_helper_grab ::
  "env \<Rightarrow> obj option \<Rightarrow> nat \<Rightarrow> ctx \<Rightarrow> (int \<times> helper_grab_wire option \<times> int) \<times> ctx" where
  "drmtap_helper_grab env buf buf_size c0 =
    (case (if helper_fd c0 < 0 then drmtap_helper_spawn env c0 else (0, c0)) of (ret, c1) \<Rightarrow>
      if ret < 0 then ((ret, None, - 1), c1)
      else (case send_grab env (encode_cmd (wire_cmd CMD_GRAB (crtc_id c1))) c1 of (ret, c2) \<Rightarrow>
        if ret < 0 then ((ret, None, - 1), c2)
        else (case wire_recv_fd 64 c2 of ((meta, fd), c3) \<Rightarrow>
          (case meta of
            None \<Rightarrow> ((- EIO, None, - 1), c3)
          | Some bs \<Rightarrow>
              let w = decode_grab bs in
              if gw_flags w AND HELPER_FLAG_HAS_DMABUF \<noteq> 0 then
                (if fd < 0 then ((- EIO, Some w, - 1), c3) else ((0, Some w, fd), c3))
              else
                let c4 = (if 0 \<le> fd then sys_close fd c3 else c3); n = unat (gw_data_size w) in
                if n = 0 then ((- EIO, Some w, - 1), c4)
                else if buf_size < n then
                  (case drain n (ch_rx (chan c4)) of (ok, rx) \<Rightarrow>
                    if ok then ((- ENOSPC, Some w, - 1), set_rx rx c4)
                    else ((- EIO, Some w, - 1), drmtap_helper_stop (set_rx rx c4)))
                else (case recv_all n c4 of
                  (None, c5) \<Rightarrow> ((- EIO, Some w, - 1), c5)
                | (Some pixels, c5) \<Rightarrow>
                    (case buf of
                      None \<Rightarrow> ((0, Some w, - 1), c5\<lparr>faults := Suc (faults c5)\<rparr>)
                    | Some p \<Rightarrow>
                        (case wr (mem c5) p 0 pixels of
                          None \<Rightarrow> ((0, Some w, - 1), c5\<lparr>faults := Suc (faults c5)\<rparr>)
                        | Some m \<Rightarrow> ((0, Some w, - 1), c5\<lparr>mem := m\<rparr>))))))))"

section \<open>Cursor\<close>

record drmtap_cursor_info =
  c_x :: u32
  c_y :: u32
  c_hot_x :: u32
  c_hot_y :: u32
  c_width :: u32
  c_height :: u32
  c_pixels :: "obj option"
  c_visible :: bool
  c_priv :: u32

definition zero_cursor :: drmtap_cursor_info where
  "zero_cursor = \<lparr>c_x = 0, c_y = 0, c_hot_x = 0, c_hot_y = 0, c_width = 0, c_height = 0,
    c_pixels = None, c_visible = False, c_priv = 0\<rparr>"

definition CURSOR_PRIV_HOT_ANSWERED :: u32 where "CURSOR_PRIV_HOT_ANSWERED = 1"
definition CURSOR_PRIV_HOT_MEASURED :: u32 where "CURSOR_PRIV_HOT_MEASURED = 2"

definition drmtap_cursor_set_hot_provenance :: "bool \<Rightarrow> drmtap_cursor_info \<Rightarrow> drmtap_cursor_info" where
  "drmtap_cursor_set_hot_provenance measured cursor =
    cursor\<lparr>c_priv := (if measured then CURSOR_PRIV_HOT_ANSWERED OR CURSOR_PRIV_HOT_MEASURED
                      else CURSOR_PRIV_HOT_ANSWERED)\<rparr>"

text \<open>The cursor's drain counts the bytes it asked for, not the bytes it got.\<close>

function cursor_drain :: "nat \<Rightarrow> rx_event list \<Rightarrow> rx_event list" where
  "cursor_drain remaining rx =
    (if remaining = 0 then rx
     else let c = min remaining 4096 in
       case sock_recv c rx of
         (Got bs, rx') \<Rightarrow> if bs = [] then rx' else cursor_drain (remaining - c) rx'
       | (_, rx') \<Rightarrow> rx')"
  by pat_completeness auto
termination by (relation "measure fst") auto

declare cursor_drain.simps [simp del]

definition cursor_send :: "env \<Rightarrow> byte list \<Rightarrow> ctx \<Rightarrow> int \<times> ctx" where
  "cursor_send env cmd c =
    (case helper_send cmd c of
      (n, c1) \<Rightarrow>
        if n = int (length cmd) then (0, c1)
        else
          (case drmtap_helper_spawn env (drmtap_helper_stop c1) of
            (ret, c2) \<Rightarrow>
              if ret < 0 then (- EIO, c2)
              else (case helper_send cmd c2 of
                (n, c3) \<Rightarrow> (if n = int (length cmd) then 0 else - EIO, c3))))"

definition cursor_of_wire :: "bool \<Rightarrow> helper_cursor_wire \<Rightarrow> drmtap_cursor_info" where
  "cursor_of_wire extended w =
    (let cur = zero_cursor\<lparr>c_x := cw_x w, c_y := cw_y w, c_hot_x := cw_hot_x w, c_hot_y := cw_hot_y w,
        c_width := cw_width w, c_height := cw_height w, c_visible := (cw_visible w \<noteq> 0)\<rparr> in
     if extended then drmtap_cursor_set_hot_provenance (cw_hot_from_property w \<noteq> 0) cur else cur)"

definition cursor_pixels ::
  "env \<Rightarrow> helper_cursor_wire \<Rightarrow> drmtap_cursor_info \<Rightarrow> ctx \<Rightarrow> (int \<times> drmtap_cursor_info) \<times> ctx" where
  "cursor_pixels env w cur c =
    (let n = unat (cw_data_size w) in
     if cw_visible w \<noteq> 0 \<and> 0 < n then
       if 256 * 256 * 4 < n then
         ((0, cur\<lparr>c_visible := False\<rparr>), set_rx (cursor_drain n (ch_rx (chan c))) c)
       else (case sys_malloc env n c of
         (None, c1) \<Rightarrow> ((- ENOMEM, cur), c1)
       | (Some p, c1) \<Rightarrow>
           (case recv_all n c1 of
             (None, c2) \<Rightarrow> ((- EIO, cur), sys_free (Some p) c2)
           | (Some bs, c2) \<Rightarrow> ((0, cur\<lparr>c_pixels := Some p\<rparr>), c2\<lparr>mem := (mem c2)(p \<mapsto> bs)\<rparr>)))
     else ((0, cur), c))"

text \<open>
  One attempt: an answer, or None when the command must be asked again (extended on a fresh
  helper, or, after two helpers refused it, in its old form).
\<close>

definition cursor_attempt :: "env \<Rightarrow> ctx \<Rightarrow> (int \<times> drmtap_cursor_info) option \<times> ctx" where
  "cursor_attempt env c0 =
    (case (if helper_fd c0 < 0 then drmtap_helper_spawn env c0 else (0, c0)) of (ret, c1) \<Rightarrow>
      if ret < 0 then (Some (ret, zero_cursor), c1)
      else
        let extended = (\<not> helper_no_cursor2 c1);
            cmd = encode_cmd (wire_cmd (if extended then CMD_GET_CURSOR2 else CMD_GET_CURSOR) (crtc_id c1)) in
        (case cursor_send env cmd c1 of (ret, c2) \<Rightarrow>
          if ret < 0 then (Some (ret, zero_cursor), c2)
          else (case recv_all (if extended then 36 else 32) c2 of
            (None, c3) \<Rightarrow>
              if extended \<and> \<not> helper_cursor2_ok c3 then
                (case drmtap_helper_spawn env (drmtap_helper_stop c3) of (ret, c4) \<Rightarrow>
                  if ret < 0 then (Some (- EIO, zero_cursor), c4)
                  else if \<not> helper_cursor2_retried c4 then (None, c4\<lparr>helper_cursor2_retried := True\<rparr>)
                  else (None, c4\<lparr>helper_no_cursor2 := True\<rparr>))
              else (Some (- EIO, zero_cursor), c3)
          | (Some bs, c3) \<Rightarrow>
              let w = decode_cursor bs;
                  c4 = (if extended then c3\<lparr>helper_cursor2_ok := True\<rparr> else c3) in
              (case cursor_pixels env w (cursor_of_wire extended w) c4 of (r, c5) \<Rightarrow> (Some r, c5)))))"

section \<open>What the lifecycle touches\<close>

text \<open>
  The context with everything the helper connection owns blanked: two contexts with the same
  mask differ in the connection only.
\<close>

definition hmask :: "ctx \<Rightarrow> ctx" where
  "hmask c = c\<lparr>tick := 0, live_fds := {}, next_fd := 0, chan := \<lparr>ch_rx = [], ch_tx = []\<rparr>, sent := [],
    helper_fd := 0, helper_pid := 0, faults := 0\<rparr>"

lemma hmask_D:
  assumes "hmask c' = hmask c"
  shows "mem c' = mem c" "next_obj c' = next_obj c" "live_maps c' = live_maps c" "live_gems c' = live_gems c"
    "next_gem c' = next_gem c" "live_privs c' = live_privs c" "windows c' = windows c"
    "crtc_id c' = crtc_id c" "helper_no_cursor2 c' = helper_no_cursor2 c"
    "helper_cursor2_ok c' = helper_cursor2_ok c" "helper_cursor2_retried c' = helper_cursor2_retried c"
    "pixel_buf c' = pixel_buf c" "pixel_buf_size c' = pixel_buf_size c" "deswizzle_buf c' = deswizzle_buf c"
    "deswizzle_buf_size c' = deswizzle_buf_size c" "user_out c' = user_out c" "user_out_len c' = user_out_len c"
    "fast_slots c' = fast_slots c"
proof -
  have f: "f (hmask c') = f (hmask c)" for f :: "ctx \<Rightarrow> 'b" using assms by simp
  show "mem c' = mem c" using f[of mem] by (simp add: hmask_def)
  show "next_obj c' = next_obj c" using f[of next_obj] by (simp add: hmask_def)
  show "live_maps c' = live_maps c" using f[of live_maps] by (simp add: hmask_def)
  show "live_gems c' = live_gems c" using f[of live_gems] by (simp add: hmask_def)
  show "next_gem c' = next_gem c" using f[of next_gem] by (simp add: hmask_def)
  show "live_privs c' = live_privs c" using f[of live_privs] by (simp add: hmask_def)
  show "windows c' = windows c" using f[of windows] by (simp add: hmask_def)
  show "crtc_id c' = crtc_id c" using f[of crtc_id] by (simp add: hmask_def)
  show "helper_no_cursor2 c' = helper_no_cursor2 c" using f[of helper_no_cursor2] by (simp add: hmask_def)
  show "helper_cursor2_ok c' = helper_cursor2_ok c" using f[of helper_cursor2_ok] by (simp add: hmask_def)
  show "helper_cursor2_retried c' = helper_cursor2_retried c" using f[of helper_cursor2_retried] by (simp add: hmask_def)
  show "pixel_buf c' = pixel_buf c" using f[of pixel_buf] by (simp add: hmask_def)
  show "pixel_buf_size c' = pixel_buf_size c" using f[of pixel_buf_size] by (simp add: hmask_def)
  show "deswizzle_buf c' = deswizzle_buf c" using f[of deswizzle_buf] by (simp add: hmask_def)
  show "deswizzle_buf_size c' = deswizzle_buf_size c" using f[of deswizzle_buf_size] by (simp add: hmask_def)
  show "user_out c' = user_out c" using f[of user_out] by (simp add: hmask_def)
  show "user_out_len c' = user_out_len c" using f[of user_out_len] by (simp add: hmask_def)
  show "fast_slots c' = fast_slots c" using f[of fast_slots] by (simp add: hmask_def)
qed

text \<open>
  The contract of every step on the connection: the context owns its socket, nothing outside the
  connection moves, and apart from the socket the process holds what it held.
\<close>

definition conn_ok :: "ctx \<Rightarrow> bool" where
  "conn_ok c \<longleftrightarrow> fresh_ok c \<and> (0 \<le> helper_fd c \<longrightarrow> helper_fd c \<in> live_fds c)"

definition conn_step :: "ctx \<Rightarrow> ctx \<Rightarrow> bool" where
  "conn_step c c' \<longleftrightarrow> hmask c' = hmask c \<and> faults c' = faults c \<and>
    live_fds c' - {helper_fd c'} = live_fds c - {helper_fd c}"

lemma conn_step_refl [simp]: "conn_step c c"
  by (simp add: conn_step_def)

lemma conn_step_trans: "conn_step a b \<Longrightarrow> conn_step b c \<Longrightarrow> conn_step a c"
  by (simp add: conn_step_def)

lemma conn_fd_nonneg: "fresh_ok c \<Longrightarrow> fd \<in> live_fds c \<Longrightarrow> 0 \<le> fd"
  by (auto simp: fresh_ok_def)

lemma clock_conn: "conn_ok c \<Longrightarrow> conn_ok (step_clock c) \<and> conn_step c (step_clock c)"
  by (simp add: conn_ok_def conn_step_def hmask_def step_clock_def fresh_ok_def)

lemma connect_conn:
  fixes c :: ctx
  assumes "conn_ok c" and neg: "helper_fd c < 0" and c2: "c2 = step_clock (c\<lparr>live_fds := insert (next_fd c) (live_fds c),
    next_fd := next_fd c + 1, chan := ch, sent := [], helper_fd := next_fd c, helper_pid := pid\<rparr>)"
  shows "conn_ok c2 \<and> conn_step c c2"
proof -
  have fr: "fresh_ok c" and nn: "0 \<le> next_fd c" "next_fd c \<notin> live_fds c" "helper_fd c \<notin> live_fds c"
    using assms(1) neg by (auto simp: conn_ok_def fresh_ok_def)
  have "conn_ok c2" using fr nn by (auto simp: c2 conn_ok_def fresh_ok_def step_clock_def)
  moreover have "conn_step c c2" using nn by (simp add: c2 conn_step_def hmask_def step_clock_def)
  ultimately show ?thesis ..
qed

lemma spawn_conn:
  assumes "conn_ok c"
  shows "conn_ok (snd (drmtap_helper_spawn env c)) \<and> conn_step c (snd (drmtap_helper_spawn env c))"
proof (cases "0 \<le> helper_fd c \<or> find_helper env c = None \<or> (\<exists>e. v_spawn env (tick c) = Inl e)")
  case True
  then have "snd (drmtap_helper_spawn env c) = c \<or> snd (drmtap_helper_spawn env c) = step_clock c"
    by (auto simp: drmtap_helper_spawn_def split: option.split)
  then show ?thesis using assms clock_conn[OF assms] by (elim disjE) simp_all
next
  case False
  then obtain h pid ch where "helper_fd c < 0" "find_helper env c = Some h" "v_spawn env (tick c) = Inr (pid, ch)"
    by (cases "v_spawn env (tick c)") auto
  then show ?thesis using connect_conn[OF assms _ refl, where ch = ch and pid = pid]
    by (simp add: drmtap_helper_spawn_def sys_mint_fd_def)
qed

lemma send_conn:
  assumes "conn_ok c"
  shows "conn_ok (snd (helper_send bs c)) \<and> conn_step c (snd (helper_send bs c)) \<and>
    helper_fd (snd (helper_send bs c)) = helper_fd c"
  using assms by (auto simp: helper_send_def conn_ok_def conn_step_def hmask_def fresh_ok_def
    split: prod.split send_result.split)

lemma close_conn:
  fixes c :: ctx
  assumes "conn_ok c" "0 \<le> helper_fd c"
  shows "conn_ok ((sys_close (helper_fd c) c)\<lparr>helper_fd := - 1\<rparr>) \<and>
    conn_step c ((sys_close (helper_fd c) c)\<lparr>helper_fd := - 1\<rparr>)"
proof -
  have "helper_fd c \<in> live_fds c" "- 1 \<notin> live_fds c" using assms by (auto simp: conn_ok_def fresh_ok_def)
  then show ?thesis using assms
    by (simp add: conn_ok_def conn_step_def hmask_def sys_close_def fresh_ok_def)
qed

lemma stop_conn:
  assumes "conn_ok c"
  shows "conn_ok (drmtap_helper_stop c) \<and> conn_step c (drmtap_helper_stop c)"
proof -
  let ?c1 = "snd (helper_send (encode_cmd (wire_cmd CMD_QUIT 0)) c)"
  let ?c2 = "if 0 \<le> helper_fd c then (sys_close (helper_fd ?c1) ?c1)\<lparr>helper_fd := - 1\<rparr> else c"
  have s: "conn_ok ?c1" "conn_step c ?c1" "helper_fd ?c1 = helper_fd c" using send_conn[OF assms] by blast+
  have "conn_ok ?c2 \<and> conn_step c ?c2"
  proof (cases "0 \<le> helper_fd c")
    case True
    then have "conn_ok ((sys_close (helper_fd ?c1) ?c1)\<lparr>helper_fd := - 1\<rparr>) \<and>
        conn_step ?c1 ((sys_close (helper_fd ?c1) ?c1)\<lparr>helper_fd := - 1\<rparr>)"
      using s by (intro close_conn) simp_all
    then show ?thesis using True s(2) conn_step_trans by (simp only: if_True)
  qed (simp add: assms)
  then obtain c2 where c2: "c2 = ?c2" "conn_ok c2" "conn_step c c2" by blast
  have "conn_ok (c2\<lparr>helper_pid := - 1\<rparr>) \<and> conn_step c2 (c2\<lparr>helper_pid := - 1\<rparr>)"
    using c2(2) by (simp add: conn_ok_def conn_step_def hmask_def fresh_ok_def)
  moreover have "drmtap_helper_stop c = (if 0 < helper_pid c2 then c2\<lparr>helper_pid := - 1\<rparr> else c2)"
    unfolding c2(1) by (simp add: drmtap_helper_stop_def Let_def split_beta)
  ultimately show ?thesis using c2(2,3) conn_step_trans by (simp split: if_split)
qed

lemma respawn_conn:
  assumes "conn_ok c"
  shows "conn_ok (snd (drmtap_helper_spawn env (drmtap_helper_stop c))) \<and>
    conn_step c (snd (drmtap_helper_spawn env (drmtap_helper_stop c)))"
  using stop_conn[OF assms] spawn_conn conn_step_trans by blast

section \<open>A grab through the helper\<close>

text \<open>wire_recv_fd touches descriptors, the channel and the fault count only.\<close>

definition wmask :: "ctx \<Rightarrow> ctx" where
  "wmask c = c\<lparr>live_fds := {}, next_fd := 0, chan := \<lparr>ch_rx = [], ch_tx = []\<rparr>, faults := 0\<rparr>"

lemma wmask_close: "wmask (sys_close fd c) = wmask c"
  by (simp add: wmask_def sys_close_def)

lemma wmask_closes: "wmask (fold sys_close fds c) = wmask c"
  by (induction fds arbitrary: c) (simp_all add: wmask_close)

lemma wmask_set_rx: "wmask (set_rx rx c) = wmask c"
  by (simp add: wmask_def set_rx_def)

lemma wmask_mint: "wmask (snd (mint_fds k c)) = wmask c"
  by (simp add: wmask_def mint_fds_def)

lemma wmask_recv_fd: "wmask (snd (wire_recv_fd n c)) = wmask c"
proof -
  have 1: "wmask (fold sys_close fds (snd (mint_fds k (set_rx rx c)))) = wmask c" for fds k rx
    by (simp only: wmask_closes wmask_mint wmask_set_rx)
  show ?thesis unfolding wire_recv_fd_def
    by (auto simp: split_beta Let_def wmask_close wmask_set_rx wmask_mint 1 split: option.split)
qed

lemma wmask_D:
  assumes "wmask c' = wmask c"
  shows "hmask c' = hmask c" "helper_fd c' = helper_fd c"
proof -
  have h: "hmask (wmask c) = hmask c" for c by (simp add: hmask_def wmask_def)
  show "hmask c' = hmask c" using h[of c] h[of c'] assms by simp
  show "helper_fd c' = helper_fd c" using arg_cong[OF assms, of helper_fd] by (simp add: wmask_def)
qed

text \<open>The contract of a step that may hand out one descriptor.\<close>

definition conn_step_fd :: "int \<Rightarrow> ctx \<Rightarrow> ctx \<Rightarrow> bool" where
  "conn_step_fd fd c c' \<longleftrightarrow> hmask c' = hmask c \<and> faults c' = faults c \<and>
    (if fd < 0 then live_fds c' - {helper_fd c'} = live_fds c - {helper_fd c}
     else fd \<notin> live_fds c - {helper_fd c} \<and>
       live_fds c' - {helper_fd c'} = insert fd (live_fds c - {helper_fd c}))"

lemma conn_step_fd_trans: "conn_step a b \<Longrightarrow> conn_step_fd fd b c \<Longrightarrow> conn_step_fd fd a c"
  by (simp only: conn_step_def conn_step_fd_def refl simp_thms) blast

lemma conn_step_fd_neg: "conn_step_fd fd c c' \<Longrightarrow> fd < 0 \<Longrightarrow> conn_step c c'"
  by (simp only: conn_step_def conn_step_fd_def if_True simp_thms)

lemma recv_fd_conn:
  assumes "conn_ok c" "wire_recv_fd n c = ((r, fd), c')"
  shows "conn_ok c'" "conn_step_fd fd c c'" "helper_fd c' = helper_fd c" "r = None \<longrightarrow> fd = - 1"
    "fd < 0 \<longrightarrow> fd = - 1" "0 \<le> fd \<longrightarrow> fd \<noteq> helper_fd c' \<and> fd \<in> live_fds c'"
proof -
  have m: "wmask c' = wmask c" using wmask_recv_fd[of n c] assms(2) by simp
  have "recv_fd_ok c n ((r, fd), c')" using wire_recv_fd_ok[of c n] assms by (simp add: conn_ok_def)
  then have ok: "faults c' = faults c" "fresh_ok c'" "r = None \<longrightarrow> fd = - 1"
      "fd = - 1 \<and> live_fds c' = live_fds c \<or> 0 \<le> fd \<and> fd \<notin> live_fds c \<and> live_fds c' = insert fd (live_fds c)"
    by (auto simp: recv_fd_ok_def split: option.splits)
  have h: "helper_fd c < 0 \<or> helper_fd c \<in> live_fds c" using assms(1) by (auto simp: conn_ok_def)
  note w = wmask_D[OF m]
  show "helper_fd c' = helper_fd c" by (rule w(2))
  show "r = None \<longrightarrow> fd = - 1" by (rule ok(3))
  show "fd < 0 \<longrightarrow> fd = - 1" using ok(4) by linarith
  show "conn_ok c'" unfolding conn_ok_def w(2) using ok(2,4) assms(1)[unfolded conn_ok_def] by blast
  show "0 \<le> fd \<longrightarrow> fd \<noteq> helper_fd c' \<and> fd \<in> live_fds c'"
  proof (rule impI)
    assume "0 \<le> fd"
    with ok(4) have n: "fd \<notin> live_fds c" "live_fds c' = insert fd (live_fds c)" by (elim disjE conjE; simp only:)+
    have "fd \<noteq> helper_fd c" using h n(1) \<open>0 \<le> fd\<close> by (metis not_less)
    then show "fd \<noteq> helper_fd c' \<and> fd \<in> live_fds c'" unfolding w(2) n(2) by blast
  qed
  show "conn_step_fd fd c c'" using ok(4)
  proof (elim disjE conjE)
    assume "fd = - 1" "live_fds c' = live_fds c"
    then show ?thesis using w ok(1) by (simp add: conn_step_fd_def)
  next
    assume "0 \<le> fd" "fd \<notin> live_fds c" "live_fds c' = insert fd (live_fds c)"
    then show ?thesis using w ok(1) h by (auto simp: conn_step_fd_def)
  qed
qed

lemma close_extra:
  assumes "conn_ok c3" "conn_step_fd fd c c3" "fd < 0 \<longrightarrow> fd = - 1" "0 \<le> fd \<longrightarrow> fd \<noteq> helper_fd c3 \<and> fd \<in> live_fds c3"
  shows "conn_ok (if 0 \<le> fd then sys_close fd c3 else c3) \<and> conn_step c (if 0 \<le> fd then sys_close fd c3 else c3)"
proof (cases "0 \<le> fd")
  case True
  then have fd: "fd \<in> live_fds c3" "fd \<noteq> helper_fd c3" using assms(4) by simp_all
  have m: "hmask (sys_close fd c3) = hmask c3" using wmask_D(1)[OF wmask_close] .
  have new: "fd \<notin> live_fds c - {helper_fd c}" "live_fds c3 - {helper_fd c3} = insert fd (live_fds c - {helper_fd c})"
    "hmask c3 = hmask c" "faults c3 = faults c" using assms(2) True by (simp_all only: conn_step_fd_def not_less[symmetric] if_False) blast+
  have "live_fds c3 - {fd} - {helper_fd c3} = live_fds c3 - {helper_fd c3} - {fd}" by blast
  also have "\<dots> = live_fds c - {helper_fd c}" unfolding new(2) using new(1) by blast
  finally have "live_fds c3 - {fd} - {helper_fd c3} = live_fds c - {helper_fd c}" .
  moreover have "sys_close fd c3 = c3\<lparr>live_fds := live_fds c3 - {fd}\<rparr>" using fd by (simp add: sys_close_def)
  ultimately have "conn_step c (sys_close fd c3)" using m new(3,4) by (simp add: conn_step_def)
  moreover have "conn_ok (sys_close fd c3)" using assms(1) fd by (auto simp: conn_ok_def fresh_ok_def sys_close_def)
  ultimately show ?thesis using True by simp
next
  case False
  then show ?thesis using assms(1,2) by (simp add: conn_step_def conn_step_fd_def)
qed

lemma rx_conn:
  assumes "conn_ok c"
  shows "conn_ok (set_rx rx c) \<and> conn_step c (set_rx rx c) \<and> helper_fd (set_rx rx c) = helper_fd c"
  using assms by (simp add: conn_ok_def conn_step_def hmask_def set_rx_def fresh_ok_def)

lemma send_grab_conn:
  assumes "conn_ok c"
  shows "conn_ok (snd (send_grab env cmd c)) \<and> conn_step c (snd (send_grab env cmd c))"
proof -
  let ?c1 = "snd (helper_send cmd c)"
  let ?c2 = "snd (drmtap_helper_spawn env (drmtap_helper_stop ?c1))"
  have 1: "conn_ok ?c1" "conn_step c ?c1" using send_conn[OF assms] by blast+
  have 2: "conn_ok ?c2" "conn_step c ?c2" using respawn_conn[OF 1(1)] conn_step_trans[OF 1(2)] by blast+
  have 3: "conn_ok (snd (helper_send cmd ?c2))" "conn_step c (snd (helper_send cmd ?c2))"
    using send_conn[OF 2(1)] conn_step_trans[OF 2(2)] by blast+
  have "snd (send_grab env cmd c) \<in> {?c1, ?c2, snd (helper_send cmd ?c2)}"
    by (simp add: send_grab_def split_beta)
  then show ?thesis using 1 2 3 by (elim insertE emptyE) simp_all
qed

text \<open>What a grab reply means to its caller.\<close>

definition helper_reply_ok ::
  "obj option \<Rightarrow> nat \<Rightarrow> ctx \<Rightarrow> (int \<times> helper_grab_wire option \<times> int) \<times> ctx \<Rightarrow> bool" where
  "helper_reply_ok buf n c res = (case res of ((r, w, fd), c') \<Rightarrow>
    conn_ok c' \<and> (\<exists>c1. conn_step_fd fd c c1 \<and> conn_ok c1 \<and>
      (c' = c1 \<or> r = 0 \<and> fd = - 1 \<and> (\<exists>p bs px w'. w = Some w' \<and> buf = Some p \<and> mem c1 p = Some bs \<and>
        length px = unat (gw_data_size w') \<and> length px \<le> n \<and> 0 < length px \<and>
        c' = c1\<lparr>mem := (mem c1)(p \<mapsto> patch bs 0 px)\<rparr>))) \<and>
    (r \<noteq> 0 \<longrightarrow> fd = - 1 \<and> r < 0) \<and> (0 \<le> fd \<longrightarrow> fd \<in> live_fds c' \<and> fd \<noteq> helper_fd c') \<and>
    (r = 0 \<longrightarrow> (\<exists>w'. w = Some w' \<and> (0 \<le> fd \<longleftrightarrow> gw_flags w' AND HELPER_FLAG_HAS_DMABUF \<noteq> 0) \<and>
       (fd < 0 \<longrightarrow> fd = - 1 \<and> 0 < unat (gw_data_size w') \<and> unat (gw_data_size w') \<le> n))))"

lemma reply_err:
  assumes "conn_ok c'" "conn_step c c'" "r < 0" "res = ((r, w, - 1), c')"
  shows "helper_reply_ok buf n c res"
proof -
  have "conn_step_fd (- 1) c c'" using assms(2) by (simp add: conn_step_def conn_step_fd_def)
  then show ?thesis using assms(1,3) unfolding assms(4) helper_reply_ok_def
    by (simp only: prod.case) (intro conjI exI[of _ c'] disjI1, simp_all)
qed

lemma reply_fd:
  assumes "conn_ok c'" "conn_step_fd fd c c'" "0 \<le> fd" "fd \<in> live_fds c'" "fd \<noteq> helper_fd c'"
    "gw_flags w AND HELPER_FLAG_HAS_DMABUF \<noteq> 0" "res = ((0, Some w, fd), c')"
  shows "helper_reply_ok buf n c res"
  using assms(1-6) unfolding assms(7) helper_reply_ok_def
  by (simp only: prod.case) (intro conjI exI[of _ c'] disjI1, simp_all)

lemma reply_pixels:
  assumes "conn_ok c1" "conn_step c c1" "conn_ok (c1\<lparr>mem := (mem c1)(p \<mapsto> patch bs 0 px)\<rparr>)"
    "buf = Some p" "mem c1 p = Some bs" "length px = unat (gw_data_size w)"
    "0 < unat (gw_data_size w) \<and> unat (gw_data_size w) \<le> n" "gw_flags w AND HELPER_FLAG_HAS_DMABUF = 0"
    "res = ((0, Some w, - 1), c1\<lparr>mem := (mem c1)(p \<mapsto> patch bs 0 px)\<rparr>)"
  shows "helper_reply_ok buf n c res"
proof -
  have "conn_step_fd (- 1) c c1" using assms(2) by (simp add: conn_step_def conn_step_fd_def)
  then show ?thesis using assms(1,3-8) unfolding assms(9) helper_reply_ok_def
    by (simp only: prod.case) (intro conjI exI[of _ c1] disjI2 exI[of _ p] exI[of _ bs] exI[of _ px] exI[of _ w], simp_all)
qed

lemma helper_grab_ok:
  assumes ok: "conn_ok c" and buf: "\<forall>k. 0 < k \<longrightarrow> k \<le> n \<longrightarrow> (\<exists>p bs. buf = Some p \<and> mem c p = Some bs \<and> k \<le> length bs)"
  shows "helper_reply_ok buf n c (drmtap_helper_grab env buf n c)"
proof -
  obtain r1 c1 where s1: "(if helper_fd c < 0 then drmtap_helper_spawn env c else (0, c)) = (r1, c1)" by fastforce
  have 1: "conn_ok c1" "conn_step c c1"
    using spawn_conn[OF ok, of env] ok s1 by (auto split: if_splits)
  obtain r2 c2 where s2: "send_grab env (encode_cmd (wire_cmd CMD_GRAB (crtc_id c1))) c1 = (r2, c2)" by fastforce
  have 2: "conn_ok c2" "conn_step c c2"
    using send_grab_conn[OF 1(1), of env "encode_cmd (wire_cmd CMD_GRAB (crtc_id c1))"] s2 conn_step_trans[OF 1(2)] by auto
  obtain meta fd c3 where s3: "wire_recv_fd 64 c2 = ((meta, fd), c3)" by (metis surj_pair)
  note 3 = recv_fd_conn[OF 2(1) s3]
  note step3 = conn_step_fd_trans[OF 2(2) 3(2)] and ok3 = 3(1,5,6,4)
  have neg3: "conn_step c c3" if "fd < 0" using conn_step_fd_neg[OF step3 that] .
  note run = drmtap_helper_grab_def[of env buf n c, unfolded s1 prod.case]
  consider (spawn) "r1 < 0" | (send) "\<not> r1 < 0" "r2 < 0" | (meta) "\<not> r1 < 0" "\<not> r2 < 0" "meta = None"
    | (dma) bs where "\<not> r1 < 0" "\<not> r2 < 0" "meta = Some bs" "gw_flags (decode_grab bs) AND HELPER_FLAG_HAS_DMABUF \<noteq> 0"
    | (pix) bs where "\<not> r1 < 0" "\<not> r2 < 0" "meta = Some bs" "gw_flags (decode_grab bs) AND HELPER_FLAG_HAS_DMABUF = 0"
    by (cases meta) blast+
  then show ?thesis
  proof cases
    case spawn
    then show ?thesis by (intro reply_err[OF 1, of r1]) (simp_all add: run)
  next
    case send
    then show ?thesis by (intro reply_err[OF 2]) (simp_all add: run s2)
  next
    case meta
    then have "drmtap_helper_grab env buf n c = ((- EIO, None, - 1), c3)" by (simp add: run s2 s3)
    from reply_err[OF ok3(1) neg3 _ this] show ?thesis using meta ok3(4) by (simp add: errno_defs)
  next
    case dma
    show ?thesis
    proof (cases "fd < 0")
      case True
      then have "drmtap_helper_grab env buf n c = ((- EIO, Some (decode_grab bs), - 1), c3)"
        using dma by (simp add: run s2 s3 Let_def)
      from reply_err[OF ok3(1) neg3 _ this] show ?thesis using True by (simp add: errno_defs)
    next
      case False
      then have "drmtap_helper_grab env buf n c = ((0, Some (decode_grab bs), fd), c3)"
        using dma by (simp add: run s2 s3 Let_def)
      from reply_fd[OF ok3(1) step3 _ _ _ dma(4) this] show ?thesis using ok3(3) False by simp
    qed
  next
    case pix
    let ?w = "decode_grab bs" and ?n = "unat (gw_data_size (decode_grab bs))"
    define c4 where "c4 = (if 0 \<le> fd then sys_close fd c3 else c3)"
    have 4: "conn_ok c4" "conn_step c c4"
      using close_extra[OF ok3(1) step3 ok3(2,3)] unfolding c4_def by blast+
    note run4 = run[unfolded if_not_P[OF pix(1)] s2 prod.case if_not_P[OF pix(2)] s3 pix(3) option.case Let_def, folded c4_def]
    consider (none) "?n = 0" | (big) "?n \<noteq> 0" "n < ?n" | (fits) "0 < ?n" "?n \<le> n" by linarith
    then show ?thesis
    proof cases
      case none
      then show ?thesis using pix(4) by (intro reply_err[OF 4]) (simp_all add: run4 errno_defs)
    next
      case big
      obtain ok' rx where d: "drain ?n (ch_rx (chan c4)) = (ok', rx)" by fastforce
      have 5: "conn_ok (set_rx rx c4)" "conn_step c (set_rx rx c4)"
        using rx_conn[OF 4(1)] conn_step_trans[OF 4(2)] by blast+
      have 6: "conn_ok (drmtap_helper_stop (set_rx rx c4))" "conn_step c (drmtap_helper_stop (set_rx rx c4))"
        using stop_conn[OF 5(1)] conn_step_trans[OF 5(2)] by blast+
      show ?thesis
      proof (cases ok')
        case True
        then show ?thesis using big pix(4) by (intro reply_err[OF 5]) (simp_all add: run4 d errno_defs)
      next
        case False
        then show ?thesis using big pix(4) by (intro reply_err[OF 6]) (simp_all add: run4 d errno_defs)
      qed
    next
      case fits
      obtain px c5 where ra: "recv_all ?n c4 = (px, c5)" by fastforce
      then have c5: "c5 = set_rx (snd (wire_recv_all ?n (ch_rx (chan c4)))) c4"
        and px: "px = fst (wire_recv_all ?n (ch_rx (chan c4)))"
        by (auto simp: recv_all_def split: prod.splits)
      have 5: "conn_ok c5" "conn_step c c5"
        using rx_conn[OF 4(1)] conn_step_trans[OF 4(2)] unfolding c5 by blast+
      show ?thesis
      proof (cases px)
        case None
        then show ?thesis using fits pix(4) by (intro reply_err[OF 5]) (simp_all add: run4 ra errno_defs)
      next
        case (Some pixels)
        have len: "length pixels = ?n" using Some px recv_all_length[of ?n "ch_rx (chan c4)" pixels]
          by (metis prod.collapse)
        obtain p bs' where b: "buf = Some p" "mem c p = Some bs'" "?n \<le> length bs'" using buf fits by blast
        have m: "mem c5 p = Some bs'" using b(2) hmask_D(1) 5(2) by (metis conn_step_def)
        have w: "wr (mem c5) p 0 pixels = Some ((mem c5)(p \<mapsto> patch bs' 0 pixels))"
          using m len b(3) by (simp add: wr_in_bounds)
        have ok6: "conn_ok (c5\<lparr>mem := (mem c5)(p \<mapsto> patch bs' 0 pixels)\<rparr>)"
          using 5(1) m by (auto simp: conn_ok_def fresh_ok_def)
        have "drmtap_helper_grab env buf n c
            = ((0, Some ?w, - 1), c5\<lparr>mem := (mem c5)(p \<mapsto> patch bs' 0 pixels)\<rparr>)"
          unfolding run4 using fits pix(4) by (simp add: ra Some b(1) w)
        from reply_pixels[OF 5 ok6 _ m len _ _ this] show ?thesis using fits pix(4) b(1) by simp
      qed
    qed
  qed
qed

section \<open>The cursor through the helper\<close>

lemma hmask_spawn: "hmask (snd (drmtap_helper_spawn env c)) = hmask c"
proof (cases "0 \<le> helper_fd c \<or> find_helper env c = None \<or> (\<exists>e. v_spawn env (tick c) = Inl e)")
  case True
  then have "snd (drmtap_helper_spawn env c) = c \<or> snd (drmtap_helper_spawn env c) = step_clock c"
    by (auto simp: drmtap_helper_spawn_def split: option.split)
  then show ?thesis by (elim disjE) (simp_all add: hmask_def step_clock_def)
next
  case False
  then obtain h pid ch where "helper_fd c < 0" "find_helper env c = Some h" "v_spawn env (tick c) = Inr (pid, ch)"
    by (cases "v_spawn env (tick c)") auto
  then show ?thesis by (simp add: drmtap_helper_spawn_def sys_mint_fd_def hmask_def step_clock_def)
qed

lemma hmask_send: "hmask (snd (helper_send bs c)) = hmask c"
  by (simp add: helper_send_def hmask_def split: prod.split send_result.split)

lemma hmask_stop: "hmask (drmtap_helper_stop c) = hmask c"
proof -
  let ?c1 = "snd (helper_send (encode_cmd (wire_cmd CMD_QUIT 0)) c)"
  have p: "hmask (x\<lparr>helper_pid := - 1\<rparr>) = hmask x" "hmask (x\<lparr>helper_fd := - 1\<rparr>) = hmask x" for x
    by (simp_all add: hmask_def)
  have "hmask ((sys_close (helper_fd ?c1) ?c1)\<lparr>helper_fd := - 1\<rparr>) = hmask c"
    by (simp only: p wmask_D(1)[OF wmask_close] hmask_send)
  then show ?thesis by (simp add: drmtap_helper_stop_def Let_def split_beta p)
qed

lemma hmask_respawn: "hmask (snd (drmtap_helper_spawn env (drmtap_helper_stop c))) = hmask c"
  by (simp only: hmask_spawn hmask_stop)

lemma hmask_cursor_send: "hmask (snd (cursor_send env cmd c)) = hmask c"
  by (simp add: cursor_send_def split_beta hmask_send hmask_respawn)

lemma hmask_recv_all: "hmask (snd (recv_all n c)) = hmask c"
  by (simp add: recv_all_def split_beta wmask_D(1)[OF wmask_set_rx])

text \<open>An attempt that must be repeated has used up one of the two reasons to repeat.\<close>

definition attempts_left :: "ctx \<Rightarrow> nat" where
  "attempts_left c = (if helper_no_cursor2 c then 0 else if helper_cursor2_retried c then 1 else 2)"

lemma attempt_again:
  assumes "cursor_attempt env c = (None, c')"
  shows "\<not> helper_no_cursor2 c \<and> \<not> helper_cursor2_ok c \<and> helper_cursor2_ok c' = helper_cursor2_ok c \<and>
    (if helper_cursor2_retried c then helper_no_cursor2 c' \<and> helper_cursor2_retried c'
     else \<not> helper_no_cursor2 c' \<and> helper_cursor2_retried c')"
proof -
  obtain r1 c1 where s1: "(if helper_fd c < 0 then drmtap_helper_spawn env c else (0, c)) = (r1, c1)" by fastforce
  have 1: "hmask c1 = hmask c" using hmask_spawn[of env c] s1 by (auto split: if_splits)
  let ?cmd = "encode_cmd (wire_cmd (if \<not> helper_no_cursor2 c1 then CMD_GET_CURSOR2 else CMD_GET_CURSOR) (crtc_id c1))"
  obtain r2 c2 where s2: "cursor_send env ?cmd c1 = (r2, c2)" by fastforce
  have 2: "hmask c2 = hmask c" using hmask_cursor_send[of env ?cmd c1] s2 1 by simp
  obtain m c3 where s3: "recv_all (if \<not> helper_no_cursor2 c1 then 36 else 32) c2 = (m, c3)" by fastforce
  have 3: "hmask c3 = hmask c" using hmask_recv_all[of "if \<not> helper_no_cursor2 c1 then 36 else 32" c2] s3 2 by simp
  obtain r4 c4 where s4: "drmtap_helper_spawn env (drmtap_helper_stop c3) = (r4, c4)" by fastforce
  have 4: "hmask c4 = hmask c" using hmask_respawn[of env c3] s4 3 by simp
  note f1 = hmask_D(9-11)[OF 1] and f3 = hmask_D(9-11)[OF 3] and f4 = hmask_D(9-11)[OF 4]
  note run = assms[unfolded cursor_attempt_def s1 prod.case Let_def s2 s3 s4]
  have no: "\<not> helper_no_cursor2 c1" "\<not> helper_cursor2_ok c3"
    "c' = (if helper_cursor2_retried c4 then c4\<lparr>helper_no_cursor2 := True\<rparr> else c4\<lparr>helper_cursor2_retried := True\<rparr>)"
    using run by (auto split: if_splits option.splits prod.splits)
  then show ?thesis using hmask_D(8-11)[OF 1] hmask_D(8-11)[OF 3] hmask_D(8-11)[OF 4] by simp
qed

function drmtap_helper_get_cursor :: "env \<Rightarrow> ctx \<Rightarrow> (int \<times> drmtap_cursor_info) \<times> ctx" where
  "drmtap_helper_get_cursor env c =
    (case cursor_attempt env c of
      (Some r, c') \<Rightarrow> (r, c')
    | (None, c') \<Rightarrow> drmtap_helper_get_cursor env c')"
  by pat_completeness auto
termination
proof (relation "measure (\<lambda>(env, c). attempts_left c)")
  fix env c a c' assume "(a, c') = cursor_attempt env c" "a = None"
  then show "((env, c'), (env, c)) \<in> measure (\<lambda>(env, c). attempts_left c)"
    using attempt_again[of env c c'] by (simp add: attempts_left_def split: if_splits)
qed simp

declare drmtap_helper_get_cursor.simps [simp del]

definition client_res :: "ctx \<Rightarrow> obj set \<times> int set \<times> nat set \<times> nat \<times> (int \<Rightarrow> nat) \<times> nat" where
  "client_res c = (live_maps c, live_fds c - {helper_fd c}, live_gems c, live_privs c, windows c, faults c)"

definition cursor_flags :: "ctx \<Rightarrow> bool \<times> bool \<times> bool" where
  "cursor_flags c = (helper_no_cursor2 c, helper_cursor2_ok c, helper_cursor2_retried c)"

lemma conn_step_res: "conn_step c c' \<Longrightarrow> client_res c' = client_res c \<and> cursor_flags c' = cursor_flags c"
  unfolding conn_step_def client_res_def cursor_flags_def
  using hmask_D[of c' c] by simp

lemma cursor_send_conn:
  assumes "conn_ok c"
  shows "conn_ok (snd (cursor_send env cmd c)) \<and> conn_step c (snd (cursor_send env cmd c))"
proof -
  have "snd (cursor_send env cmd c) = snd (send_grab env cmd c)"
    by (simp add: cursor_send_def send_grab_def split_beta)
  then show ?thesis using send_grab_conn[OF assms] by simp
qed

lemma recv_all_conn:
  assumes "conn_ok c"
  shows "conn_ok (snd (recv_all n c)) \<and> conn_step c (snd (recv_all n c))"
  using rx_conn[OF assms] by (simp add: recv_all_def split_beta)

lemma recv_all_len: "recv_all n c = (Some bs, c') \<Longrightarrow> length bs = n"
  by (auto simp: recv_all_def dest: recv_all_length split: prod.splits)

lemma malloc_conn:
  assumes "conn_ok c" "sys_malloc env n c = (q, c')"
  shows "conn_ok c'" "client_res c' = client_res c" "cursor_flags c' = cursor_flags c"
    "q = Some p \<Longrightarrow> mem c' p \<noteq> None \<and> p \<notin> live_maps c'"
  using assms by (auto simp: sys_malloc_def conn_ok_def fresh_ok_def client_res_def cursor_flags_def step_clock_def
    split: option.splits)

lemma cursor_pixels_ok:
  assumes ok: "conn_ok c" and cur: "c_pixels cur = None" and run: "cursor_pixels env w cur c = ((r, cur'), c')"
  shows "conn_ok c' \<and> client_res c' = client_res c \<and> cursor_flags c' = cursor_flags c \<and>
    (case c_pixels cur' of
      None \<Rightarrow> True
    | Some p \<Rightarrow> r = 0 \<and> (\<exists>bs. mem c' p = Some bs \<and> length bs = unat (cw_data_size w)) \<and> p \<notin> live_maps c')"
proof -
  let ?n = "unat (cw_data_size w)"
  have eq: "(r, cur') = fst (cursor_pixels env w cur c)" "c' = snd (cursor_pixels env w cur c)" using run by simp_all
  show ?thesis
  proof (cases "cw_visible w \<noteq> 0 \<and> 0 < ?n")
    case False
    then have "(r, cur') = (0, cur)" "c' = c" unfolding eq cursor_pixels_def Let_def by (simp_all only: if_False fst_conv snd_conv)
    then show ?thesis using ok cur by simp
  next
    case True
    show ?thesis
    proof (cases "256 * 256 * 4 < ?n")
      case big: True
      have "(r, cur') = (0, cur\<lparr>c_visible := False\<rparr>)" "c' = set_rx (cursor_drain ?n (ch_rx (chan c))) c"
        unfolding eq using True big by (simp_all add: cursor_pixels_def Let_def)
      then show ?thesis using rx_conn[OF ok] conn_step_res cur by simp
    next
      case small: False
      obtain q c1 where m: "sys_malloc env ?n c = (q, c1)" by fastforce
      note mc = malloc_conn[OF ok m]
      show ?thesis
      proof (cases q)
        case None
        then have "(r, cur') = (- ENOMEM, cur)" "c' = c1"
          unfolding eq using True small m by (simp_all add: cursor_pixels_def Let_def)
        then show ?thesis using mc(1-3) cur by simp
      next
        case (Some p)
        obtain px c2 where ra: "recv_all ?n c1 = (px, c2)" by fastforce
        have 2: "conn_ok c2" "conn_step c1 c2" using recv_all_conn[OF mc(1), of ?n] ra by simp_all
        have m2: "mem c2 = mem c1" "live_maps c2 = live_maps c1" using hmask_D(1,3)[of c2 c1] 2(2) by (simp_all add: conn_step_def)
        have keep: "client_res c2 = client_res c" "cursor_flags c2 = cursor_flags c"
          using conn_step_res[OF 2(2)] mc(2,3) by simp_all
        have p: "mem c2 p \<noteq> None" "p \<notin> live_maps c2" using mc(4)[OF Some] m2 by simp_all
        show ?thesis
        proof (cases px)
          case None
          then have "(r, cur') = (- EIO, cur)" "c' = sys_free (Some p) c2"
            unfolding eq using True small m Some ra by (simp_all add: cursor_pixels_def Let_def)
          moreover have "conn_ok (sys_free (Some p) c2)" "client_res (sys_free (Some p) c2) = client_res c2"
            "cursor_flags (sys_free (Some p) c2) = cursor_flags c2"
            using 2(1) p by (auto simp: sys_free_def conn_ok_def fresh_ok_def client_res_def cursor_flags_def)
          ultimately show ?thesis using keep cur by simp
        next
          case (Some bs)
          have "length bs = ?n" using ra Some by (intro recv_all_len) simp
          moreover have "(r, cur') = (0, cur\<lparr>c_pixels := Some p\<rparr>)" "c' = c2\<lparr>mem := (mem c2)(p \<mapsto> bs)\<rparr>"
            unfolding eq using True small m \<open>q = Some p\<close> ra Some by (simp_all add: cursor_pixels_def Let_def)
          moreover have "conn_ok (c2\<lparr>mem := (mem c2)(p \<mapsto> bs)\<rparr>)" using 2(1) p by (auto simp: conn_ok_def fresh_ok_def)
          ultimately show ?thesis using keep p(2) by (simp add: client_res_def cursor_flags_def)
        qed
      qed
    qed
  qed
qed

lemma attempt_ok:
  assumes ok: "conn_ok c" and run: "cursor_attempt env c = (a, c')"
  shows "conn_ok c' \<and> client_res c' = client_res c \<and>
    (case a of None \<Rightarrow> True
     | Some (r, cur) \<Rightarrow> helper_no_cursor2 c' = helper_no_cursor2 c \<and>
         helper_cursor2_retried c' = helper_cursor2_retried c \<and>
         (helper_cursor2_ok c \<longrightarrow> helper_cursor2_ok c') \<and>
         (case c_pixels cur of None \<Rightarrow> True | Some p \<Rightarrow> r = 0 \<and> mem c' p \<noteq> None \<and> p \<notin> live_maps c'))"
proof -
  obtain r1 c1 where s1: "(if helper_fd c < 0 then drmtap_helper_spawn env c else (0, c)) = (r1, c1)" by fastforce
  have 1: "conn_ok c1" "conn_step c c1" using spawn_conn[OF ok, of env] ok s1 by (auto split: if_splits)
  define ext where "ext = (\<not> helper_no_cursor2 c1)"
  define cmd where "cmd = encode_cmd (wire_cmd (if ext then CMD_GET_CURSOR2 else CMD_GET_CURSOR) (crtc_id c1))"
  obtain r2 c2 where s2: "cursor_send env cmd c1 = (r2, c2)" by fastforce
  have 2: "conn_ok c2" "conn_step c c2"
    using cursor_send_conn[OF 1(1), of env cmd] s2 conn_step_trans[OF 1(2)] by simp_all
  obtain m c3 where s3: "recv_all (if ext then 36 else 32) c2 = (m, c3)" by fastforce
  have 3: "conn_ok c3" "conn_step c c3"
    using recv_all_conn[OF 2(1), of "if ext then 36 else 32"] s3 conn_step_trans[OF 2(2)] by simp_all
  obtain r4 c4 where s4: "drmtap_helper_spawn env (drmtap_helper_stop c3) = (r4, c4)" by fastforce
  have 4: "conn_ok c4" "conn_step c c4"
    using respawn_conn[OF 3(1), of env] s4 conn_step_trans[OF 3(2)] by simp_all
  note run' = run[unfolded cursor_attempt_def s1 prod.case Let_def, folded ext_def, folded cmd_def, unfolded s2 prod.case s3 s4]
  have err: "conn_ok x \<and> client_res x = client_res c \<and> helper_no_cursor2 x = helper_no_cursor2 c \<and>
      helper_cursor2_retried x = helper_cursor2_retried c \<and> helper_cursor2_ok x = helper_cursor2_ok c"
    if "conn_ok x" "conn_step c x" for x
    using that conn_step_res[OF that(2)] by (simp add: cursor_flags_def)
  have mark: "conn_ok (c4\<lparr>helper_cursor2_retried := b\<rparr>) \<and> client_res (c4\<lparr>helper_cursor2_retried := b\<rparr>) = client_res c"
    "conn_ok (c4\<lparr>helper_no_cursor2 := b\<rparr>) \<and> client_res (c4\<lparr>helper_no_cursor2 := b\<rparr>) = client_res c" for b
    using 4(1) conn_step_res[OF 4(2)] by (simp_all add: conn_ok_def fresh_ok_def client_res_def)
  have zp: "c_pixels zero_cursor = None" by (simp add: zero_cursor_def)
  show ?thesis
  proof (cases "r1 < 0 \<or> r2 < 0 \<or> m = None")
    case True
    then consider "a = Some (r1, zero_cursor)" "c' = c1" | "a = Some (r2, zero_cursor)" "c' = c2"
      | "a = Some (- EIO, zero_cursor)" "c' = c3" | "a = Some (- EIO, zero_cursor)" "c' = c4"
      | "a = None" "c' = c4\<lparr>helper_cursor2_retried := True\<rparr>" | "a = None" "c' = c4\<lparr>helper_no_cursor2 := True\<rparr>"
    proof (cases "r1 < 0")
      case t: True
      show ?thesis using run'[unfolded if_P[OF t]] by (intro that(1)) (simp_all only: prod.inject)
    next
      case f1: False
      note run1 = run'[unfolded if_not_P[OF f1]]
      show ?thesis
      proof (cases "r2 < 0")
        case t: True
        show ?thesis using run1[unfolded if_P[OF t]] by (intro that(2)) (simp_all only: prod.inject)
      next
        case f2: False
        then have m: "m = None" using True f1 by simp
        note run2 = run1[unfolded if_not_P[OF f2] m option.case]
        show ?thesis
        proof (cases "ext \<and> \<not> helper_cursor2_ok c3")
          case f3: False
          show ?thesis using run2[unfolded if_not_P[OF f3]] by (intro that(3)) (simp_all only: prod.inject)
        next
          case t3: True
          note run3 = run2[unfolded if_P[OF t3]]
          show ?thesis
          proof (cases "r4 < 0")
            case t: True
            show ?thesis using run3[unfolded if_P[OF t]] by (intro that(4)) (simp_all only: prod.inject)
          next
            case f4: False
            show ?thesis
            proof (cases "helper_cursor2_retried c4")
              case t: True
              show ?thesis using run3[unfolded if_not_P[OF f4]] t
                by (intro that(6)) (simp_all only: prod.inject simp_thms if_False)
            next
              case f: False
              show ?thesis using run3[unfolded if_not_P[OF f4]] f
                by (intro that(5)) (simp_all only: prod.inject simp_thms if_True)
            qed
          qed
        qed
      qed
    qed
    then show ?thesis
    proof cases
      case 1 then show ?thesis using err[OF \<open>conn_ok c1\<close> \<open>conn_step c c1\<close>] zp by simp
    next case 2 then show ?thesis using err[OF \<open>conn_ok c2\<close> \<open>conn_step c c2\<close>] zp by simp
    next case 3 then show ?thesis using err[OF \<open>conn_ok c3\<close> \<open>conn_step c c3\<close>] zp by simp
    next case 4 then show ?thesis using err[OF \<open>conn_ok c4\<close> \<open>conn_step c c4\<close>] zp by simp
    next case 5 then show ?thesis using mark(1) by simp
    next case 6 then show ?thesis using mark(2) by simp
    qed
  next
    case False
    then obtain bs where m: "\<not> r1 < 0" "\<not> r2 < 0" "m = Some bs" by (cases m) auto
    let ?w = "decode_cursor bs" and ?c = "if ext then c3\<lparr>helper_cursor2_ok := True\<rparr> else c3"
    obtain r cur c5 where px: "cursor_pixels env ?w (cursor_of_wire ext ?w) ?c = ((r, cur), c5)" by (metis surj_pair)
    have a: "a = Some (r, cur)" "c' = c5" using run' m px by simp_all
    have c: "conn_ok ?c" "client_res ?c = client_res c" "helper_no_cursor2 ?c = helper_no_cursor2 c"
      "helper_cursor2_retried ?c = helper_cursor2_retried c" "helper_cursor2_ok c \<longrightarrow> helper_cursor2_ok ?c"
      using err[OF 3] by (auto simp: conn_ok_def fresh_ok_def client_res_def)
    have "c_pixels (cursor_of_wire ext ?w) = None"
      by (simp add: cursor_of_wire_def zero_cursor_def drmtap_cursor_set_hot_provenance_def Let_def)
    from cursor_pixels_ok[OF c(1) this px] show ?thesis
      using c(2-5) unfolding a by (auto simp: cursor_flags_def split: option.splits)
  qed
qed

lemma get_cursor_ok:
  "conn_ok c \<Longrightarrow>
    (case drmtap_helper_get_cursor env c of ((r, cur), c') \<Rightarrow>
      conn_ok c' \<and> client_res c' = client_res c \<and>
      (case c_pixels cur of None \<Rightarrow> True | Some p \<Rightarrow> r = 0 \<and> mem c' p \<noteq> None \<and> p \<notin> live_maps c') \<and>
      (helper_cursor2_ok c \<longrightarrow> helper_no_cursor2 c' = helper_no_cursor2 c) \<and>
      (helper_cursor2_retried c \<longrightarrow> helper_cursor2_retried c') \<and>
      (helper_no_cursor2 c' \<longrightarrow> helper_no_cursor2 c \<or> helper_cursor2_retried c'))"
proof (induction env c rule: drmtap_helper_get_cursor.induct)
  case (1 env c)
  obtain a c1 where at: "cursor_attempt env c = (a, c1)" by fastforce
  note ok = attempt_ok[OF "1.prems" at]
  show ?case
  proof (cases a)
    case None
    have again: "drmtap_helper_get_cursor env c = drmtap_helper_get_cursor env c1"
      by (subst drmtap_helper_get_cursor.simps) (simp add: at None)
    have no: "\<not> helper_no_cursor2 c \<and> \<not> helper_cursor2_ok c" "helper_no_cursor2 c1 \<longrightarrow> helper_cursor2_retried c1"
      using attempt_again[of env c c1] at None by (auto split: if_splits)
    have keep: "helper_cursor2_retried c1" using attempt_again[of env c c1] at None by (auto split: if_splits)
    obtain r cur c' where g: "drmtap_helper_get_cursor env c1 = ((r, cur), c')" by (metis surj_pair)
    have "conn_ok c1" "client_res c1 = client_res c" using ok by simp_all
    then show ?thesis using "1.IH"[OF at[symmetric] None] no keep unfolding again g by simp
  next
    case (Some rc)
    obtain r cur where rc: "rc = (r, cur)" by (cases rc)
    have "drmtap_helper_get_cursor env c = ((r, cur), c1)"
      by (subst drmtap_helper_get_cursor.simps) (simp add: at Some rc)
    then show ?thesis using ok Some rc by simp
  qed
qed


lemma wit_conn: "conn_ok wit_ctx"
  using wit_ctx_fresh by (simp add: conn_ok_def wit_ctx_def)




section \<open>The cursor's drain loses count\<close>

lemma drain_bytes: "drain n (replicate n (Chunk [b] 0 False)) = (True, [])"
proof (induction n)
  case (Suc n)
  then show ?case by (subst drain.simps) simp
qed (simp add: drain.simps)

lemma cursor_drain_bytes:
  "cursor_drain n (replicate k (Chunk [b] 0 False)) = replicate (k - (n + 4095) div 4096) (Chunk [b] 0 False)"
proof (induction k arbitrary: n)
  case 0
  then show ?case by (subst cursor_drain.simps) simp
next
  case (Suc k)
  show ?case
  proof (cases "n = 0")
    case True
    then show ?thesis by (subst cursor_drain.simps) simp
  next
    case False
    let ?c = "min n 4096"
    have "cursor_drain n (replicate (Suc k) (Chunk [b] 0 False)) = cursor_drain (n - ?c) (replicate k (Chunk [b] 0 False))"
      using False by (subst cursor_drain.simps) (auto simp: Let_def min_def)
    also have "\<dots> = replicate (k - (n - ?c + 4095) div 4096) (Chunk [b] 0 False)" by (rule Suc.IH)
    also have "k - (n - ?c + 4095) div 4096 = Suc k - (n + 4095) div 4096"
    proof -
      have "(n + 4095) div 4096 = Suc ((n - ?c + 4095) div 4096)" using False by (simp add: min_def) linarith
      then show ?thesis by simp
    qed
    finally show ?thesis .
  qed
qed

text \<open>
  On a payload delivered in small pieces the two drains part ways: the grab's drain consumes
  exactly the announced bytes, the cursor's leaves most of them in the socket. With one byte per
  read, draining an oversized cursor of n bytes consumes only n/4096 of them (rounded up), so
  the next reply is read from the middle of this one.
\<close>

lemma cursor_drain_desync:
  "drain n (replicate n (Chunk [b] 0 False)) = (True, []) \<and>
   cursor_drain n (replicate n (Chunk [b] 0 False)) = replicate (n - (n + 4095) div 4096) (Chunk [b] 0 False)"
  using drain_bytes cursor_drain_bytes by simp

end
