(* ===== verification/EglHash.thy ===== *)
theory EglHash
  imports EglState
begin

text \<open>
  Unchanged-frame detection (src/gpu_egl.c, DRMTAP_SKIP_UNCHANGED): the block hash the second
  shader pass computes over the rendered image (hash_fs_src), and the proof that a change of any
  single pixel of a block changes its hash.
\<close>

definition HASH_BS :: nat where "HASH_BS = 32"
definition HASH_MAX_BYTES :: nat where "HASH_MAX_BYTES = 1048576"

section \<open>The shader\<close>

definition rotl :: "u32 \<Rightarrow> nat \<Rightarrow> u32" where
  "rotl x r = push_bit r x OR drop_bit (32 - r) x"

text \<open>\<open>texelFetch\<close> of an RGBA8 texel, read back as the integer the shader packs.\<close>

definition texel :: "byte list \<Rightarrow> nat \<Rightarrow> nat \<Rightarrow> nat \<Rightarrow> u32" where
  "texel img w px py = le32 (take 4 (drop (4 * (py * w + px)) img))"

definition hash_h1 :: "u32 \<Rightarrow> u32 \<Rightarrow> u32" where
  "hash_h1 h1 u = rotl (h1 XOR (rotl (u * 0xcc9e2d51) 15 * 0x1b873593)) 13 * 5 + 0xe6546b64"

definition hash_h2 :: "u32 \<Rightarrow> u32 \<Rightarrow> nat \<Rightarrow> nat \<Rightarrow> u32" where
  "hash_h2 h2 u px py =
    (let h = (h2 XOR (u XOR (of_nat px * 0x9E3779B1 XOR of_nat py * 0x85EBCA6B))) * 0x01000193 in
     h XOR drop_bit 15 h)"

definition hash_step :: "byte list \<Rightarrow> nat \<Rightarrow> nat \<times> nat \<Rightarrow> u32 \<times> u32 \<times> u32 \<Rightarrow> u32 \<times> u32 \<times> u32" where
  "hash_step img w p h =
    (case (p, h) of ((px, py), h1, h2, cnt) \<Rightarrow>
      let u = texel img w px py in (hash_h1 h1 u, hash_h2 h2 u px py, cnt + 1))"

definition hash_final :: "u32 \<Rightarrow> u32 \<Rightarrow> u32" where
  "hash_final h1 cnt =
    (let a = h1 XOR cnt; b = a XOR drop_bit 16 a; c = b * 0x85ebca6b in c XOR drop_bit 13 c)"

text \<open>The texels one invocation visits, in its order, cut off at the image's edge.\<close>

definition block_texels :: "nat \<Rightarrow> nat \<Rightarrow> nat \<Rightarrow> nat \<Rightarrow> (nat \<times> nat) list" where
  "block_texels w h bx by =
    [(px, py). py \<leftarrow> [by ..< min (by + HASH_BS) h], px \<leftarrow> [bx ..< min (bx + HASH_BS) w]]"

definition hash_block :: "byte list \<Rightarrow> nat \<Rightarrow> nat \<Rightarrow> nat \<times> nat \<Rightarrow> hash_cell" where
  "hash_block img w h g =
    (let bx = fst g * HASH_BS; by = snd g * HASH_BS;
         (h1, h2, cnt) = fold (hash_step img w) (block_texels w h bx by) (0x9747b28c, 0x2545F491, 0) in
     (hash_final h1 cnt, h2, of_nat bx, of_nat by))"

text \<open>The whole pass: one cell per block, row by row.\<close>

definition blocks :: "nat \<Rightarrow> nat" where "blocks n = (n + HASH_BS - 1) div HASH_BS"

definition hash_grid :: "byte list \<Rightarrow> nat \<Rightarrow> nat \<Rightarrow> hash_cell list" where
  "hash_grid img w h = map (hash_block img w h) [(gx, gy). gy \<leftarrow> [0 ..< blocks h], gx \<leftarrow> [0 ..< blocks w]]"

section \<open>Every step is a bijection\<close>

lemma odd_mult_inj:
  assumes "(a :: u32) * k = 1" "x * a = y * a"
  shows "x = y"
  using arg_cong[OF assms(2), of "\<lambda>z. z * k"] by (simp only: mult.assoc assms(1) mult_1_right)

lemma bit_rotl: "r \<le> 32 \<Longrightarrow> n < 32 \<Longrightarrow> bit (rotl x r) n = (if r \<le> n then bit x (n - r) else bit x (32 - r + n))"
  using bit_imp_le_length[of x "32 - r + n"] by (auto simp: rotl_def bit_simps)

lemma rotl_inj:
  assumes "r < 32" "rotl x r = rotl y r"
  shows "x = y"
proof (rule bit_word_eqI)
  fix n assume n: "n < LENGTH(32)"
  have b: "bit (rotl x r) k = bit (rotl y r) k" for k using assms(2) by simp
  show "bit x n = bit y n"
  proof (cases "n + r < 32")
    case True
    then show ?thesis using b[of "n + r"] by (simp add: bit_rotl)
  next
    case False
    then have "32 - r + (n + r - 32) = n" "n + r - 32 < 32" "\<not> r \<le> n + r - 32" using n assms(1) by simp_all
    then show ?thesis using b[of "n + r - 32"] assms(1) by (simp only: bit_rotl less_imp_le if_False)
  qed
qed

lemma xor_right_inj:
  assumes "(a :: u32) XOR b = a XOR c"
  shows "b = c"
  using arg_cong[OF assms, of "(XOR) a"] by (simp only: bit.xor_left_self)

lemma xorshift_inj:
  assumes "0 < r" "(x :: u32) XOR drop_bit r x = y XOR drop_bit r y"
  shows "x = y"
proof (rule bit_word_eqI)
  fix n assume "n < LENGTH(32)"
  have e: "bit x n = bit y n" if "bit x (n + r) = bit y (n + r)" for n
  proof -
    have "bit (x XOR drop_bit r x) n = bit (y XOR drop_bit r y) n" using assms(2) by (rule arg_cong)
    then have "(bit x n \<noteq> bit x (r + n)) = (bit y n \<noteq> bit y (r + n))" by (simp only: bit_xor_iff bit_drop_bit_eq o_def)
    then show ?thesis using that unfolding add.commute[of n r] by blast
  qed
  show "bit x n = bit y n"
  proof (induction "32 - n" arbitrary: n rule: less_induct)
    case less
    show ?case
    proof (cases "n < 32")
      case True
      then have "32 - (n + r) < 32 - n" using assms(1) by simp
      from less[OF this] show ?thesis by (rule e)
    next
      case False
      then show ?thesis using bit_imp_le_length[of x n] bit_imp_le_length[of y n] by auto
    qed
  qed
qed

lemma hash_h1_inj_state: "hash_h1 a u = hash_h1 b u \<Longrightarrow> a = b"
proof -
  assume "hash_h1 a u = hash_h1 b u"
  then have "rotl (a XOR (rotl (u * 0xcc9e2d51) 15 * 0x1b873593)) 13 * 5 = rotl (b XOR (rotl (u * 0xcc9e2d51) 15 * 0x1b873593)) 13 * 5"
    unfolding hash_h1_def by (rule add_right_imp_eq)
  then have "rotl (a XOR (rotl (u * 0xcc9e2d51) 15 * 0x1b873593)) 13 = rotl (b XOR (rotl (u * 0xcc9e2d51) 15 * 0x1b873593)) 13"
    by (rule odd_mult_inj[of 5 "0xcccccccd", rotated]) simp
  then have "a XOR (rotl (u * 0xcc9e2d51) 15 * 0x1b873593) = b XOR (rotl (u * 0xcc9e2d51) 15 * 0x1b873593)"
    by (rule rotl_inj[rotated]) simp
  then show ?thesis unfolding xor.commute[of _ "rotl (u * 0xcc9e2d51) 15 * 0x1b873593"] by (rule xor_right_inj)
qed

lemma hash_h1_inj_texel: "hash_h1 a u = hash_h1 a v \<Longrightarrow> u = v"
proof -
  assume "hash_h1 a u = hash_h1 a v"
  then have "rotl (a XOR (rotl (u * 0xcc9e2d51) 15 * 0x1b873593)) 13 * 5 = rotl (a XOR (rotl (v * 0xcc9e2d51) 15 * 0x1b873593)) 13 * 5"
    unfolding hash_h1_def by (rule add_right_imp_eq)
  then have "rotl (a XOR (rotl (u * 0xcc9e2d51) 15 * 0x1b873593)) 13 = rotl (a XOR (rotl (v * 0xcc9e2d51) 15 * 0x1b873593)) 13"
    by (rule odd_mult_inj[of 5 "0xcccccccd", rotated]) simp
  then have "a XOR (rotl (u * 0xcc9e2d51) 15 * 0x1b873593) = a XOR (rotl (v * 0xcc9e2d51) 15 * 0x1b873593)"
    by (rule rotl_inj[rotated]) simp
  then have "rotl (u * 0xcc9e2d51) 15 * 0x1b873593 = rotl (v * 0xcc9e2d51) 15 * 0x1b873593" by (rule xor_right_inj)
  then have "rotl (u * 0xcc9e2d51) 15 = rotl (v * 0xcc9e2d51) 15"
    by (rule odd_mult_inj[of "0x1b873593" "0x56ed309b", rotated]) simp
  then have "u * 0xcc9e2d51 = v * 0xcc9e2d51" by (rule rotl_inj[rotated]) simp
  then show ?thesis by (rule odd_mult_inj[of "0xcc9e2d51" "0xdee13bb1", rotated]) simp
qed

lemma hash_final_inj: "hash_final a cnt = hash_final b cnt \<Longrightarrow> a = b"
proof -
  let ?f = "\<lambda>x. x XOR drop_bit 16 x :: u32"
  assume "hash_final a cnt = hash_final b cnt"
  then have "?f (a XOR cnt) * 0x85ebca6b = ?f (b XOR cnt) * 0x85ebca6b"
    unfolding hash_final_def Let_def by (rule xorshift_inj[rotated]) simp
  then have "?f (a XOR cnt) = ?f (b XOR cnt)"
    by (rule odd_mult_inj[of "0x85ebca6b" "0xa5cb9243", rotated]) simp
  then have "a XOR cnt = b XOR cnt" by (rule xorshift_inj[rotated]) simp
  then show ?thesis unfolding xor.commute[of _ cnt] by (rule xor_right_inj)
qed

section \<open>A changed pixel changes the hash\<close>

definition run_h1 :: "(nat \<times> nat \<Rightarrow> u32) \<Rightarrow> (nat \<times> nat) list \<Rightarrow> u32 \<Rightarrow> u32" where
  "run_h1 t ps h = fold (\<lambda>p h. hash_h1 h (t p)) ps h"

lemma fold_hash_step:
  "fst (fold (hash_step img w) ps (h1, h2, cnt)) = run_h1 (\<lambda>(px, py). texel img w px py) ps h1 \<and>
   snd (snd (fold (hash_step img w) ps (h1, h2, cnt))) = cnt + of_nat (length ps)"
proof (induction ps arbitrary: h1 h2 cnt)
  case (Cons p ps)
  then show ?case by (cases p) (simp add: hash_step_def Let_def run_h1_def)
qed (simp add: run_h1_def)

lemma run_h1_inj: "run_h1 t ps a = run_h1 t ps b \<Longrightarrow> a = b"
  by (induction ps arbitrary: a b) (auto simp: run_h1_def dest: hash_h1_inj_state)

lemma run_h1_cong: "(\<And>p. p \<in> set ps \<Longrightarrow> t p = t' p) \<Longrightarrow> run_h1 t ps a = run_h1 t' ps a"
  by (induction ps arbitrary: a) (simp_all add: run_h1_def)

lemma run_h1_change:
  assumes "distinct ps" "p \<in> set ps" "t p \<noteq> t' p" "\<And>q. q \<in> set ps \<Longrightarrow> q \<noteq> p \<Longrightarrow> t q = t' q"
  shows "run_h1 t ps a \<noteq> run_h1 t' ps a"
proof -
  obtain xs ys where ps: "ps = xs @ p # ys" using split_list[OF assms(2)] by blast
  then have "p \<notin> set xs" "p \<notin> set ys" using assms(1) by simp_all
  then have eq: "run_h1 t xs a = run_h1 t' xs a" "run_h1 t ys b = run_h1 t' ys b" for b
    using assms(4) ps by (auto intro!: run_h1_cong)
  have "hash_h1 (run_h1 t' xs a) (t p) \<noteq> hash_h1 (run_h1 t' xs a) (t' p)" using hash_h1_inj_texel assms(3) by blast
  then have "run_h1 t' ys (hash_h1 (run_h1 t' xs a) (t p)) \<noteq> run_h1 t' ys (hash_h1 (run_h1 t' xs a) (t' p))"
    using run_h1_inj by blast
  then show ?thesis using eq by (simp add: ps run_h1_def)
qed

lemma set_block_texels: "(px, py) \<in> set (block_texels w h bx by) \<longleftrightarrow>
    bx \<le> px \<and> px < min (bx + HASH_BS) w \<and> by \<le> py \<and> py < min (by + HASH_BS) h"
  by (auto simp: block_texels_def image_iff Bex_def)

lemma distinct_pairs: "distinct xs \<Longrightarrow> distinct ys \<Longrightarrow> distinct (concat (map (\<lambda>y. map (\<lambda>x. (x, y)) xs) ys))"
  by (induction ys) (auto simp: distinct_map inj_on_def)

lemma distinct_block_texels: "distinct (block_texels w h bx by)"
  unfolding block_texels_def by (intro distinct_pairs) simp_all

lemma hash_block_change:
  assumes "p \<in> set (block_texels w h (fst g * HASH_BS) (snd g * HASH_BS))"
    and "texel img w (fst p) (snd p) \<noteq> texel img' w (fst p) (snd p)"
    and "\<And>q. q \<noteq> p \<Longrightarrow> texel img w (fst q) (snd q) = texel img' w (fst q) (snd q)"
  shows "hash_block img w h g \<noteq> hash_block img' w h g"
proof -
  let ?ps = "block_texels w h (fst g * HASH_BS) (snd g * HASH_BS)"
  let ?t = "\<lambda>img (px, py). texel img w px py" and ?n = "of_nat (length ?ps) :: u32"
  have "fst (hash_block img w h g) = hash_final (run_h1 (?t img) ?ps 0x9747b28c) ?n" for img
    using fold_hash_step[of img w ?ps "0x9747b28c" "0x2545F491" 0]
    by (simp add: hash_block_def Let_def split_beta)
  moreover have "run_h1 (?t img) ?ps 0x9747b28c \<noteq> run_h1 (?t img') ?ps 0x9747b28c"
    using assms by (intro run_h1_change[OF distinct_block_texels, of p]) (simp_all add: split_beta)
  ultimately show ?thesis using hash_final_inj by metis
qed



end
