(* ===== verification/Egl.thy ===== *)
theory Egl
  imports Buffers EglHash Deswizzle "HOL-Library.Multiset"
begin

text \<open>
  The GPU detile (src/gpu_egl.c): per-device displays, the thread's GL context, the EGLImage cache
  keyed by fb_id, the dma-buf import with its retries, the skip of unchanged frames and the
  readback. EGL, GL and fstat are answered by glenv; shaders are compiled and run by the driver
  (g_render). Loading the libraries and the locks around the process-wide tables are outside.
\<close>

section \<open>GL objects\<close>

definition gl_gen :: "(nat \<Rightarrow> gl_obj) \<Rightarrow> egl_state \<Rightarrow> nat \<times> egl_state" where
  "gl_gen k st = (gl_next st, st\<lparr>gl_live := insert (k (gl_next st)) (gl_live st), gl_next := Suc (gl_next st)\<rparr>)"

definition gl_delete :: "gl_obj \<Rightarrow> egl_state \<Rightarrow> egl_state" where
  "gl_delete x st = (if x \<in> gl_live st then st\<lparr>gl_live := gl_live st - {x}\<rparr> else st\<lparr>gl_faults := Suc (gl_faults st)\<rparr>)"

definition gl_drop :: "(nat \<Rightarrow> gl_obj) \<Rightarrow> nat \<Rightarrow> egl_state \<Rightarrow> egl_state" where
  "gl_drop k n st = (if n = 0 then st else gl_delete (k n) st)"

text \<open>Shaders are numbered 0 to 3 (vertex, fragment, hash vertex, hash fragment), programs 0 and 1.\<close>

definition compile_shader :: "glenv \<Rightarrow> nat \<Rightarrow> egl_state \<Rightarrow> nat \<times> egl_state" where
  "compile_shader g i st =
    (if \<not> g_create_shader g i then (0, st)
     else case gl_gen GlShader st of (s, st1) \<Rightarrow>
       if g_compile g i then (s, st1) else (0, gl_delete (GlShader s) st1))"

definition create_program :: "glenv \<Rightarrow> nat \<Rightarrow> nat \<Rightarrow> nat \<Rightarrow> egl_state \<Rightarrow> nat \<times> egl_state" where
  "create_program g vsrc fsrc p st =
    (case compile_shader g vsrc st of (vs, st1) \<Rightarrow> case compile_shader g fsrc st1 of (fs, st2) \<Rightarrow>
      if vs = 0 \<or> fs = 0 then (0, gl_drop GlShader fs (gl_drop GlShader vs st2))
      else case gl_gen GlProgram st2 of (program, st3) \<Rightarrow>
        let st4 = gl_delete (GlShader fs) (gl_delete (GlShader vs) st3) in
        if g_link g p then (program, st4) else (0, gl_delete (GlProgram program) st4))"

section \<open>Displays\<close>

definition get_egl_display_for_card :: "glenv \<Rightarrow> string \<Rightarrow> nat" where
  "get_egl_display_for_card g card_path =
    (if \<not> g_device_ext g then g_default g
     else case g_devices g of
       None \<Rightarrow> g_default g
     | Some ds \<Rightarrow>
         (case find (\<lambda>d. ed_card d = Some card_path \<or> ed_render d = Some card_path) ds of
           None \<Rightarrow> g_default g
         | Some d \<Rightarrow> if ed_display d = 0 then g_default g else ed_display d))"

definition egl_display_for_ctx :: "glenv \<Rightarrow> string \<Rightarrow> egl_state \<Rightarrow> nat \<times> egl_state" where
  "egl_display_for_ctx g path st =
    (case map_of (g_displays st) path of
      Some cached \<Rightarrow> (cached, st)
    | None \<Rightarrow>
        let d = get_egl_display_for_card g path;
            display = (if d \<noteq> 0 \<and> g_initialize g d then d else 0) in
        (display,
         if length (g_displays st) < DRMTAP_EGL_DISPLAY_SLOTS
         then st\<lparr>g_displays := g_displays st @ [(path, display)]\<rparr> else st))"

definition drmtap_gpu_egl_available :: "env \<Rightarrow> ctx \<Rightarrow> bool \<times> ctx" where
  "drmtap_gpu_egl_available env c =
    (let g = v_gl env (tick c); c = step_clock c in
     if g_no_egl g then (False, c)
     else
       let st = (if g_procs_ok (egl c) < 0
                 then (egl c)\<lparr>g_procs_ok := if g_load_procs g < 0 then 0 else 1\<rparr> else egl c) in
       if g_procs_ok st = 0 then (False, c\<lparr>egl := st\<rparr>)
       else case egl_display_for_ctx g (device_path c) st of (d, st) \<Rightarrow> (d \<noteq> 0, c\<lparr>egl := st\<rparr>))"

section \<open>The hash pass\<close>

definition hash_setup :: "glenv \<Rightarrow> egl_state \<Rightarrow> egl_state" where
  "hash_setup g st =
    (case create_program g 2 3 1 st of (prog, st1) \<Rightarrow>
      let st2 = st1\<lparr>e_hash := (e_hash st1)\<lparr>h_prog := prog\<rparr>\<rparr> in
      if prog = 0 then st2
      else case gl_gen GlFramebuffer st2 of (fbo, st3) \<Rightarrow>
        st3\<lparr>e_hash := (e_hash st3)\<lparr>h_fbo := fbo, h_on := True\<rparr>\<rparr>)"

definition hash_release :: "egl_state \<Rightarrow> egl_state" where
  "hash_release st =
    (let h = e_hash st in
     (gl_drop GlProgram (h_prog h) (gl_drop GlFramebuffer (h_fbo h) (gl_drop GlTexture (h_tex h) st)))
       \<lparr>e_hash := empty_hash\<rparr>)"

definition hash_fail :: "egl_hash \<Rightarrow> egl_hash" where
  "hash_fail h = h\<lparr>h_on := False, h_valid := False\<rparr>"

text \<open>The grids grow once; a failed allocation drops both.\<close>

definition hash_grow :: "glenv \<Rightarrow> nat \<Rightarrow> egl_hash \<Rightarrow> bool \<times> egl_hash" where
  "hash_grow g bytes h =
    (if bytes \<le> h_cap h then (True, h)
     else if g_grid_alloc g then (True, h\<lparr>h_cur := Some [], h_prev := Some [], h_cap := bytes\<rparr>)
     else (False, h\<lparr>h_cur := None, h_prev := None, h_cap := 0\<rparr>))"

definition hash_target :: "glenv \<Rightarrow> u32 \<Rightarrow> u32 \<Rightarrow> egl_state \<Rightarrow> bool \<times> egl_state" where
  "hash_target g gw gh st =
    (let h = e_hash st in
     if h_gw h = gw \<and> h_gh h = gh then (True, st)
     else case (if h_tex h = 0 then gl_gen GlTexture st else (h_tex h, st)) of (t, st1) \<Rightarrow>
       if g_target_ok g then (True, st1\<lparr>e_hash := h\<lparr>h_tex := t, h_gw := gw, h_gh := gh\<rparr>\<rparr>)
       else (False, st1\<lparr>e_hash := h\<lparr>h_tex := t\<rparr>\<rparr>))"

definition hash_check ::
  "glenv \<Rightarrow> bool \<Rightarrow> nat \<Rightarrow> u32 \<Rightarrow> u32 \<Rightarrow> u32 \<Rightarrow> u64 \<Rightarrow> obj option \<Rightarrow> egl_state \<Rightarrow> bool \<times> egl_state" where
  "hash_check g was_valid owner w h_px fourcc modifier out st0 =
    (let st = st0\<lparr>e_hash := (e_hash st0)\<lparr>h_fresh := False\<rparr>\<rparr>;
         gw = (w + of_nat HASH_BS - 1) div of_nat HASH_BS; gh = (h_px + of_nat HASH_BS - 1) div of_nat HASH_BS;
         bytes = unat gw * unat gh * 16 in
     if \<not> h_on (e_hash st) then (False, st)
     else if HASH_MAX_BYTES < bytes then (False, st)
     else case hash_grow g bytes (e_hash st) of (ok, h) \<Rightarrow>
       if \<not> ok then (False, st\<lparr>e_hash := hash_fail h\<rparr>)
       else case hash_target g gw gh (st\<lparr>e_hash := h\<rparr>) of (ok, st) \<Rightarrow>
         if \<not> ok then (False, st\<lparr>e_hash := hash_fail (e_hash st)\<rparr>)
         else
           let h = (e_hash st)\<lparr>h_cur := Some (hash_grid (gl_linear st) (unat w) (unat h_px))\<rparr> in
           if \<not> g_hash_pass_ok g then (False, st\<lparr>e_hash := hash_fail h\<rparr>)
           else
             let h = h\<lparr>h_fresh := True\<rparr> in
             if was_valid \<and> h_owner h = owner \<and> h_w h = w \<and> h_h h = h_px \<and> h_fourcc h = fourcc \<and>
                h_modifier h = modifier \<and> h_out h = out \<and> h_cur h = h_prev h
             then (True, st\<lparr>e_hash := h\<lparr>h_valid := True\<rparr>\<rparr>) else (False, st\<lparr>e_hash := h\<rparr>))"

definition hash_commit :: "nat \<Rightarrow> u32 \<Rightarrow> u32 \<Rightarrow> u32 \<Rightarrow> u64 \<Rightarrow> obj option \<Rightarrow> egl_hash \<Rightarrow> egl_hash" where
  "hash_commit owner w h_px fourcc modifier out h =
    h\<lparr>h_prev := h_cur h, h_cur := h_prev h, h_owner := owner, h_w := w, h_h := h_px, h_fourcc := fourcc,
      h_modifier := modifier, h_out := out, h_valid := True\<rparr>"

section \<open>The thread's GL state\<close>

definition egl_context :: "glenv \<Rightarrow> egl_state \<Rightarrow> nat \<times> egl_state" where
  "egl_context g st =
    (let want = (g_skip_unchanged g \<and> g_create_context g 3);
         st = (if g_skip_unchanged g then st\<lparr>e_hash := (e_hash st)\<lparr>h_es3 := want\<rparr>\<rparr> else st) in
     if want \<or> g_create_context g 2 then gl_gen GlContext st else (0, st))"

definition egl_init :: "glenv \<Rightarrow> string \<Rightarrow> egl_state \<Rightarrow> int \<times> egl_state" where
  "egl_init g path st0 =
    (if g_load_procs g < 0 then (- ENOTSUP, st0)
     else case egl_display_for_ctx g path st0 of (d, st1) \<Rightarrow>
       if d = 0 then (- ENODEV, st1\<lparr>e_display := d\<rparr>)
       else
         let st2 = st1\<lparr>e_display := d, e_device_path := path\<rparr> in
         if \<not> g_initialize g d \<or> \<not> g_choose_config g then (- EIO, st2)
         else case egl_context g st2 of (cx, st3) \<Rightarrow>
           if cx = 0 then (- EIO, st3\<lparr>e_context := 0\<rparr>)
           else case create_program g 0 1 0 (st3\<lparr>e_context := cx\<rparr>) of (prog, st4) \<Rightarrow>
             let st5 = st4\<lparr>e_program := prog\<rparr> in
             if prog = 0 then (- EIO, gl_delete (GlContext cx) st5)
             else
               let st6 = (if g_skip_unchanged g \<and> g_create_context g 3 then hash_setup g st5 else st5) in
               case gl_gen GlFramebuffer st6 of (fbo, st7) \<Rightarrow>
                 (0, st7\<lparr>e_fbo := fbo, e_linear_texture := 0, e_tex_width := 0, e_tex_height := 0,
                     e_cache_disabled := g_no_image_cache g, e_initialized := True\<rparr>))"

definition egl_image_slot_release :: "nat \<Rightarrow> egl_state \<Rightarrow> egl_state" where
  "egl_image_slot_release i st =
    (let s = e_slots st ! i; st = gl_drop GlImage (i_image s) (gl_drop GlTexture (i_texture s) st) in
     st\<lparr>e_slots := (e_slots st)[i := empty_image_slot]\<rparr>)"

definition egl_cleanup :: "egl_state \<Rightarrow> egl_state" where
  "egl_cleanup st0 =
    (if \<not> e_initialized st0 then st0
     else
       let st1 = fold egl_image_slot_release [0 ..< DRMTAP_EGL_IMAGE_SLOTS] st0;
           st2 = hash_release (st1\<lparr>e_next_evict := 0\<rparr>);
           st3 = gl_drop GlProgram (e_program st2) (gl_drop GlFramebuffer (e_fbo st2)
                   (gl_drop GlTexture (e_linear_texture st2) st2));
           st4 = gl_delete (GlContext (e_context st3)) st3 in
       st4\<lparr>e_context := 0, e_device_path := [], e_program := 0, e_fbo := 0, e_linear_texture := 0,
         e_tex_width := 0, e_tex_height := 0, e_initialized := False\<rparr>)"

definition ensure_linear_texture :: "u32 \<Rightarrow> u32 \<Rightarrow> egl_state \<Rightarrow> egl_state" where
  "ensure_linear_texture w h st =
    (if e_tex_width st = w \<and> e_tex_height st = h then st
     else case gl_gen GlTexture (gl_drop GlTexture (e_linear_texture st) st) of (t, st1) \<Rightarrow>
       st1\<lparr>e_linear_texture := t, e_tex_width := w, e_tex_height := h\<rparr>)"

section \<open>Importing a buffer\<close>

definition EGLINT_MAX :: u32 where "EGLINT_MAX = 0x7fffffff"

definition plane_attribs :: "nat \<Rightarrow> int \<Rightarrow> u32 \<Rightarrow> u32 \<Rightarrow> attribs" where
  "plane_attribs p fd off pitch =
    [(EGL_PLANE_FD p, fd), (EGL_PLANE_OFFSET p, sint off), (EGL_PLANE_PITCH p, sint pitch)]"

definition modifier_attribs :: "nat \<Rightarrow> u64 \<Rightarrow> attribs" where
  "modifier_attribs p m =
    (if m = DRM_FORMAT_MOD_INVALID then []
     else [(EGL_PLANE_MODIFIER_LO p, sint (ucast m :: u32)), (EGL_PLANE_MODIFIER_HI p, sint (ucast (drop_bit 32 m) :: u32))])"

definition image_attribs ::
  "int \<Rightarrow> u32 \<Rightarrow> u32 \<Rightarrow> u32 \<Rightarrow> u32 \<Rightarrow> u64 \<Rightarrow> int \<Rightarrow> u32 list \<Rightarrow> u32 list \<Rightarrow> attribs" where
  "image_attribs fd width height stride fourcc m planes offs pitches =
    [(EGL_WIDTH, sint width), (EGL_HEIGHT, sint height), (EGL_LINUX_DRM_FOURCC, sint fourcc)] @
    plane_attribs 0 fd (offs ! 0) stride @ modifier_attribs 0 m @
    (if 2 \<le> planes \<and> m \<noteq> DRM_FORMAT_MOD_INVALID
     then plane_attribs 1 fd (offs ! 1) (pitches ! 1) @ modifier_attribs 1 m else []) @
    (if 3 \<le> planes \<and> m \<noteq> DRM_FORMAT_MOD_INVALID
     then plane_attribs 2 fd (offs ! 2) (pitches ! 2) @ modifier_attribs 2 m else [])"

definition DRM_FORMAT_XRGB8888 :: u32 where "DRM_FORMAT_XRGB8888 = 0x34325258"
definition DRM_FORMAT_ARGB8888 :: u32 where "DRM_FORMAT_ARGB8888 = 0x34325241"

definition retry_attribs :: "int \<Rightarrow> u32 \<Rightarrow> u32 \<Rightarrow> u32 \<Rightarrow> bool \<Rightarrow> u64 \<Rightarrow> u32 list \<Rightarrow> attribs" where
  "retry_attribs fd width height stride keep_modifier m offs =
    [(EGL_WIDTH, sint width), (EGL_HEIGHT, sint height), (EGL_LINUX_DRM_FOURCC, sint DRM_FORMAT_XRGB8888)] @
    plane_attribs 0 fd (offs ! 0) stride @ (if keep_modifier then modifier_attribs 0 m else [])"

text \<open>\<open>eglCreateImageKHR\<close>: 0 when the driver refuses; the driver keeps what an im was made of.\<close>

definition egl_create_image :: "env \<Rightarrow> attribs \<Rightarrow> nat \<Rightarrow> ctx \<Rightarrow> nat \<times> ctx" where
  "egl_create_image env attrs inode c0 =
    (let g = v_gl env (tick c0); c = step_clock c0 in
     if \<not> g_create_image g attrs then (0, c)
     else case gl_gen GlImage (egl c) of (im, st) \<Rightarrow>
       (im, c\<lparr>egl := st\<lparr>gl_made := (gl_made st)(im := (attrs, inode))\<rparr>\<rparr>))"

definition retry_safe :: "int \<Rightarrow> u32 \<Rightarrow> bool" where
  "retry_safe planes fourcc \<longleftrightarrow> planes \<le> 1 \<and> (fourcc = DRM_FORMAT_XRGB8888 \<or> fourcc = DRM_FORMAT_ARGB8888)"

definition egl_import_dmabuf ::
  "env \<Rightarrow> int \<Rightarrow> u32 \<Rightarrow> u32 \<Rightarrow> u32 \<Rightarrow> u32 \<Rightarrow> u64 \<Rightarrow> nat \<Rightarrow> ctx \<Rightarrow> nat \<times> ctx" where
  "egl_import_dmabuf env fd width height stride fourcc m inode c =
    (let planes = cfb2_num_planes c; offs = cfb2_offsets c; pitches = cfb2_pitches c;
         nplanes = nat (min 4 (if 0 < planes then planes else 1)) in
     if EGLINT_MAX < stride \<or> (\<exists>p \<in> set [0 ..< nplanes]. EGLINT_MAX < offs ! p \<or> EGLINT_MAX < pitches ! p) then (0, c)
     else case egl_create_image env (image_attribs fd width height stride fourcc m planes offs pitches) inode c of
       (im, c1) \<Rightarrow>
         if im \<noteq> 0 \<or> \<not> retry_safe planes fourcc then (im, c1)
         else case egl_create_image env (retry_attribs fd width height stride True m offs) inode c1 of
           (im, c2) \<Rightarrow>
             if im \<noteq> 0 \<or> m \<noteq> DRM_FORMAT_MOD_LINEAR then (im, c2)
             else egl_create_image env (retry_attribs fd width height stride False m offs) inode c2)"

definition egl_make_external_texture :: "env \<Rightarrow> ctx \<Rightarrow> int \<times> nat \<times> ctx" where
  "egl_make_external_texture env c0 =
    (let g = v_gl env (tick c0); c = step_clock c0 in
     case gl_gen GlTexture (egl c) of (t, st) \<Rightarrow>
       if g_bind_image g then (0, t, c\<lparr>egl := st\<rparr>) else (- EIO, 0, c\<lparr>egl := gl_delete (GlTexture t) st\<rparr>))"

section \<open>The image cache\<close>

definition slot_matches :: "ctx \<Rightarrow> u32 \<Rightarrow> u32 \<Rightarrow> u32 \<Rightarrow> u32 \<Rightarrow> u64 \<Rightarrow> nat \<Rightarrow> egl_image_slot \<Rightarrow> bool" where
  "slot_matches c width height stride fourcc m cur_inode s \<longleftrightarrow>
    i_width s = width \<and> i_height s = height \<and> i_stride s = stride \<and> i_fourcc s = fourcc \<and> i_modifier s = m \<and>
    i_num_planes s = cfb2_num_planes c \<and> i_offsets s = cfb2_offsets c \<and> i_pitches s = cfb2_pitches c \<and>
    (cur_inode = 0 \<or> i_buf_inode s = 0 \<or> i_buf_inode s = cur_inode)"

text \<open>
  The lookup loop over the slots still to visit: the slot that matches, the first free one met,
  and the state with the stale imports of this fb_id released on the way.
\<close>

fun egl_lookup ::
  "nat \<Rightarrow> u32 \<Rightarrow> (egl_image_slot \<Rightarrow> bool) \<Rightarrow> nat list \<Rightarrow> nat option \<Rightarrow> egl_state \<Rightarrow> nat option \<times> nat option \<times> egl_state" where
  "egl_lookup owner fb match [] free st = (None, free, st)"
| "egl_lookup owner fb match (i # is) free st =
    (let s = e_slots st ! i; free' = (if free = None then Some i else free) in
     if i_fb_id s = 0 then egl_lookup owner fb match is free' st
     else if i_fb_id s \<noteq> fb \<or> i_owner s \<noteq> owner then egl_lookup owner fb match is free st
     else if match s then (Some i, free, st)
     else egl_lookup owner fb match is free' (egl_image_slot_release i st))"

text \<open>A slot to adopt a fresh import: a free one, else the next to evict.\<close>

definition egl_victim :: "nat option \<Rightarrow> egl_state \<Rightarrow> nat \<times> egl_state" where
  "egl_victim free st =
    (case free of
      Some i \<Rightarrow> (i, st)
    | None \<Rightarrow>
        let i = unat (e_next_evict st mod of_nat DRMTAP_EGL_IMAGE_SLOTS) in
        (i, egl_image_slot_release i (st\<lparr>e_next_evict := e_next_evict st + 1\<rparr>)))"

definition egl_adopt ::
  "u32 \<Rightarrow> u32 \<Rightarrow> u32 \<Rightarrow> u32 \<Rightarrow> u32 \<Rightarrow> u64 \<Rightarrow> nat \<Rightarrow> nat \<Rightarrow> nat \<Rightarrow> nat option \<Rightarrow> ctx \<Rightarrow> ctx" where
  "egl_adopt fb width height stride fourcc m inode im texture free c =
    (case egl_victim free (egl c) of (i, st) \<Rightarrow>
      c\<lparr>egl := st\<lparr>e_slots := (e_slots st)[i :=
        \<lparr>i_owner = self c, i_fb_id = fb, i_width = width, i_height = height, i_stride = stride, i_fourcc = fourcc,
         i_modifier = m, i_num_planes = cfb2_num_planes c, i_offsets = cfb2_offsets c, i_pitches = cfb2_pitches c,
         i_buf_inode = inode, i_image = im, i_texture = texture\<rparr>]\<rparr>\<rparr>)"

section \<open>Rendering and reading back\<close>

definition egl_draw :: "env \<Rightarrow> nat \<Rightarrow> u32 \<Rightarrow> u32 \<Rightarrow> ctx \<Rightarrow> ctx" where
  "egl_draw env im width height c =
    (let g = v_gl env (tick c); st = ensure_linear_texture width height (egl c);
         peak = (if 0 < cur_hdr_max_nits c then cur_hdr_max_nits c else 1000) in
     c\<lparr>egl := st\<lparr>gl_linear := pad (unat width * unat height * 4)
       (g_render g im width height (cur_hdr_eotf c = DRMTAP_EOTF_PQ) peak)\<rparr>\<rparr>)"

text \<open>\<open>glReadPixels\<close> into the destination.\<close>

definition read_pixels :: "obj option \<Rightarrow> ctx \<Rightarrow> ctx" where
  "read_pixels dst c =
    (case dst of
      None \<Rightarrow> c\<lparr>faults := Suc (faults c)\<rparr>
    | Some p \<Rightarrow>
        (case wr (mem c) p 0 (gl_linear (egl c)) of
          None \<Rightarrow> c\<lparr>faults := Suc (faults c)\<rparr>
        | Some m \<Rightarrow> c\<lparr>mem := m\<rparr>))"

definition egl_readback ::
  "env \<Rightarrow> u32 \<Rightarrow> u32 \<Rightarrow> u32 \<Rightarrow> u64 \<Rightarrow> bool \<Rightarrow> ctx \<Rightarrow> (int \<times> (obj option \<times> nat) option) \<times> ctx" where
  "egl_readback env width height fourcc m was_valid c0 =
    (let g = v_gl env (tick c0); c = step_clock c0; rgba_size = unat width * unat height * 4;
         hashing = (h_on (e_hash (egl c)) \<and> user_out c = None \<and> 1920 * 1080 \<le> unat width * unat height);
         untouched = (out_gen c = h_gen (e_hash (egl c))) in
     if hashing \<and> \<not> g_draw_ok g then ((- EIO, None), c)
     else case drmtap_ensure_out env rgba_size c of (ret, dst, c1) \<Rightarrow>
       if ret \<noteq> 0 then ((ret, None), c1)
       else case (if hashing then hash_check g (was_valid \<and> untouched) (self c1) width height fourcc m dst (egl c1)
                  else (False, egl c1)) of (skip, st) \<Rightarrow>
         if skip then ((0, Some (dst, rgba_size)), c1\<lparr>egl := st\<lparr>e_hash := (e_hash st)\<lparr>h_gen := out_gen c1\<rparr>\<rparr>\<rparr>)
         else
           let c2 = read_pixels dst (c1\<lparr>egl := st\<rparr>) in
           if \<not> g_read_ok g \<or> \<not> hashing \<and> \<not> g_draw_ok g then ((- EIO, None), c2)
           else if hashing \<and> h_on (e_hash st) \<and> h_fresh (e_hash st) then
             ((0, Some (dst, rgba_size)), c2\<lparr>egl := st\<lparr>e_hash :=
               (hash_commit (self c2) width height fourcc m dst (e_hash st))\<lparr>h_gen := out_gen c2\<rparr>\<rparr>\<rparr>)
           else ((0, Some (dst, rgba_size)), c2))"

section \<open>The conversion\<close>

definition egl_prepare :: "env \<Rightarrow> ctx \<Rightarrow> int \<times> ctx" where
  "egl_prepare env c0 =
    (let g = v_gl env (tick c0); c = step_clock c0;
         st = (if e_initialized (egl c) \<and> e_device_path (egl c) \<noteq> device_path c then egl_cleanup (egl c) else egl c) in
     case (if e_initialized st then (0, st) else egl_init g (device_path c) st) of (ret, st) \<Rightarrow>
       if ret < 0 then (ret, c\<lparr>egl := st\<rparr>)
       else if \<not> g_make_current g then (- EIO, c\<lparr>egl := st\<rparr>) else (0, c\<lparr>egl := st\<rparr>))"

text \<open>The identity of the buffer behind a descriptor; 0 when there is none to be had.\<close>

definition buf_inode :: "glenv \<Rightarrow> int \<Rightarrow> nat" where
  "buf_inode g fd = (if 0 \<le> fd then (case g_inode g fd of None \<Rightarrow> 0 | Some i \<Rightarrow> i) else 0)"

text \<open>Whether the image survives the call in a slot, and the image and its texture.\<close>

definition egl_source ::
  "env \<Rightarrow> int \<Rightarrow> u32 \<Rightarrow> u32 \<Rightarrow> u32 \<Rightarrow> u32 \<Rightarrow> u64 \<Rightarrow> u32 \<Rightarrow> ctx \<Rightarrow> (int + bool \<times> nat \<times> nat) \<times> ctx" where
  "egl_source env fd width height stride fourcc m fb c0 =
    (let g = v_gl env (tick c0); c = step_clock c0; use_cache = (fb \<noteq> 0 \<and> \<not> e_cache_disabled (egl c));
         cur_inode = buf_inode g fd in
     case (if use_cache then egl_lookup (self c) fb (slot_matches c width height stride fourcc m cur_inode)
             [0 ..< DRMTAP_EGL_IMAGE_SLOTS] None (egl c) else (None, None, egl c)) of (slot, free, st) \<Rightarrow>
       let c = c\<lparr>egl := st\<rparr> in
       case slot of
         Some i \<Rightarrow> (Inr (True, i_image (e_slots st ! i), i_texture (e_slots st ! i)), c)
       | None \<Rightarrow>
           if fd < 0 then (Inl (- EINVAL), c)
           else case egl_import_dmabuf env fd width height stride fourcc m cur_inode c of (im, c1) \<Rightarrow>
             if im = 0 then (Inl (- EIO), c1)
             else case egl_make_external_texture env c1 of (ret, texture, c2) \<Rightarrow>
               if ret \<noteq> 0 then (Inl ret, c2\<lparr>egl := gl_delete (GlImage im) (egl c2)\<rparr>)
               else if use_cache
               then (Inr (True, im, texture), egl_adopt fb width height stride fourcc m cur_inode im texture free c2)
               else (Inr (False, im, texture), c2))"

definition egl_convert_impl ::
  "env \<Rightarrow> int \<Rightarrow> u32 \<Rightarrow> u32 \<Rightarrow> u32 \<Rightarrow> u32 \<Rightarrow> u64 \<Rightarrow> u32 \<Rightarrow> ctx \<Rightarrow> (int \<times> (obj option \<times> nat) option) \<times> ctx" where
  "egl_convert_impl env fd width height stride fourcc m fb c0 =
    (let was_valid = h_valid (e_hash (egl c0));
         c = c0\<lparr>egl := (egl c0)\<lparr>e_hash := (e_hash (egl c0))\<lparr>h_valid := False, h_fresh := False\<rparr>\<rparr>\<rparr>;
         dim = drmtap_validate_fb_dims width height in
     if dim \<noteq> 0 then ((dim, None), c)
     else case egl_prepare env c of (ret, c1) \<Rightarrow>
       if ret < 0 then ((ret, None), c1)
       else case egl_source env fd width height stride fourcc m fb c1 of
         (Inl e, c2) \<Rightarrow> ((e, None), c2)
       | (Inr (cached, im, texture), c2) \<Rightarrow>
           case egl_readback env width height fourcc m was_valid (egl_draw env im width height c2) of (res, c3) \<Rightarrow>
             (res, if cached then c3
                   else c3\<lparr>egl := gl_delete (GlImage im) (gl_delete (GlTexture texture) (egl c3))\<rparr>))"

end
