(* ===== verification/EglOwn.thy ===== *)
theory EglOwn
  imports Egl
begin

text \<open>
  Who owns which GL object (src/gpu_egl.c): every object alive in the driver belongs to exactly
  one field of the thread's state, through initialisation, caching, eviction and cleanup, on
  every error path. \<open>gl_ok ex f st\<close> says so, with \<open>ex\<close> the objects in flight inside an operation
  and \<open>f\<close> the number of deletions of dead objects so far.
\<close>

section \<open>Ownership\<close>

definition some_obj :: "(nat \<Rightarrow> gl_obj) \<Rightarrow> nat \<Rightarrow> gl_obj multiset" where
  "some_obj k n = (if n = 0 then {#} else {#k n#})"

definition slot_objs :: "egl_image_slot \<Rightarrow> gl_obj multiset" where
  "slot_objs s = some_obj GlImage (i_image s) + some_obj GlTexture (i_texture s)"

definition hash_objs :: "egl_hash \<Rightarrow> gl_obj multiset" where
  "hash_objs h = some_obj GlTexture (h_tex h) + some_obj GlFramebuffer (h_fbo h) + some_obj GlProgram (h_prog h)"

definition base_objs :: "egl_state \<Rightarrow> gl_obj multiset" where
  "base_objs st = (if e_initialized st then some_obj GlContext (e_context st) + some_obj GlProgram (e_program st) +
    some_obj GlFramebuffer (e_fbo st) + some_obj GlTexture (e_linear_texture st) else {#})"

definition owned :: "egl_state \<Rightarrow> gl_obj multiset" where
  "owned st = base_objs st + hash_objs (e_hash st) + sum_list (map slot_objs (e_slots st))"

primrec gl_name :: "gl_obj \<Rightarrow> nat" where
  "gl_name (GlImage n) = n" | "gl_name (GlTexture n) = n" | "gl_name (GlFramebuffer n) = n"
| "gl_name (GlProgram n) = n" | "gl_name (GlShader n) = n" | "gl_name (GlContext n) = n"

text \<open>A slot not in use holds nothing; a thread without a context holds nothing at all.\<close>

definition shape_ok :: "egl_state \<Rightarrow> bool" where
  "shape_ok st \<longleftrightarrow> length (e_slots st) = DRMTAP_EGL_IMAGE_SLOTS \<and>
    (\<forall>s \<in> set (e_slots st). i_fb_id s = 0 \<longrightarrow> slot_objs s = {#}) \<and>
    (e_initialized st \<longrightarrow> e_context st \<noteq> 0) \<and>
    (\<not> e_initialized st \<longrightarrow> hash_objs (e_hash st) = {#} \<and> (\<forall>s \<in> set (e_slots st). slot_objs s = {#}))"

definition live_ok :: "gl_obj multiset \<Rightarrow> nat \<Rightarrow> egl_state \<Rightarrow> bool" where
  "live_ok objs f st \<longleftrightarrow> finite (gl_live st) \<and> mset_set (gl_live st) = objs \<and> gl_faults st = f \<and> 0 < gl_next st \<and>
    (\<forall>x \<in> gl_live st. 0 < gl_name x \<and> gl_name x < gl_next st)"

definition gl_ok :: "nat \<Rightarrow> egl_state \<Rightarrow> bool" where
  "gl_ok f st \<longleftrightarrow> live_ok (owned st) f st \<and> shape_ok st"

text \<open>Steps that touch the driver's objects only.\<close>

definition gl_only :: "egl_state \<Rightarrow> egl_state \<Rightarrow> bool" where
  "gl_only st st' \<longleftrightarrow> (\<exists>l n f. st' = st\<lparr>gl_live := l, gl_next := n, gl_faults := f\<rparr>)"

lemma gl_onlyI: "st' = st\<lparr>gl_live := l, gl_next := n, gl_faults := f\<rparr> \<Longrightarrow> gl_only st st'"
  unfolding gl_only_def by blast

lemma gl_only_refl [simp]: "gl_only st st"
  by (rule gl_onlyI[where l = "gl_live st" and n = "gl_next st" and f = "gl_faults st"]) simp

lemma gl_only_trans: "gl_only a b \<Longrightarrow> gl_only b c \<Longrightarrow> gl_only a c"
  unfolding gl_only_def by (elim exE) (simp, blast)

lemma gl_only_D:
  assumes "gl_only st st'"
  shows "e_hash st' = e_hash st" "e_slots st' = e_slots st" "e_initialized st' = e_initialized st"
    "e_context st' = e_context st" "e_program st' = e_program st" "e_fbo st' = e_fbo st"
    "e_linear_texture st' = e_linear_texture st" "gl_made st' = gl_made st" "gl_linear st' = gl_linear st"
    "e_device_path st' = e_device_path st" "e_next_evict st' = e_next_evict st" "owned st' = owned st"
    "shape_ok st' = shape_ok st"
  using assms unfolding gl_only_def
  by (auto simp: owned_def base_objs_def shape_ok_def)

named_theorems gl_names

lemma ctor_names [gl_names]: "\<forall>m. gl_name (GlImage m) = m" "\<forall>m. gl_name (GlTexture m) = m"
  "\<forall>m. gl_name (GlFramebuffer m) = m" "\<forall>m. gl_name (GlProgram m) = m" "\<forall>m. gl_name (GlShader m) = m"
  "\<forall>m. gl_name (GlContext m) = m"
  by simp_all

section \<open>Minting and deleting\<close>

lemma gen_ok:
  assumes ok: "live_ok objs f st" and k: "\<forall>m. gl_name (k m) = m" and run: "gl_gen k st = (n, st')"
  shows "live_ok (add_mset (k n) objs) f st' \<and> 0 < n \<and> n = gl_next st \<and> gl_next st' = Suc n \<and> gl_only st st'"
proof -
  have n: "n = gl_next st" and st': "st' = st\<lparr>gl_live := insert (k n) (gl_live st), gl_next := Suc n\<rparr>"
    using run by (auto simp: gl_gen_def)
  have "k n \<notin> gl_live st" using ok k n by (force simp: live_ok_def)
  then have "live_ok (add_mset (k n) objs) f st'" using ok k n by (auto simp: live_ok_def st')
  moreover have "gl_only st st'" unfolding st' by (rule gl_onlyI[where f = "gl_faults st"]) simp
  ultimately show ?thesis using ok n by (simp add: live_ok_def st')
qed

lemma delete_ok:
  assumes "live_ok (add_mset x objs) f st"
  shows "live_ok objs f (gl_delete x st) \<and> gl_next (gl_delete x st) = gl_next st \<and> gl_only st (gl_delete x st)"
proof -
  have fin: "finite (gl_live st)" and eq: "mset_set (gl_live st) = add_mset x objs"
    using assms by (auto simp: live_ok_def)
  have x: "x \<in> gl_live st" using fin eq by (metis elem_mset_set union_single_eq_member)
  then have d: "gl_delete x st = st\<lparr>gl_live := gl_live st - {x}\<rparr>" by (simp add: gl_delete_def)
  have "mset_set (gl_live st - {x}) = objs" using fin x eq by (simp add: mset_set_Diff)
  then have "live_ok objs f (gl_delete x st)" using assms fin by (auto simp: live_ok_def d)
  moreover have "gl_only st (gl_delete x st)" unfolding d
    by (rule gl_onlyI[where n = "gl_next st" and f = "gl_faults st"]) simp
  ultimately show ?thesis by (simp add: d)
qed

lemma drop_ok:
  assumes "live_ok (some_obj k n + objs) f st"
  shows "live_ok objs f (gl_drop k n st) \<and> gl_next (gl_drop k n st) = gl_next st \<and> gl_only st (gl_drop k n st)"
proof (cases "n = 0")
  case False
  then have "live_ok (add_mset (k n) objs) f st" using assms by (simp add: some_obj_def)
  from delete_ok[OF this] show ?thesis using False by (simp add: gl_drop_def)
qed (use assms in \<open>simp add: gl_drop_def some_obj_def\<close>)

lemma live_ok_perm: "live_ok a f st \<Longrightarrow> a = b \<Longrightarrow> live_ok b f st"
  by simp

lemma live_ok_upd [simp]:
  "live_ok objs f (st\<lparr>e_display := a1\<rparr>) = live_ok objs f st" "live_ok objs f (st\<lparr>e_device_path := a2\<rparr>) = live_ok objs f st"
  "live_ok objs f (st\<lparr>e_context := a3\<rparr>) = live_ok objs f st" "live_ok objs f (st\<lparr>e_program := a3\<rparr>) = live_ok objs f st"
  "live_ok objs f (st\<lparr>e_fbo := a3\<rparr>) = live_ok objs f st" "live_ok objs f (st\<lparr>e_linear_texture := a3\<rparr>) = live_ok objs f st"
  "live_ok objs f (st\<lparr>e_tex_width := a4\<rparr>) = live_ok objs f st" "live_ok objs f (st\<lparr>e_tex_height := a4\<rparr>) = live_ok objs f st"
  "live_ok objs f (st\<lparr>e_initialized := a5\<rparr>) = live_ok objs f st" "live_ok objs f (st\<lparr>e_slots := a6\<rparr>) = live_ok objs f st"
  "live_ok objs f (st\<lparr>e_next_evict := a4\<rparr>) = live_ok objs f st" "live_ok objs f (st\<lparr>e_cache_disabled := a5\<rparr>) = live_ok objs f st"
  "live_ok objs f (st\<lparr>e_hash := a7\<rparr>) = live_ok objs f st" "live_ok objs f (st\<lparr>gl_made := a8\<rparr>) = live_ok objs f st"
  "live_ok objs f (st\<lparr>gl_linear := a9\<rparr>) = live_ok objs f st" "live_ok objs f (st\<lparr>g_displays := a10\<rparr>) = live_ok objs f st"
  by (simp_all add: live_ok_def)

section \<open>Shaders and programs\<close>

lemma compile_ok:
  assumes ok: "live_ok objs f st" and run: "compile_shader g i st = (s, st')"
  shows "live_ok (some_obj GlShader s + objs) f st' \<and> gl_only st st' \<and> gl_next st \<le> gl_next st'"
proof (cases "g_create_shader g i")
  case True
  obtain n st1 where g: "gl_gen GlShader st = (n, st1)" by fastforce
  note 1 = gen_ok[OF ok ctor_names(5) g]
  note 2 = delete_ok[of "GlShader n" objs f st1]
  show ?thesis using 1 2 run True gl_only_trans[of st st1]
    by (auto simp: compile_shader_def g some_obj_def split: if_splits)
next
  case False
  then show ?thesis using run ok by (simp add: compile_shader_def some_obj_def)
qed

lemma program_ok:
  assumes ok: "live_ok objs f st" and run: "create_program g v fr p st = (n, st')"
  shows "live_ok (some_obj GlProgram n + objs) f st' \<and> gl_only st st' \<and> gl_next st \<le> gl_next st'"
proof -
  obtain vs st1 where v: "compile_shader g v st = (vs, st1)" by fastforce
  obtain fs st2 where w: "compile_shader g fr st1 = (fs, st2)" by fastforce
  note 1 = compile_ok[OF ok v]
  note 2 = compile_ok[OF conjunct1[OF 1] w]
  have only2: "gl_only st st2" using 1 2 gl_only_trans by blast
  show ?thesis
  proof (cases "vs = 0 \<or> fs = 0")
    case True
    note run' = run[unfolded create_program_def v w prod.case if_P[OF True] prod.inject]
    have "live_ok (some_obj GlShader vs + (some_obj GlShader fs + objs)) f st2"
      using 2 by (simp add: ac_simps)
    note 3 = drop_ok[OF this]
    note 4 = drop_ok[OF conjunct1[OF 3]]
    have "gl_only st (gl_drop GlShader fs (gl_drop GlShader vs st2))" using only2 3 4 gl_only_trans by blast
    then show ?thesis using 1 2 3 4 by (simp add: run'[THEN conjunct1, symmetric] run'[THEN conjunct2, symmetric] some_obj_def)
  next
    case False
    obtain n3 st3 where g: "gl_gen GlProgram st2 = (n3, st3)" by fastforce
    note 3 = gen_ok[OF conjunct1[OF 2] ctor_names(4) g]
    let ?st4 = "gl_delete (GlShader vs) st3" and ?st5 = "gl_delete (GlShader fs) (gl_delete (GlShader vs) st3)"
    have "live_ok (add_mset (GlShader vs) (add_mset (GlShader fs) (add_mset (GlProgram n3) objs))) f st3"
      by (rule live_ok_perm[OF conjunct1[OF 3]]) (use False in \<open>simp add: some_obj_def\<close>)
    note 4 = delete_ok[OF this]
    note 5 = delete_ok[OF conjunct1[OF 4]]
    note 6 = delete_ok[OF conjunct1[OF 5]]
    have only5: "gl_only st ?st5" using only2 3 4 5 gl_only_trans by blast
    have only6: "gl_only st (gl_delete (GlProgram n3) ?st5)" using only5 6 gl_only_trans by blast
    have run': "(n, st') = (if g_link g p then (n3, ?st5) else (0, gl_delete (GlProgram n3) ?st5))"
      using run False by (simp add: create_program_def v w g Let_def)
    have le: "gl_next st \<le> gl_next ?st5" "gl_next st \<le> gl_next (gl_delete (GlProgram n3) ?st5)" using 1 2 3 4 5 6 by simp_all
    show ?thesis
    proof (cases "g_link g p")
      case True
      then show ?thesis using run' 3 5 only5 le by (simp add: some_obj_def)
    next
      case False
      then show ?thesis using run' 6 only6 le by (simp add: some_obj_def)
    qed
  qed
qed

section \<open>The hash pass\<close>

text \<open>Steps that touch the driver's objects and the hash state only.\<close>

definition hash_only :: "egl_state \<Rightarrow> egl_state \<Rightarrow> bool" where
  "hash_only st st' \<longleftrightarrow> (\<exists>l n f h. st' = st\<lparr>gl_live := l, gl_next := n, gl_faults := f, e_hash := h\<rparr>)"

lemma hash_onlyI: "st' = st\<lparr>gl_live := l, gl_next := n, gl_faults := f, e_hash := h\<rparr> \<Longrightarrow> hash_only st st'"
  unfolding hash_only_def by blast

lemma gl_hash_only: "gl_only st st' \<Longrightarrow> hash_only st st'"
  unfolding gl_only_def by (elim exE, rule hash_onlyI[where h = "e_hash st"]) simp

lemma hash_only_set [simp]: "hash_only st (st\<lparr>e_hash := h\<rparr>)"
  by (rule hash_onlyI[where l = "gl_live st" and n = "gl_next st" and f = "gl_faults st" and h = h]) simp

lemma hash_only_refl [simp]: "hash_only st st"
  by (rule gl_hash_only[OF gl_only_refl])

lemma hash_only_trans: "hash_only a b \<Longrightarrow> hash_only b c \<Longrightarrow> hash_only a c"
  unfolding hash_only_def by (elim exE) (simp, blast)

lemma hash_only_D:
  assumes "hash_only st st'"
  shows "e_slots st' = e_slots st" "e_initialized st' = e_initialized st"
    "e_context st' = e_context st" "e_program st' = e_program st" "e_fbo st' = e_fbo st"
    "e_linear_texture st' = e_linear_texture st" "gl_made st' = gl_made st" "gl_linear st' = gl_linear st"
    "base_objs st' = base_objs st"
  using assms unfolding hash_only_def by (auto simp: base_objs_def)

text \<open>The objects outside the hash state, which its steps leave alone.\<close>

definition rest_objs :: "egl_state \<Rightarrow> gl_obj multiset" where
  "rest_objs st = base_objs st + sum_list (map slot_objs (e_slots st))"

lemma owned_split: "owned st = hash_objs (e_hash st) + rest_objs st"
  by (simp add: owned_def rest_objs_def)

lemma hash_setup_ok:
  assumes ok: "live_ok objs f st" and none: "hash_objs (e_hash st) = {#}"
  shows "live_ok (hash_objs (e_hash (hash_setup g st)) + objs) f (hash_setup g st) \<and> hash_only st (hash_setup g st)"
proof -
  obtain n st1 where p: "create_program g 2 3 (Suc 0) st = (n, st1)" by fastforce
  note 1 = program_ok[OF ok p]
  let ?st2 = "st1\<lparr>e_hash := (e_hash st1)\<lparr>h_prog := n\<rparr>\<rparr>"
  have h: "e_hash st1 = e_hash st" using 1 gl_only_D(1) by blast
  have z: "h_tex (e_hash st) = 0" "h_fbo (e_hash st) = 0" using none by (auto simp: hash_objs_def some_obj_def split: if_splits)
  have "gl_only st st1" using 1 by blast
  note only2 = hash_only_trans[OF gl_hash_only[OF this] hash_only_set[of st1 "(e_hash st1)\<lparr>h_prog := n\<rparr>"]]
  show ?thesis
  proof (cases "n = 0")
    case True
    then have "hash_setup g st = ?st2" by (simp add: hash_setup_def p Let_def)
    then show ?thesis using 1 only2 z True by (simp add: h hash_objs_def some_obj_def)
  next
    case False
    obtain m st3 where gen: "gl_gen GlFramebuffer ?st2 = (m, st3)" by fastforce
    have "live_ok (some_obj GlProgram n + objs) f ?st2" using 1 by simp
    note 3 = gen_ok[OF this ctor_names(3) gen]
    have eq: "hash_setup g st = st3\<lparr>e_hash := (e_hash st3)\<lparr>h_fbo := m, h_on := True\<rparr>\<rparr>"
      using False by (simp add: hash_setup_def p gen Let_def)
    have h3: "e_hash st3 = (e_hash st)\<lparr>h_prog := n\<rparr>" using 3 gl_only_D(1)[of ?st2 st3] h by simp
    have "hash_only st (st3\<lparr>e_hash := (e_hash st3)\<lparr>h_fbo := m, h_on := True\<rparr>\<rparr>)"
      using 3 by (intro hash_only_trans[OF hash_only_trans[OF only2 gl_hash_only] hash_only_set]) blast
    moreover have "live_ok (hash_objs (e_hash (st3\<lparr>e_hash := (e_hash st3)\<lparr>h_fbo := m, h_on := True\<rparr>\<rparr>)) + objs) f
        (st3\<lparr>e_hash := (e_hash st3)\<lparr>h_fbo := m, h_on := True\<rparr>\<rparr>)"
      unfolding live_ok_upd
      by (rule live_ok_perm[OF conjunct1[OF 3]]) (use 3 z False in \<open>simp add: h3 hash_objs_def some_obj_def\<close>)
    ultimately show ?thesis unfolding eq by blast
  qed
qed

lemma hash_release_ok:
  assumes "live_ok (hash_objs (e_hash st) + objs) f st"
  shows "live_ok objs f (hash_release st) \<and> hash_only st (hash_release st) \<and> e_hash (hash_release st) = empty_hash"
proof -
  let ?h = "e_hash st"
  let ?s1 = "gl_drop GlTexture (h_tex ?h) st" let ?s2 = "gl_drop GlFramebuffer (h_fbo ?h) ?s1"
  let ?s3 = "gl_drop GlProgram (h_prog ?h) ?s2"
  have "live_ok (some_obj GlTexture (h_tex ?h) + (some_obj GlFramebuffer (h_fbo ?h) + (some_obj GlProgram (h_prog ?h) + objs))) f st"
    by (rule live_ok_perm[OF assms]) (simp add: hash_objs_def)
  note 1 = drop_ok[OF this]
  note 2 = drop_ok[OF conjunct1[OF 1]]
  note 3 = drop_ok[OF conjunct1[OF 2]]
  have eq: "hash_release st = ?s3\<lparr>e_hash := empty_hash\<rparr>" by (simp add: hash_release_def Let_def)
  have "gl_only st ?s3" using 1 2 3 gl_only_trans by blast
  from hash_only_trans[OF gl_hash_only[OF this] hash_only_set] show ?thesis using 3 by (simp add: eq)
qed

lemma hash_objs_upd [simp]:
  "hash_objs (h\<lparr>h_fresh := b\<rparr>) = hash_objs h" "hash_objs (h\<lparr>h_on := b\<rparr>) = hash_objs h"
  "hash_objs (h\<lparr>h_valid := b\<rparr>) = hash_objs h" "hash_objs (h\<lparr>h_cur := d\<rparr>) = hash_objs h"
  "hash_objs (h\<lparr>h_prev := d\<rparr>) = hash_objs h" "hash_objs (h\<lparr>h_gen := e\<rparr>) = hash_objs h"
  "hash_objs (hash_fail h) = hash_objs h" "hash_objs (hash_commit o' w hp fc m out h) = hash_objs h"
  by (simp_all add: hash_objs_def hash_fail_def hash_commit_def)

lemma hash_grow_objs: "hash_grow g n h = (b, h') \<Longrightarrow> hash_objs h' = hash_objs h"
  by (auto simp: hash_grow_def hash_objs_def split: if_splits)

lemma hash_target_ok:
  assumes ok: "live_ok (hash_objs (e_hash st) + objs) f st" and run: "hash_target g gw gh st = (b, st')"
  shows "live_ok (hash_objs (e_hash st') + objs) f st' \<and> hash_only st st'"
proof (cases "h_gw (e_hash st) = gw \<and> h_gh (e_hash st) = gh")
  case True
  then show ?thesis using ok run by (simp add: hash_target_def Let_def)
next
  case False
  let ?h = "e_hash st"
  obtain t st1 where t: "(if h_tex ?h = 0 then gl_gen GlTexture st else (h_tex ?h, st)) = (t, st1)" by fastforce
  have 1: "live_ok (hash_objs (?h\<lparr>h_tex := t\<rparr>) + objs) f st1 \<and> gl_only st st1"
  proof (cases "h_tex ?h = 0")
    case True
    then have "gl_gen GlTexture st = (t, st1)" using t by simp
    note 2 = gen_ok[OF ok ctor_names(2) this]
    have "live_ok (hash_objs (?h\<lparr>h_tex := t\<rparr>) + objs) f st1"
      by (rule live_ok_perm[OF conjunct1[OF 2]]) (use 2 True in \<open>simp add: hash_objs_def some_obj_def\<close>)
    with 2 show ?thesis by blast
  next
    case False
    then have "t = h_tex ?h" "st1 = st" using t by auto
    then show ?thesis using ok by (simp add: hash_objs_def)
  qed
  have "hash_target g gw gh st =
      (if g_target_ok g then (True, st1\<lparr>e_hash := ?h\<lparr>h_tex := t, h_gw := gw, h_gh := gh\<rparr>\<rparr>)
       else (False, st1\<lparr>e_hash := ?h\<lparr>h_tex := t\<rparr>\<rparr>))"
    by (simp only: hash_target_def Let_def if_not_P[OF False] t prod.case)
  moreover have "hash_objs (?h\<lparr>h_tex := t, h_gw := gw, h_gh := gh\<rparr>) = hash_objs (?h\<lparr>h_tex := t\<rparr>)"
    by (simp add: hash_objs_def)
  moreover have "hash_only st (st1\<lparr>e_hash := k\<rparr>)" for k
    using 1 by (intro hash_only_trans[OF gl_hash_only hash_only_set]) blast
  ultimately show ?thesis using 1 run by (auto split: if_splits)
qed

lemma hash_check_eqs:
  fixes st :: egl_state and w h_px :: u32
  defines "s0 \<equiv> st\<lparr>e_hash := (e_hash st)\<lparr>h_fresh := False\<rparr>\<rparr>"
    and "gw \<equiv> (w + of_nat HASH_BS - 1) div of_nat HASH_BS" and "gh \<equiv> (h_px + of_nat HASH_BS - 1) div of_nat HASH_BS"
  shows "\<not> h_on (e_hash s0) \<or> HASH_MAX_BYTES < unat gw * unat gh * 16 \<Longrightarrow>
      hash_check g wv own w h_px fc m out st = (False, s0)"
    and "\<not> (\<not> h_on (e_hash s0) \<or> HASH_MAX_BYTES < unat gw * unat gh * 16) \<Longrightarrow>
      hash_grow g (unat gw * unat gh * 16) (e_hash s0) = (b1, h1) \<Longrightarrow>
      hash_target g gw gh (s0\<lparr>e_hash := h1\<rparr>) = (b2, s2) \<Longrightarrow>
      h2 = (e_hash s2)\<lparr>h_cur := Some (hash_grid (gl_linear s2) (unat w) (unat h_px))\<rparr> \<Longrightarrow>
      same = (wv \<and> h_owner h2 = own \<and> h_w h2 = w \<and> h_h h2 = h_px \<and> h_fourcc h2 = fc \<and> h_modifier h2 = m \<and>
        h_out h2 = out \<and> h_cur h2 = h_prev h2) \<Longrightarrow>
      hash_check g wv own w h_px fc m out st =
        (if \<not> b1 then (False, s0\<lparr>e_hash := hash_fail h1\<rparr>)
         else if \<not> b2 then (False, s2\<lparr>e_hash := hash_fail (e_hash s2)\<rparr>)
         else if \<not> g_hash_pass_ok g then (False, s2\<lparr>e_hash := hash_fail h2\<rparr>)
         else if same then (True, s2\<lparr>e_hash := h2\<lparr>h_fresh := True, h_valid := True\<rparr>\<rparr>)
         else (False, s2\<lparr>e_hash := h2\<lparr>h_fresh := True\<rparr>\<rparr>))"
  unfolding assms by (auto simp: hash_check_def Let_def)

lemma hash_check_ok:
  assumes ok: "live_ok (hash_objs (e_hash st) + objs) f st"
    and run: "hash_check g wv own w h_px fc m out st = (b, st')"
  shows "live_ok (hash_objs (e_hash st') + objs) f st' \<and> hash_only st st'"
proof -
  let ?s0 = "st\<lparr>e_hash := (e_hash st)\<lparr>h_fresh := False\<rparr>\<rparr>"
  let ?gw = "(w + of_nat HASH_BS - 1) div of_nat HASH_BS :: u32" let ?gh = "(h_px + of_nat HASH_BS - 1) div of_nat HASH_BS :: u32"
  have 0: "live_ok (hash_objs (e_hash ?s0) + objs) f ?s0" using ok by simp
  show ?thesis
  proof (cases "\<not> h_on (e_hash ?s0) \<or> HASH_MAX_BYTES < unat ?gw * unat ?gh * 16")
    case True
    then have "st' = ?s0" using hash_check_eqs(1)[of st w h_px g wv own fc m out] run by simp
    then show ?thesis using 0 by simp
  next
    case False
    obtain b1 h1 where g: "hash_grow g (unat ?gw * unat ?gh * 16) (e_hash ?s0) = (b1, h1)" by fastforce
    obtain b2 s2 where t: "hash_target g ?gw ?gh (?s0\<lparr>e_hash := h1\<rparr>) = (b2, s2)" by fastforce
    have h1: "hash_objs h1 = hash_objs (e_hash st)" using hash_grow_objs[OF g] by simp
    have 1: "live_ok (hash_objs (e_hash (?s0\<lparr>e_hash := h1\<rparr>)) + objs) f (?s0\<lparr>e_hash := h1\<rparr>)" using ok h1 by simp
    note 2 = hash_target_ok[OF 1 t]
    let ?h2 = "(e_hash s2)\<lparr>h_cur := Some (hash_grid (gl_linear s2) (unat w) (unat h_px))\<rparr>"
    note eq = hash_check_eqs(2)[OF False g t refl refl, where wv = wv and own = own and fc = fc and m = m and out = out]
    have only: "hash_only st (s2\<lparr>e_hash := k\<rparr>)" "hash_only st (?s0\<lparr>e_hash := k\<rparr>)" for k
    proof -
      have 3: "hash_only st (?s0\<lparr>e_hash := k\<rparr>)" for k by (rule hash_only_trans[OF hash_only_set hash_only_set])
      show "hash_only st (s2\<lparr>e_hash := k\<rparr>)"
        by (rule hash_only_trans[OF hash_only_trans[OF 3 conjunct2[OF 2]] hash_only_set])
      show "hash_only st (?s0\<lparr>e_hash := k\<rparr>)" by (rule 3)
    qed
    have "st' \<in> {?s0\<lparr>e_hash := hash_fail h1\<rparr>, s2\<lparr>e_hash := hash_fail (e_hash s2)\<rparr>, s2\<lparr>e_hash := hash_fail ?h2\<rparr>,
        s2\<lparr>e_hash := ?h2\<lparr>h_fresh := True, h_valid := True\<rparr>\<rparr>, s2\<lparr>e_hash := ?h2\<lparr>h_fresh := True\<rparr>\<rparr>}"
      using run unfolding eq by (simp only: split: if_splits) simp_all
    then show ?thesis using 2 ok h1 only by (elim insertE emptyE) simp_all
  qed
qed

section \<open>Setting up and tearing down\<close>

lemma display_only: "egl_display_for_ctx g path st = (d, st') \<Longrightarrow> \<exists>ds. st' = st\<lparr>g_displays := ds\<rparr>"
  by (auto simp: egl_display_for_ctx_def Let_def split: option.splits if_splits
    intro: exI[of _ "g_displays st"])

lemma shape_sum: "\<forall>s \<in> set ss. slot_objs s = {#} \<Longrightarrow> sum_list (map slot_objs ss) = {#}"
  by (induction ss) simp_all

lemma owned_idle: "\<not> e_initialized st \<Longrightarrow> shape_ok st \<Longrightarrow> owned st = {#}"
proof -
  assume a: "\<not> e_initialized st" "shape_ok st"
  then have "sum_list (map slot_objs (e_slots st)) = {#}" by (intro shape_sum) (simp add: shape_ok_def)
  then show ?thesis using a by (simp add: owned_def base_objs_def shape_ok_def)
qed

lemma egl_init_ok:
  assumes ok: "gl_ok f st" and idle: "\<not> e_initialized st" and run: "egl_init g path st = (r, st')"
  shows "gl_ok f st' \<and> e_slots st' = e_slots st \<and> gl_made st' = gl_made st \<and>
    (r = 0 \<longrightarrow> e_initialized st') \<and> r \<le> 0"
proof (cases "g_load_procs g < 0")
  case True
  then show ?thesis using run ok idle by (simp add: egl_init_def errno_defs)
next
  case procs: False
  have shape: "shape_ok st" and live: "live_ok {#} f st" using ok owned_idle[OF idle] by (simp_all add: gl_ok_def)
  have idle_ok: "gl_ok f s" if "live_ok {#} f s" "shape_ok s" "\<not> e_initialized s" for s
    using that owned_idle by (simp add: gl_ok_def)
  obtain d st1 where dsp: "egl_display_for_ctx g path st = (d, st1)" by fastforce
  obtain ds where st1: "st1 = st\<lparr>g_displays := ds\<rparr>" using display_only[OF dsp] by blast
  note run1 = run[unfolded egl_init_def if_not_P[OF procs] dsp prod.case]
  show ?thesis
  proof (cases "d = 0")
    case True
    then have "r = - ENODEV" "st' = st1\<lparr>e_display := 0\<rparr>" using run1 by simp_all
    then show ?thesis using live shape idle by (auto intro!: idle_ok simp: st1 shape_ok_def errno_defs)
  next
    case disp: False
    let ?st2 = "st1\<lparr>e_display := d, e_device_path := path\<rparr>"
    have st2: "live_ok {#} f ?st2" "shape_ok ?st2" "\<not> e_initialized ?st2" "e_slots ?st2 = e_slots st" "gl_made ?st2 = gl_made st"
      using live shape idle by (simp_all add: st1 shape_ok_def)
    note run2 = run1[unfolded if_not_P[OF disp] Let_def]
    show ?thesis
    proof (cases "\<not> g_initialize g d \<or> \<not> g_choose_config g")
      case True
      then have "r = - EIO" "st' = ?st2" using run2 by simp_all
      then show ?thesis using idle_ok[OF st2(1-3)] st2 by (simp add: errno_defs)
    next
      case conf: False
      note run3 = run2[unfolded if_not_P[OF conf]]
      let ?want = "g_skip_unchanged g \<and> g_create_context g 3"
      let ?st3 = "if g_skip_unchanged g then ?st2\<lparr>e_hash := (e_hash ?st2)\<lparr>h_es3 := ?want\<rparr>\<rparr> else ?st2"
      have h3: "hash_objs (h\<lparr>h_es3 := b\<rparr>) = hash_objs h" for h b by (simp add: hash_objs_def)
      have st3: "live_ok {#} f ?st3" "shape_ok ?st3" "\<not> e_initialized ?st3" "e_slots ?st3 = e_slots st"
        "gl_made ?st3 = gl_made st" "hash_objs (e_hash ?st3) = {#}"
        using st2 by (auto simp: shape_ok_def h3)
      obtain cx st4 where cx: "egl_context g ?st2 = (cx, st4)" by fastforce
      note run4 = run3[unfolded cx prod.case]
      have cx': "(cx, st4) = (if ?want \<or> g_create_context g 2 then gl_gen GlContext ?st3 else (0, ?st3))"
        using cx by (simp add: egl_context_def Let_def)
      show ?thesis
      proof (cases "cx = 0")
        case True
        have "st4 = ?st3"
        proof (cases "?want \<or> g_create_context g 2")
          case yes: True
          then have "gl_gen GlContext ?st3 = (cx, st4)" using cx' by simp
          from gen_ok[OF st3(1) ctor_names(6) this] True show ?thesis by simp
        next
          case False
          show ?thesis using cx' unfolding if_not_P[OF False] prod.inject by blast
        qed
        moreover have "r = - EIO" "st' = st4\<lparr>e_context := 0\<rparr>" using run4 True by simp_all
        ultimately show ?thesis using st3 by (auto intro!: idle_ok simp: shape_ok_def errno_defs)
      next
        case cx0: False
        then have "gl_gen GlContext ?st3 = (cx, st4)" using cx' by (auto split: if_splits)
        note 4 = gen_ok[OF st3(1) ctor_names(6) this]
        have only4: "gl_only ?st3 st4" and live4: "live_ok {#GlContext cx#} f st4" using 4 by blast+
        note run5 = run4[unfolded if_not_P[OF cx0]]
        obtain n st5 where prog: "create_program g 0 1 0 (st4\<lparr>e_context := cx\<rparr>) = (n, st5)" by fastforce
        have "live_ok {#GlContext cx#} f (st4\<lparr>e_context := cx\<rparr>)" using live4 by simp
        note 5 = program_ok[OF this prog]
        have f5: "e_slots st5 = e_slots st" "gl_made st5 = gl_made st" "\<not> e_initialized st5" "shape_ok st5"
            "hash_objs (e_hash st5) = {#}" "e_context st5 = cx"
          using gl_only_D[OF conjunct1[OF conjunct2[OF 5]]] gl_only_D[OF only4] st3 by (simp_all add: shape_ok_def)
        note run6 = run5[unfolded prog prod.case]
        show ?thesis
        proof (cases "n = 0")
          case True
          have "live_ok (add_mset (GlContext cx) {#}) f (st5\<lparr>e_program := n\<rparr>)" using 5 True by (simp add: some_obj_def)
          note 6 = delete_ok[OF this]
          have st': "r = - EIO" "st' = gl_delete (GlContext cx) (st5\<lparr>e_program := n\<rparr>)" using run6 True by simp_all
          note d6 = gl_only_D[OF conjunct2[OF conjunct2[OF 6]]]
          have "shape_ok st'" "\<not> e_initialized st'" "e_slots st' = e_slots st" "gl_made st' = gl_made st"
            using d6 f5 by (simp_all add: st'(2) shape_ok_def)
          then show ?thesis using idle_ok[of st'] 6 by (simp add: st' errno_defs)
        next
          case n0: False
          let ?st6 = "st5\<lparr>e_program := n\<rparr>"
          let ?st7 = "if ?want then hash_setup g ?st6 else ?st6"
          let ?cp = "add_mset (GlProgram n) {#GlContext cx#}"
          have live6: "live_ok ?cp f ?st6" unfolding live_ok_upd
            by (rule live_ok_perm[OF conjunct1[OF 5]]) (use n0 in \<open>simp add: some_obj_def\<close>)
          have h6: "hash_objs (e_hash ?st6) = {#}" using f5(5) by simp
          have 7: "live_ok (hash_objs (e_hash ?st7) + ?cp) f ?st7" "hash_only ?st6 ?st7"
            using hash_setup_ok[OF live6 h6, of g] live6 h6 by simp_all
          obtain fb st8 where gen: "gl_gen GlFramebuffer ?st7 = (fb, st8)" by fastforce
          note 8 = gen_ok[OF 7(1) ctor_names(3) gen]
          note d8 = gl_only_D[OF conjunct2[OF conjunct2[OF conjunct2[OF conjunct2[OF 8]]]]]
          note d7 = hash_only_D[OF 7(2)]
          let ?fin = "st8\<lparr>e_fbo := fb, e_linear_texture := 0, e_tex_width := 0, e_tex_height := 0,
              e_cache_disabled := g_no_image_cache g, e_initialized := True\<rparr>"
          have st': "r = 0" "st' = ?fin" using run6 n0 gen by (simp_all add: Let_def)
          have proj: "e_slots st8 = e_slots st" "gl_made st8 = gl_made st" "e_context st8 = cx" "e_program st8 = n"
            "e_hash st8 = e_hash ?st7"
            using d8 d7 f5 by simp_all
          have sum0: "sum_list (map slot_objs (e_slots st)) = {#}"
            using shape idle by (intro shape_sum) (simp add: shape_ok_def)
          have "owned ?fin = add_mset (GlFramebuffer fb) (hash_objs (e_hash ?st7) + ?cp)"
            using 8 n0 cx0 sum0 by (simp add: owned_def base_objs_def proj some_obj_def)
          from live_ok_perm[OF conjunct1[OF 8] this[symmetric]] have "live_ok (owned ?fin) f ?fin"
            by (simp only: live_ok_upd)
          moreover have "shape_ok ?fin" using shape proj(1) cx0 proj(3) by (simp add: shape_ok_def)
          ultimately show ?thesis using proj by (simp add: st' gl_ok_def)
        qed
      qed
    qed
  qed
qed

section \<open>Slots\<close>

text \<open>The invariant with objects in flight, and what a slot's image was made from.\<close>

definition gl_okx :: "gl_obj multiset \<Rightarrow> nat \<Rightarrow> egl_state \<Rightarrow> bool" where
  "gl_okx ex f st \<longleftrightarrow> live_ok (owned st + ex) f st \<and> shape_ok st"

lemma gl_okx_none: "gl_okx {#} f st = gl_ok f st"
  by (simp add: gl_okx_def gl_ok_def)

definition import_tries ::
  "int \<Rightarrow> u32 \<Rightarrow> u32 \<Rightarrow> u32 \<Rightarrow> u32 \<Rightarrow> u64 \<Rightarrow> int \<Rightarrow> u32 list \<Rightarrow> u32 list \<Rightarrow> attribs list" where
  "import_tries fd width height stride fourcc m planes offs pitches =
    image_attribs fd width height stride fourcc m planes offs pitches #
    (if retry_safe planes fourcc then
       retry_attribs fd width height stride True m offs #
       (if m = DRM_FORMAT_MOD_LINEAR then [retry_attribs fd width height stride False m offs] else [])
     else [])"

definition made_for :: "(nat \<Rightarrow> attribs \<times> nat) \<Rightarrow> egl_image_slot \<Rightarrow> bool" where
  "made_for made s \<longleftrightarrow> snd (made (i_image s)) = i_buf_inode s \<and>
    (\<exists>fd. fst (made (i_image s)) \<in> set (import_tries fd (i_width s) (i_height s) (i_stride s) (i_fourcc s)
      (i_modifier s) (i_num_planes s) (i_offsets s) (i_pitches s)))"

definition prov :: "egl_state \<Rightarrow> bool" where
  "prov st \<longleftrightarrow> (\<forall>s \<in> set (e_slots st). i_fb_id s \<noteq> 0 \<longrightarrow>
    0 < i_image s \<and> i_image s < gl_next st \<and> made_for (gl_made st) s)"

text \<open>Steps that only mint, and only empty slots.\<close>

definition keeps :: "egl_state \<Rightarrow> egl_state \<Rightarrow> bool" where
  "keeps st st' \<longleftrightarrow> gl_next st \<le> gl_next st' \<and> (\<forall>n < gl_next st. gl_made st' n = gl_made st n) \<and>
    set (e_slots st') \<subseteq> set (e_slots st) \<union> {empty_image_slot}"

lemma keeps_refl [simp]: "keeps st st"
  by (auto simp: keeps_def)

lemma keeps_trans: "keeps a b \<Longrightarrow> keeps b c \<Longrightarrow> keeps a c"
  unfolding keeps_def by (auto dest: order_trans)

lemma made_for_cong: "made (i_image s) = made' (i_image s) \<Longrightarrow> made_for made s = made_for made' s"
  by (simp add: made_for_def)

lemma prov_keeps:
  assumes "prov st" "keeps st st'"
  shows "prov st'"
  unfolding prov_def
proof (intro ballI impI)
  fix s assume s: "s \<in> set (e_slots st')" "i_fb_id s \<noteq> 0"
  then have "s \<in> set (e_slots st)" using assms(2) by (auto simp: keeps_def empty_image_slot_def)
  then have p: "0 < i_image s" "i_image s < gl_next st" "made_for (gl_made st) s" using assms(1) s(2) by (auto simp: prov_def)
  moreover have "gl_made st' (i_image s) = gl_made st (i_image s)" using p(2) assms(2) by (simp add: keeps_def)
  ultimately show "0 < i_image s \<and> i_image s < gl_next st' \<and> made_for (gl_made st') s"
    using made_for_cong[of "gl_made st'" s "gl_made st"] assms(2) by (simp add: keeps_def)
qed

lemma keeps_same: "e_slots st' = e_slots st \<Longrightarrow> gl_made st' = gl_made st \<Longrightarrow> gl_next st \<le> gl_next st' \<Longrightarrow> keeps st st'"
  by (auto simp: keeps_def)

lemma sum_list_swap:
  fixes g :: "'a \<Rightarrow> 'b :: comm_monoid_add"
  shows "i < length xs \<Longrightarrow> sum_list (map g (xs[i := x])) + g (xs ! i) = sum_list (map g xs) + g x"
proof (induction xs arbitrary: i)
  case (Cons a xs)
  then show ?case
  proof (cases i)
    case (Suc j)
    have "sum_list (map g (xs[j := x])) + g (xs ! j) = sum_list (map g xs) + g x" using Cons Suc by simp
    then show ?thesis using Suc by (simp add: add.assoc)
  qed (simp add: ac_simps)
qed simp

lemma slot_objs_empty [simp]: "slot_objs empty_image_slot = {#}"
  by (simp add: slot_objs_def empty_image_slot_def some_obj_def)

lemma slot_release_ok:
  assumes ok: "gl_okx ex f st" and i: "i < DRMTAP_EGL_IMAGE_SLOTS"
  shows "gl_okx ex f (egl_image_slot_release i st) \<and> keeps st (egl_image_slot_release i st) \<and>
    e_slots (egl_image_slot_release i st) = (e_slots st)[i := empty_image_slot] \<and>
    e_initialized (egl_image_slot_release i st) = e_initialized st \<and>
    gl_linear (egl_image_slot_release i st) = gl_linear st \<and>
    e_hash (egl_image_slot_release i st) = e_hash st \<and> e_cache_disabled (egl_image_slot_release i st) = e_cache_disabled st"
proof -
  let ?s = "e_slots st ! i" and ?ss = "(e_slots st)[i := empty_image_slot]"
  let ?rest = "base_objs st + hash_objs (e_hash st) + sum_list (map slot_objs ?ss) + ex"
  let ?s1 = "gl_drop GlTexture (i_texture ?s) st" let ?s2 = "gl_drop GlImage (i_image ?s) ?s1"
  have len: "i < length (e_slots st)" and live: "live_ok (owned st + ex) f st" and sh: "shape_ok st"
    using ok i by (simp_all add: gl_okx_def shape_ok_def)
  have "sum_list (map slot_objs (e_slots st)) = sum_list (map slot_objs ?ss) + slot_objs ?s"
    using sum_list_swap[OF len, of slot_objs empty_image_slot] by simp
  then have "owned st + ex = some_obj GlTexture (i_texture ?s) + (some_obj GlImage (i_image ?s) + ?rest)"
    by (simp add: owned_def slot_objs_def)
  from live_ok_perm[OF live this] have "live_ok (some_obj GlTexture (i_texture ?s) + (some_obj GlImage (i_image ?s) + ?rest)) f st" .
  note 1 = drop_ok[OF this]
  note 2 = drop_ok[OF conjunct1[OF 1]]
  have only: "gl_only st ?s2" using 1 2 gl_only_trans by blast
  note d = gl_only_D[OF only]
  have eq: "egl_image_slot_release i st = ?s2\<lparr>e_slots := ?ss\<rparr>"
    by (simp add: egl_image_slot_release_def Let_def d)
  have base: "base_objs (?s2\<lparr>e_slots := ?ss\<rparr>) = base_objs st" using d by (simp add: base_objs_def)
  have "owned (?s2\<lparr>e_slots := ?ss\<rparr>) + ex = ?rest" using d base by (simp add: owned_def)
  then have "live_ok (owned (?s2\<lparr>e_slots := ?ss\<rparr>) + ex) f (?s2\<lparr>e_slots := ?ss\<rparr>)" using 2 by simp
  moreover have "shape_ok (?s2\<lparr>e_slots := ?ss\<rparr>)"
    using sh d set_update_subset_insert[of "e_slots st" i empty_image_slot] by (auto simp: shape_ok_def)
  moreover have "keeps st (?s2\<lparr>e_slots := ?ss\<rparr>)"
    using 1 2 d set_update_subset_insert[of "e_slots st" i empty_image_slot] by (auto simp: keeps_def)
  moreover have "e_cache_disabled ?s2 = e_cache_disabled st" using only by (auto simp: gl_only_def)
  ultimately show ?thesis using d by (simp add: eq gl_okx_def)
qed

lemma cleanup_ok:
  assumes ok: "gl_ok f st" and shown: "prov st"
  shows "gl_ok f (egl_cleanup st) \<and> prov (egl_cleanup st) \<and> (e_initialized st \<longrightarrow> \<not> e_initialized (egl_cleanup st) \<and>
    gl_live (egl_cleanup st) = {})"
proof (cases "e_initialized st")
  case True
  let ?S = "DRMTAP_EGL_IMAGE_SLOTS"
  have "gl_okx {#} f (fold egl_image_slot_release [0 ..< n] st) \<and> keeps st (fold egl_image_slot_release [0 ..< n] st) \<and>
      e_initialized (fold egl_image_slot_release [0 ..< n] st) \<and>
      (\<forall>i < n. e_slots (fold egl_image_slot_release [0 ..< n] st) ! i = empty_image_slot)" if "n \<le> ?S" for n
    using that
  proof (induction n)
    case 0
    then show ?case using ok True by (simp add: gl_okx_none)
  next
    case (Suc n)
    let ?u = "fold egl_image_slot_release [0 ..< n] st"
    have IH: "gl_okx {#} f ?u" "keeps st ?u" "e_initialized ?u" "\<forall>i < n. e_slots ?u ! i = empty_image_slot"
      using Suc by auto
    have n: "n < ?S" using Suc.prems by simp
    have len: "length (e_slots ?u) = ?S" using IH(1) by (simp add: gl_okx_def shape_ok_def)
    note r = slot_release_ok[OF IH(1) n]
    have "keeps st (egl_image_slot_release n ?u)" using r IH(2) keeps_trans by blast
    moreover have "\<forall>i < Suc n. e_slots (egl_image_slot_release n ?u) ! i = empty_image_slot"
      using r IH(4) n len by (simp add: nth_list_update less_Suc_eq)
    moreover have "fold egl_image_slot_release [0 ..< Suc n] st = egl_image_slot_release n ?u" by simp
    ultimately show ?case using r IH(3) by simp
  qed
  from this[OF order_refl] obtain st1 where st1: "st1 = fold egl_image_slot_release [0 ..< ?S] st"
    and 1: "gl_okx {#} f st1" "keeps st st1" "e_initialized st1" "\<forall>i < ?S. e_slots st1 ! i = empty_image_slot" by blast
  let ?st1 = "st1\<lparr>e_next_evict := 0\<rparr>"
  have len: "length (e_slots st1) = ?S" using 1(1) by (simp add: gl_okx_def shape_ok_def)
  have empty: "\<forall>s \<in> set (e_slots st1). s = empty_image_slot" using 1(4) len by (metis in_set_conv_nth)
  then have none: "\<forall>s \<in> set (e_slots st1). slot_objs s = {#}" using slot_objs_empty by metis
  then have sum0: "sum_list (map slot_objs (e_slots st1)) = {#}" by (rule shape_sum)
  have base1: "base_objs ?st1 = base_objs st1" by (simp add: base_objs_def)
  have "live_ok (hash_objs (e_hash ?st1) + base_objs ?st1) f ?st1"
    using 1(1) sum0 by (simp add: gl_okx_def owned_def base1 add.commute)
  note 2 = hash_release_ok[OF this]
  let ?st2 = "hash_release ?st1"
  note d2 = hash_only_D[OF conjunct1[OF conjunct2[OF 2]]]
  let ?s3 = "gl_drop GlTexture (e_linear_texture ?st2) ?st2" let ?s4 = "gl_drop GlFramebuffer (e_fbo ?st2) ?s3"
  let ?s5 = "gl_drop GlProgram (e_program ?st2) ?s4" let ?s6 = "gl_delete (GlContext (e_context ?s5)) ?s5"
  have cx: "e_context st1 \<noteq> 0" using 1(1,3) by (simp add: gl_okx_def shape_ok_def)
  have "base_objs ?st1 = some_obj GlTexture (e_linear_texture ?st2) + (some_obj GlFramebuffer (e_fbo ?st2) +
      (some_obj GlProgram (e_program ?st2) + add_mset (GlContext (e_context ?st2)) {#}))"
    using 1(3) cx d2 by (simp add: base_objs_def some_obj_def)
  note 3 = drop_ok[OF live_ok_perm[OF conjunct1[OF 2] this]]
  note 4 = drop_ok[OF conjunct1[OF 3]]
  note 5 = drop_ok[OF conjunct1[OF 4]]
  have only5: "gl_only ?st2 ?s5" using 3 4 5 gl_only_trans by blast
  have "live_ok (add_mset (GlContext (e_context ?s5)) {#}) f ?s5" using 5 gl_only_D(4)[OF only5] by simp
  note 6 = delete_ok[OF this]
  have only6: "gl_only ?st2 ?s6" using only5 6 gl_only_trans by blast
  note d6 = gl_only_D[OF only6]
  let ?fin = "?s6\<lparr>e_context := 0, e_device_path := [], e_program := 0, e_fbo := 0, e_linear_texture := 0,
         e_tex_width := 0, e_tex_height := 0, e_initialized := False\<rparr>"
  have eq: "egl_cleanup st = ?fin" using True by (simp add: egl_cleanup_def Let_def st1)
  have slots: "e_slots ?fin = e_slots st1" "e_hash ?fin = empty_hash" "\<not> e_initialized ?fin" using d6 d2 2 by simp_all
  have h0: "hash_objs empty_hash = {#}" by (simp add: hash_objs_def empty_hash_def some_obj_def)
  have shape: "shape_ok ?fin" unfolding shape_ok_def slots(1,2)
    using slots(3) len none h0 by blast
  have "live_ok (owned ?fin) f ?fin" using 6 owned_idle[OF slots(3) shape] by simp
  moreover have "prov ?fin" unfolding prov_def slots(1) using empty by (auto simp: empty_image_slot_def)
  moreover have "gl_live ?fin = {}" using 6 by (auto simp: live_ok_def mset_set_empty_iff)
  ultimately show ?thesis using shape slots(3) by (simp add: eq gl_ok_def)
next
  case False
  then show ?thesis using assms by (simp add: egl_cleanup_def)
qed

section \<open>Importing and caching\<close>

text \<open>Steps that leave the thread's own fields alone but for the linear texture.\<close>

definition same_thread :: "egl_state \<Rightarrow> egl_state \<Rightarrow> bool" where
  "same_thread st st' \<longleftrightarrow> keeps st st' \<and> e_slots st' = e_slots st \<and> e_hash st' = e_hash st \<and>
    e_initialized st' = e_initialized st \<and> e_cache_disabled st' = e_cache_disabled st"

lemma same_thread_refl [simp]: "same_thread st st"
  by (simp add: same_thread_def)

lemma same_thread_trans: "same_thread a b \<Longrightarrow> same_thread b c \<Longrightarrow> same_thread a c"
  unfolding same_thread_def by (metis keeps_trans)

lemma gl_only_same: "gl_only st st' \<Longrightarrow> gl_next st \<le> gl_next st' \<Longrightarrow> same_thread st st'"
  using gl_only_D[of st st'] by (auto simp: same_thread_def gl_only_def keeps_def)

lemma gl_only_okx: "gl_only st st' \<Longrightarrow> live_ok (owned st + ex) f st' \<Longrightarrow> shape_ok st \<Longrightarrow> gl_okx ex f st'"
  using gl_only_D(12,13)[of st st'] by (simp add: gl_okx_def)

lemma linear_ok:
  assumes ok: "gl_okx ex f st" and init: "e_initialized st"
  shows "gl_okx ex f (ensure_linear_texture w h st) \<and> same_thread st (ensure_linear_texture w h st)"
proof (cases "e_tex_width st = w \<and> e_tex_height st = h")
  case False
  let ?b = "some_obj GlContext (e_context st) + some_obj GlProgram (e_program st) + some_obj GlFramebuffer (e_fbo st)"
  let ?o = "?b + hash_objs (e_hash st) + sum_list (map slot_objs (e_slots st)) + ex"
  let ?s1 = "gl_drop GlTexture (e_linear_texture st) st"
  have "live_ok (owned st + ex) f st" "shape_ok st" using ok by (simp_all add: gl_okx_def)
  then have "live_ok (some_obj GlTexture (e_linear_texture st) + ?o) f st"
    using init by (elim live_ok_perm) (simp add: owned_def base_objs_def ac_simps)
  note 1 = drop_ok[OF this]
  obtain t s2 where gen: "gl_gen GlTexture ?s1 = (t, s2)" by fastforce
  note 2 = gen_ok[OF conjunct1[OF 1] ctor_names(2) gen]
  have only: "gl_only st s2" using 1 2 gl_only_trans by blast
  note d = gl_only_D[OF only]
  let ?fin = "s2\<lparr>e_linear_texture := t, e_tex_width := w, e_tex_height := h\<rparr>"
  have eq: "ensure_linear_texture w h st = ?fin"
    by (simp only: ensure_linear_texture_def if_not_P[OF False] gen prod.case)
  have "add_mset (GlTexture t) ?o = owned ?fin + ex"
    using 2 init d by (simp add: owned_def base_objs_def some_obj_def)
  from live_ok_perm[OF conjunct1[OF 2] this] have "live_ok (owned ?fin + ex) f ?fin" by (simp only: live_ok_upd)
  moreover have "shape_ok ?fin" using \<open>shape_ok st\<close> d by (simp add: shape_ok_def)
  moreover have "gl_next st \<le> gl_next ?fin" using 1 2 by simp
  moreover have "same_thread s2 ?fin" by (auto simp: same_thread_def keeps_def)
  moreover have "same_thread st s2" using gl_only_same[OF only] 1 2 by simp
  ultimately show ?thesis unfolding eq using same_thread_trans by (auto simp: gl_okx_def)
qed (use ok in \<open>simp add: ensure_linear_texture_def\<close>)

text \<open>Steps of the context that move the clock and the thread's GL state only.\<close>

definition egl_only :: "ctx \<Rightarrow> ctx \<Rightarrow> bool" where
  "egl_only c c' \<longleftrightarrow> (\<exists>t st. c' = c\<lparr>tick := t, egl := st\<rparr>)"

lemma egl_onlyI: "c' = c\<lparr>tick := t, egl := st\<rparr> \<Longrightarrow> egl_only c c'"
  unfolding egl_only_def by blast

lemma egl_only_refl [simp]: "egl_only c c"
  by (rule egl_onlyI[where t = "tick c" and st = "egl c"]) simp

lemma egl_only_trans: "egl_only a b \<Longrightarrow> egl_only b c \<Longrightarrow> egl_only a c"
  unfolding egl_only_def by (elim exE) (simp, blast)

lemma egl_only_set [simp]: "egl_only c (c\<lparr>egl := st\<rparr>)"
  by (rule egl_onlyI[where t = "tick c" and st = st]) simp

lemma egl_only_clock [simp]: "egl_only c (step_clock c)"
  unfolding step_clock_def by (rule egl_onlyI[where t = "Suc (tick c)" and st = "egl c"]) simp

definition img_post :: "gl_obj multiset \<Rightarrow> nat \<Rightarrow> attribs list \<Rightarrow> nat \<Rightarrow> ctx \<Rightarrow> nat \<Rightarrow> ctx \<Rightarrow> bool" where
  "img_post ex f tries inode c im c' \<longleftrightarrow> egl_only c c' \<and> same_thread (egl c) (egl c') \<and>
    gl_okx (some_obj GlImage im + ex) f (egl c') \<and>
    (im \<noteq> 0 \<longrightarrow> fst (gl_made (egl c') im) \<in> set tries \<and> snd (gl_made (egl c') im) = inode \<and> im < gl_next (egl c') \<and>
      gl_next (egl c) \<le> im)"

lemma img_post_weaken: "img_post ex f ts i c im c' \<Longrightarrow> set ts \<subseteq> set us \<Longrightarrow> img_post ex f us i c im c'"
  by (auto simp: img_post_def)

lemma img_post_retry:
  assumes "img_post ex f ts i c 0 c1" "img_post ex f us i c1 im c2"
  shows "img_post ex f us i c im c2"
proof -
  have "gl_next (egl c) \<le> gl_next (egl c1)" using assms(1) by (simp add: img_post_def same_thread_def keeps_def)
  then show ?thesis using assms egl_only_trans[of c c1 c2] same_thread_trans[of "egl c" "egl c1" "egl c2"]
    by (auto simp: img_post_def)
qed

lemma owned_upd [simp]: "owned (st\<lparr>gl_made := mk\<rparr>) = owned st" "owned (st\<lparr>e_next_evict := n\<rparr>) = owned st"
    "owned (st\<lparr>gl_linear := px\<rparr>) = owned st"
  by (simp_all add: owned_def base_objs_def)

lemma okx_upd [simp]: "gl_okx ex f (st\<lparr>gl_made := mk\<rparr>) = gl_okx ex f st"
    "gl_okx ex f (st\<lparr>e_next_evict := n\<rparr>) = gl_okx ex f st" "gl_okx ex f (st\<lparr>gl_linear := px\<rparr>) = gl_okx ex f st"
  by (simp_all add: gl_okx_def shape_ok_def)

lemma create_image_ok:
  assumes ok: "gl_okx ex f (egl c)" and run: "egl_create_image env attrs inode c = (im, c')"
  shows "img_post ex f [attrs] inode c im c'"
proof (cases "g_create_image (v_gl env (tick c)) attrs")
  case True
  obtain n st where gen: "gl_gen GlImage (egl c) = (n, st)" by fastforce
  note 1 = gen_ok[OF _ ctor_names(1) gen]
  have "live_ok (owned (egl c) + ex) f (egl c)" and sh: "shape_ok (egl c)" using ok by (simp_all add: gl_okx_def)
  from 1[OF this(1)] have 2: "live_ok (add_mset (GlImage n) (owned (egl c) + ex)) f st" "0 < n" "n = gl_next (egl c)"
      "gl_next st = Suc n" "gl_only (egl c) st" by blast+
  let ?st = "st\<lparr>gl_made := (gl_made st)(n := (attrs, inode))\<rparr>"
  have eq: "im = n" "c' = step_clock c\<lparr>egl := ?st\<rparr>"
    using run True gen by (auto simp: egl_create_image_def step_clock_def)
  have "egl_only c c'" unfolding eq(2) by (rule egl_only_trans[OF egl_only_clock egl_only_set])
  moreover have "live_ok (owned (egl c) + add_mset (GlImage n) ex) f st" by (rule live_ok_perm[OF 2(1)]) simp
  from gl_only_okx[OF 2(5) this sh] have "gl_okx (some_obj GlImage n + ex) f ?st" using 2(2) by (simp add: some_obj_def)
  moreover have "same_thread (egl c) ?st"
    using gl_only_same[OF 2(5)] 2(3,4) by (auto simp: same_thread_def keeps_def)
  ultimately show ?thesis using 2(3,4) by (simp add: img_post_def eq)
next
  case False
  then have "im = 0" "c' = step_clock c" using run by (simp_all add: egl_create_image_def)
  moreover have "egl (step_clock c) = egl c" by (simp add: step_clock_def)
  ultimately show ?thesis using ok by (simp add: img_post_def some_obj_def)
qed

lemma import_ok:
  assumes ok: "gl_okx ex f (egl c)"
    and run: "egl_import_dmabuf env fd w h stride fc m inode c = (im, c')"
  shows "img_post ex f (import_tries fd w h stride fc m (cfb2_num_planes c) (cfb2_offsets c) (cfb2_pitches c)) inode c im c'"
proof -
  let ?offs = "cfb2_offsets c" and ?planes = "cfb2_num_planes c"
  let ?ts = "import_tries fd w h stride fc m ?planes ?offs (cfb2_pitches c)"
  let ?a1 = "image_attribs fd w h stride fc m ?planes ?offs (cfb2_pitches c)"
  let ?a2 = "retry_attribs fd w h stride True m ?offs" and ?a3 = "retry_attribs fd w h stride False m ?offs"
  have zero: "img_post ex f ?ts inode c 0 c" using ok by (simp add: img_post_def some_obj_def)
  obtain i1 c1 where 1: "egl_create_image env ?a1 inode c = (i1, c1)" by fastforce
  obtain i2 c2 where 2: "egl_create_image env ?a2 inode c1 = (i2, c2)" by fastforce
  obtain i3 c3 where 3: "egl_create_image env ?a3 inode c2 = (i3, c3)" by fastforce
  note p1 = create_image_ok[OF ok 1]
  have w1: "img_post ex f ?ts inode c i1 c1" by (rule img_post_weaken[OF p1]) (simp add: import_tries_def)
  show ?thesis
  proof (cases "(im, c') = (0, c) \<or> (im, c') = (i1, c1)")
    case True
    then show ?thesis using zero w1 by auto
  next
    case False
    then have retry: "i1 = 0" "retry_safe ?planes fc" and run2: "(im, c') = (if i2 \<noteq> 0 \<or> m \<noteq> DRM_FORMAT_MOD_LINEAR then (i2, c2) else (i3, c3))"
      using run[unfolded egl_import_dmabuf_def Let_def 1 2 3 prod.case, symmetric] by (auto split: if_splits)
    have ok1: "gl_okx ex f (egl c1)" using p1 retry(1) by (simp add: img_post_def some_obj_def)
    note p2 = img_post_retry[OF p1[unfolded retry(1)] create_image_ok[OF ok1 2]]
    have w2: "img_post ex f ?ts inode c i2 c2" by (rule img_post_weaken[OF p2]) (simp add: import_tries_def retry)
    show ?thesis
    proof (cases "i2 \<noteq> 0 \<or> m \<noteq> DRM_FORMAT_MOD_LINEAR")
      case True
      then show ?thesis using run2 w2 by simp
    next
      case False
      then have i2: "i2 = 0" "m = DRM_FORMAT_MOD_LINEAR" by simp_all
      have ok2: "gl_okx ex f (egl c2)" using p2 i2(1) by (simp add: img_post_def some_obj_def)
      note p3 = img_post_retry[OF p2[unfolded i2(1)] create_image_ok[OF ok2 3]]
      have "img_post ex f ?ts inode c i3 c3" by (rule img_post_weaken[OF p3]) (simp add: import_tries_def retry i2)
      then show ?thesis using run2 False by simp
    qed
  qed
qed

lemma ext_texture_ok:
  assumes ok: "gl_okx ex f (egl c)" and run: "egl_make_external_texture env c = (r, t, c')"
  shows "egl_only c c' \<and> same_thread (egl c) (egl c') \<and> gl_made (egl c') = gl_made (egl c) \<and> r \<le> 0 \<and>
    (r = 0 \<longrightarrow> gl_okx (add_mset (GlTexture t) ex) f (egl c') \<and> 0 < t) \<and> (r \<noteq> 0 \<longrightarrow> gl_okx ex f (egl c'))"
proof -
  obtain n st where gen: "gl_gen GlTexture (egl c) = (n, st)" by fastforce
  have live: "live_ok (owned (egl c) + ex) f (egl c)" and sh: "shape_ok (egl c)" using ok by (simp_all add: gl_okx_def)
  note 1 = gen_ok[OF live ctor_names(2) gen]
  note 2 = delete_ok[OF conjunct1[OF 1]]
  have only: "gl_only (egl c) st" "gl_only (egl c) (gl_delete (GlTexture n) st)"
    "gl_next (egl c) \<le> gl_next st" "gl_next (egl c) \<le> gl_next (gl_delete (GlTexture n) st)"
    using 1 2 gl_only_trans by auto
  have e: "egl_only c (step_clock c\<lparr>egl := s\<rparr>)" for s by (rule egl_only_trans[OF egl_only_clock egl_only_set])
  have 3: "gl_okx (add_mset (GlTexture n) ex) f st" using gl_only_okx[OF only(1) _ sh, of "add_mset (GlTexture n) ex" f]
    live_ok_perm[OF conjunct1[OF 1]] by simp
  have 4: "gl_okx ex f (gl_delete (GlTexture n) st)" using gl_only_okx[OF only(2) _ sh, of ex f] 2 by simp
  have "(r, t, c') = (if g_bind_image (v_gl env (tick c)) then (0, n, step_clock c\<lparr>egl := st\<rparr>)
      else (- EIO, 0, step_clock c\<lparr>egl := gl_delete (GlTexture n) st\<rparr>))"
    using run gen by (auto simp: egl_make_external_texture_def step_clock_def Let_def)
  then show ?thesis
    using 1 3 4 e gl_only_same[OF only(1,3)] gl_only_same[OF only(2,4)] gl_only_D(8)[OF only(1)] gl_only_D(8)[OF only(2)]
    by (auto simp: errno_defs split: if_splits)
qed

end
