(* ===== verification/EglConvert.thy ===== *)
theory EglConvert
  imports EglOwn
begin

text \<open>
  The contract of the GPU conversion (egl_convert_impl, src/gpu_egl.c): the cache lookup, the
  adoption of a fresh import and the readback keep every GL object owned exactly once, the image
  sampled was made from the buffer the caller asked for, and the destination holds what was
  rendered - or, when the readback was skipped, pixels with the same block hashes.
\<close>

section \<open>Lookup and adoption\<close>

definition slots_only :: "egl_state \<Rightarrow> egl_state \<Rightarrow> bool" where
  "slots_only st st' \<longleftrightarrow> keeps st st' \<and> e_hash st' = e_hash st \<and> e_initialized st' = e_initialized st \<and>
    e_cache_disabled st' = e_cache_disabled st \<and> gl_linear st' = gl_linear st"

lemma slots_only_refl [simp]: "slots_only st st"
  by (simp add: slots_only_def)

lemma slots_only_trans: "slots_only a b \<Longrightarrow> slots_only b c \<Longrightarrow> slots_only a c"
  unfolding slots_only_def by (metis keeps_trans)

definition free_slot :: "nat option \<Rightarrow> egl_state \<Rightarrow> bool" where
  "free_slot free st \<longleftrightarrow> (\<forall>i. free = Some i \<longrightarrow> i < DRMTAP_EGL_IMAGE_SLOTS \<and> i_fb_id (e_slots st ! i) = 0)"

lemma lookup_ok:
  assumes "gl_okx ex f st" "\<forall>i \<in> set is. i < DRMTAP_EGL_IMAGE_SLOTS" "free_slot free st" "fb \<noteq> 0"
    and "egl_lookup own fb mt is free st = (slot, free', st')"
  shows "gl_okx ex f st' \<and> slots_only st st' \<and> free_slot free' st' \<and>
    (\<forall>i. slot = Some i \<longrightarrow> i < DRMTAP_EGL_IMAGE_SLOTS \<and> i_fb_id (e_slots st' ! i) = fb \<and>
      i_owner (e_slots st' ! i) = own \<and> mt (e_slots st' ! i))"
  using assms
proof (induction "is" arbitrary: free st)
  case (Cons i "is")
  let ?s = "e_slots st ! i" and ?free = "if free = None then Some i else free"
  have i: "i < DRMTAP_EGL_IMAGE_SLOTS" and rest: "\<forall>i \<in> set is. i < DRMTAP_EGL_IMAGE_SLOTS" using Cons.prems(2) by simp_all
  consider (empty) "i_fb_id ?s = 0" | (other) "i_fb_id ?s \<noteq> 0" "i_fb_id ?s \<noteq> fb \<or> i_owner ?s \<noteq> own"
    | (hit) "i_fb_id ?s = fb" "i_owner ?s = own" "mt ?s" | (stale) "i_fb_id ?s = fb" "i_owner ?s = own" "\<not> mt ?s"
    by blast
  then show ?case
  proof cases
    case empty
    then have "free_slot ?free st" using Cons.prems(3) i by (simp add: free_slot_def)
    from Cons.IH[OF Cons.prems(1) rest this Cons.prems(4)] empty Cons.prems(5) show ?thesis by (simp add: Let_def)
  next
    case other
    with Cons.IH[OF Cons.prems(1) rest Cons.prems(3,4)] Cons.prems(5) show ?thesis by (simp add: Let_def)
  next
    case hit
    then have "slot = Some i" "free' = free" "st' = st" using Cons.prems(4,5) by (simp_all add: Let_def)
    then show ?thesis using Cons.prems(1,3) hit i by simp
  next
    case stale
    let ?st = "egl_image_slot_release i st"
    note r = slot_release_ok[OF Cons.prems(1) i]
    have len: "length (e_slots st) = DRMTAP_EGL_IMAGE_SLOTS" using Cons.prems(1) by (simp add: gl_okx_def shape_ok_def)
    have step: "slots_only st ?st" using r by (simp add: slots_only_def)
    have fr: "free_slot ?free ?st" using Cons.prems(3) r i len
      by (auto simp: free_slot_def nth_list_update empty_image_slot_def)
    have run: "egl_lookup own fb mt is ?free ?st = (slot, free', st')"
      using Cons.prems(4,5) stale by (simp add: Let_def)
    from Cons.IH[OF conjunct1[OF r] rest fr Cons.prems(4) run] show ?thesis using step slots_only_trans by blast
  qed
qed simp

lemma victim_ok:
  assumes ok: "gl_okx ex f st" and free: "free_slot free st" and run: "egl_victim free st = (i, st')"
  shows "gl_okx ex f st' \<and> slots_only st st' \<and> i < DRMTAP_EGL_IMAGE_SLOTS \<and> slot_objs (e_slots st' ! i) = {#}"
proof (cases free)
  case (Some k)
  then have eq: "i = k" "st' = st" using run by (simp_all add: egl_victim_def)
  have k: "k < DRMTAP_EGL_IMAGE_SLOTS" "i_fb_id (e_slots st ! k) = 0" using free Some by (simp_all add: free_slot_def)
  then have "e_slots st ! k \<in> set (e_slots st)" using ok by (simp add: gl_okx_def shape_ok_def)
  then have "slot_objs (e_slots st ! k) = {#}" using ok k by (auto simp: gl_okx_def shape_ok_def)
  then show ?thesis using ok k eq by simp
next
  case None
  let ?i = "unat (e_next_evict st mod of_nat DRMTAP_EGL_IMAGE_SLOTS)" let ?st = "st\<lparr>e_next_evict := e_next_evict st + 1\<rparr>"
  have eq: "i = ?i" "st' = egl_image_slot_release ?i ?st" using run None by (auto simp: egl_victim_def Let_def)
  have i: "?i < DRMTAP_EGL_IMAGE_SLOTS" by (simp add: DRMTAP_EGL_IMAGE_SLOTS_def unat_mod)
  have "gl_okx ex f ?st" using ok by simp
  note r = slot_release_ok[OF this i]
  have len: "length (e_slots st) = DRMTAP_EGL_IMAGE_SLOTS" using ok by (simp add: gl_okx_def shape_ok_def)
  have "slots_only st ?st" by (auto simp: slots_only_def keeps_def)
  moreover have "slots_only ?st st'" using r by (simp add: slots_only_def eq)
  ultimately have "slots_only st st'" by (rule slots_only_trans)
  moreover have "slot_objs (e_slots st' ! i) = {#}" using r i len by (simp add: eq)
  ultimately show ?thesis using r i by (simp add: eq)
qed

lemma adopt_ok:
  assumes ok: "gl_okx (add_mset (GlTexture t) (some_obj GlImage im + ex)) f (egl c)" and prov: "prov (egl c)"
    and free: "free_slot free (egl c)" and fb: "fb \<noteq> 0" and im: "0 < im" "im < gl_next (egl c)" and t: "0 < t"
    and init: "e_initialized (egl c)"
    and made: "snd (gl_made (egl c) im) = inode" "fst (gl_made (egl c) im) \<in>
      set (import_tries fd w h stride fc m (cfb2_num_planes c) (cfb2_offsets c) (cfb2_pitches c))"
  shows "gl_okx ex f (egl (egl_adopt fb w h stride fc m inode im t free c)) \<and>
    prov (egl (egl_adopt fb w h stride fc m inode im t free c)) \<and>
    egl_only c (egl_adopt fb w h stride fc m inode im t free c) \<and>
    e_hash (egl (egl_adopt fb w h stride fc m inode im t free c)) = e_hash (egl c) \<and>
    e_initialized (egl (egl_adopt fb w h stride fc m inode im t free c)) \<and>
    gl_made (egl (egl_adopt fb w h stride fc m inode im t free c)) im = gl_made (egl c) im"
proof -
  let ?flight = "add_mset (GlTexture t) (some_obj GlImage im + ex)"
  obtain i st where v: "egl_victim free (egl c) = (i, st)" by fastforce
  note 1 = victim_ok[OF ok free v]
  let ?s = "\<lparr>i_owner = self c, i_fb_id = fb, i_width = w, i_height = h, i_stride = stride, i_fourcc = fc, i_modifier = m,
    i_num_planes = cfb2_num_planes c, i_offsets = cfb2_offsets c, i_pitches = cfb2_pitches c, i_buf_inode = inode,
    i_image = im, i_texture = t\<rparr>"
  let ?ss = "(e_slots st)[i := ?s]" let ?st = "st\<lparr>e_slots := ?ss\<rparr>"
  have eq: "egl_adopt fb w h stride fc m inode im t free c = c\<lparr>egl := ?st\<rparr>" by (simp add: egl_adopt_def v)
  have len: "i < length (e_slots st)" and sh: "shape_ok st" and live: "live_ok (owned st + ?flight) f st"
    using 1 by (simp_all add: gl_okx_def shape_ok_def)
  have i0: "e_initialized st" using 1 init by (simp add: slots_only_def)
  have "slot_objs (e_slots st ! i) = {#}" using 1 by blast
  then have "sum_list (map slot_objs ?ss) = sum_list (map slot_objs (e_slots st)) + slot_objs ?s"
    using sum_list_swap[OF len, of slot_objs ?s] by simp
  moreover have "slot_objs ?s = add_mset (GlTexture t) (some_obj GlImage im)" using t by (simp add: slot_objs_def some_obj_def)
  moreover have "base_objs ?st = base_objs st" by (simp add: base_objs_def)
  ultimately have "owned st + ?flight = owned ?st + ex" by (simp add: owned_def)
  from live_ok_perm[OF live this] have "live_ok (owned ?st + ex) f ?st" by (simp only: live_ok_upd)
  moreover have "shape_ok ?st" using sh i0 fb set_update_subset_insert[of "e_slots st" i ?s]
    by (auto simp: shape_ok_def)
  moreover have "prov ?st"
  proof -
    have "prov st" using prov_keeps[OF prov] 1 by (simp add: slots_only_def)
    moreover have k: "gl_made st im = gl_made (egl c) im" "gl_next (egl c) \<le> gl_next st"
      using 1 im(2) by (simp_all add: slots_only_def keeps_def)
    moreover have "made_for (gl_made st) ?s" unfolding made_for_def using made k(1) by auto
    ultimately show ?thesis using im set_update_subset_insert[of "e_slots st" i ?s]
      by (auto simp: prov_def)
  qed
  ultimately show ?thesis using 1 im(2) i0 by (simp add: eq gl_okx_def slots_only_def keeps_def)
qed

section \<open>The source of a conversion\<close>

definition source_post :: "nat \<Rightarrow> int \<Rightarrow> u32 \<Rightarrow> u32 \<Rightarrow> u32 \<Rightarrow> u32 \<Rightarrow> u64 \<Rightarrow> nat \<Rightarrow> ctx \<Rightarrow> (int + bool \<times> nat \<times> nat) \<times> ctx \<Rightarrow> bool" where
  "source_post f fd w h stride fc m inode c res \<longleftrightarrow>
    (case res of (src, c') \<Rightarrow> egl_only c c' \<and> prov (egl c') \<and> e_hash (egl c') = e_hash (egl c) \<and>
      e_initialized (egl c') \<and>
      (case src of
        Inl e \<Rightarrow> e < 0 \<and> gl_ok f (egl c')
      | Inr (cached, im, t) \<Rightarrow>
          gl_okx (if cached then {#} else {#GlTexture t, GlImage im#}) f (egl c') \<and>
          (snd (gl_made (egl c') im) = 0 \<or> inode = 0 \<or> snd (gl_made (egl c') im) = inode) \<and>
          (\<exists>fd. fst (gl_made (egl c') im) \<in>
            set (import_tries fd w h stride fc m (cfb2_num_planes c) (cfb2_offsets c) (cfb2_pitches c)))))"

lemma source_ok:
  assumes ok: "gl_ok f (egl c)" and prov: "prov (egl c)" and init: "e_initialized (egl c)"
  shows "source_post f fd w h stride fc m (buf_inode (v_gl env (tick c)) fd) c (egl_source env fd w h stride fc m fb c)"
proof -
  let ?c = "step_clock c" and ?inode = "buf_inode (v_gl env (tick c)) fd"
  let ?use = "fb \<noteq> 0 \<and> \<not> e_cache_disabled (egl ?c)"
  have e0: "egl ?c = egl c" "self ?c = self c" "cfb2_num_planes ?c = cfb2_num_planes c" "cfb2_offsets ?c = cfb2_offsets c"
    "cfb2_pitches ?c = cfb2_pitches c" by (simp_all add: step_clock_def)
  obtain slot free st where look: "(if ?use then egl_lookup (self ?c) fb (slot_matches ?c w h stride fc m ?inode)
      [0 ..< DRMTAP_EGL_IMAGE_SLOTS] None (egl ?c) else (None, None, egl ?c)) = (slot, free, st)"
    by (metis surj_pair)
  have L: "gl_okx {#} f st \<and> slots_only (egl c) st \<and> free_slot free st \<and>
    (\<forall>i. slot = Some i \<longrightarrow> ?use \<and> i < DRMTAP_EGL_IMAGE_SLOTS \<and> i_fb_id (e_slots st ! i) = fb \<and>
      slot_matches c w h stride fc m ?inode (e_slots st ! i))"
  proof (cases ?use)
    case True
    have run: "egl_lookup (self ?c) fb (slot_matches ?c w h stride fc m ?inode) [0 ..< DRMTAP_EGL_IMAGE_SLOTS] None (egl ?c)
      = (slot, free, st)" using look unfolding if_P[OF True] .
    have "slot_matches ?c w h stride fc m ?inode s = slot_matches c w h stride fc m ?inode s" for s
      by (simp add: slot_matches_def e0)
    then show ?thesis using lookup_ok[OF _ _ _ _ run, of "{#}" f] True ok by (simp add: gl_okx_none e0 free_slot_def)
  next
    case False
    have "slot = None" "free = None" "st = egl c" using look unfolding if_not_P[OF False] by (simp_all add: e0)
    then show ?thesis using ok by (simp add: gl_okx_none free_slot_def)
  qed
  have p1: "prov st" using L prov prov_keeps by (auto simp: slots_only_def)
  have i1: "e_initialized st" and h1: "e_hash st = e_hash (egl c)" using L init by (simp_all add: slots_only_def)
  let ?c1 = "?c\<lparr>egl := st\<rparr>"
  have only1: "egl_only c ?c1" by (rule egl_only_trans[OF egl_only_clock egl_only_set])
  have fields: "cfb2_num_planes ?c1 = cfb2_num_planes c" "cfb2_offsets ?c1 = cfb2_offsets c" "cfb2_pitches ?c1 = cfb2_pitches c"
    by (simp_all add: step_clock_def)
  note run = egl_source_def[of env fd w h stride fc m fb c, unfolded Let_def look prod.case]
  show ?thesis
  proof (cases slot)
    case (Some i)
    let ?s = "e_slots st ! i"
    have i: "i < DRMTAP_EGL_IMAGE_SLOTS" "i_fb_id ?s = fb" "fb \<noteq> 0" "slot_matches c w h stride fc m ?inode ?s" using L Some by auto
    have "?s \<in> set (e_slots st)" using i(1) L by (simp add: gl_okx_def shape_ok_def)
    then have "made_for (gl_made st) ?s" using p1 i(2,3) by (auto simp: prov_def)
    then have made: "snd (gl_made st (i_image ?s)) = i_buf_inode ?s" "\<exists>fd. fst (gl_made st (i_image ?s)) \<in>
        set (import_tries fd w h stride fc m (cfb2_num_planes c) (cfb2_offsets c) (cfb2_pitches c))"
      using i(4) by (auto simp: made_for_def slot_matches_def)
    have "i_buf_inode ?s = 0 \<or> ?inode = 0 \<or> i_buf_inode ?s = ?inode" using i(4) by (auto simp: slot_matches_def)
    moreover have "egl_source env fd w h stride fc m fb c = (Inr (True, i_image ?s, i_texture ?s), ?c1)"
      unfolding run Some option.case ..
    ultimately show ?thesis using only1 p1 i1 h1 L made by (auto simp: source_post_def)
  next
    case None
    note run1 = run[unfolded None option.case]
    have okst: "gl_okx {#} f (egl ?c1)" using L by simp
    show ?thesis
    proof (cases "fd < 0")
      case True
      have "egl_source env fd w h stride fc m fb c = (Inl (- EINVAL), ?c1)" unfolding run1 if_P[OF True] ..
      then show ?thesis using only1 p1 i1 h1 okst by (simp add: source_post_def gl_okx_none errno_defs)
    next
      case False
      note run2 = run1[unfolded if_not_P[OF False]]
      obtain im c2 where imp: "egl_import_dmabuf env fd w h stride fc m ?inode ?c1 = (im, c2)" by fastforce
      note I = import_ok[OF okst imp, unfolded img_post_def fields]
      have only2: "egl_only c c2" using only1 I egl_only_trans by blast
      have th2: "prov (egl c2)" "e_initialized (egl c2)" "e_hash (egl c2) = e_hash (egl c)"
        "e_slots (egl c2) = e_slots st"
        using I p1 i1 h1 prov_keeps[of st "egl c2"] by (auto simp: same_thread_def)
      note run3 = run2[unfolded imp prod.case]
      show ?thesis
      proof (cases "im = 0")
        case True
        have "egl_source env fd w h stride fc m fb c = (Inl (- EIO), c2)" unfolding run3 if_P[OF True] ..
        moreover have "gl_ok f (egl c2)" using I True by (simp add: some_obj_def gl_okx_none)
        ultimately show ?thesis using only2 th2 by (simp add: source_post_def errno_defs)
      next
        case im: False
        have I': "gl_okx {#GlImage im#} f (egl c2)" "fst (gl_made (egl c2) im) \<in> set (import_tries fd w h stride fc m
            (cfb2_num_planes c) (cfb2_offsets c) (cfb2_pitches c))" "snd (gl_made (egl c2) im) = ?inode" "im < gl_next (egl c2)"
          using I im by (simp_all add: some_obj_def)
        obtain r t c3 where tex: "egl_make_external_texture env c2 = (r, t, c3)" by (metis surj_pair)
        note T = ext_texture_ok[OF I'(1) tex]
        have only3: "egl_only c c3" using only2 T egl_only_trans by blast
        have th3: "prov (egl c3)" "e_initialized (egl c3)" "e_hash (egl c3) = e_hash (egl c)" "e_slots (egl c3) = e_slots st"
          "gl_made (egl c3) = gl_made (egl c2)" "gl_next (egl c2) \<le> gl_next (egl c3)"
          using T th2 prov_keeps[of "egl c2" "egl c3"] by (auto simp: same_thread_def keeps_def)
        note run4 = run3[unfolded if_not_P[OF im] tex prod.case]
        show ?thesis
        proof (cases "r = 0")
          case r0: False
          let ?st = "gl_delete (GlImage im) (egl c3)"
          have "gl_okx {#GlImage im#} f (egl c3)" using T r0 by blast
          then have "live_ok (add_mset (GlImage im) (owned (egl c3))) f (egl c3)" "shape_ok (egl c3)"
            by (simp_all add: gl_okx_def)
          note D = delete_ok[OF this(1)]
          have okd: "gl_ok f ?st" using gl_only_okx[of "egl c3" ?st "{#}" f] D \<open>shape_ok (egl c3)\<close> by (simp add: gl_okx_none)
          have same: "same_thread (egl c3) ?st" using gl_only_same D by simp
          then have "prov ?st" "e_hash ?st = e_hash (egl c)" "e_initialized ?st"
            using th3 prov_keeps[of "egl c3" ?st] by (auto simp: same_thread_def)
          moreover have "egl_source env fd w h stride fc m fb c = (Inl r, c3\<lparr>egl := ?st\<rparr>)"
            unfolding run4 using r0 by simp
          moreover have "r < 0" using T r0 by linarith
          ultimately show ?thesis using okd egl_only_trans[OF only3 egl_only_set] by (simp add: source_post_def)
        next
          case True
          have T': "gl_okx (add_mset (GlTexture t) {#GlImage im#}) f (egl c3)" "0 < t" using T True by blast+
          show ?thesis
          proof (cases ?use)
            case use: True
            let ?c4 = "egl_adopt fb w h stride fc m ?inode im t free c3"
            have f3: "free_slot free (egl c3)" using L th3(4) by (simp add: free_slot_def)
            have cfb: "cfb2_num_planes c3 = cfb2_num_planes c" "cfb2_offsets c3 = cfb2_offsets c" "cfb2_pitches c3 = cfb2_pitches c"
              using only3 by (auto simp: egl_only_def)
            have "gl_okx (add_mset (GlTexture t) (some_obj GlImage im + {#})) f (egl c3)" using T'(1) im by (simp add: some_obj_def)
            note A = adopt_ok[OF this th3(1) f3 _ _ _ T'(2) th3(2), of fb ?inode fd w h stride fc m]
            have A': "gl_okx {#} f (egl ?c4) \<and> prov (egl ?c4) \<and> egl_only c3 ?c4 \<and> e_hash (egl ?c4) = e_hash (egl c3) \<and>
                e_initialized (egl ?c4) \<and> gl_made (egl ?c4) im = gl_made (egl c3) im"
              using A use im I' th3 by (simp add: cfb)
            have "egl_source env fd w h stride fc m fb c = (Inr (True, im, t), ?c4)"
              unfolding run4 using True use by simp
            then show ?thesis using A' only3 th3 I'(2,3) egl_only_trans[OF only3, of ?c4]
              by (auto simp: source_post_def)
          next
            case nuse: False
            have "egl_source env fd w h stride fc m fb c = (Inr (False, im, t), c3)"
              unfolding run4 using True nuse by simp
            then show ?thesis using T' only3 th3 I'(2,3) by (auto simp: source_post_def)
          qed
        qed
      qed
    qed
  qed
qed

section \<open>Preparation\<close>

text \<open>What a skip compares: the reference of the last full convert.\<close>

definition hash_key :: "egl_hash \<Rightarrow> hash_cell list option \<times> nat \<times> u32 \<times> u32 \<times> u32 \<times> u64 \<times> obj option \<times> u32" where
  "hash_key h = (h_prev h, h_owner h, h_w h, h_h h, h_fourcc h, h_modifier h, h_out h, h_gen h)"

lemma gen_hash: "gl_gen k st = (n, st') \<Longrightarrow> e_hash st' = e_hash st"
  by (auto simp: gl_gen_def)

lemma delete_hash [simp]: "e_hash (gl_delete x st) = e_hash st" "e_hash (gl_drop k n st) = e_hash st"
  by (simp_all add: gl_delete_def gl_drop_def)

lemma compile_hash: "compile_shader g i st = (n, st') \<Longrightarrow> e_hash st' = e_hash st"
  by (auto simp: compile_shader_def gl_gen_def split: if_splits)

lemma program_hash: "create_program g v fr p st = (n, st') \<Longrightarrow> e_hash st' = e_hash st"
  by (auto simp: create_program_def Let_def split: prod.splits if_splits dest!: gen_hash compile_hash)

text \<open>What initialisation never changes: any view of the hash state blind to its set-up fields.\<close>

definition setup_blind :: "(egl_hash \<Rightarrow> 'a) \<Rightarrow> bool" where
  "setup_blind K \<longleftrightarrow> (\<forall>h x. K (h\<lparr>h_prog := x\<rparr>) = K h) \<and> (\<forall>h x. K (h\<lparr>h_fbo := x\<rparr>) = K h) \<and>
    (\<forall>h b. K (h\<lparr>h_on := b\<rparr>) = K h) \<and> (\<forall>h b. K (h\<lparr>h_es3 := b\<rparr>) = K h)"

lemma blind_views: "setup_blind hash_key" "setup_blind h_valid"
  by (simp_all add: setup_blind_def hash_key_def)

lemma setup_key: "setup_blind K \<Longrightarrow> K (e_hash (hash_setup g st)) = K (e_hash st)"
  by (auto simp: hash_setup_def setup_blind_def Let_def split: prod.split dest!: gen_hash program_hash)

lemma display_hash: "egl_display_for_ctx g path st = (d, st') \<Longrightarrow> e_hash st' = e_hash st"
  by (auto simp: egl_display_for_ctx_def Let_def split: option.splits if_splits)

lemma context_key: "setup_blind K \<Longrightarrow> egl_context g st = (n, st') \<Longrightarrow> K (e_hash st') = K (e_hash st)"
  by (auto simp: egl_context_def setup_blind_def Let_def split: if_splits dest!: gen_hash)

lemma init_key:
  assumes K: "setup_blind K" and run: "egl_init g path st = (r, st')"
  shows "K (e_hash st') = K (e_hash st)"
proof -
  obtain d st1 where dsp: "egl_display_for_ctx g path st = (d, st1)" by fastforce
  let ?st2 = "st1\<lparr>e_display := d, e_device_path := path\<rparr>"
  obtain cx st3 where cx: "egl_context g ?st2 = (cx, st3)" by fastforce
  obtain n st4 where prog: "create_program g 0 1 0 (st3\<lparr>e_context := cx\<rparr>) = (n, st4)" by fastforce
  let ?st6 = "if g_skip_unchanged g \<and> g_create_context g 3 then hash_setup g (st4\<lparr>e_program := n\<rparr>) else st4\<lparr>e_program := n\<rparr>"
  obtain st6 where st6: "?st6 = st6" by blast
  obtain fbo st7 where gen: "gl_gen GlFramebuffer st6 = (fbo, st7)" by fastforce
  have 1: "e_hash st1 = e_hash st" by (rule display_hash[OF dsp])
  have 3: "K (e_hash st3) = K (e_hash st)" using context_key[OF K cx] 1 by simp
  have 4: "e_hash st4 = e_hash st3" using program_hash[OF prog] by simp
  have 6: "K (e_hash st7) = K (e_hash st3)" using gen_hash[OF gen] setup_key[OF K] 4 by (auto simp: st6[symmetric])
  have "e_hash (snd (egl_init g path st)) \<in> {e_hash st, e_hash st1, e_hash st3, e_hash st4, e_hash st7}"
    unfolding egl_init_def dsp prod.case Let_def cx prog st6 gen by simp
  then have "e_hash st' \<in> {e_hash st, e_hash st1, e_hash st3, e_hash st4, e_hash st7}" unfolding run by simp
  then show ?thesis using 1 3 4 6 by auto
qed

lemma cleanup_hash: "e_initialized st \<Longrightarrow> e_hash (egl_cleanup st) = empty_hash"
  by (simp add: egl_cleanup_def hash_release_def Let_def)

lemma prepare_ok:
  assumes ok: "gl_ok f (egl c)" and prov: "prov (egl c)" and run: "egl_prepare env c = (r, c')"
  shows "egl_only c c' \<and> gl_ok f (egl c') \<and> prov (egl c') \<and> (r = 0 \<longrightarrow> e_initialized (egl c')) \<and> r \<le> 0 \<and>
    (hash_key (e_hash (egl c')) = hash_key (e_hash (egl c)) \<or> h_prev (e_hash (egl c')) = None) \<and>
    (\<not> h_valid (e_hash (egl c)) \<longrightarrow> \<not> h_valid (e_hash (egl c')))"
proof -
  let ?g = "v_gl env (tick c)" and ?c = "step_clock c"
  have e0: "egl ?c = egl c" "device_path ?c = device_path c" by (simp_all add: step_clock_def)
  let ?moved = "e_initialized (egl c) \<and> e_device_path (egl c) \<noteq> device_path c"
  obtain st where st: "st = (if ?moved then egl_cleanup (egl c) else egl c)" by blast
  have 1: "gl_ok f st" "prov st" "hash_key (e_hash st) = hash_key (e_hash (egl c)) \<or> h_prev (e_hash st) = None"
    "\<not> h_valid (e_hash (egl c)) \<longrightarrow> \<not> h_valid (e_hash st)"
    using cleanup_ok[OF ok prov] ok prov cleanup_hash[of "egl c"] by (auto simp: st empty_hash_def)
  obtain r2 st2 where init: "(if e_initialized st then (0, st) else egl_init ?g (device_path c) st) = (r2, st2)" by fastforce
  have 2: "gl_ok f st2 \<and> prov st2 \<and> (r2 = 0 \<longrightarrow> e_initialized st2) \<and> r2 \<le> 0 \<and>
      (hash_key (e_hash st2) = hash_key (e_hash (egl c)) \<or> h_prev (e_hash st2) = None) \<and>
      (\<not> h_valid (e_hash (egl c)) \<longrightarrow> \<not> h_valid (e_hash st2))"
  proof (cases "e_initialized st")
    case True
    then show ?thesis using init 1 by simp
  next
    case False
    then have i: "egl_init ?g (device_path c) st = (r2, st2)" using init by simp
    have "i_fb_id s = 0" if s: "s \<in> set (e_slots st)" for s
    proof (rule ccontr)
      assume "i_fb_id s \<noteq> 0"
      then have "0 < i_image s" using 1(2) s by (auto simp: prov_def)
      then have "slot_objs s \<noteq> {#}" by (simp add: slot_objs_def some_obj_def)
      then show False using 1(1) False s by (auto simp: gl_ok_def shape_ok_def)
    qed
    then have "prov st2" using egl_init_ok[OF 1(1) False i] by (auto simp: prov_def)
    moreover have "h_prev (e_hash st2) = h_prev (e_hash st)" using init_key[OF blind_views(1) i] by (simp add: hash_key_def)
    ultimately show ?thesis
      using egl_init_ok[OF 1(1) False i] init_key[OF blind_views(1) i] init_key[OF blind_views(2) i] 1(3,4) by auto
  qed
  have e: "egl_only c (?c\<lparr>egl := s\<rparr>)" for s by (rule egl_only_trans[OF egl_only_clock egl_only_set])
  have "(r, c') = (if r2 < 0 then (r2, ?c\<lparr>egl := st2\<rparr>) else if \<not> g_make_current ?g then (- EIO, ?c\<lparr>egl := st2\<rparr>) else (0, ?c\<lparr>egl := st2\<rparr>))"
    using run init unfolding egl_prepare_def Let_def e0 st[symmetric] by simp
  then show ?thesis using 2 e by (auto simp: errno_defs split: if_splits)
qed

section \<open>Reading back\<close>

lemma ensure_out_same:
  assumes "drmtap_ensure_out env n c = (0, Some p, c')" "p < next_obj c"
  shows "mem c' = mem c"
proof -
  let ?c1 = "c\<lparr>out_gen := out_gen c + 1\<rparr>"
  have n: "0 < n" "n \<le> DRMTAP_MAX_FB_BYTES"
    using assms(1) ensure_out_eqs(1)[of env c] ensure_out_eqs(2)[of n env c] by (auto simp: errno_defs not_le intro: ccontr)
  show ?thesis
  proof (cases "user_out c")
    case (Some dst)
    then show ?thesis using ensure_out_eqs(3)[OF n Some, of env] assms(1) by (auto simp: errno_defs split: if_splits)
  next
    case None
    obtain b2 b3 k3 c3 where b: "drmtap_ensure_buf env (deswizzle_buf c) (deswizzle_buf_size c) n ?c1 = (b2, b3, k3, c3)"
      by (metis surj_pair)
    from ensure_out_eqs(4)[OF n None b] assms(1)
    have e: "b2 = 0" "b3 = Some p" "mem c' = mem c3" by (auto split: if_splits)
    have nx: "next_obj (sys_free q w) = next_obj w" for q and w :: ctx by (simp add: sys_free_def split: option.split)
    have "c3 = ?c1"
      using b[unfolded drmtap_ensure_buf_def] e(1,2) n assms(2) nx[of "deswizzle_buf c" ?c1]
      by (auto simp: sys_malloc_def errno_defs split: if_splits option.splits)
    then show ?thesis using e(3) by simp
  qed
qed

text \<open>The reference is in step with the buffer it describes.\<close>

definition hash_sync :: "ctx \<Rightarrow> egl_hash \<Rightarrow> bool" where
  "hash_sync c h \<longleftrightarrow> (\<forall>cells. h_prev h = Some cells \<longrightarrow> cells \<noteq> [] \<longrightarrow> h_owner h = self c \<longrightarrow> h_gen h = out_gen c \<longrightarrow>
    (\<exists>p bs. h_out h = Some p \<and> mem c p = Some bs \<and> unat (h_w h) * unat (h_h h) * 4 \<le> length bs \<and>
      cells = hash_grid (take (unat (h_w h) * unat (h_h h) * 4) bs) (unat (h_w h)) (unat (h_h h))))"

lemma hash_sync_key:
  assumes "hash_key h' = hash_key h \<or> h_prev h' = None" "hash_sync c h"
    "self c' = self c" "out_gen c' = out_gen c" "mem c' = mem c"
  shows "hash_sync c' h'"
  using assms by (auto simp: hash_sync_def hash_key_def)

lemma hash_grid_nonempty:
  assumes "0 < w" "0 < h"
  shows "hash_grid img w h \<noteq> []"
proof -
  have "0 < blocks w" "0 < blocks h" using assms by (simp_all add: blocks_def HASH_BS_def)
  then have "(0, 0) \<in> set [(gx, gy). gy \<leftarrow> [0 ..< blocks h], gx \<leftarrow> [0 ..< blocks w]]" by (auto simp: image_iff Bex_def)
  then show ?thesis unfolding hash_grid_def by fastforce
qed

lemma five_way:
  "(if \<not> p then (False, a) else if \<not> q then (False, b') else if \<not> r then (False, c) else if s then (True, d) else (False, e)) = (b, x)
    \<Longrightarrow> (b \<and> s \<and> x = d) \<or> (\<not> b \<and> x \<in> {a, b', c, e})"
  by (auto split: if_splits)

lemma hash_target_shape:
  assumes run: "hash_target g gw gh st = (b, st')"
  shows "\<exists>tx w' h'. e_hash st' = (e_hash st)\<lparr>h_tex := tx, h_gw := w', h_gh := h'\<rparr> \<and> gl_linear st' = gl_linear st"
proof (cases "h_gw (e_hash st) = gw \<and> h_gh (e_hash st) = gh")
  case True
  then have "st' = st" using run by (simp add: hash_target_def Let_def)
  then have "e_hash st' = (e_hash st)\<lparr>h_tex := h_tex (e_hash st), h_gw := h_gw (e_hash st), h_gh := h_gh (e_hash st)\<rparr> \<and>
      gl_linear st' = gl_linear st" by simp
  then show ?thesis by blast
next
  case False
  let ?h = "e_hash st"
  obtain n st1 where n: "(if h_tex ?h = 0 then gl_gen GlTexture st else (h_tex ?h, st)) = (n, st1)" by fastforce
  have l: "gl_linear st1 = gl_linear st" using n by (auto simp: gl_gen_def split: if_splits)
  have run': "(b, st') = (if g_target_ok g then (True, st1\<lparr>e_hash := ?h\<lparr>h_tex := n, h_gw := gw, h_gh := gh\<rparr>\<rparr>)
      else (False, st1\<lparr>e_hash := ?h\<lparr>h_tex := n\<rparr>\<rparr>))"
    using run[unfolded hash_target_def Let_def if_not_P[OF False] n prod.case, symmetric] .
  have "?h\<lparr>h_tex := n\<rparr> = ?h\<lparr>h_tex := n, h_gw := h_gw ?h, h_gh := h_gh ?h\<rparr>" by simp
  then have "e_hash st' \<in> {?h\<lparr>h_tex := n, h_gw := gw, h_gh := gh\<rparr>, ?h\<lparr>h_tex := n, h_gw := h_gw ?h, h_gh := h_gh ?h\<rparr>}"
    "gl_linear st' = gl_linear st" using run' l by (auto split: if_splits)
  then show ?thesis by (elim insertE emptyE) blast+
qed

lemma hash_check_facts:
  assumes run: "hash_check g wv own w h_px fc m out st = (b, st')" and dims: "0 < unat w" "0 < unat h_px"
    and valid: "\<not> h_valid (e_hash st)"
  shows "(b \<longrightarrow> wv \<and> h_owner (e_hash st) = own \<and> h_w (e_hash st) = w \<and> h_h (e_hash st) = h_px \<and> h_out (e_hash st) = out \<and>
      h_prev (e_hash st) = Some (hash_grid (gl_linear st) (unat w) (unat h_px)) \<and> hash_key (e_hash st') = hash_key (e_hash st)) \<and>
    (\<not> b \<longrightarrow> \<not> h_valid (e_hash st') \<and>
      (h_fresh (e_hash st') \<longrightarrow> h_cur (e_hash st') = Some (hash_grid (gl_linear st) (unat w) (unat h_px))))"
proof -
  let ?s0 = "st\<lparr>e_hash := (e_hash st)\<lparr>h_fresh := False\<rparr>\<rparr>"
  let ?gw = "(w + of_nat HASH_BS - 1) div of_nat HASH_BS :: u32" let ?gh = "(h_px + of_nat HASH_BS - 1) div of_nat HASH_BS :: u32"
  let ?grid = "hash_grid (gl_linear st) (unat w) (unat h_px)"
  show ?thesis
  proof (cases "\<not> h_on (e_hash ?s0) \<or> HASH_MAX_BYTES < unat ?gw * unat ?gh * 16")
    case True
    then have "b = False" "st' = ?s0" using hash_check_eqs(1)[of st w h_px g wv own fc m out] run by simp_all
    then show ?thesis using valid by simp
  next
    case False
    obtain b1 h1 where g: "hash_grow g (unat ?gw * unat ?gh * 16) (e_hash ?s0) = (b1, h1)" by fastforce
    obtain b2 s2 where t: "hash_target g ?gw ?gh (?s0\<lparr>e_hash := h1\<rparr>) = (b2, s2)" by fastforce
    have h1: "\<not> h_valid h1" "\<not> h_fresh h1" "h_prev h1 = h_prev (e_hash st) \<or> h_prev h1 = Some [] \<or> h_prev h1 = None"
      "h_owner h1 = h_owner (e_hash st)" "h_w h1 = h_w (e_hash st)" "h_h h1 = h_h (e_hash st)" "h_out h1 = h_out (e_hash st)"
      "h_fourcc h1 = h_fourcc (e_hash st)" "h_modifier h1 = h_modifier (e_hash st)" "h_gen h1 = h_gen (e_hash st)"
      using g valid by (auto simp: hash_grow_def split: if_splits)
    have s2: "gl_linear s2 = gl_linear st" "\<not> h_valid (e_hash s2)" "\<not> h_fresh (e_hash s2)" "hash_key (e_hash s2) = hash_key h1"
    proof -
      have "\<exists>tx w' h'. e_hash s2 = h1\<lparr>h_tex := tx, h_gw := w', h_gh := h'\<rparr> \<and> gl_linear s2 = gl_linear st"
        using hash_target_shape[OF t] by simp
      then show "gl_linear s2 = gl_linear st" "\<not> h_valid (e_hash s2)" "\<not> h_fresh (e_hash s2)" "hash_key (e_hash s2) = hash_key h1"
        using h1(1,2) by (auto simp: hash_key_def)
    qed
    let ?h2 = "(e_hash s2)\<lparr>h_cur := Some (hash_grid (gl_linear s2) (unat w) (unat h_px))\<rparr>"
    let ?same = "wv \<and> h_owner ?h2 = own \<and> h_w ?h2 = w \<and> h_h ?h2 = h_px \<and> h_fourcc ?h2 = fc \<and> h_modifier ?h2 = m \<and>
        h_out ?h2 = out \<and> h_cur ?h2 = h_prev ?h2"
    note eq = hash_check_eqs(2)[OF False g t refl refl, where wv = wv and own = own and fc = fc and m = m and out = out]
    have "(b \<and> ?same \<and> st' = s2\<lparr>e_hash := ?h2\<lparr>h_fresh := True, h_valid := True\<rparr>\<rparr>) \<or>
        (\<not> b \<and> st' \<in> {?s0\<lparr>e_hash := hash_fail h1\<rparr>, s2\<lparr>e_hash := hash_fail (e_hash s2)\<rparr>, s2\<lparr>e_hash := hash_fail ?h2\<rparr>,
          s2\<lparr>e_hash := ?h2\<lparr>h_fresh := True\<rparr>\<rparr>})"
      by (rule five_way[OF eq[symmetric, THEN trans, OF run]])
    then show ?thesis
    proof (elim disjE conjE)
      assume b: "b" and same: wv "h_owner ?h2 = own" "h_w ?h2 = w" "h_h ?h2 = h_px" "h_out ?h2 = out" "h_cur ?h2 = h_prev ?h2"
        and st': "st' = s2\<lparr>e_hash := ?h2\<lparr>h_fresh := True, h_valid := True\<rparr>\<rparr>"
      have key: "h_prev (e_hash s2) = h_prev h1" "h_owner (e_hash s2) = h_owner h1" "h_w (e_hash s2) = h_w h1"
        "h_h (e_hash s2) = h_h h1" "h_out (e_hash s2) = h_out h1" "h_fourcc (e_hash s2) = h_fourcc h1"
        "h_modifier (e_hash s2) = h_modifier h1" "h_gen (e_hash s2) = h_gen h1"
        using s2(4) by (simp_all add: hash_key_def)
      have "h_prev h1 = Some ?grid" using same(6) key(1) s2(1) by simp
      then have "h_prev (e_hash st) = Some ?grid" using h1(3) hash_grid_nonempty[OF dims, of "gl_linear st"] by auto
      then show ?thesis using b same key h1 st' \<open>h_prev h1 = Some ?grid\<close> by (simp add: hash_key_def)
    next
      assume "\<not> b" "st' \<in> {?s0\<lparr>e_hash := hash_fail h1\<rparr>, s2\<lparr>e_hash := hash_fail (e_hash s2)\<rparr>, s2\<lparr>e_hash := hash_fail ?h2\<rparr>,
          s2\<lparr>e_hash := ?h2\<lparr>h_fresh := True\<rparr>\<rparr>}"
      then show ?thesis using s2 h1(1,2) by (elim insertE emptyE) (simp_all add: hash_fail_def)
    qed
  qed
qed

text \<open>Steps that move the clock, the GL state and the output buffer only.\<close>

definition out_only :: "ctx \<Rightarrow> ctx \<Rightarrow> bool" where
  "out_only c c' \<longleftrightarrow> (\<exists>t st m p g b k. c' = c\<lparr>tick := t, egl := st, mem := m, next_obj := p, out_gen := g,
    deswizzle_buf := b, deswizzle_buf_size := k\<rparr>)"

lemma out_onlyI:
  "c' = c\<lparr>tick := t, egl := st, mem := m, next_obj := p, out_gen := g, deswizzle_buf := b, deswizzle_buf_size := k\<rparr> \<Longrightarrow> out_only c c'"
  unfolding out_only_def by blast

lemma out_only_trans: "out_only a b \<Longrightarrow> out_only b c \<Longrightarrow> out_only a c"
  unfolding out_only_def by (elim exE) (simp, blast)

lemma egl_out_only: "egl_only c c' \<Longrightarrow> out_only c c'"
  unfolding egl_only_def
  by (elim exE, rule out_onlyI[where m = "mem c" and p = "next_obj c" and g = "out_gen c" and b = "deswizzle_buf c"
    and k = "deswizzle_buf_size c"]) simp

lemma out_only_set [simp]: "out_only c (c\<lparr>egl := st\<rparr>)"
  by (rule egl_out_only[OF egl_only_set])

lemma out_only_mem [simp]: "out_only c (c\<lparr>mem := m\<rparr>)"
  by (rule out_onlyI[where t = "tick c" and st = "egl c" and p = "next_obj c" and g = "out_gen c" and b = "deswizzle_buf c"
    and k = "deswizzle_buf_size c"]) simp

lemma out_only_D:
  assumes "out_only c c'"
  shows "self c' = self c" "user_out c' = user_out c" "user_out_len c' = user_out_len c" "resources c' = resources c"
    "cur_hdr_eotf c' = cur_hdr_eotf c" "cur_hdr_max_nits c' = cur_hdr_max_nits c" "live_maps c' = live_maps c"
    "driver_name c' = driver_name c" "device_path c' = device_path c" "live_fds c' = live_fds c" "windows c' = windows c"
    "live_gems c' = live_gems c" "live_privs c' = live_privs c" "faults c' = faults c" "helper_fd c' = helper_fd c"
    "grab_plane_id c' = grab_plane_id c" "fast_slots c' = fast_slots c" "pixel_buf c' = pixel_buf c"
    "pixel_buf_size c' = pixel_buf_size c"
  using assms unfolding out_only_def by (auto simp: resources_def)

definition out_buf :: "ctx \<Rightarrow> obj option" where
  "out_buf c = (if user_out c = None then deswizzle_buf c else user_out c)"

lemma out_buf_upd [simp]: "out_buf (c\<lparr>mem := m\<rparr>) = out_buf c" "out_buf (c\<lparr>egl := st\<rparr>) = out_buf c"
  by (simp_all add: out_buf_def)

lemma egl_only_inv:
  assumes "egl_only c c'"
  shows "fresh_ok c' = fresh_ok c" "buf_inv c' = buf_inv c" "mem c' = mem c" "next_obj c' = next_obj c"
    "out_gen c' = out_gen c" "out_buf c' = out_buf c"
proof -
  obtain t st where c': "c' = c\<lparr>tick := t, egl := st\<rparr>" using assms unfolding egl_only_def by blast
  have "holds c' = holds c" by (intro ext) (simp add: c' holds_def)
  then show "buf_inv c' = buf_inv c" by (simp add: c' buf_inv_def)
  show "fresh_ok c' = fresh_ok c" "mem c' = mem c" "next_obj c' = next_obj c" "out_gen c' = out_gen c" "out_buf c' = out_buf c"
    by (simp_all add: c' fresh_ok_def out_buf_def)
qed

lemma overwrite_inv:
  fixes c :: ctx
  assumes "mem c p = Some bs" "length bs' = length bs"
  shows "fresh_ok (c\<lparr>mem := (mem c)(p \<mapsto> bs')\<rparr>) = fresh_ok c" "buf_inv (c\<lparr>mem := (mem c)(p \<mapsto> bs')\<rparr>) = buf_inv c"
    "holds (c\<lparr>mem := (mem c)(p \<mapsto> bs')\<rparr>) q n = holds c q n"
proof -
  show h: "holds (c\<lparr>mem := (mem c)(p \<mapsto> bs')\<rparr>) q n = holds c q n" for q n
    using assms by (simp add: holds_def)
  show "fresh_ok (c\<lparr>mem := (mem c)(p \<mapsto> bs')\<rparr>) = fresh_ok c" using assms(1) by (auto simp: fresh_ok_def)
  show "buf_inv (c\<lparr>mem := (mem c)(p \<mapsto> bs')\<rparr>) = buf_inv c" unfolding buf_inv_def h by simp
qed

lemma read_pixels_eq:
  assumes "mem c p = Some bs" "length (gl_linear (egl c)) \<le> length bs"
  shows "read_pixels (Some p) c = c\<lparr>mem := (mem c)(p \<mapsto> patch bs 0 (gl_linear (egl c)))\<rparr>"
  using assms by (simp add: read_pixels_def wr_in_bounds)

text \<open>What a successful conversion left in its destination.\<close>

definition pixels_in :: "ctx \<Rightarrow> obj \<Rightarrow> nat \<Rightarrow> nat \<Rightarrow> bool" where
  "pixels_in c p w h \<longleftrightarrow> (\<exists>bs. mem c p = Some bs \<and> w * h * 4 \<le> length bs \<and>
    (take (w * h * 4) bs = gl_linear (egl c) \<or>
     hash_grid (take (w * h * 4) bs) w h = hash_grid (gl_linear (egl c)) w h))"

text \<open>The contract of the readback; \<open>s\<close> says the hash reference was in step with the buffer.\<close>

definition rb_post ::
  "bool \<Rightarrow> gl_obj multiset \<Rightarrow> nat \<Rightarrow> u32 \<Rightarrow> u32 \<Rightarrow> ctx \<Rightarrow> (int \<times> (obj option \<times> nat) option) \<times> ctx \<Rightarrow> bool" where
  "rb_post s ex f w h c res \<longleftrightarrow> (case res of ((r, out), c') \<Rightarrow>
    gl_okx ex f (egl c') \<and> e_slots (egl c') = e_slots (egl c) \<and> gl_made (egl c') = gl_made (egl c) \<and>
    gl_linear (egl c') = gl_linear (egl c) \<and> e_initialized (egl c') = e_initialized (egl c) \<and>
    out_only c c' \<and> fresh_ok c' \<and> buf_inv c' \<and> frame_mem (out_buf c) c c' \<and>
    (s \<longrightarrow> h_valid (e_hash (egl c')) \<longrightarrow> hash_sync c' (e_hash (egl c'))) \<and>
    (r \<noteq> 0 \<longrightarrow> out = None \<and> r < 0) \<and>
    (r = 0 \<longrightarrow> (\<exists>p. out = Some (Some p, unat w * unat h * 4) \<and> out_buf c' = Some p \<and> p \<notin> live_maps c' \<and>
      holds c' p (unat w * unat h * 4) \<and> (s \<longrightarrow> pixels_in c' p (unat w) (unat h)))))"

lemma hash_only_okx:
  assumes "gl_okx ex f st" "hash_only st st'" "live_ok (hash_objs (e_hash st') + (rest_objs st + ex)) f st'" "e_initialized st"
  shows "gl_okx ex f st'"
proof -
  have "rest_objs st' = rest_objs st" using hash_only_D[OF assms(2)] by (simp add: rest_objs_def)
  then have "live_ok (owned st' + ex) f st'" using assms(3) by (simp add: owned_split add.assoc)
  moreover have "shape_ok st'" using assms(1,4) hash_only_D[OF assms(2)] by (simp add: gl_okx_def shape_ok_def)
  ultimately show ?thesis by (simp add: gl_okx_def)
qed

end
