(* ===== verification/GpuConvert.thy ===== *)
theory GpuConvert
  imports EglConvert
begin

text \<open>
  The contract of the whole GPU conversion (egl_convert_impl, src/gpu_egl.c), composed from
  preparation, source and readback, and the properties its callers rest on.
\<close>

section \<open>Reading back\<close>

lemma okx_live: "gl_okx ex f st \<Longrightarrow> live_ok (hash_objs (e_hash st) + (rest_objs st + ex)) f st"
  by (simp add: gl_okx_def owned_split add.assoc)

lemma hash_gen_set: "hash_key (h\<lparr>h_gen := g\<rparr>) = (case hash_key h of (a, b, c, d, e, m, i, _) \<Rightarrow> (a, b, c, d, e, m, i, g))"
  by (simp add: hash_key_def)

lemma okx_hash_set:
  "gl_okx ex f st \<Longrightarrow> hash_objs h = hash_objs (e_hash st) \<Longrightarrow> gl_okx ex f (st\<lparr>e_hash := h\<rparr>)"
  by (simp add: gl_okx_def owned_def base_objs_def shape_ok_def live_ok_def)

lemma frame_mem_overwrite:
  fixes a c :: ctx
  assumes "frame_mem b a c" "b = Some p \<or> next_obj a \<le> p"
  shows "frame_mem b a (c\<lparr>mem := (mem c)(p \<mapsto> bs)\<rparr>)"
  using assms by (auto simp: frame_mem_def)

lemma frame_mem_egl: "frame_mem b a (c\<lparr>egl := st\<rparr>) = frame_mem b a c" for c :: ctx
  by (simp add: frame_mem_def)

lemma readback_ok:
  assumes ok: "gl_okx ex f (egl c)" and init: "e_initialized (egl c)" and fr: "fresh_ok c" and inv: "buf_inv c"
    and sync: "s \<longrightarrow> wv \<longrightarrow> hash_sync c (e_hash (egl c))" and idle: "\<not> h_valid (e_hash (egl c))"
    and dims: "0 < unat w" "0 < unat h" and lin: "length (gl_linear (egl c)) = unat w * unat h * 4"
  shows "rb_post s ex f w h c (egl_readback env w h fc m wv c)"
proof -
  let ?g = "v_gl env (tick c)" and ?c = "step_clock c" and ?n = "unat w * unat h * 4"
  let ?hashing = "h_on (e_hash (egl ?c)) \<and> user_out ?c = None \<and> 1920 * 1080 \<le> unat w * unat h"
  let ?wv = "wv \<and> out_gen ?c = h_gen (e_hash (egl ?c))"
  have e0: "egl_only c ?c" "egl ?c = egl c" "user_out ?c = user_out c" "deswizzle_buf ?c = deswizzle_buf c"
    by (rule egl_only_clock) (simp_all add: step_clock_def)
  note inv0 = egl_only_inv[OF e0(1)]
  have okc: "gl_okx ex f (egl ?c)" "fresh_ok ?c" "buf_inv ?c" using ok fr inv by (simp_all add: e0(2) inv0)
  have fm0: "frame_mem (out_buf c) c ?c" by (simp add: frame_mem_def step_clock_def)
  note run = egl_readback_def[of env w h fc m wv c, unfolded Let_def]
  show ?thesis
  proof (cases "?hashing \<and> \<not> g_draw_ok ?g")
    case True
    have "egl_readback env w h fc m wv c = ((- EIO, None), ?c)" unfolding run if_P[OF True] ..
    then show ?thesis using okc idle fm0 egl_out_only[OF e0(1)] by (simp add: rb_post_def e0(2) errno_defs)
  next
    case False
    note run1 = run[unfolded if_not_P[OF False]]
    obtain r dst c1 where eo: "drmtap_ensure_out env ?n ?c = (r, dst, c1)" by (metis surj_pair)
    note E = ensure_out_ok[OF okc(2,3) eo]
    obtain t' m' p' g' b' k' where c1: "c1 = ?c\<lparr>tick := t', mem := m', next_obj := p', out_gen := g', deswizzle_buf := b', deswizzle_buf_size := k'\<rparr>"
      using E(10) by blast
    have only1: "out_only c c1" unfolding c1 step_clock_def
      by (rule out_onlyI[where t = t' and st = "egl c" and m = m' and p = p' and g = g' and b = b' and k = k']) simp
    have egl1: "egl c1 = egl c" "self c1 = self c" by (simp_all add: c1 step_clock_def)
    have fm1: "frame_mem (out_buf c) c c1"
      using E(4) fm0 inv0(3,4) by (auto simp: frame_mem_def out_buf_def e0 split: if_splits)
    note run2 = run1[unfolded eo prod.case]
    show ?thesis
    proof (cases "r = 0")
      case r: False
      have "egl_readback env w h fc m wv c = ((r, None), c1)" unfolding run2 using r by simp
      moreover have "r < 0" using E(9) r by (auto simp: errno_defs)
      ultimately show ?thesis using r ok only1 E(1,2) fm1 idle by (simp add: rb_post_def egl1)
    next
      case r: True
      have r0: "\<not> r \<noteq> 0" using r by simp
      obtain p where p: "dst = Some p" "holds c1 p ?n" "p \<notin> live_maps c1"
        "dst = (if user_out ?c = None then deswizzle_buf c1 else user_out ?c)"
        using E(7)[OF r] by blast
      have "out_buf c1 = dst" unfolding out_buf_def E(5) by (rule p(4)[symmetric])
      then have out1: "out_buf c1 = Some p" using p(1) by simp
      have pold: "out_buf c = Some p \<or> next_obj c \<le> p"
      proof (cases "user_out c")
        case None
        show ?thesis
        proof (rule ccontr)
          assume "\<not> ?thesis"
          then have n: "p < next_obj ?c" "deswizzle_buf c \<noteq> Some p" using None by (simp_all add: inv0 out_buf_def)
          have "0 < ?n" using dims by simp
          moreover have "?n \<le> DRMTAP_MAX_FB_BYTES" using eo r ensure_out_eqs(2)[of ?n env ?c] by (auto simp: errno_defs not_le intro: ccontr)
          moreover have "user_out ?c = None" using None e0 by simp
          moreover obtain b2 b3 k3 c3 where b: "drmtap_ensure_buf env (deswizzle_buf ?c) (deswizzle_buf_size ?c) ?n
              (?c\<lparr>out_gen := out_gen ?c + 1\<rparr>) = (b2, b3, k3, c3)" by (metis surj_pair)
          ultimately have "b3 = Some p" using ensure_out_eqs(4)[OF _ _ _ b] eo r p(1) by (auto split: if_splits)
          moreover have "fresh_ok (?c\<lparr>out_gen := out_gen ?c + 1\<rparr>)" using okc(2) by (simp add: fresh_ok_def)
          moreover have "\<forall>q. deswizzle_buf ?c = Some q \<longrightarrow> holds (?c\<lparr>out_gen := out_gen ?c + 1\<rparr>) q (deswizzle_buf_size ?c) \<and>
              q \<notin> live_maps (?c\<lparr>out_gen := out_gen ?c + 1\<rparr>)"
            using okc(3) by (simp add: buf_inv_def holds_def)
          ultimately have "deswizzle_buf ?c = Some p \<or> next_obj ?c \<le> p"
            using ensure_buf_ok(4)[OF _ _ b, of p] by simp
          then show False using n e0 by simp
        qed
      next
        case (Some d)
        then show ?thesis using out1 E(5) e0 by (simp add: out_buf_def)
      qed
      obtain bs where bs: "mem c1 p = Some bs" "?n \<le> length bs" using p(2) by (auto simp: holds_def split: option.splits)
      obtain skip st where chk: "(if ?hashing then hash_check ?g ?wv (self c1) w h fc m dst (egl c1) else (False, egl c1)) = (skip, st)"
        by fastforce
      have st: "gl_okx ex f st" "hash_only (egl c) st"
      proof -
        have "live_ok (hash_objs (e_hash st) + (rest_objs (egl c) + ex)) f st \<and> hash_only (egl c) st"
        proof (cases ?hashing)
          case True
          then have "hash_check ?g ?wv (self c1) w h fc m dst (egl c) = (skip, st)" using chk by (simp add: egl1)
          from hash_check_ok[OF okx_live[OF ok] this] show ?thesis .
        next
          case False
          then have "st = egl c" using chk unfolding if_not_P[OF False] by (simp add: egl1)
          then show ?thesis using okx_live[OF ok] by simp
        qed
        then show "hash_only (egl c) st" "gl_okx ex f st" using hash_only_okx[OF ok _ _ init] by blast+
      qed
      note H = hash_only_D[OF st(2)]
      have key: "gl_linear st = gl_linear (egl c)" "e_slots st = e_slots (egl c)" "gl_made st = gl_made (egl c)"
        "e_initialized st = e_initialized (egl c)" using H by simp_all
      have facts: "skip \<Longrightarrow> ?hashing \<and> ?wv \<and> h_owner (e_hash (egl c)) = self c \<and> h_w (e_hash (egl c)) = w \<and> h_h (e_hash (egl c)) = h \<and>
            h_out (e_hash (egl c)) = Some p \<and>
            h_prev (e_hash (egl c)) = Some (hash_grid (gl_linear (egl c)) (unat w) (unat h)) \<and>
            hash_key (e_hash st) = hash_key (e_hash (egl c))"
        "\<not> skip \<Longrightarrow> \<not> h_valid (e_hash st)"
        "\<not> skip \<Longrightarrow> ?hashing \<Longrightarrow> h_fresh (e_hash st) \<Longrightarrow> h_cur (e_hash st) = Some (hash_grid (gl_linear (egl c)) (unat w) (unat h))"
      proof -
        have "hash_check ?g ?wv (self c) w h fc m (Some p) (egl c) = (skip, st)" if hs: ?hashing
          using chk unfolding if_P[OF hs] egl1 p(1) .
        note F = hash_check_facts[OF this dims idle]
        have N: "\<not> skip \<and> st = egl c" if hs: "\<not> ?hashing" using chk unfolding if_not_P[OF hs] egl1 by simp
        show "skip \<Longrightarrow> ?hashing \<and> ?wv \<and> h_owner (e_hash (egl c)) = self c \<and> h_w (e_hash (egl c)) = w \<and> h_h (e_hash (egl c)) = h \<and>
            h_out (e_hash (egl c)) = Some p \<and>
            h_prev (e_hash (egl c)) = Some (hash_grid (gl_linear (egl c)) (unat w) (unat h)) \<and>
            hash_key (e_hash st) = hash_key (e_hash (egl c))" using F N by blast
        show "\<not> skip \<Longrightarrow> \<not> h_valid (e_hash st)" using F N idle by blast
        show "\<not> skip \<Longrightarrow> ?hashing \<Longrightarrow> h_fresh (e_hash st) \<Longrightarrow> h_cur (e_hash st) = Some (hash_grid (gl_linear (egl c)) (unat w) (unat h))"
          using F by blast
      qed
      note run3 = run2[unfolded if_not_P[OF r0] chk prod.case]
      show ?thesis
      proof (cases skip)
        case True
        note S = facts(1)[OF True]
        let ?st = "st\<lparr>e_hash := (e_hash st)\<lparr>h_gen := out_gen c1\<rparr>\<rparr>" let ?c2 = "c1\<lparr>egl := ?st\<rparr>"
        have res: "egl_readback env w h fc m wv c = ((0, Some (dst, ?n)), ?c2)" unfolding run3 if_P[OF True] ..
        have gen: "out_gen c = h_gen (e_hash (egl c))" using S e0(2) inv0(5) by simp
        have px: "pixels_in ?c2 p (unat w) (unat h) \<and> hash_sync ?c2 (e_hash ?st)" if s
        proof -
          obtain bs0 where old: "mem c p = Some bs0" "?n \<le> length bs0"
            "hash_grid (gl_linear (egl c)) (unat w) (unat h) = hash_grid (take ?n bs0) (unat w) (unat h)"
            using sync \<open>s\<close> S gen hash_grid_nonempty[OF dims, of "gl_linear (egl c)"] by (auto simp: hash_sync_def)
          have "p < next_obj ?c" using holds_lt[OF fr, of p ?n] old inv0(4) by (simp add: holds_def)
          then have m1: "mem c1 = mem c" using ensure_out_same[of env ?n ?c p c1] eo r p(1) inv0(3) by simp
          have "h_prev (e_hash ?st) = Some (hash_grid (gl_linear (egl c)) (unat w) (unat h)) \<and> h_out (e_hash ?st) = Some p \<and>
              h_w (e_hash ?st) = w \<and> h_h (e_hash ?st) = h" using S by (simp add: hash_key_def)
          then have "hash_sync ?c2 (e_hash ?st)" using old m1 by (simp add: hash_sync_def)
          moreover have "pixels_in ?c2 p (unat w) (unat h)" using old key(1) m1 by (simp add: pixels_in_def)
          ultimately show ?thesis by blast
        qed
        have hold: "holds ?c2 p ?n" using p(2) by (simp add: holds_def)
        have "gl_okx ex f ?st" using okx_hash_set[OF st(1), of "(e_hash st)\<lparr>h_gen := out_gen c1\<rparr>"] by simp
        moreover have "fresh_ok ?c2" "buf_inv ?c2" "out_buf ?c2 = out_buf c1"
          using E(1,2) egl_only_inv[OF egl_only_set[of c1 ?st]] by simp_all
        moreover have "frame_mem (out_buf c) c ?c2" using fm1 by (simp add: frame_mem_egl)
        moreover have "out_only c ?c2" by (rule out_only_trans[OF only1 out_only_set])
        ultimately show ?thesis using p(1,3) out1 px hold key unfolding res rb_post_def by simp
      next
        case False
        let ?lin = "gl_linear (egl c)" let ?bs = "patch bs 0 ?lin" let ?c1 = "c1\<lparr>egl := st\<rparr>"
        let ?c2 = "?c1\<lparr>mem := (mem c1)(p \<mapsto> ?bs)\<rparr>"
        have len: "length ?bs = length bs" using bs lin by simp
        have rp: "read_pixels dst ?c1 = ?c2" using read_pixels_eq[of ?c1 p bs] bs lin p(1) key(1) by simp
        have ow: "fresh_ok ?c2" "buf_inv ?c2"
          using overwrite_inv(1,2)[of ?c1 p bs ?bs] bs(1) len E(1,2) egl_only_inv[OF egl_only_set[of c1 st]] by simp_all
        have only2: "out_only c ?c2" by (rule out_only_trans[OF out_only_trans[OF only1 out_only_set] out_only_mem])
        have fm2: "frame_mem (out_buf c) c ?c2"
          using frame_mem_overwrite[of "out_buf c" c ?c1 p ?bs] fm1 pold by (simp add: frame_mem_egl)
        have tk: "take ?n ?bs = ?lin" using bs lin by (simp add: patch_def)
        have dst2: "out_buf ?c2 = Some p" "p \<notin> live_maps ?c2" using p(3) out1 by simp_all
        have px: "pixels_in ?c2 p (unat w) (unat h)" using tk bs(2) len key(1) by (simp add: pixels_in_def)
        have hold: "holds ?c2 p ?n" using bs(2) len by (simp add: holds_def)
        note run4 = run3[unfolded if_not_P[OF False] rp]
        have idle2: "\<not> h_valid (e_hash (egl ?c2))" using facts(2)[OF False] by simp
        have base: "gl_okx ex f (egl ?c2)" using st(1) by simp
        show ?thesis
        proof (cases "\<not> g_read_ok ?g \<or> \<not> ?hashing \<and> \<not> g_draw_ok ?g")
          case True
          have "egl_readback env w h fc m wv c = ((- EIO, None), ?c2)" unfolding run4 if_P[OF True] ..
          then show ?thesis using base ow only2 fm2 idle2 key by (simp add: rb_post_def errno_defs)
        next
          case read: False
          note run5 = run4[unfolded if_not_P[OF read]]
          show ?thesis
          proof (cases "?hashing \<and> h_on (e_hash st) \<and> h_fresh (e_hash st)")
            case True
            let ?h = "(hash_commit (self c) w h fc m (Some p) (e_hash st))\<lparr>h_gen := out_gen c1\<rparr>" let ?c3 = "?c2\<lparr>egl := st\<lparr>e_hash := ?h\<rparr>\<rparr>"
            have "egl_readback env w h fc m wv c = ((0, Some (dst, ?n)), ?c3)"
              unfolding run5 if_P[OF True] by (simp add: egl1 p(1))
            moreover have "gl_okx ex f (st\<lparr>e_hash := ?h\<rparr>)" by (rule okx_hash_set[OF st(1)]) simp
            moreover have "hash_sync ?c3 ?h"
              using facts(3)[OF False] True tk bs len by (simp add: hash_sync_def hash_commit_def)
            moreover have "fresh_ok ?c3" "buf_inv ?c3" "out_buf ?c3 = out_buf ?c2" using ow egl_only_inv[OF egl_only_set[of ?c2 "st\<lparr>e_hash := ?h\<rparr>"]] by simp_all
            moreover have "out_only c ?c3" by (rule out_only_trans[OF only2 out_only_set])
            moreover have "frame_mem (out_buf c) c ?c3" using fm2 by (simp only: frame_mem_egl)
            moreover have "pixels_in ?c3 p (unat w) (unat h)" "holds ?c3 p ?n" using px hold by (simp_all add: pixels_in_def holds_def)
            ultimately show ?thesis using p(1) dst2 key unfolding rb_post_def by simp
          next
            case no: False
            have "egl_readback env w h fc m wv c = ((0, Some (dst, ?n)), ?c2)" unfolding run5 if_not_P[OF no] ..
            then show ?thesis using base ow only2 fm2 idle2 key px hold dst2 p(1) by (simp add: rb_post_def)
          qed
        qed
      qed
    qed
  qed
qed

section \<open>The conversion\<close>

text \<open>
  The state a thread carries from frame to frame: every object owned once, every cached image made
  for its key.
\<close>

definition thread_ok :: "nat \<Rightarrow> ctx \<Rightarrow> bool" where
  "thread_ok f c \<longleftrightarrow> gl_ok f (egl c) \<and> prov (egl c)"

text \<open>The skip's reference, when there is one, describes the output buffer.\<close>

definition skip_sync :: "ctx \<Rightarrow> bool" where
  "skip_sync c \<longleftrightarrow> (h_valid (e_hash (egl c)) \<longrightarrow> hash_sync c (e_hash (egl c)))"

definition convert_post :: "nat \<Rightarrow> u32 \<Rightarrow> u32 \<Rightarrow> ctx \<Rightarrow> (int \<times> (obj option \<times> nat) option) \<times> ctx \<Rightarrow> bool" where
  "convert_post f w h c res \<longleftrightarrow> (case res of ((r, out), c') \<Rightarrow>
    thread_ok f c' \<and> out_only c c' \<and> fresh_ok c' \<and> buf_inv c' \<and> frame_mem (out_buf c) c c' \<and> (skip_sync c \<longrightarrow> skip_sync c') \<and>
    (r \<noteq> 0 \<longrightarrow> out = None \<and> r < 0) \<and>
    (r = 0 \<longrightarrow> (\<exists>p. out = Some (Some p, unat w * unat h * 4) \<and> out_buf c' = Some p \<and> p \<notin> live_maps c' \<and>
      holds c' p (unat w * unat h * 4) \<and> (skip_sync c \<longrightarrow> pixels_in c' p (unat w) (unat h)))))"

lemma prov_same:
  assumes "gl_okx ex f st" "prov st0" "e_slots st = e_slots st0" "gl_made st = gl_made st0"
  shows "prov st"
proof -
  have "i_image s < gl_next st" if s: "s \<in> set (e_slots st)" "0 < i_image s" for s
  proof -
    have "GlImage (i_image s) \<in># slot_objs s" using s(2) by (simp add: slot_objs_def some_obj_def)
    then have "GlImage (i_image s) \<in># sum_list (map slot_objs (e_slots st))"
      using s(1) by (induction "e_slots st") (auto simp: in_set_conv_decomp)
    then have "GlImage (i_image s) \<in># owned st + ex" by (simp add: owned_def)
    then have "GlImage (i_image s) \<in> gl_live st" using assms(1) by (metis gl_okx_def live_ok_def elem_mset_set)
    then show ?thesis using assms(1) by (force simp: gl_okx_def live_ok_def)
  qed
  then show ?thesis using assms(2-4) by (auto simp: prov_def)
qed

lemma draw_ok:
  assumes "gl_okx ex f (egl c)" "e_initialized (egl c)"
  shows "gl_okx ex f (egl (egl_draw env im w h c)) \<and> egl_only c (egl_draw env im w h c) \<and>
    e_slots (egl (egl_draw env im w h c)) = e_slots (egl c) \<and> e_hash (egl (egl_draw env im w h c)) = e_hash (egl c) \<and>
    e_initialized (egl (egl_draw env im w h c)) \<and> gl_made (egl (egl_draw env im w h c)) = gl_made (egl c) \<and>
    length (gl_linear (egl (egl_draw env im w h c))) = unat w * unat h * 4"
proof -
  have "gl_made (ensure_linear_texture w h st) = gl_made st" for st
    by (simp add: ensure_linear_texture_def gl_gen_def gl_drop_def gl_delete_def)
  then show ?thesis using linear_ok[OF assms, of w h] assms(2) by (simp add: egl_draw_def Let_def same_thread_def)
qed

lemma drop_in_flight:
  assumes "gl_okx {#GlTexture t, GlImage im#} f st"
  shows "gl_ok f (gl_delete (GlImage im) (gl_delete (GlTexture t) st)) \<and>
    e_slots (gl_delete (GlImage im) (gl_delete (GlTexture t) st)) = e_slots st \<and>
    gl_made (gl_delete (GlImage im) (gl_delete (GlTexture t) st)) = gl_made st \<and>
    gl_linear (gl_delete (GlImage im) (gl_delete (GlTexture t) st)) = gl_linear st"
proof -
  have "live_ok (add_mset (GlTexture t) (add_mset (GlImage im) (owned st))) f st" "shape_ok st"
    using assms by (simp_all add: gl_okx_def)
  note 1 = delete_ok[OF this(1)]
  note 2 = delete_ok[OF conjunct1[OF 1]]
  have only: "gl_only st (gl_delete (GlImage im) (gl_delete (GlTexture t) st))" using 1 2 gl_only_trans by blast
  from gl_only_okx[OF only _ \<open>shape_ok st\<close>, of "{#}" f] 2 gl_only_D[OF only] show ?thesis by (simp add: gl_okx_none)
qed

lemma convert_ok:
  assumes th: "thread_ok f c" and fr: "fresh_ok c" and inv: "buf_inv c"
  shows "convert_post f w h c (egl_convert_impl env fd w h stride fc m fb c)"
proof -
  let ?h = "(e_hash (egl c))\<lparr>h_valid := False, h_fresh := False\<rparr>"
  let ?c = "c\<lparr>egl := (egl c)\<lparr>e_hash := ?h\<rparr>\<rparr>"
  let ?dim = "drmtap_validate_fb_dims w h" and ?wv = "h_valid (e_hash (egl c))"
  have e0: "egl_only c ?c" by simp
  have th0: "gl_ok f (egl ?c)" "prov (egl ?c)" "\<not> h_valid (e_hash (egl ?c))" "hash_key (e_hash (egl ?c)) = hash_key (e_hash (egl c))"
    using th okx_hash_set[of "{#}" f "egl c" ?h] by (simp_all add: thread_ok_def gl_okx_none prov_def hash_key_def)
  have fail: "convert_post f w h c ((r, None), c')"
    if "r < 0" "egl_only c c'" "gl_ok f (egl c')" "prov (egl c')" "\<not> h_valid (e_hash (egl c'))" for r c'
    using that fr inv egl_only_inv[OF that(2)] egl_out_only[OF that(2)]
    by (simp add: convert_post_def thread_ok_def skip_sync_def frame_mem_def)
  note run = egl_convert_impl_def[of env fd w h stride fc m fb c, unfolded Let_def]
  show ?thesis
  proof (cases "?dim = 0")
    case False
    have "?dim < 0" using False by (auto simp: drmtap_validate_fb_dims_def errno_defs split: if_splits)
    moreover have "egl_convert_impl env fd w h stride fc m fb c = ((?dim, None), ?c)" unfolding run using False by simp
    ultimately show ?thesis using fail[of ?dim ?c] th0 e0 by simp
  next
    case dim: True
    have dims: "0 < unat w" "0 < unat h" using dim by (auto simp: validate_dims_ok unat_gt_0)
    have d0: "\<not> ?dim \<noteq> 0" using dim by simp
    note run1 = run[unfolded if_not_P[OF d0]]
    obtain r c1 where prep: "egl_prepare env ?c = (r, c1)" by fastforce
    note P = prepare_ok[OF th0(1,2) prep]
    have only1: "egl_only c c1" using egl_only_trans[OF e0] P by blast
    note run2 = run1[unfolded prep prod.case]
    show ?thesis
    proof (cases "r < 0")
      case True
      have "egl_convert_impl env fd w h stride fc m fb c = ((r, None), c1)" unfolding run2 if_P[OF True] ..
      then show ?thesis using fail[OF True only1] P th0(3) by simp
    next
      case r: False
      have i1: "e_initialized (egl c1)" "gl_ok f (egl c1)" "prov (egl c1)" "\<not> h_valid (e_hash (egl c1))" using P r th0(3) by auto
      note run3 = run2[unfolded if_not_P[OF r]]
      obtain src c2 where src: "egl_source env fd w h stride fc m fb c1 = (src, c2)" by fastforce
      note S = source_ok[OF i1(2,3,1), of fd w h stride fc m env fb, unfolded src source_post_def prod.case]
      have only2: "egl_only c c2" using egl_only_trans[OF only1] S by blast
      note run4 = run3[unfolded src prod.case]
      show ?thesis
      proof (cases src)
        case (Inl e)
        have "egl_convert_impl env fd w h stride fc m fb c = ((e, None), c2)" unfolding run4 Inl by simp
        then show ?thesis using fail[OF _ only2, of e] S Inl i1(4) by simp
      next
        case (Inr x)
        obtain cached im t where x: "x = (cached, im, t)" by (metis surj_pair)
        let ?ex = "if cached then {#} else {#GlTexture t, GlImage im#}" let ?c3 = "egl_draw env im w h c2"
        have S': "gl_okx ?ex f (egl c2)" "prov (egl c2)" "e_hash (egl c2) = e_hash (egl c1)" "e_initialized (egl c2)"
          using S by (simp_all add: Inr x)
        note D = draw_ok[OF S'(1,4), of env im w h]
        have only3: "egl_only c ?c3" using egl_only_trans[OF only2] D by blast
        note inv3 = egl_only_inv[OF only3]
        have sync: "skip_sync c \<longrightarrow> ?wv \<longrightarrow> hash_sync ?c3 (e_hash (egl ?c3))"
        proof (intro impI)
          assume "skip_sync c" ?wv
          then have "hash_sync c (e_hash (egl c))" by (simp add: skip_sync_def)
          moreover have "hash_key (e_hash (egl ?c3)) = hash_key (e_hash (egl c)) \<or> h_prev (e_hash (egl ?c3)) = None"
            using D P S' th0(4) by simp
          moreover have "self ?c3 = self c" using out_only_D(1)[OF egl_out_only[OF only3]] .
          ultimately show "hash_sync ?c3 (e_hash (egl ?c3))" using hash_sync_key inv3 by blast
        qed
        have valid3: "\<not> h_valid (e_hash (egl ?c3))" using D S' i1(4) by simp
        obtain res c4 where rb: "egl_readback env w h fc m ?wv ?c3 = (res, c4)" by fastforce
        obtain rr out where res: "res = (rr, out)" by fastforce
        have fr3: "fresh_ok ?c3" "buf_inv ?c3" using fr inv inv3 by simp_all
        have R: "rb_post (skip_sync c) ?ex f w h ?c3 (egl_readback env w h fc m ?wv ?c3)"
          using D by (intro readback_ok[OF _ _ fr3 sync valid3 dims]) simp_all
        note R' = R[unfolded rb res rb_post_def prod.case]
        have out4: "out_only c c4" using out_only_trans[OF egl_out_only[OF only3]] R' by blast
        have fm4: "frame_mem (out_buf c) c c4" using R' inv3 by (simp add: frame_mem_def)
        let ?fin = "if cached then c4 else c4\<lparr>egl := gl_delete (GlImage im) (gl_delete (GlTexture t) (egl c4))\<rparr>"
        have run5: "egl_convert_impl env fd w h stride fc m fb c = (res, ?fin)" unfolding run4 Inr x by (simp add: rb)
        have fin: "gl_ok f (egl ?fin)" "e_slots (egl ?fin) = e_slots (egl c2)" "gl_made (egl ?fin) = gl_made (egl c2)"
          "gl_linear (egl ?fin) = gl_linear (egl c4)" "e_hash (egl ?fin) = e_hash (egl c4)"
          using R' D drop_in_flight[of t im f "egl c4"] by (auto simp: gl_okx_none)
        have "prov (egl ?fin)" by (rule prov_same[OF _ S'(2) fin(2,3)]) (use fin(1) in \<open>simp add: gl_okx_none[symmetric]\<close>)
        have same: "mem ?fin = mem c4" "out_gen ?fin = out_gen c4" "self ?fin = self c4" "live_maps ?fin = live_maps c4"
          "out_buf ?fin = out_buf c4" "next_obj ?fin = next_obj c4" by simp_all
        have e4: "egl_only c4 ?fin" by simp
        have "out_only c ?fin" by (rule out_only_trans[OF out4 egl_out_only[OF e4]])
        moreover have "fresh_ok ?fin" "buf_inv ?fin" using R' egl_only_inv[OF e4] by simp_all
        moreover have "frame_mem (out_buf c) c ?fin" using fm4 unfolding frame_mem_def same by blast
        moreover have syncR: "skip_sync c \<longrightarrow> h_valid (e_hash (egl c4)) \<longrightarrow> hash_sync c4 (e_hash (egl c4))" using R' by blast
        have fs: "hash_sync c4 (e_hash (egl c4)) \<longrightarrow> hash_sync ?fin (e_hash (egl ?fin))"
          by (intro impI hash_sync_key[OF _ _ same(3,2,1)]) (simp_all only: fin(5) simp_thms)
        have "skip_sync c \<longrightarrow> skip_sync ?fin"
          unfolding skip_sync_def[of ?fin] using syncR fs by (simp only: fin(5)) blast
        moreover have "holds ?fin p n = holds c4 p n" "pixels_in ?fin p a b = pixels_in c4 p a b" for p n a b
          using same(1) fin(4) by (simp_all only: holds_def pixels_in_def)
        ultimately show ?thesis unfolding run5 res convert_post_def prod.case thread_ok_def same
          using R' fin(1) \<open>prov (egl ?fin)\<close> by simp
      qed
    qed
  qed
qed

section \<open>Properties\<close>

lemma sum_list_nothing [simp]: "sum_list (replicate n {#}) = {#}"
  by (induction n) simp_all

lemma wit_thread: "thread_ok 0 wit_ctx" "buf_inv wit_ctx" "skip_sync wit_ctx"
  by (auto simp: thread_ok_def gl_ok_def live_ok_def owned_def base_objs_def hash_objs_def some_obj_def shape_ok_def
    slot_objs_def prov_def wit_ctx_def empty_egl_def empty_image_slot_def empty_hash_def buf_inv_def
    skip_sync_def)

lemma wit_gl_ok: "gl_ok 0 (egl wit_ctx)" "prov (egl wit_ctx)"
  using wit_thread(1) by (simp_all add: thread_ok_def)

lemma wit_gl_of [simp]: "v_gl wit_env t = wit_gl"
  by (simp add: wit_env_def)

lemma wit_create: "fst (egl_create_image wit_env a i c) = gl_next (egl c)"
  by (simp add: egl_create_image_def wit_gl_def gl_gen_def step_clock_def Let_def)

lemma wit_import:
  assumes "gl_okx ex f (egl c)" "cfb2_num_planes c = 0" "cfb2_offsets c = [0, 0, 0, 0]" "cfb2_pitches c = [0, 0, 0, 0]"
  shows "fst (egl_import_dmabuf wit_env 3 8 2 32 DRM_FORMAT_XRGB8888 0 7 c) = gl_next (egl c)"
proof -
  obtain im c1 where c: "egl_create_image wit_env (image_attribs 3 8 2 32 DRM_FORMAT_XRGB8888 0 0 [0, 0, 0, 0] [0, 0, 0, 0]) 7 c = (im, c1)"
    by fastforce
  then have "im = gl_next (egl c)" using wit_create by (metis fst_conv)
  then show ?thesis using c assms by (simp add: egl_import_dmabuf_def Let_def EGLINT_MAX_def gl_okx_def live_ok_def)
qed

text \<open>
  C10. A GPU conversion leaks nothing and delivers what it rendered. From a thread that owns every
  live EGL and GL object exactly once, egl_convert_impl - whatever the driver, the allocator and
  the environment answer, at every early return - ends in such a thread, deletes nothing twice
  (the count f of bad deletions stays), keeps the cached images tied to their keys, and touches
  nothing else than the clock and the output buffer; a failure hands out nothing. On success the
  destination is the caller's buffer or the context's, has room for width*height*4 bytes, and
  holds the rendered image, or, when the readback was skipped, an image with the same hash in
  every 32 by 32 block. Cleaning the thread up afterwards leaves no object alive.
\<close>

theorem gpu_convert_contract:
  assumes "thread_ok f c" "fresh_ok c" "buf_inv c"
  shows "convert_post f w h c (egl_convert_impl env fd w h stride fourcc modifier fb c) \<and>
    (let c' = snd (egl_convert_impl env fd w h stride fourcc modifier fb c) in
     e_initialized (egl c') \<longrightarrow> gl_live (egl_cleanup (egl c')) = {})"
proof -
  obtain r out c' where res: "egl_convert_impl env fd w h stride fourcc modifier fb c = ((r, out), c')" by (metis surj_pair)
  have post: "convert_post f w h c ((r, out), c')" using convert_ok[OF assms, of w h env fd stride fourcc modifier fb] by (simp only: res)
  then have "thread_ok f c'" by (simp add: convert_post_def)
  then show ?thesis using post cleanup_ok[of f "egl c'"] by (simp add: res thread_ok_def Let_def)
qed

theorem gpu_convert_contract_witness:
  "convert_post 0 8 2 wit_ctx (egl_convert_impl wit_env 3 8 2 32 DRM_FORMAT_XRGB8888 0 2 wit_ctx)"
  using gpu_convert_contract[OF wit_thread(1) wit_ctx_fresh wit_thread(2), of 8 2 wit_env 3 32 DRM_FORMAT_XRGB8888 0 2] by blast

text \<open>A thread whose context exists and has converted nothing yet.\<close>

definition wit_egl :: egl_state where
  "wit_egl = empty_egl\<lparr>e_initialized := True, e_context := 1, gl_live := {GlContext 1}, gl_next := 2\<rparr>"

lemma wit_egl_ok: "gl_ok 0 wit_egl" "prov wit_egl"
  by (auto simp: gl_ok_def live_ok_def owned_def base_objs_def hash_objs_def some_obj_def shape_ok_def slot_objs_def
    prov_def wit_egl_def empty_egl_def empty_image_slot_def empty_hash_def)

lemma wit_source: "\<exists>x. fst (egl_source wit_env 3 8 2 32 DRM_FORMAT_XRGB8888 0 0 (wit_ctx\<lparr>egl := wit_egl\<rparr>)) = Inr x"
proof -
  let ?c = "step_clock (wit_ctx\<lparr>egl := wit_egl\<rparr>)"
  obtain im c1 where i: "egl_import_dmabuf wit_env 3 8 2 32 DRM_FORMAT_XRGB8888 0 7 ?c = (im, c1)" by fastforce
  have "egl ?c = wit_egl" "cfb2_num_planes ?c = 0" "cfb2_offsets ?c = [0, 0, 0, 0]" "cfb2_pitches ?c = [0, 0, 0, 0]"
    by (simp_all add: step_clock_def wit_ctx_def)
  then have "im = 2" using wit_import[of "{#}" 0 ?c] wit_egl_ok(1) i by (simp add: gl_okx_none wit_egl_def)
  then show ?thesis using i
    by (simp add: egl_source_def Let_def buf_inode_def wit_gl_def egl_make_external_texture_def gl_gen_def exI[of _ False])
qed

text \<open>
  C12. The cache never serves a stale buffer. The image a conversion samples was created by the
  driver from attributes that state exactly this call's geometry, format, modifier and planes
  (or one of the import's permitted retries of them), for a DMA-BUF whose inode is the one of
  the descriptor given now whenever both are known - also when KMS recycled the fb_id onto a new
  buffer with identical geometry.
\<close>

theorem gpu_convert_source:
  assumes "thread_ok f c" "e_initialized (egl c)"
    and "egl_source env fd w h stride fourcc m fb c = (Inr (cached, im, t), c')"
  shows "(snd (gl_made (egl c') im) = 0 \<or> buf_inode (v_gl env (tick c)) fd = 0 \<or>
      snd (gl_made (egl c') im) = buf_inode (v_gl env (tick c)) fd) \<and>
    (\<exists>fd. fst (gl_made (egl c') im) \<in>
      set (import_tries fd w h stride fourcc m (cfb2_num_planes c) (cfb2_offsets c) (cfb2_pitches c)))"
proof -
  have "gl_ok f (egl c)" "prov (egl c)" using assms(1) by (simp_all add: thread_ok_def)
  from source_ok[OF this assms(2), of fd w h stride fourcc m env fb] show ?thesis
    unfolding assms(3) source_post_def by simp
qed

theorem gpu_convert_source_witness:
  "\<exists>src c2. egl_source wit_env 3 8 2 32 DRM_FORMAT_XRGB8888 0 0 (wit_ctx\<lparr>egl := wit_egl\<rparr>) = (Inr src, c2) \<and>
    snd (gl_made (egl c2) (fst (snd src))) \<in> {0, 7}"
proof -
  let ?c = "wit_ctx\<lparr>egl := wit_egl\<rparr>"
  obtain src c2 where s: "egl_source wit_env 3 8 2 32 DRM_FORMAT_XRGB8888 0 0 ?c = (src, c2)" by fastforce
  have g: "gl_ok 0 (egl ?c)" "prov (egl ?c)" "e_initialized (egl ?c)" using wit_egl_ok by (simp_all add: wit_egl_def)
  obtain x where "src = Inr x" using wit_source s by fastforce
  then obtain cached im t where x: "src = Inr (cached, im, t)" by (metis surj_pair)
  have "thread_ok 0 ?c" using g by (simp add: thread_ok_def)
  from gpu_convert_source[OF this g(3) s[unfolded x]] have "snd (gl_made (egl c2) im) \<in> {0, 7}"
    by (auto simp: buf_inode_def wit_gl_def)
  then show ?thesis using s x by auto
qed

lemma find_attr: "map_of (xs @ ys) k = (case map_of xs k of None \<Rightarrow> map_of ys k | v \<Rightarrow> v)"
  by (simp add: map_add_def split: option.split)



end
