(* ===== verification/Process.thy ===== *)
theory Process
  imports GpuConvert Tonemap
begin

text \<open>
  From a captured buffer to pixels a caller can read (gpu_auto_process and
  reduce_linear_to_xrgb8888, src/drm_grab.c; the backends of src/gpu_intel.c, gpu_amd.c,
  gpu_nvidia.c and gpu_generic.c): linear scanouts handed through or reduced to 8 bits, tiled
  ones detiled on the GPU or decoded on the CPU, everything else refused. A conversion that
  would leave its buffers is a fault.
\<close>

section \<open>The backends\<close>

definition drmtap_gpu_intel_match :: "string \<Rightarrow> bool" where
  "drmtap_gpu_intel_match driver \<longleftrightarrow> driver = ''i915'' \<or> driver = ''xe''"

definition drmtap_gpu_amd_match :: "string \<Rightarrow> bool" where
  "drmtap_gpu_amd_match driver \<longleftrightarrow> driver = ''amdgpu'' \<or> driver = ''radeon''"

definition drmtap_gpu_nvidia_match :: "string \<Rightarrow> bool" where
  "drmtap_gpu_nvidia_match driver \<longleftrightarrow> driver = ''nvidia-drm'' \<or> driver = ''nvidia'' \<or> driver = ''nouveau''"

definition drmtap_gpu_generic_match :: "string \<Rightarrow> bool" where
  "drmtap_gpu_generic_match driver \<longleftrightarrow> driver \<in> {''vkms'', ''vmwgfx'', ''vboxvideo'', ''virtio_gpu'', ''bochs-drm'',
    ''cirrus'', ''simpledrm'', ''qxl''}"

text \<open>A conversion on the process's memory.\<close>

definition run_conv :: "(heap \<Rightarrow> (int \<times> heap) option) \<Rightarrow> ctx \<Rightarrow> int \<times> ctx" where
  "run_conv conv c =
    (case conv (mem c) of None \<Rightarrow> (0, c\<lparr>faults := Suc (faults c)\<rparr>) | Some (r, m) \<Rightarrow> (r, c\<lparr>mem := m\<rparr>))"

text \<open>Decode into a temporary buffer, copy the result back over the source.\<close>

definition deswizzle_in_place ::
  "env \<Rightarrow> obj option \<Rightarrow> u32 \<Rightarrow> u32 \<Rightarrow> u32 \<Rightarrow> u64 \<Rightarrow> ctx \<Rightarrow> int \<times> ctx" where
  "deswizzle_in_place env data width height stride m c =
    (let sz = unat stride * unat height in
     case sys_malloc env sz c of
       (None, c1) \<Rightarrow> (- ENOMEM, c1)
     | (Some tmp, c1) \<Rightarrow>
         (case run_conv (drmtap_deswizzle data (Some tmp) width height stride stride m (of_nat sz)) c1 of (ret, c2) \<Rightarrow>
           let c3 = (if ret = 0 then snd (run_conv (\<lambda>hp. case data of None \<Rightarrow> None | Some p \<Rightarrow>
                 map_option (Pair 0) (memcpy hp p 0 tmp 0 sz)) c2) else c2) in
           (ret, sys_free (Some tmp) c3)))"

definition drmtap_gpu_intel_process ::
  "env \<Rightarrow> obj option \<Rightarrow> u32 \<Rightarrow> u32 \<Rightarrow> u32 \<Rightarrow> u64 \<Rightarrow> ctx \<Rightarrow> int \<times> ctx" where
  "drmtap_gpu_intel_process env data width height stride m c =
    (if m = 0 then (0, c)
     else if m = 0x0100000000000001 \<or> m = 0x0100000000000002 \<or> m = 0x0100000000000003
     then deswizzle_in_place env data width height stride m c
     else (- ENOTSUP, c))"

definition drmtap_gpu_amd_process ::
  "env \<Rightarrow> obj option \<Rightarrow> u32 \<Rightarrow> u32 \<Rightarrow> u32 \<Rightarrow> u64 \<Rightarrow> ctx \<Rightarrow> int \<times> ctx" where
  "drmtap_gpu_amd_process env data width height stride m c =
    (if m = 0 then (0, c)
     else if ucast (drop_bit 56 m) = (0x02 :: byte) then deswizzle_in_place env data width height stride m c
     else (0, c))"

definition drmtap_gpu_nvidia_process :: "u64 \<Rightarrow> int" where
  "drmtap_gpu_nvidia_process m =
    (if m = 0 then 0 else if ucast (drop_bit 56 m) = DRM_FORMAT_MOD_VENDOR_NVIDIA then - ENOTSUP else 0)"

definition drmtap_gpu_generic_process :: "u64 \<Rightarrow> int" where
  "drmtap_gpu_generic_process m = (if m \<noteq> 0 then - ENOTSUP else 0)"

section \<open>Reduction to 8 bits\<close>

definition DRMTAP_FMT_XR30 :: u32 where "DRMTAP_FMT_XR30 = 0x30335258"
definition DRMTAP_FMT_AR30 :: u32 where "DRMTAP_FMT_AR30 = 0x30335241"
definition DRMTAP_FMT_XB30 :: u32 where "DRMTAP_FMT_XB30 = 0x30334258"
definition DRMTAP_FMT_AB30 :: u32 where "DRMTAP_FMT_AB30 = 0x30334241"
definition DRMTAP_FMT_XR24 :: u32 where "DRMTAP_FMT_XR24 = 0x34325258"
definition DRMTAP_FMT_XR4H :: u32 where "DRMTAP_FMT_XR4H = 0x48345258"
definition DRMTAP_FMT_AR4H :: u32 where "DRMTAP_FMT_AR4H = 0x48345241"
definition DRMTAP_FMT_XB4H :: u32 where "DRMTAP_FMT_XB4H = 0x48344258"
definition DRMTAP_FMT_AB4H :: u32 where "DRMTAP_FMT_AB4H = 0x48344241"

definition is_ar30 :: "u32 \<Rightarrow> bool" where
  "is_ar30 fmt \<longleftrightarrow> fmt = DRMTAP_FMT_XR30 \<or> fmt = DRMTAP_FMT_AR30 \<or> fmt = DRMTAP_FMT_XB30 \<or> fmt = DRMTAP_FMT_AB30"

definition is_rgb16 :: "u32 \<Rightarrow> bool" where
  "is_rgb16 fmt \<longleftrightarrow> fmt = DRMTAP_FMT_XR48 \<or> fmt = DRMTAP_FMT_AR48 \<or> fmt = DRMTAP_FMT_XB48 \<or> fmt = DRMTAP_FMT_AB48"

definition is_rgb16f :: "u32 \<Rightarrow> bool" where
  "is_rgb16f fmt \<longleftrightarrow> fmt = DRMTAP_FMT_XR4H \<or> fmt = DRMTAP_FMT_AR4H \<or> fmt = DRMTAP_FMT_XB4H \<or> fmt = DRMTAP_FMT_AB4H"

text \<open>The 10-bit converter for the connector's transfer function.\<close>

definition ar30_conv ::
  "(rat \<Rightarrow> rat \<Rightarrow> rat) \<Rightarrow> u32 \<Rightarrow> u32 \<Rightarrow> obj option \<Rightarrow> obj option \<Rightarrow> u32 \<Rightarrow> u32 \<Rightarrow> u32 \<Rightarrow> u32 \<Rightarrow> u32 \<Rightarrow> heap
    \<Rightarrow> (int \<times> heap) option" where
  "ar30_conv pow eotf nits data out width height stride dst_stride fmt =
    (if eotf = DRMTAP_EOTF_PQ then drmtap_tonemap_hdr10 pow data out width height stride dst_stride fmt nits
     else drmtap_convert_format data out width height stride dst_stride fmt DRMTAP_FMT_XR24)"

definition reduce_conv ::
  "(rat \<Rightarrow> rat \<Rightarrow> rat) \<Rightarrow> u32 \<Rightarrow> u32 \<Rightarrow> obj option \<Rightarrow> obj option \<Rightarrow> drmtap_frame \<Rightarrow> heap \<Rightarrow> (int \<times> heap) option" where
  "reduce_conv pow eotf nits data out frame =
    (let fmt = f_format frame; w = f_width frame; h = f_height frame; stride = f_stride frame; dst_stride = w * 4 in
     if is_ar30 fmt then ar30_conv pow eotf nits data out w h stride dst_stride fmt
     else if is_rgb16 fmt then
       drmtap_convert_rgb16 pow data out w h stride dst_stride (fmt = DRMTAP_FMT_XB48 \<or> fmt = DRMTAP_FMT_AB48) eotf nits
     else drmtap_convert_rgb16f pow data out w h stride dst_stride (fmt = DRMTAP_FMT_XB4H \<or> fmt = DRMTAP_FMT_AB4H))"

definition reduce_linear_to_xrgb8888 ::
  "(rat \<Rightarrow> rat \<Rightarrow> rat) \<Rightarrow> env \<Rightarrow> obj option \<Rightarrow> drmtap_frame \<Rightarrow> ctx \<Rightarrow> int \<times> drmtap_frame \<times> ctx" where
  "reduce_linear_to_xrgb8888 pow env data frame c =
    (let fmt = f_format frame in
     if \<not> is_ar30 fmt \<and> \<not> is_rgb16 fmt \<and> \<not> is_rgb16f fmt then (0, frame, c)
     else case drmtap_ensure_out env (unat (f_width frame) * unat (f_height frame) * 4) c of (b, out, c1) \<Rightarrow>
       if b \<noteq> 0 then (b, frame, c1)
       else case run_conv (reduce_conv pow (cur_hdr_eotf c1) (cur_hdr_max_nits c1) data out frame) c1 of (ret, c2) \<Rightarrow>
         if ret \<noteq> 0 then (ret, frame, c2)
         else (1, frame\<lparr>f_data := out, f_format := DRMTAP_FMT_XR24, f_stride := f_width frame * 4\<rparr>, c2))"

section \<open>Detiling\<close>

text \<open>The GPU attempt: the answer when it settles the call, None when the CPU is to try.\<close>

definition egl_attempt :: "env \<Rightarrow> drmtap_frame \<Rightarrow> ctx \<Rightarrow> (int \<times> drmtap_frame) option \<times> ctx" where
  "egl_attempt env frame c0 =
    (case drmtap_gpu_egl_available env c0 of (_, c1) \<Rightarrow>
     case (if 0 \<le> f_dma_buf_fd frame then drmtap_gpu_egl_available env c1 else (False, c1)) of (go, c2) \<Rightarrow>
       if \<not> go then (None, c2)
       else case egl_convert_impl env (f_dma_buf_fd frame) (f_width frame) (f_height frame) (f_stride frame)
                   (f_format frame) (f_modifier frame) (f_fb_id frame) c2 of ((ret, out), c3) \<Rightarrow>
         case (ret = 0, out) of
           (True, Some (Some p, sz)) \<Rightarrow>
             (Some (0, frame\<lparr>f_data := Some p, f_format := DRM_FORMAT_XRGB8888, f_stride := f_width frame * 4\<rparr>), c3)
         | _ \<Rightarrow> if ret = - ENOSPC then (Some (ret, frame), c3) else (None, c3))"

definition cpu_detile ::
  "(rat \<Rightarrow> rat \<Rightarrow> rat) \<Rightarrow> env \<Rightarrow> obj option \<Rightarrow> drmtap_frame \<Rightarrow> ctx \<Rightarrow> int \<times> drmtap_frame \<times> ctx" where
  "cpu_detile pow env data frame c =
    (let w = f_width frame; h = f_height frame; stride = f_stride frame; fmt = f_format frame;
         sz = unat stride * unat h; driver = driver_name c in
     case drmtap_ensure_out env sz c of (bres, out, c1) \<Rightarrow>
       if bres \<noteq> 0 then (bres, frame, c1)
       else if drmtap_gpu_intel_match driver \<or> drmtap_gpu_nvidia_match driver \<or> drmtap_gpu_amd_match driver then
         (case run_conv (drmtap_deswizzle data out w h stride stride (f_modifier frame) (of_nat sz)) c1 of (ret, c2) \<Rightarrow>
           if ret \<noteq> 0 then (ret, frame, c2)
           else
             let frame = frame\<lparr>f_data := out\<rparr> in
             if is_ar30 fmt then
               (case run_conv (ar30_conv pow (cur_hdr_eotf c2) (cur_hdr_max_nits c2) out out w h stride stride fmt) c2 of
                 (conv, c3) \<Rightarrow> if conv \<noteq> 0 then (conv, frame, c3) else (0, frame\<lparr>f_format := DRMTAP_FMT_XR24\<rparr>, c3))
             else (0, frame, c2))
       else (- ENOTSUP, frame, c1))"

definition gpu_auto_process ::
  "(rat \<Rightarrow> rat \<Rightarrow> rat) \<Rightarrow> env \<Rightarrow> obj option \<Rightarrow> drmtap_frame \<Rightarrow> bool \<Rightarrow> ctx \<Rightarrow> int \<times> drmtap_frame \<times> ctx" where
  "gpu_auto_process pow env data frame force c0 =
    (let m = f_modifier frame in
     if data = None \<and> \<not> force \<and> f_dma_buf_fd frame < 0 then (0, frame, c0)
     else case (if m = DRM_FORMAT_MOD_LINEAR then (True, c0)
                else if m = DRM_FORMAT_MOD_INVALID
                then (case drmtap_gpu_egl_available env c0 of (a, c) \<Rightarrow> (\<not> a, c)) else (False, c0)) of (is_linear, c1) \<Rightarrow>
     case (if data \<noteq> None \<and> is_linear \<and> \<not> force then reduce_linear_to_xrgb8888 pow env data frame c1
           else (0, frame, c1)) of (red, frame, c2) \<Rightarrow>
       if red < 0 then (red, frame, c2)
       else if red = 1 \<or> is_linear \<and> \<not> force then (0, frame, c2)
       else case egl_attempt env frame c2 of
         (Some (ret, frame), c3) \<Rightarrow> (ret, frame, c3)
       | (None, c3) \<Rightarrow>
           if force \<or> data = None then (- ENOTSUP, frame, c3)
           else if m = DRM_FORMAT_MOD_INVALID then
             (case reduce_linear_to_xrgb8888 pow env data frame c3 of (red, frame, c4) \<Rightarrow>
               (if red < 0 then red else 0, frame, c4))
           else cpu_detile pow env data frame c3)"

end
