(* ===== verification/Grab.thy ===== *)
theory Grab
  imports Process Scanout HelperClient
begin

text \<open>
  A grab (src/drm_grab.c): find the plane, read its framebuffer, export it - here or through the
  helper - map it, process it, and hand out a frame that owns what it holds; and the release of
  such a frame. Every early return and every clean-up is a branch.
\<close>

section \<open>GEM handles and virtio\<close>

definition drmtap_gem_close :: "nat \<Rightarrow> ctx \<Rightarrow> ctx" where
  "drmtap_gem_close h c = (if h = 0 then c else gem_close h c)"

definition close_auxiliary_gem_handles :: "nat list \<Rightarrow> ctx \<Rightarrow> ctx" where
  "close_auxiliary_gem_handles hs c =
    fold (\<lambda>p c. let h = hs ! p in
      if h = 0 \<or> h = hs ! 0 then c
      else if h \<in> set (map (\<lambda>q. hs ! q) [1 ..< p]) then c else drmtap_gem_close h c) [1 ..< 4] c"

definition is_virtio_gpu :: "ctx \<Rightarrow> bool" where
  "is_virtio_gpu c \<longleftrightarrow> driver_name c = ''virtio_gpu''"

definition virtio_transfer_from_host :: "env \<Rightarrow> nat \<Rightarrow> u32 \<Rightarrow> u32 \<Rightarrow> ctx \<Rightarrow> int \<times> ctx" where
  "virtio_transfer_from_host env h width height c =
    (let e = v_transfer env (tick c) h width height; c1 = step_clock c in
     if e \<noteq> 0 then (- e, c1)
     else let e = v_wait env (tick c1) h; c2 = step_clock c1 in if e \<noteq> 0 then (- e, c2) else (0, c2))"

definition virtio_dumb_mmap :: "env \<Rightarrow> nat \<Rightarrow> nat \<Rightarrow> ctx \<Rightarrow> (int + obj) \<times> ctx" where
  "virtio_dumb_mmap env h n c =
    (case sys_map_dumb env h c of
      (None, c1) \<Rightarrow> (Inl EIO, c1)
    | (Some off, c1) \<Rightarrow> sys_mmap env (drm_fd c1) off n c1)"

section \<open>Releasing a frame\<close>

definition unmap_priv :: "frame_priv \<Rightarrow> ctx \<Rightarrow> ctx" where
  "unmap_priv p c =
    (case p_mapped p of
      None \<Rightarrow> c
    | Some q \<Rightarrow>
        if p_mapped_size p = 0 then c
        else if p_is_heap_buf p then sys_free (Some q) c
        else sys_munmap q (if p_sync_started p \<and> 0 \<le> p_prime_fd p then dmabuf_sync_end (p_prime_fd p) c else c))"

definition drmtap_frame_release :: "drmtap_frame \<Rightarrow> ctx \<Rightarrow> drmtap_frame \<times> ctx" where
  "drmtap_frame_release frame c0 =
    (zero_frame\<lparr>f_dma_buf_fd := - 1\<rparr>,
     case f_priv frame of
       None \<Rightarrow> c0
     | Some p \<Rightarrow>
         let c = unmap_priv p c0;
             c = (if 0 \<le> p_prime_fd p then sys_close (p_prime_fd p) c else c);
             c = (if 0 \<le> p_helper_drm_fd p then sys_close (p_helper_drm_fd p) c else c) in
         free_priv (drmtap_gem_close (p_gem_handle p) c))"

definition drmtap_frame_owns_data :: "drmtap_frame \<Rightarrow> bool" where
  "drmtap_frame_owns_data frame \<longleftrightarrow> f_data frame \<noteq> None \<and>
    (case f_priv frame of None \<Rightarrow> False | Some p \<Rightarrow> p_mapped p \<noteq> None \<and> f_data frame = p_mapped p)"

section \<open>The parts of a grab\<close>

text \<open>The bounds on what drmModeGetFB2 reported.\<close>

definition fb2_geometry :: "drm_fb2 \<Rightarrow> int" where
  "fb2_geometry fb2 =
    (let ret = drmtap_validate_fb_dims (fb2_width fb2) (fb2_height fb2) in
     if ret = 0 then validate_fb_size (fb2_pitches fb2 ! 0) (fb2_height fb2) else ret)"

text \<open>The plane layout the GPU import reads.\<close>

definition cache_planes :: "drm_fb2 \<Rightarrow> ctx \<Rightarrow> ctx" where
  "cache_planes fb2 c =
    c\<lparr>cfb2_pitches := map (\<lambda>p. fb2_pitches fb2 ! p) [0 ..< 4], cfb2_offsets := map (\<lambda>p. fb2_offsets fb2 ! p) [0 ..< 4],
      cfb2_num_planes := fold (\<lambda>p n. if fb2_handles fb2 ! p \<noteq> 0 \<or> fb2_pitches fb2 ! p \<noteq> 0 then int p + 1 else n)
        [0 ..< 4] 0\<rparr>"

text \<open>The shared exit: close the descriptor and the handle still pending, drop the private state.\<close>

definition grab_cleanup :: "int \<Rightarrow> nat \<Rightarrow> bool \<Rightarrow> int \<Rightarrow> drmtap_frame \<Rightarrow> ctx \<Rightarrow> int \<times> drmtap_frame \<times> ctx" where
  "grab_cleanup prime_fd gem has_priv ret frame c =
    (let c = (if 0 \<le> prime_fd then sys_close prime_fd c else c);
         c = drmtap_gem_close gem c;
         c = (if has_priv then free_priv c else c) in
     (ret, frame\<lparr>f_priv := None, f_dma_buf_fd := - 1\<rparr>, c))"

definition fresh_priv :: frame_priv where
  "fresh_priv = \<lparr>p_prime_fd = - 1, p_helper_drm_fd = - 1, p_mapped = None, p_mapped_size = 0, p_gem_handle = 0,
    p_used_dumb_map = False, p_is_heap_buf = False, p_sync_started = False\<rparr>"

text \<open>A processing failure releases the frame; only a produced frame names its plane.\<close>

definition grab_finish :: "u32 \<Rightarrow> int \<times> drmtap_frame \<times> ctx \<Rightarrow> int \<times> drmtap_frame \<times> ctx" where
  "grab_finish plane_id res =
    (case res of (ret, frame, c) \<Rightarrow>
      if ret \<noteq> 0 then (case drmtap_frame_release frame c of (frame, c) \<Rightarrow> (ret, frame, c))
      else (0, frame, c\<lparr>grab_plane_id := plane_id\<rparr>))"

definition direct_mmap :: "env \<Rightarrow> drm_fb2 \<Rightarrow> int \<Rightarrow> nat \<Rightarrow> ctx \<Rightarrow> (int + obj) \<times> bool \<times> ctx" where
  "direct_mmap env fb2 fd n c =
    (let gem = fb2_handles fb2 ! 0; off = unat (fb2_offsets fb2 ! 0) in
     case (if is_virtio_gpu c then
             (case virtio_transfer_from_host env gem (fb2_width fb2) (fb2_height fb2) c of (ret, c1) \<Rightarrow>
               if ret < 0 then (Inl EIO, c1) else virtio_dumb_mmap env gem n c1)
           else (Inl EIO, c)) of
       (Inr p, c1) \<Rightarrow> (Inr p, True, c1)
     | (Inl _, c1) \<Rightarrow> (case sys_mmap env fd off n c1 of (res, c2) \<Rightarrow> (res, False, c2)))"

definition grab_direct ::
  "(rat \<Rightarrow> rat \<Rightarrow> rat) \<Rightarrow> env \<Rightarrow> u32 \<Rightarrow> u32 \<Rightarrow> drm_fb2 \<Rightarrow> int \<Rightarrow> drmtap_frame \<Rightarrow> bool \<Rightarrow> ctx
    \<Rightarrow> int \<times> drmtap_frame \<times> ctx" where
  "grab_direct pow env plane_id fb_id fb2 fd frame do_mmap c =
    (let gem = fb2_handles fb2 ! 0 in
     case calloc_priv env c of
       (False, c1) \<Rightarrow> grab_cleanup fd gem False (- ENOMEM) frame c1
     | (True, c1) \<Rightarrow>
         (case drmtap_scanout_width env (fb2_width fb2) (fb2_effective_modifier fb2) c1 of (width, c2) \<Rightarrow>
           let priv = fresh_priv\<lparr>p_prime_fd := fd, p_gem_handle := gem\<rparr>;
               fr = zero_frame\<lparr>f_dma_buf_fd := fd, f_width := width, f_height := fb2_height fb2,
                 f_stride := fb2_pitches fb2 ! 0, f_format := fb2_format fb2, f_modifier := fb2_effective_modifier fb2,
                 f_fb_id := fb_id, f_priv := Some priv\<rparr>;
               n = unat (fb2_pitches fb2 ! 0) * unat (fb2_height fb2) in
           if \<not> do_mmap then (0, fr, c2\<lparr>grab_plane_id := plane_id\<rparr>)
           else case direct_mmap env fb2 fd n c2 of
             (Inl e, _, c3) \<Rightarrow>
               (case gpu_auto_process pow env None fr False c3 of (rc, fr, c4) \<Rightarrow>
                 if f_data fr = None
                 then grab_cleanup fd gem True (if rc = 0 then if e \<noteq> 0 then - e else - EIO else rc) fr c4
                 else (0, fr, c4\<lparr>grab_plane_id := plane_id\<rparr>))
           | (Inr p, dumb, c3) \<Rightarrow>
               (case dmabuf_sync_start env fd c3 of (st, c4) \<Rightarrow>
                 let fr = fr\<lparr>f_data := Some p, f_priv := Some (priv\<lparr>p_mapped := Some p, p_mapped_size := n,
                   p_used_dumb_map := dumb, p_sync_started := st\<rparr>)\<rparr> in
                 grab_finish plane_id (gpu_auto_process pow env (Some p) fr False c4))))"

section \<open>Through the helper\<close>

text \<open>The helper passed a descriptor: map it, process it.\<close>

definition grab_helper_fd ::
  "(rat \<Rightarrow> rat \<Rightarrow> rat) \<Rightarrow> env \<Rightarrow> u32 \<Rightarrow> int \<Rightarrow> bool \<Rightarrow> drmtap_frame \<Rightarrow> bool \<Rightarrow> ctx \<Rightarrow> int \<times> drmtap_frame \<times> ctx" where
  "grab_helper_fd pow env plane_id fd virgl fr do_mmap c =
    (let n = unat (f_stride fr) * unat (f_height fr); priv = fresh_priv\<lparr>p_prime_fd := fd\<rparr> in
     case (case sys_mmap env fd 0 n c of
             (Inr p, c1) \<Rightarrow>
               (case dmabuf_sync_start env fd c1 of (st, c2) \<Rightarrow>
                 (Some p, fr\<lparr>f_data := Some p, f_dma_buf_fd := fd, f_priv := Some (priv\<lparr>p_mapped := Some p,
                    p_mapped_size := n, p_used_dumb_map := False, p_sync_started := st\<rparr>)\<rparr>, c2))
           | (Inl _, c1) \<Rightarrow>
               (None, fr\<lparr>f_data := None, f_dma_buf_fd := fd, f_priv := Some (priv\<lparr>p_used_dumb_map := True\<rparr>)\<rparr>, c1)) of
       (data, fr, c2) \<Rightarrow>
         grab_finish plane_id (if do_mmap then gpu_auto_process pow env data fr virgl c2 else (0, fr, c2)))"

text \<open>The helper sent pixels into the receive buffer, which the frame borrows.\<close>

definition grab_helper_pixels ::
  "(rat \<Rightarrow> rat \<Rightarrow> rat) \<Rightarrow> env \<Rightarrow> u32 \<Rightarrow> nat \<Rightarrow> drmtap_frame \<Rightarrow> bool \<Rightarrow> ctx \<Rightarrow> int \<times> drmtap_frame \<times> ctx" where
  "grab_helper_pixels pow env plane_id data_size fr do_mmap c =
    (if data_size \<noteq> unat (f_stride fr) * unat (f_height fr) then (- EPROTO, fr, free_priv c)
     else
       let fr = fr\<lparr>f_dma_buf_fd := - 1, f_data := pixel_buf c, f_priv := Some (fresh_priv\<lparr>p_used_dumb_map := True\<rparr>)\<rparr> in
       grab_finish plane_id (if do_mmap then gpu_auto_process pow env (pixel_buf c) fr False c else (0, fr, c)))"

text \<open>The three bounds on the geometry the helper sent.\<close>

definition wire_geometry :: "drmtap_frame \<Rightarrow> int" where
  "wire_geometry fr =
    (let ret = drmtap_validate_fb_dims (f_width fr) (f_height fr);
         ret = (if ret = 0 then validate_fb_size (f_stride fr) (f_height fr) else ret) in
     if ret = 0 \<and> ucast (f_stride fr) < (ucast (f_width fr) * ucast (format_min_bpp (f_format fr)) :: u64)
     then - EINVAL else ret)"

definition grab_helper ::
  "(rat \<Rightarrow> rat \<Rightarrow> rat) \<Rightarrow> env \<Rightarrow> u32 \<Rightarrow> drm_fb2 \<Rightarrow> drmtap_frame \<Rightarrow> bool \<Rightarrow> ctx \<Rightarrow> int \<times> drmtap_frame \<times> ctx" where
  "grab_helper pow env plane_id fb2 frame do_mmap c =
    (let buf_size = unat (fb2_pitches fb2 ! 0) * unat (fb2_height fb2) in
     case drmtap_ensure_buf env (pixel_buf c) (pixel_buf_size c) buf_size c of (ret, buf, cap, c0) \<Rightarrow>
       let c1 = c0\<lparr>pixel_buf := buf, pixel_buf_size := cap\<rparr> in
       if ret \<noteq> 0 then (ret, frame, c1)
       else case drmtap_helper_grab env (pixel_buf c1) buf_size c1 of ((ret, wire, fd), c2) \<Rightarrow>
         case (ret < 0, wire) of
           (False, Some w) \<Rightarrow>
             (case calloc_priv env c2 of
               (False, c3) \<Rightarrow> (- ENOMEM, frame, if 0 \<le> fd then sys_close fd c3 else c3)
             | (True, c3) \<Rightarrow>
                 (case drmtap_scanout_width env (gw_width w) (gw_modifier w) c3 of (width, c4) \<Rightarrow>
                   let fr = zero_frame\<lparr>f_width := width, f_height := gw_height w, f_stride := gw_stride w,
                         f_format := gw_format w, f_modifier := gw_modifier w, f_fb_id := gw_fb_id w\<rparr>;
                       c5 = c4\<lparr>cur_hdr_eotf := gw_hdr_eotf w, cur_hdr_max_nits := gw_hdr_max_nits w\<rparr>;
                       ret = wire_geometry fr in
                   if ret \<noteq> 0 then (ret, fr, free_priv (if 0 \<le> fd then sys_close fd c5 else c5))
                   else if 0 \<le> fd
                   then grab_helper_fd pow env plane_id fd (gw_flags w AND HELPER_FLAG_VIRGL \<noteq> 0) fr do_mmap c5
                   else grab_helper_pixels pow env plane_id (unat (gw_data_size w)) fr do_mmap c5))
         | _ \<Rightarrow> grab_cleanup (- 1) 0 False (- EACCES) frame c2)"

section \<open>The grab\<close>

definition do_grab ::
  "(rat \<Rightarrow> rat \<Rightarrow> rat) \<Rightarrow> env \<Rightarrow> drmtap_frame \<Rightarrow> bool \<Rightarrow> ctx \<Rightarrow> int \<times> drmtap_frame \<times> ctx" where
  "do_grab pow env frame do_mmap c0 =
    (if is_render_only c0 then (- ENOTSUP, frame, c0)
     else case find_primary_plane env c0 of (plane_id, c1) \<Rightarrow>
       let c2 = read_hdr_for_current_crtc env c1 in
       if plane_id = 0 then (- ENODEV, frame, c2)
       else
         let k = v_kms env (tick c2); c3 = step_clock c2;
             fb_id = (case km_plane k plane_id of None \<Rightarrow> 0 | Some pl \<Rightarrow> pl_fb_id pl) in
         if fb_id = 0 then (- ENODEV, frame, c3)
         else case sys_getfb2 env fb_id c3 of
           (Inl e, c4) \<Rightarrow> (- e, frame, c4)
         | (Inr fb2, c4) \<Rightarrow>
             let gem = fb2_handles fb2 ! 0; c5 = close_auxiliary_gem_handles (fb2_handles fb2) c4;
                 ret = fb2_geometry fb2 in
             if ret \<noteq> 0 then grab_cleanup (- 1) gem False ret frame c5
             else
               let c6 = cache_planes fb2 c5 in
               if gem = 0 then grab_helper pow env plane_id fb2 frame do_mmap c6
               else case sys_prime env gem c6 of
                 (Inl e, c7) \<Rightarrow>
                   if e = EACCES \<or> e = EPERM
                   then grab_helper pow env plane_id fb2 frame do_mmap (drmtap_gem_close gem c7)
                   else grab_cleanup (- 1) gem False (- e) frame c7
               | (Inr fd, c7) \<Rightarrow> grab_direct pow env plane_id fb_id fb2 fd frame do_mmap c7)"

definition drmtap_grab :: "(rat \<Rightarrow> rat \<Rightarrow> rat) \<Rightarrow> env \<Rightarrow> drmtap_frame \<Rightarrow> ctx \<Rightarrow> int \<times> drmtap_frame \<times> ctx" where
  "drmtap_grab pow env frame c = do_grab pow env frame False c"

definition drmtap_grab_mapped :: "(rat \<Rightarrow> rat \<Rightarrow> rat) \<Rightarrow> env \<Rightarrow> drmtap_frame \<Rightarrow> ctx \<Rightarrow> int \<times> drmtap_frame \<times> ctx" where
  "drmtap_grab_mapped pow env frame c = do_grab pow env frame True c"

text \<open>The descriptor of a grabbed frame, from the frame and the context.\<close>

definition desc_of :: "drmtap_frame \<Rightarrow> ctx \<Rightarrow> drmtap_desc" where
  "desc_of frame c =
    \<lparr>d_dma_buf_fd = f_dma_buf_fd frame, d_width = f_width frame, d_height = f_height frame, d_format = f_format frame,
     d_modifier = f_modifier frame, d_fb_id = f_fb_id frame,
     d_num_planes = of_int (min 4 (if 0 < cfb2_num_planes c then cfb2_num_planes c else 1)),
     d_offsets = cfb2_offsets c,
     d_pitches = (if cfb2_pitches c ! 0 = 0 then (cfb2_pitches c)[0 := f_stride frame] else cfb2_pitches c),
     d_hdr_eotf = cur_hdr_eotf c, d_hdr_max_nits = cur_hdr_max_nits c\<rparr>"

definition drmtap_grab_desc ::
  "(rat \<Rightarrow> rat \<Rightarrow> rat) \<Rightarrow> env \<Rightarrow> drmtap_frame \<Rightarrow> ctx \<Rightarrow> int \<times> drmtap_desc option \<times> drmtap_frame \<times> ctx" where
  "drmtap_grab_desc pow env frame c0 =
    (case do_grab pow env frame False c0 of (ret, frame, c) \<Rightarrow>
      if ret \<noteq> 0 then (ret, None, frame, c)
      else if f_dma_buf_fd frame < 0 then
        (case drmtap_frame_release frame c of (frame, c) \<Rightarrow>
          (- ENOTSUP, None, frame, c\<lparr>grab_plane_id := grab_plane_id c0\<rparr>))
      else (0, Some (desc_of frame c), frame, c))"

end
