(* ===== verification/Fast.thy ===== *)
theory Fast
  imports Grab
begin

text \<open>
  The fast mapped grab (src/drm_grab.c, drmtap_grab_mapped_fast): a cache of at most four
  framebuffers, each with its descriptor, mapping, GEM handle and open CPU-access window, so that
  a flip between known framebuffers costs no system call but the coherence one. The argument force
  of drmtap_grab_mapped_fast is the answer of drmtap_force_mmap_fail, a test hook.
\<close>

section \<open>The cache\<close>

definition set_slot :: "nat \<Rightarrow> fast_slot \<Rightarrow> ctx \<Rightarrow> ctx" where
  "set_slot i s c = c\<lparr>fast_slots := (fast_slots c)[i := s]\<rparr>"

definition slot_sync_close :: "nat \<Rightarrow> ctx \<Rightarrow> ctx" where
  "slot_sync_close i c =
    (let s = fast_slots c ! i;
         c = (if s_sync_started s \<and> 0 \<le> s_prime_fd s then dmabuf_sync_end (s_prime_fd s) c else c) in
     set_slot i (s\<lparr>s_sync_started := False\<rparr>) c)"

definition fast_sync_close :: "ctx \<Rightarrow> ctx" where
  "fast_sync_close c = fold slot_sync_close [0 ..< DRMTAP_FAST_SLOTS] c"

definition fast_sync_begin :: "env \<Rightarrow> nat \<Rightarrow> ctx \<Rightarrow> ctx" where
  "fast_sync_begin env i c =
    (let c = fast_sync_close c; s = fast_slots c ! i in
     if 0 \<le> s_prime_fd s then
       (case dmabuf_sync_start env (s_prime_fd s) c of (st, c) \<Rightarrow> set_slot i (s\<lparr>s_sync_started := st\<rparr>) c)
     else c)"

text \<open>Unmapping, closing and clearing one slot.\<close>

definition slot_drop :: "nat \<Rightarrow> ctx \<Rightarrow> ctx" where
  "slot_drop i c =
    (let s = fast_slots c ! i;
         c = (case s_mmap_ptr s of None \<Rightarrow> c | Some p \<Rightarrow> sys_munmap p c);
         c = (if 0 \<le> s_prime_fd s then sys_close (s_prime_fd s) c else c);
         c = drmtap_gem_close (s_gem_handle s) c in
     set_slot i empty_slot c)"

definition drmtap_fast_cleanup :: "ctx \<Rightarrow> ctx" where
  "drmtap_fast_cleanup c0 =
    (let c = fold slot_drop [0 ..< DRMTAP_FAST_SLOTS] (fast_sync_close c0) in
     c\<lparr>fast_plane_id := 0, fast_last_fb_id := 0, fast_initialized := False, fast_no_cpu_map := False\<rparr>)"

text \<open>The slot of a framebuffer, else an empty one, else slot 0 after dropping what it held.\<close>

definition slot_where :: "(fast_slot \<Rightarrow> bool) \<Rightarrow> ctx \<Rightarrow> nat option" where
  "slot_where P c = List.find (\<lambda>i. P (fast_slots c ! i)) [0 ..< DRMTAP_FAST_SLOTS]"

definition find_or_alloc_slot :: "u32 \<Rightarrow> ctx \<Rightarrow> nat \<times> ctx" where
  "find_or_alloc_slot fb_id c =
    (case slot_where (\<lambda>s. s_fb_id s = fb_id) c of
      Some i \<Rightarrow> (i, c)
    | None \<Rightarrow>
        (case slot_where (\<lambda>s. s_fb_id s = 0) c of
          Some i \<Rightarrow> (i, c)
        | None \<Rightarrow> (0, slot_drop 0 (if s_sync_started (fast_slots c ! 0) \<and> 0 \<le> s_prime_fd (fast_slots c ! 0)
            then slot_sync_close 0 c else c))))"

definition fast_slot_restage_planes :: "fast_slot \<Rightarrow> ctx \<Rightarrow> ctx" where
  "fast_slot_restage_planes s c =
    c\<lparr>cfb2_num_planes := s_num_planes s, cfb2_pitches := s_pitches s, cfb2_offsets := s_offsets s\<rparr>"

section \<open>The grab\<close>

definition fast_init :: "env \<Rightarrow> ctx \<Rightarrow> bool \<times> ctx" where
  "fast_init env c0 =
    (if fast_initialized c0 then (True, c0)
     else case find_primary_plane env c0 of (plane, c1) \<Rightarrow>
       let c2 = read_hdr_for_current_crtc env (c1\<lparr>fast_plane_id := plane\<rparr>) in
       if plane = 0 then (False, c2)
       else (True, c2\<lparr>fast_slots := replicate DRMTAP_FAST_SLOTS empty_slot, fast_last_fb_id := 0, fast_no_cpu_map := False,
         fast_initialized := True\<rparr>))"

text \<open>Making a cached mapping current.\<close>

definition fast_refresh :: "env \<Rightarrow> nat \<Rightarrow> ctx \<Rightarrow> int \<times> ctx" where
  "fast_refresh env i c =
    (let s = fast_slots c ! i in
     if is_virtio_gpu c then
       (case virtio_transfer_from_host env (s_gem_handle s) (s_fb_width s) (s_height s) c of (ret, c) \<Rightarrow>
         if ret < 0 then (ret, c) else (0, fast_sync_close c))
     else (0, fast_sync_begin env i c))"

definition slot_frame :: "fast_slot \<Rightarrow> u32 \<Rightarrow> drmtap_frame" where
  "slot_frame s fb_id =
    \<lparr>f_data = s_mmap_ptr s, f_dma_buf_fd = s_prime_fd s, f_width = s_width s, f_height = s_height s,
     f_stride = s_stride s, f_format = s_format s, f_modifier = s_modifier s, f_fb_id = fb_id, f_priv = None\<rparr>"

definition fast_finish :: "int \<times> drmtap_frame \<times> ctx \<Rightarrow> int \<times> drmtap_frame \<times> ctx" where
  "fast_finish res = (case res of (pr, frame, c) \<Rightarrow>
    if pr \<noteq> 0 then (pr, frame, c) else (0, frame, c\<lparr>grab_plane_id := fast_plane_id c\<rparr>))"

text \<open>A frame from a cached slot.\<close>

definition fast_serve ::
  "(rat \<Rightarrow> rat \<Rightarrow> rat) \<Rightarrow> env \<Rightarrow> nat \<Rightarrow> u32 \<Rightarrow> drmtap_frame \<Rightarrow> ctx \<Rightarrow> int \<times> drmtap_frame \<times> ctx" where
  "fast_serve pow env i fb_id frame c0 =
    (case fast_refresh env i c0 of (ret, c1) \<Rightarrow>
      if ret < 0 then (ret, frame, c1)
      else
        let c2 = c1\<lparr>fast_last_fb_id := fb_id\<rparr>; s = fast_slots c2 ! i in
        fast_finish (gpu_auto_process pow env (s_mmap_ptr s) (slot_frame s fb_id) False (fast_slot_restage_planes s c2)))"

text \<open>Mapping a framebuffer seen for the first time; the flag says whether a window was opened.\<close>

definition fast_map :: "env \<Rightarrow> bool \<Rightarrow> drm_fb2 \<Rightarrow> int \<Rightarrow> nat \<Rightarrow> ctx \<Rightarrow> obj option \<times> bool \<times> ctx" where
  "fast_map env force fb2 fd n c0 =
    (let gem = fb2_handles fb2 ! 0 in
     case (if is_virtio_gpu c0 then
             (case virtio_transfer_from_host env gem (fb2_width fb2) (fb2_height fb2) c0 of (ret, c1) \<Rightarrow>
               if ret < 0 then (Inl EIO, c1) else virtio_dumb_mmap env gem n c1)
           else (Inl EIO, c0)) of
       (Inr p, c1) \<Rightarrow> (Some p, False, c1)
     | (Inl _, c1) \<Rightarrow>
         if fast_no_cpu_map c1 then (None, False, c1)
         else case dmabuf_sync_start env fd c1 of (st, c2) \<Rightarrow>
           (case sys_mmap env fd (unat (fb2_offsets fb2 ! 0)) n c2 of
             (Inr p, c3) \<Rightarrow> if force then (None, st, (sys_munmap p c3)\<lparr>fast_no_cpu_map := True\<rparr>) else (Some p, st, c3)
           | (Inl _, c3) \<Rightarrow> (None, st, c3\<lparr>fast_no_cpu_map := True\<rparr>)))"

text \<open>No mapping: the GPU reads the descriptor, nothing is cached.\<close>

definition fast_unmapped ::
  "(rat \<Rightarrow> rat \<Rightarrow> rat) \<Rightarrow> env \<Rightarrow> u32 \<Rightarrow> drm_fb2 \<Rightarrow> int \<Rightarrow> bool \<Rightarrow> drmtap_frame \<Rightarrow> ctx \<Rightarrow> int \<times> drmtap_frame \<times> ctx" where
  "fast_unmapped pow env fb_id fb2 fd st frame c0 =
    (let gem = fb2_handles fb2 ! 0;
         release = (\<lambda>c. drmtap_gem_close gem (sys_close fd (if st then dmabuf_sync_end fd c else c))) in
     case drmtap_gpu_egl_available env c0 of (avail, c1) \<Rightarrow>
       if avail then
         (case drmtap_scanout_width env (fb2_width fb2) (fb2_effective_modifier fb2) c1 of (width, c2) \<Rightarrow>
           let fr = \<lparr>f_data = None, f_dma_buf_fd = fd, f_width = width, f_height = fb2_height fb2,
                 f_stride = fb2_pitches fb2 ! 0, f_format = fb2_format fb2, f_modifier = fb2_effective_modifier fb2,
                 f_fb_id = fb_id, f_priv = None\<rparr> in
           case gpu_auto_process pow env None fr False c2 of (pr, fr, c3) \<Rightarrow>
             fast_finish (if pr = 0 \<and> f_data fr = None then - EIO else pr, fr\<lparr>f_dma_buf_fd := - 1\<rparr>,
               (release c3)\<lparr>fast_last_fb_id := 0\<rparr>))
       else (- ENOMEM, frame, release c1))"

text \<open>Filling a slot.\<close>

definition fast_store ::
  "env \<Rightarrow> nat \<Rightarrow> u32 \<Rightarrow> drm_fb2 \<Rightarrow> int \<Rightarrow> bool \<Rightarrow> obj \<Rightarrow> nat \<Rightarrow> ctx \<Rightarrow> ctx" where
  "fast_store env i fb_id fb2 fd st p n c =
    (case drmtap_scanout_width env (fb2_width fb2) (fb2_effective_modifier fb2) c of (width, c1) \<Rightarrow>
      set_slot i \<lparr>s_fb_id = fb_id, s_gem_handle = fb2_handles fb2 ! 0, s_prime_fd = fd, s_mmap_ptr = Some p, s_mmap_size = n,
        s_width = width, s_height = fb2_height fb2, s_stride = fb2_pitches fb2 ! 0, s_fb_width = fb2_width fb2,
        s_format = fb2_format fb2, s_modifier = fb2_effective_modifier fb2, s_num_planes = cfb2_num_planes c1,
        s_pitches = cfb2_pitches c1, s_offsets = cfb2_offsets c1, s_sync_started = st\<rparr> c1)"

definition fast_miss ::
  "(rat \<Rightarrow> rat \<Rightarrow> rat) \<Rightarrow> env \<Rightarrow> bool \<Rightarrow> nat \<Rightarrow> u32 \<Rightarrow> drmtap_frame \<Rightarrow> ctx \<Rightarrow> int \<times> drmtap_frame \<times> ctx" where
  "fast_miss pow env force i fb_id frame c0 =
    (case sys_getfb2 env fb_id c0 of
      (Inl e, c1) \<Rightarrow> (- e, frame, c1)
    | (Inr fb2, c1) \<Rightarrow>
        let gem = fb2_handles fb2 ! 0; c2 = close_auxiliary_gem_handles (fb2_handles fb2) c1;
            ret = fb2_geometry fb2 in
        if gem = 0 then (- EACCES, frame, drmtap_fast_cleanup (c2\<lparr>fast_no_privilege := True\<rparr>))
        else if ret \<noteq> 0 then (ret, frame, drmtap_gem_close gem c2)
        else case sys_prime env gem (cache_planes fb2 c2) of
          (Inl e, c3) \<Rightarrow> (- e, frame, drmtap_gem_close gem c3)
        | (Inr fd, c3) \<Rightarrow>
            let n = unat (fb2_pitches fb2 ! 0) * unat (fb2_height fb2) in
            (case fast_map env force fb2 fd n c3 of
              (None, st, c4) \<Rightarrow> fast_unmapped pow env fb_id fb2 fd st frame c4
            | (Some p, st, c4) \<Rightarrow>
                let c5 = (fast_store env i fb_id fb2 fd st p n c4)\<lparr>fast_last_fb_id := fb_id\<rparr> in
                fast_finish (gpu_auto_process pow env (Some p) (slot_frame (fast_slots c5 ! i) fb_id) False c5)))"

definition drmtap_grab_mapped_fast ::
  "(rat \<Rightarrow> rat \<Rightarrow> rat) \<Rightarrow> env \<Rightarrow> bool \<Rightarrow> drmtap_frame \<Rightarrow> ctx \<Rightarrow> int \<times> drmtap_frame \<times> ctx" where
  "drmtap_grab_mapped_fast pow env force frame c0 =
    (if is_render_only c0 then (- ENOTSUP, frame, c0)
     else if fast_no_privilege c0 then (- EACCES, frame, c0)
     else case fast_init env c0 of (go, c1) \<Rightarrow>
       if \<not> go then (- ENODEV, frame, c1)
       else
         let k = v_kms env (tick c1); c2 = step_clock c1;
             fb_id = (case km_plane k (fast_plane_id c2) of None \<Rightarrow> 0 | Some pl \<Rightarrow> pl_fb_id pl) in
         if fb_id = 0 then (- ENODEV, frame, drmtap_fast_cleanup c2)
         else
           let cached = (\<lambda>s. s_fb_id s = fb_id \<and> s_mmap_ptr s \<noteq> None) in
           case (if fb_id = fast_last_fb_id c2 then slot_where cached c2 else None) of
             Some i \<Rightarrow> fast_serve pow env i fb_id frame c2
           | None \<Rightarrow>
               (case find_or_alloc_slot fb_id (fast_sync_close c2) of (i, c3) \<Rightarrow>
                 if cached (fast_slots c3 ! i) then fast_serve pow env i fb_id frame c3
                 else fast_miss pow env force i fb_id frame c3))"

end
