(* ===== verification/ProcessOk.thy ===== *)
theory ProcessOk
  imports Process
begin

text \<open>
  What gpu_auto_process guarantees its callers, on every branch: the thread's GL state, the
  buffers and every resource are kept, the source is not written, no conversion leaves its
  buffers, and a success is a linear image in the output buffer unless the scanout was linear
  to begin with.
\<close>

section \<open>Conversions into the output buffer\<close>

text \<open>A conversion that stays inside its buffers and writes only the destination.\<close>

definition conv_into :: "(heap \<Rightarrow> (int \<times> heap) option) \<Rightarrow> obj \<Rightarrow> heap \<Rightarrow> bool" where
  "conv_into conv d hp \<longleftrightarrow> (\<exists>r cd'. conv hp = Some (r, hp(d \<mapsto> cd')) \<and> length cd' = length (the (hp d)) \<and> r \<le> 0)"

lemma conv_intoI:
  "conv hp = Some (r, hp(d \<mapsto> cd')) \<Longrightarrow> hp d = Some cd \<Longrightarrow> length cd' = length cd \<Longrightarrow> r \<le> 0 \<Longrightarrow> conv_into conv d hp"
  by (auto simp: conv_into_def)

lemma conv_into_refused: "conv hp = Some (r, hp) \<Longrightarrow> hp d = Some cd \<Longrightarrow> r \<le> 0 \<Longrightarrow> conv_into conv d hp"
  by (rule conv_intoI[where cd' = cd and cd = cd]) (auto simp: fun_upd_idem)

lemma framed_length: "framed c c' w h S px \<Longrightarrow> length c' = length c"
  by (simp add: framed_def)

lemmas fmt_defs = DRMTAP_FMT_XR30_def DRMTAP_FMT_AR30_def DRMTAP_FMT_XB30_def DRMTAP_FMT_AB30_def DRMTAP_FMT_XR24_def
  DRMTAP_FMT_XR4H_def DRMTAP_FMT_AR4H_def DRMTAP_FMT_XB4H_def DRMTAP_FMT_AB4H_def

lemma ar30_into:
  assumes src: "hp s = Some cs" "unat h * unat stride \<le> length cs" "unat h * unat stride \<le> 2 ^ 32"
    and dst: "hp d = Some cd" "unat h * unat ds \<le> length cd" "unat h * unat ds \<le> 2 ^ 32" "4 * unat w \<le> unat ds"
    and dims: "w \<noteq> 0" "h \<noteq> 0" and ovl: "s \<noteq> d \<or> stride = ds" and fmt: "is_ar30 fmt"
  shows "conv_into (ar30_conv pow eotf nits (Some s) (Some d) w h stride ds fmt) d hp"
proof (cases "4 * unat w \<le> unat stride")
  case True
  have f: "fmt \<in> {0x30335258, 0x30335241, 0x30334258, 0x30334241}" using fmt by (auto simp: is_ar30_def fmt_defs)
  show ?thesis
  proof (cases "eotf = DRMTAP_EOTF_PQ")
    case pq: True
    obtain cd' where "drmtap_tonemap_hdr10 pow (Some s) (Some d) w h stride ds fmt nits hp = Some (0, hp(d \<mapsto> cd'))"
      "length cd' = length cd"
      using hdr10_framed[OF src(1,2) True dst(1,2,4) dims ovl f, of pow nits] framed_length by blast
    then show ?thesis using dst(1) pq by (intro conv_intoI[of _ hp 0 d cd' cd]) (simp_all add: ar30_conv_def)
  next
    case sdr: False
    have ne: "fmt \<noteq> DRMTAP_FMT_XR24" using f by (auto simp: fmt_defs)
    obtain g where g: "conversion fmt DRMTAP_FMT_XR24 = Some g"
      using f by (auto simp: conversion_def fourcc_defs fmt_defs)
    have "s \<noteq> d \<or> stride = ds \<and> fmt \<noteq> DRMTAP_FMT_XR24" using ovl ne by blast
    from convert_format_framed[OF src True dst dims this g]
    obtain cd' where "drmtap_convert_format (Some s) (Some d) w h stride ds fmt DRMTAP_FMT_XR24 hp = Some (0, hp(d \<mapsto> cd'))"
      "length cd' = length cd" using framed_length by blast
    then show ?thesis using dst(1) sdr by (intro conv_intoI[of _ hp 0 d cd' cd]) (simp_all add: ar30_conv_def)
  qed
next
  case False
  then have "unat stride < 4 * unat w" by simp
  then have "ar30_conv pow eotf nits (Some s) (Some d) w h stride ds fmt hp = Some (- EINVAL, hp)"
    using dims fmt by (auto simp: ar30_conv_def drmtap_tonemap_hdr10_def drmtap_convert_format_def Let_def
      stride_narrow_iff is_ar30_def fmt_defs)
  then show ?thesis using dst(1) by (auto intro: conv_into_refused simp: errno_defs)
qed

lemma reduce_into:
  assumes src: "hp s = Some cs" "unat (f_height fr) * unat (f_stride fr) \<le> length cs"
      "unat (f_height fr) * unat (f_stride fr) \<le> 2 ^ 32"
    and dst: "hp d = Some cd" "unat (f_width fr) * unat (f_height fr) * 4 \<le> length cd" "s \<noteq> d"
    and dims: "drmtap_validate_fb_dims (f_width fr) (f_height fr) = 0"
  shows "conv_into (reduce_conv pow eotf nits (Some s) (Some d) fr) d hp"
proof -
  let ?w = "f_width fr" and ?h = "f_height fr" and ?S = "f_stride fr"
  have nz: "?w \<noteq> 0" "?h \<noteq> 0" and b: "unat ?w \<le> 32768" "unat ?w * unat ?h * 4 \<le> 132710400"
    using dims by (auto simp: validate_dims_ok)
  have u: "unat (?w * 4) = 4 * unat ?w" using b(1) by (simp add: unat_word_ariths)
  have d2: "unat ?h * unat (?w * 4) \<le> length cd" "unat ?h * unat (?w * 4) \<le> 2 ^ 32" "4 * unat ?w \<le> unat (?w * 4)"
    using dst(2) b(2) by (simp_all add: u mult_ac)
  have ovl: "s \<noteq> d \<or> ?S = ?w * 4" using dst(3) by simp
  show ?thesis
  proof (cases "is_ar30 (f_format fr)")
    case True
    have "reduce_conv pow eotf nits (Some s) (Some d) fr =
        ar30_conv pow eotf nits (Some s) (Some d) ?w ?h ?S (?w * 4) (f_format fr)"
      using True by (intro ext) (simp add: reduce_conv_def Let_def)
    then show ?thesis using ar30_into[OF src dst(1) d2 nz ovl True] by simp
  next
    case False
    show ?thesis
    proof (cases "8 * unat ?w \<le> unat ?S")
      case True
      obtain c1 where "drmtap_convert_rgb16 pow (Some s) (Some d) ?w ?h ?S (?w * 4)
          (f_format fr = DRMTAP_FMT_XB48 \<or> f_format fr = DRMTAP_FMT_AB48) eotf nits hp = Some (0, hp(d \<mapsto> c1))"
        "length c1 = length cd"
        using rgb16_framed[OF src(1,2) True dst(1) d2(1,3) nz ovl, of pow "f_format fr = DRMTAP_FMT_XB48 \<or> f_format fr = DRMTAP_FMT_AB48" eotf nits]
          framed_length by blast
      moreover obtain c2 where "drmtap_convert_rgb16f pow (Some s) (Some d) ?w ?h ?S (?w * 4)
          (f_format fr = DRMTAP_FMT_XB4H \<or> f_format fr = DRMTAP_FMT_AB4H) hp = Some (0, hp(d \<mapsto> c2))"
        "length c2 = length cd"
        using rgb16f_framed[OF src(1,2) True dst(1) d2(1,3) nz ovl, of pow "f_format fr = DRMTAP_FMT_XB4H \<or> f_format fr = DRMTAP_FMT_AB4H"]
          framed_length by blast
      moreover note False
      ultimately show ?thesis
        using dst(1) conv_intoI[of "reduce_conv pow eotf nits (Some s) (Some d) fr" hp 0 d _ cd]
        by (cases "is_rgb16 (f_format fr)") (auto simp: reduce_conv_def Let_def)
    next
      case narrow: False
      then have "reduce_conv pow eotf nits (Some s) (Some d) fr hp = Some (- EINVAL, hp)"
        using False nz by (simp add: reduce_conv_def Let_def drmtap_convert_rgb16_def drmtap_convert_rgb16f_def narrow8_iff not_le)
      then show ?thesis using dst(1) by (auto intro: conv_into_refused simp: errno_defs)
    qed
  qed
qed

lemma deswizzle_into:
  assumes "hp s = Some cs" "unat h * unat stride \<le> length cs" "hp d = Some cd" "s \<noteq> d"
    and "unat h * unat stride \<le> length cd" "unat h * unat stride \<le> 2 ^ 32"
  shows "conv_into (drmtap_deswizzle (Some s) (Some d) w h stride stride m (of_nat (unat stride * unat h))) d hp"
proof -
  have "unat (of_nat (unat stride * unat h) :: u64) = unat stride * unat h"
    using assms(6) by (simp add: unat_of_nat mult.commute del: of_nat_mult)
  then have "unat (of_nat (unat stride * unat h) :: u64) \<le> length cs" using assms(2) by (simp add: mult.commute)
  from deswizzle_bounds[OF assms(1) this assms(3-6), of w stride m] show ?thesis
    using assms(3) by (auto simp: conv_into_def errno_defs)
qed

section \<open>Steps\<close>

text \<open>Memory a step may not touch: the mappings and the receive buffer.\<close>

definition agrees :: "ctx \<Rightarrow> heap \<Rightarrow> bool" where
  "agrees a hp \<longleftrightarrow> (\<forall>q. q \<in> live_maps a \<or> pixel_buf a = Some q \<longrightarrow> hp q = mem a q)"

definition ctx_ok :: "nat \<Rightarrow> ctx \<Rightarrow> bool" where
  "ctx_ok f c \<longleftrightarrow> thread_ok f c \<and> fresh_ok c \<and> buf_inv c"

definition pstep :: "nat \<Rightarrow> ctx \<Rightarrow> ctx \<Rightarrow> bool" where
  "pstep f a c \<longleftrightarrow> out_only a c \<and> agrees a (mem c) \<and> ctx_ok f c"

lemma agrees_refl [simp]: "agrees a (mem a)"
  by (simp add: agrees_def)

lemma pstep_refl: "ctx_ok f c \<Longrightarrow> pstep f c c"
  using egl_out_only[OF egl_only_refl] by (simp add: pstep_def)

lemma pstep_trans: "pstep f a b \<Longrightarrow> pstep f b c \<Longrightarrow> pstep f a c"
  unfolding pstep_def agrees_def using out_only_D[of a b] out_only_trans[of a b c] by simp

lemma agrees_frame:
  assumes "fresh_ok a" "buf_inv a" "frame_mem (out_buf a) a c"
  shows "agrees a (mem c)"
proof -
  have "q < next_obj a \<and> out_buf a \<noteq> Some q" if "q \<in> live_maps a \<or> pixel_buf a = Some q" for q
  proof -
    have "q < next_obj a" using that assms(1,2) holds_lt[OF assms(1)] by (force simp: fresh_ok_def buf_inv_def not_less[symmetric])
    moreover have "out_buf a \<noteq> Some q" using that assms(2) by (auto simp: out_buf_def buf_inv_def split: if_splits)
    ultimately show ?thesis ..
  qed
  then show ?thesis using assms(3) by (metis agrees_def frame_mem_def)
qed

lemma ensure_out_step:
  assumes ok: "ctx_ok f c" and run: "drmtap_ensure_out env n c = (r, out, c')"
  shows "pstep f c c' \<and> egl c' = egl c \<and> (r \<noteq> 0 \<longrightarrow> r < 0) \<and>
    (r = 0 \<longrightarrow> (\<exists>p. out = Some p \<and> out_buf c' = Some p \<and> p \<notin> live_maps c' \<and> pixel_buf c' \<noteq> Some p \<and> holds c' p n))"
proof -
  have fr: "fresh_ok c" "buf_inv c" using ok by (simp_all add: ctx_ok_def)
  note E = ensure_out_ok[OF fr run]
  obtain t m p g b k where c': "c' = c\<lparr>tick := t, mem := m, next_obj := p, out_gen := g, deswizzle_buf := b, deswizzle_buf_size := k\<rparr>"
    using E(10) by blast
  have only: "out_only c c'" unfolding c' by (rule out_onlyI[where t = t and st = "egl c" and m = m and p = p and g = g and b = b and k = k]) simp
  have egl: "egl c' = egl c" by (simp add: c')
  have fm: "frame_mem (out_buf c) c c'" using E(4) by (auto simp: frame_mem_def out_buf_def split: if_splits)
  have "thread_ok f c'" using ok by (simp add: ctx_ok_def thread_ok_def egl)
  then have "pstep f c c'" using only agrees_frame[OF fr fm] E(1,2) by (simp add: pstep_def ctx_ok_def)
  moreover have "r \<noteq> 0 \<longrightarrow> r < 0" using E(9) by (auto simp: errno_defs)
  moreover have "\<exists>p. out = Some p \<and> out_buf c' = Some p \<and> p \<notin> live_maps c' \<and> pixel_buf c' \<noteq> Some p \<and> holds c' p n" if r: "r = 0"
  proof -
    obtain p where p: "out = Some p" "holds c' p n" "p \<notin> live_maps c'" "out = (if user_out c = None then deswizzle_buf c' else user_out c)"
      using E(7)[OF r] by blast
    have o: "out_buf c' = Some p" using p(1,4) unfolding out_buf_def E(5) by simp
    moreover have "pixel_buf c' \<noteq> Some p" using o E(2) by (auto simp: out_buf_def buf_inv_def split: if_splits)
    ultimately show ?thesis using p by blast
  qed
  ultimately show ?thesis using egl by blast
qed

text \<open>Writing the output buffer, at its size.\<close>

lemma run_conv_step:
  assumes ok: "ctx_ok f c" and d: "mem c d = Some cd" "d \<notin> live_maps c" "pixel_buf c \<noteq> Some d"
    and conv: "conv_into conv d (mem c)" and run: "run_conv conv c = (r, c')"
  shows "pstep f c c' \<and> egl c' = egl c \<and> r \<le> 0 \<and> conv (mem c) = Some (r, mem c') \<and> out_buf c' = out_buf c \<and>
    (\<forall>p n. holds c' p n = holds c p n) \<and> (\<exists>cd'. mem c' = (mem c)(d \<mapsto> cd') \<and> length cd' = length cd)"
proof -
  obtain r' cd' where c': "conv (mem c) = Some (r', (mem c)(d \<mapsto> cd'))" "length cd' = length cd" "r' \<le> 0"
    using conv d(1) by (auto simp: conv_into_def)
  then have e: "r = r'" "c' = c\<lparr>mem := (mem c)(d \<mapsto> cd')\<rparr>" using run by (simp_all add: run_conv_def)
  note o = overwrite_inv[OF d(1) c'(2)]
  have "ctx_ok f c'" using ok o(1,2) by (simp add: ctx_ok_def e(2) thread_ok_def)
  moreover have "out_only c c'" unfolding e(2) by (rule out_only_mem)
  moreover have "agrees c (mem c')" using d(2,3) by (auto simp: agrees_def e(2))
  moreover have "\<exists>cd'. mem c' = (mem c)(d \<mapsto> cd') \<and> length cd' = length cd" using c'(2) by (intro exI[of _ cd']) (simp add: e(2))
  ultimately show ?thesis using c' e o(3) by (simp add: pstep_def)
qed

section \<open>What a success hands out\<close>

definition data_ok :: "ctx \<Rightarrow> obj option \<Rightarrow> drmtap_frame \<Rightarrow> bool" where
  "data_ok c data frame \<longleftrightarrow> drmtap_validate_fb_dims (f_width frame) (f_height frame) = 0 \<and>
    validate_fb_size (f_stride frame) (f_height frame) = 0 \<and>
    (\<forall>p. data = Some p \<longrightarrow> (p \<in> live_maps c \<or> pixel_buf c = Some p) \<and>
      holds c p (unat (f_stride frame) * unat (f_height frame)))"

lemma data_ok_step: "pstep f a c \<Longrightarrow> data_ok a data frame \<Longrightarrow> data_ok c data frame"
  unfolding pstep_def data_ok_def agrees_def using out_only_D[of a c] by (auto simp: holds_def)

text \<open>The frame points at the output buffer, which holds all of its rows.\<close>

definition in_out :: "drmtap_frame \<Rightarrow> ctx \<Rightarrow> bool" where
  "in_out fr c \<longleftrightarrow> (\<exists>p. f_data fr = Some p \<and> out_buf c = Some p \<and> p \<notin> live_maps c \<and>
    holds c p (unat (f_stride fr) * unat (f_height fr)) \<and> 4 * unat (f_width fr) \<le> unat (f_stride fr))"

text \<open>Its bytes: the GPU's image, or the source reduced, or the source decoded (and reduced).\<close>

definition from_gpu :: "drmtap_frame \<Rightarrow> drmtap_frame \<Rightarrow> ctx \<Rightarrow> bool" where
  "from_gpu frame fr c \<longleftrightarrow> f_format fr = DRMTAP_FMT_XR24 \<and> f_stride fr = f_width fr * 4 \<and>
    (\<exists>p. f_data fr = Some p \<and> pixels_in c p (unat (f_width frame)) (unat (f_height frame)))"

definition reduced :: "(rat \<Rightarrow> rat \<Rightarrow> rat) \<Rightarrow> ctx \<Rightarrow> obj option \<Rightarrow> drmtap_frame \<Rightarrow> drmtap_frame \<Rightarrow> ctx \<Rightarrow> bool" where
  "reduced pow a data frame fr c \<longleftrightarrow> f_format fr = DRMTAP_FMT_XR24 \<and> f_stride fr = f_width fr * 4 \<and>
    (\<exists>hp. agrees a hp \<and>
      reduce_conv pow (cur_hdr_eotf a) (cur_hdr_max_nits a) data (f_data fr) frame hp = Some (0, mem c))"

definition decoded :: "(rat \<Rightarrow> rat \<Rightarrow> rat) \<Rightarrow> ctx \<Rightarrow> obj option \<Rightarrow> drmtap_frame \<Rightarrow> drmtap_frame \<Rightarrow> ctx \<Rightarrow> bool" where
  "decoded pow a data frame fr c \<longleftrightarrow> f_stride fr = f_stride frame \<and>
    (\<exists>hp hp'. agrees a hp \<and> hp (the (f_data fr)) \<noteq> None \<and>
      drmtap_deswizzle data (f_data fr) (f_width frame) (f_height frame) (f_stride frame) (f_stride frame)
        (f_modifier frame) (of_nat (unat (f_stride frame) * unat (f_height frame))) hp = Some (0, hp') \<and>
      (if is_ar30 (f_format frame)
       then f_format fr = DRMTAP_FMT_XR24 \<and> ar30_conv pow (cur_hdr_eotf a) (cur_hdr_max_nits a) (f_data fr) (f_data fr)
          (f_width frame) (f_height frame) (f_stride frame) (f_stride frame) (f_format frame) hp' = Some (0, mem c)
       else f_format fr = f_format frame \<and> mem c = hp'))"

definition converted :: "drmtap_frame \<Rightarrow> drmtap_frame \<Rightarrow> bool" where
  "converted frame fr \<longleftrightarrow> (\<exists>d fmt st. fr = frame\<lparr>f_data := d, f_format := fmt, f_stride := st\<rparr>)"

lemma converted_refl [simp]: "converted frame frame"
  unfolding converted_def by (rule exI[of _ "f_data frame"], rule exI[of _ "f_format frame"], rule exI[of _ "f_stride frame"]) simp

lemma convertedI: "fr = frame\<lparr>f_data := d, f_format := fmt, f_stride := st\<rparr> \<Longrightarrow> converted frame fr"
  unfolding converted_def by blast

lemma converted_step:
  assumes "converted frame fr"
  shows "converted frame (fr\<lparr>f_data := d\<rparr>)" "converted frame (fr\<lparr>f_format := fmt\<rparr>)" "converted frame (fr\<lparr>f_stride := st\<rparr>)"
proof -
  obtain d0 fmt0 st0 where fr: "fr = frame\<lparr>f_data := d0, f_format := fmt0, f_stride := st0\<rparr>"
    using assms unfolding converted_def by blast
  show "converted frame (fr\<lparr>f_data := d\<rparr>)" by (rule convertedI[where d = d and fmt = fmt0 and st = st0]) (simp add: fr)
  show "converted frame (fr\<lparr>f_format := fmt\<rparr>)" by (rule convertedI[where d = d0 and fmt = fmt and st = st0]) (simp add: fr)
  show "converted frame (fr\<lparr>f_stride := st\<rparr>)" by (rule convertedI[where d = d0 and fmt = fmt0 and st = st]) (simp add: fr)
qed

lemmas converted_simps [simp] = converted_step[OF converted_refl] converted_step[OF converted_step(1)[OF converted_refl]]
  converted_step[OF converted_step(2)[OF converted_step(1)[OF converted_refl]]]

lemma converted_D: "converted frame fr \<Longrightarrow> f_width fr = f_width frame \<and> f_height fr = f_height frame \<and>
    f_modifier fr = f_modifier frame \<and> f_dma_buf_fd fr = f_dma_buf_fd frame \<and> f_fb_id fr = f_fb_id frame \<and> f_priv fr = f_priv frame"
  by (auto simp: converted_def)

lemma width4: "drmtap_validate_fb_dims w h = 0 \<Longrightarrow> unat (w * 4) = 4 * unat w"
  by (auto simp: validate_dims_ok unat_word_ariths)

section \<open>Reduction\<close>

lemma reduce_ok:
  assumes ok: "ctx_ok f c" and data: "data_ok c data frame" "data = Some s"
    and run: "reduce_linear_to_xrgb8888 pow env data frame c = (r, fr, c')"
  shows "pstep f c c' \<and> converted frame fr \<and> (r \<noteq> 1 \<longrightarrow> fr = frame) \<and> (r = 0 \<longrightarrow> c' = c) \<and> r \<le> 1 \<and>
    (r = 1 \<longrightarrow> in_out fr c' \<and> reduced pow c data frame fr c')"
proof -
  note run' = run[unfolded reduce_linear_to_xrgb8888_def Let_def]
  show ?thesis
  proof (cases "\<not> is_ar30 (f_format frame) \<and> \<not> is_rgb16 (f_format frame) \<and> \<not> is_rgb16f (f_format frame)")
    case True
    then show ?thesis using run' pstep_refl[OF ok] by auto
  next
    case False
    let ?n = "unat (f_width frame) * unat (f_height frame) * 4"
    obtain b out c1 where eo: "drmtap_ensure_out env ?n c = (b, out, c1)" by (metis surj_pair)
    note E = ensure_out_step[OF ok eo]
    note run1 = run'[unfolded if_not_P[OF False] eo prod.case]
    show ?thesis
    proof (cases "b = 0")
      case b: False
      then show ?thesis using run1 E by auto
    next
      case b: True
      then have nb: "\<not> b \<noteq> 0" by simp
      obtain d where d: "out = Some d" "out_buf c1 = Some d" "d \<notin> live_maps c1" "pixel_buf c1 \<noteq> Some d" "holds c1 d ?n"
        using E b by blast
      have p1: "pstep f c c1" and ok1: "ctx_ok f c1" using E by (simp_all add: pstep_def)
      have meta: "cur_hdr_eotf c1 = cur_hdr_eotf c" "cur_hdr_max_nits c1 = cur_hdr_max_nits c"
        using p1 out_only_D by (simp_all add: pstep_def)
      obtain cd where cd: "mem c1 d = Some cd" "?n \<le> length cd" using d(5) by (auto simp: holds_def split: option.splits)
      have data1: "data_ok c1 data frame" by (rule data_ok_step[OF p1 data(1)])
      then obtain cs where cs: "mem c1 s = Some cs" "unat (f_stride frame) * unat (f_height frame) \<le> length cs" "s \<noteq> d"
        using data(2) d(3,4) by (auto simp: data_ok_def holds_def split: option.splits)
      have vd: "drmtap_validate_fb_dims (f_width frame) (f_height frame) = 0" "unat (f_stride frame) * unat (f_height frame) \<le> 132710400"
        using data1 by (auto simp: data_ok_def validate_size_ok)
      let ?conv = "reduce_conv pow (cur_hdr_eotf c1) (cur_hdr_max_nits c1) data out frame"
      have into: "conv_into ?conv d (mem c1)" unfolding data(2) d(1)
        by (rule reduce_into[OF cs(1) _ _ cd cs(3) vd(1)]) (use cs(2) vd(2) in \<open>simp_all add: mult.commute\<close>)
      obtain ret c2 where rc: "run_conv ?conv c1 = (ret, c2)" by fastforce
      note R = run_conv_step[OF ok1 cd(1) d(3,4) into rc]
      note run2 = run1[unfolded if_not_P[OF nb] rc prod.case]
      have p2: "pstep f c c2" using pstep_trans[OF p1] R by blast
      show ?thesis
      proof (cases "ret = 0")
        case False
        then have "r = ret \<and> fr = frame \<and> c' = c2" using run2 by auto
        then show ?thesis using p2 R False by auto
      next
        case True
        then have e: "r = 1" "c' = c2" "fr = frame\<lparr>f_data := out, f_format := DRMTAP_FMT_XR24, f_stride := f_width frame * 4\<rparr>"
          using run2 by auto
        have "live_maps c2 = live_maps c1" using R out_only_D by (simp add: pstep_def)
        then have "in_out fr c2" using d cd(2) R width4[OF vd(1)] by (simp add: in_out_def e mult_ac)
        moreover have "agrees c (mem c1)" using p1 by (simp add: pstep_def)
        then have "reduced pow c data frame fr c2" using R True by (auto simp: reduced_def e meta)
        ultimately show ?thesis using p2 e by simp
      qed
    qed
  qed
qed

section \<open>Detiling on the GPU\<close>

lemma thread_ok_tables: "thread_ok f (c\<lparr>egl := st\<lparr>g_displays := ds, g_procs_ok := k\<rparr>\<rparr>) = thread_ok f (c\<lparr>egl := st\<rparr>)"
  by (simp add: thread_ok_def gl_ok_def live_ok_def owned_def base_objs_def shape_ok_def prov_def)

lemma available_step:
  assumes ok: "ctx_ok f c" and run: "drmtap_gpu_egl_available env c = (a, c')"
  shows "pstep f c c' \<and> (skip_sync c \<longrightarrow> skip_sync c')"
proof -
  let ?g = "v_gl env (tick c)" and ?c = "step_clock c"
  let ?tab = "\<lambda>st. \<exists>ds k. st = (egl c)\<lparr>g_displays := ds, g_procs_ok := k\<rparr>"
  let ?st = "if g_procs_ok (egl c) < 0 then (egl c)\<lparr>g_procs_ok := if g_load_procs ?g < 0 then 0 else 1\<rparr> else egl c"
  have refl: "?tab (egl c)" by (rule exI[of _ "g_displays (egl c)"], rule exI[of _ "g_procs_ok (egl c)"]) simp
  have procs: "?tab ((egl c)\<lparr>g_procs_ok := k\<rparr>)" for k by (rule exI[of _ "g_displays (egl c)"], rule exI[of _ k]) simp
  have tab: "?tab ?st"
  proof (cases "g_procs_ok (egl c) < 0")
    case True
    show ?thesis unfolding if_P[OF True] by (rule procs)
  next
    case False
    show ?thesis unfolding if_not_P[OF False] by (rule refl)
  qed
  have same: "?c = ?c\<lparr>egl := egl c\<rparr>" by (simp add: step_clock_def)
  have sc: "egl ?c = egl c" "device_path ?c = device_path c" by (simp_all add: step_clock_def)
  note run' = run[unfolded drmtap_gpu_egl_available_def Let_def sc]
  have "\<exists>st. c' = ?c\<lparr>egl := st\<rparr> \<and> ?tab st"
  proof (cases "g_no_egl ?g")
    case True
    then have "c' = ?c" using run' by simp
    then show ?thesis using same refl by metis
  next
    case no: False
    note run1 = run'[unfolded if_not_P[OF no]]
    show ?thesis
    proof (cases "g_procs_ok ?st = 0")
      case True
      then have "c' = ?c\<lparr>egl := ?st\<rparr>" using run1 unfolding if_P[OF True] by blast
      then show ?thesis using tab by blast
    next
      case False
      obtain d st where ds: "egl_display_for_ctx ?g (device_path c) ?st = (d, st)" by fastforce
      have c': "c' = ?c\<lparr>egl := st\<rparr>" using run1 unfolding if_not_P[OF False] ds prod.case by blast
      obtain ds where "st = ?st\<lparr>g_displays := ds\<rparr>" using display_only[OF ds] by blast
      moreover obtain ds0 k where "?st = (egl c)\<lparr>g_displays := ds0, g_procs_ok := k\<rparr>" using tab by blast
      ultimately have "st = (egl c)\<lparr>g_displays := ds, g_procs_ok := k\<rparr>" by (simp only: egl_state.update_convs) simp
      then have "?tab st" by blast
      then show ?thesis using c' by blast
    qed
  qed
  then obtain ds k where c': "c' = step_clock c\<lparr>egl := (egl c)\<lparr>g_displays := ds, g_procs_ok := k\<rparr>\<rparr>" by blast
  have only: "egl_only c c'" unfolding c' step_clock_def by (rule egl_onlyI) simp
  note i = egl_only_inv[OF only]
  have "thread_ok f c'" using ok thread_ok_tables[where c = "step_clock c" and st = "egl c"]
    by (simp add: c' ctx_ok_def thread_ok_def step_clock_def)
  then have "pstep f c c'" using egl_out_only[OF only] ok i by (simp add: pstep_def ctx_ok_def agrees_def)
  moreover have "skip_sync c' = skip_sync c" using i by (simp add: skip_sync_def hash_sync_def c' step_clock_def)
  ultimately show ?thesis by simp
qed

text \<open>The GPU can only have run on a real descriptor, where EGL was not switched off.\<close>

definition gpu_ran :: "env \<Rightarrow> drmtap_frame \<Rightarrow> bool" where
  "gpu_ran env frame \<longleftrightarrow> 0 \<le> f_dma_buf_fd frame \<and> (\<exists>t. \<not> g_no_egl (v_gl env t))"

lemma available_on: "drmtap_gpu_egl_available env c = (True, c') \<Longrightarrow> \<not> g_no_egl (v_gl env (tick c))"
  by (auto simp: drmtap_gpu_egl_available_def Let_def)

lemma egl_attempt_ok:
  assumes ok: "ctx_ok f c" and dims: "drmtap_validate_fb_dims (f_width frame) (f_height frame) = 0"
    and run: "egl_attempt env frame c = (res, c')"
  shows "pstep f c c' \<and> (\<forall>r fr. res = Some (r, fr) \<longrightarrow> converted frame fr \<and> r \<le> 0 \<and> (r \<noteq> 0 \<longrightarrow> fr = frame) \<and>
    (r = 0 \<longrightarrow> in_out fr c' \<and> gpu_ran env frame \<and> (skip_sync c \<longrightarrow> from_gpu frame fr c')))"
proof -
  obtain a1 c1 where av1: "drmtap_gpu_egl_available env c = (a1, c1)" by fastforce
  obtain go c2 where av2: "(if 0 \<le> f_dma_buf_fd frame then drmtap_gpu_egl_available env c1 else (False, c1)) = (go, c2)" by fastforce
  note A1 = available_step[OF ok av1]
  have ok1: "ctx_ok f c1" using A1 by (simp add: pstep_def)
  have A2: "pstep f c1 c2 \<and> (skip_sync c1 \<longrightarrow> skip_sync c2) \<and> (go \<longrightarrow> gpu_ran env frame)"
    using available_step[OF ok1, of env go c2] available_on[of env c1 c2] av2 pstep_refl[OF ok1]
    by (cases "0 \<le> f_dma_buf_fd frame") (auto simp: gpu_ran_def)
  have p2: "pstep f c c2" "skip_sync c \<longrightarrow> skip_sync c2" using A1 A2 pstep_trans by blast+
  note run1 = run[unfolded egl_attempt_def av1 prod.case av2]
  show ?thesis
  proof (cases go)
    case False
    then have "res = None \<and> c' = c2" using run1 by simp
    then show ?thesis using p2 by simp
  next
    case True
    then have n: "\<not> \<not> go" by simp
    let ?w = "f_width frame" and ?h = "f_height frame"
    obtain ret out c3 where ec: "egl_convert_impl env (f_dma_buf_fd frame) ?w ?h (f_stride frame)
        (f_format frame) (f_modifier frame) (f_fb_id frame) c2 = ((ret, out), c3)" by (metis surj_pair)
    have ok2: "thread_ok f c2" "fresh_ok c2" "buf_inv c2" using p2 by (simp_all add: pstep_def ctx_ok_def)
    note P = convert_ok[OF ok2, of ?w ?h env "f_dma_buf_fd frame" "f_stride frame" "f_format frame" "f_modifier frame" "f_fb_id frame",
        unfolded ec convert_post_def prod.case]
    have "agrees c2 (mem c3)" by (rule agrees_frame[OF ok2(2,3)]) (use P in blast)
    then have "pstep f c2 c3" using P by (simp add: pstep_def ctx_ok_def)
    then have p3: "pstep f c c3" by (rule pstep_trans[OF p2(1)])
    note run2 = run1[unfolded if_not_P[OF n] ec prod.case]
    show ?thesis
    proof (cases "ret = 0")
      case False
      then have "out = None \<and> ret < 0" using P by blast
      then show ?thesis using run2 False p3 by (auto split: if_splits)
    next
      case ret: True
      obtain p where p: "out = Some (Some p, unat ?w * unat ?h * 4)" "out_buf c3 = Some p" "p \<notin> live_maps c3"
        "holds c3 p (unat ?w * unat ?h * 4)" "skip_sync c2 \<longrightarrow> pixels_in c3 p (unat ?w) (unat ?h)"
        using P ret by blast
      have e: "res = Some (0, frame\<lparr>f_data := Some p, f_format := DRM_FORMAT_XRGB8888, f_stride := ?w * 4\<rparr>)" "c' = c3"
        using run2 p(1) ret by auto
      have "DRM_FORMAT_XRGB8888 = DRMTAP_FMT_XR24" by (simp add: DRM_FORMAT_XRGB8888_def DRMTAP_FMT_XR24_def)
      then show ?thesis using p p2 p3 A2 True width4[OF dims] by (simp add: e in_out_def from_gpu_def mult_ac)
    qed
  qed
qed

section \<open>Decoding on the CPU\<close>

lemma deswizzle_row:
  "drmtap_deswizzle (Some s) (Some d) w h ss ds m n hp = Some (0, hp') \<Longrightarrow> 4 * unat w \<le> unat ds"
  by (auto simp: drmtap_deswizzle_def Let_def row_fits_iff errno_defs split: if_splits)

lemma cpu_detile_ok:
  assumes ok: "ctx_ok f c" and data: "data_ok c data frame" "data = Some s"
    and run: "cpu_detile pow env data frame c = (r, fr, c')"
  shows "pstep f c c' \<and> converted frame fr \<and> r \<le> 0 \<and> (r = 0 \<longrightarrow> in_out fr c' \<and> decoded pow c data frame fr c')"
proof -
  let ?w = "f_width frame" and ?h = "f_height frame" and ?S = "f_stride frame" and ?fmt = "f_format frame"
  let ?n = "unat ?S * unat ?h"
  obtain b out c1 where eo: "drmtap_ensure_out env ?n c = (b, out, c1)" by (metis surj_pair)
  note E = ensure_out_step[OF ok eo]
  note run1 = run[unfolded cpu_detile_def Let_def eo prod.case]
  have p1: "pstep f c c1" and ok1: "ctx_ok f c1" using E by (simp_all add: pstep_def)
  show ?thesis
  proof (cases "b = 0")
    case False
    then show ?thesis using run1 E by auto
  next
    case b: True
    then have nb: "\<not> b \<noteq> 0" by simp
    obtain d where d: "out = Some d" "out_buf c1 = Some d" "d \<notin> live_maps c1" "pixel_buf c1 \<noteq> Some d" "holds c1 d ?n"
      using E b by blast
    note run2 = run1[unfolded if_not_P[OF nb]]
    show ?thesis
    proof (cases "drmtap_gpu_intel_match (driver_name c) \<or> drmtap_gpu_nvidia_match (driver_name c) \<or> drmtap_gpu_amd_match (driver_name c)")
      case False
      have "(- ENOTSUP, frame, c1) = (r, fr, c')" using run2 unfolding if_not_P[OF False] .
      then show ?thesis using p1 by (auto simp: errno_defs)
    next
      case drv: True
      obtain cd where cd: "mem c1 d = Some cd" "?n \<le> length cd" using d(5) by (auto simp: holds_def split: option.splits)
      have data1: "data_ok c1 data frame" by (rule data_ok_step[OF p1 data(1)])
      then obtain cs where cs: "mem c1 s = Some cs" "?n \<le> length cs" "s \<noteq> d"
        using data(2) d(3,4) by (auto simp: data_ok_def holds_def split: option.splits)
      have nz: "?w \<noteq> 0" "?h \<noteq> 0" and le: "?n \<le> 132710400" using data1 by (auto simp: data_ok_def validate_size_ok validate_dims_ok)
      have n: "unat ?h * unat ?S \<le> length cs" "unat ?h * unat ?S \<le> length cd" "unat ?h * unat ?S \<le> 2 ^ 32"
        using cs cd le by (simp_all add: mult.commute)
      let ?conv = "drmtap_deswizzle data out ?w ?h ?S ?S (f_modifier frame) (of_nat ?n)"
      have into: "conv_into ?conv d (mem c1)" unfolding data(2) d(1)
        by (rule deswizzle_into[OF cs(1) n(1) cd(1) cs(3) n(2,3)])
      obtain ret c2 where rc: "run_conv ?conv c1 = (ret, c2)" by fastforce
      note R = run_conv_step[OF ok1 cd(1) d(3,4) into rc]
      note run3 = run2[unfolded if_P[OF drv] rc prod.case]
      have p2: "pstep f c c2" and ok2: "ctx_ok f c2" using pstep_trans[OF p1] R by (blast, simp add: pstep_def)
      show ?thesis
      proof (cases "ret = 0")
        case False
        have "(ret, frame, c2) = (r, fr, c')" using run3 False by simp
        then show ?thesis using p2 R False by auto
      next
        case ret: True
        then have nr: "\<not> ret \<noteq> 0" by simp
        have hp: "?conv (mem c1) = Some (0, mem c2)" "agrees c (mem c1)" "mem c1 (the out) \<noteq> None" using R ret p1 cd(1) d(1) by (auto simp: pstep_def)
        have row: "4 * unat ?w \<le> unat ?S" using deswizzle_row hp(1) unfolding data(2) d(1) by blast
        have lm: "live_maps c2 = live_maps c1" "pixel_buf c2 = pixel_buf c1" using R out_only_D by (simp_all add: pstep_def)
        have meta: "cur_hdr_eotf c2 = cur_hdr_eotf c" "cur_hdr_max_nits c2 = cur_hdr_max_nits c"
          using p2 out_only_D by (simp_all add: pstep_def)
        have hold2: "holds c2 d ?n" "out_buf c2 = Some d" using R d by simp_all
        note run4 = run3[unfolded if_not_P[OF nr]]
        show ?thesis
        proof (cases "is_ar30 ?fmt")
          case False
          have e: "r = 0" "fr = frame\<lparr>f_data := out\<rparr>" "c' = c2" using run4 unfolding if_not_P[OF False] by auto
          have "in_out fr c2" using hold2 lm d row by (simp add: in_out_def e)
          moreover have "decoded pow c data frame fr c2" using hp False by (auto simp: decoded_def e)
          ultimately show ?thesis using p2 by (simp add: e)
        next
          case ar: True
          obtain cd2 where cd2: "mem c2 = (mem c1)(d \<mapsto> cd2)" "length cd2 = length cd" using R by blast
          let ?conv2 = "ar30_conv pow (cur_hdr_eotf c2) (cur_hdr_max_nits c2) out out ?w ?h ?S ?S ?fmt"
          have m2: "mem c2 d = Some cd2" using cd2 by simp
          have n2: "unat ?h * unat ?S \<le> length cd2" using n(2) cd2(2) by simp
          have into2: "conv_into ?conv2 d (mem c2)" unfolding d(1)
            using ar30_into[where hp = "mem c2" and s = d and d = d, OF m2 n2 n(3) m2 n2 n(3) row nz disjI2[OF refl] ar] .
          obtain r3 c3 where rc2: "run_conv ?conv2 c2 = (r3, c3)" by fastforce
          have d2: "d \<notin> live_maps c2" "pixel_buf c2 \<noteq> Some d" using d lm by simp_all
          note R2 = run_conv_step[OF ok2 m2 d2 into2 rc2]
          have p3: "pstep f c c3" using pstep_trans[OF p2] R2 by blast
          note run5 = run4[unfolded if_P[OF ar] rc2 prod.case]
          show ?thesis
          proof (cases "r3 = 0")
            case False
            have "(r3, frame\<lparr>f_data := out\<rparr>, c3) = (r, fr, c')" using run5 False by simp
            then show ?thesis using p3 R2 False by auto
          next
            case True
            have e: "r = 0" "fr = frame\<lparr>f_data := out, f_format := DRMTAP_FMT_XR24\<rparr>" "c' = c3" using run5 True by auto
            have "live_maps c3 = live_maps c2" using R2 out_only_D by (simp add: pstep_def)
            then have "in_out fr c3" using hold2 d2 d(1) row R2 by (simp add: in_out_def e)
            moreover have "decoded pow c data frame fr c3" using hp ar R2 True by (auto simp: decoded_def e meta)
            ultimately show ?thesis using p3 by (simp add: e)
          qed
        qed
      qed
    qed
  qed
qed

section \<open>The whole pipeline\<close>

lemma reduced_from: "pstep f a c \<Longrightarrow> reduced pow c data frame fr c' \<Longrightarrow> reduced pow a data frame fr c'"
  unfolding pstep_def reduced_def agrees_def using out_only_D[of a c] by auto

lemma decoded_from: "pstep f a c \<Longrightarrow> decoded pow c data frame fr c' \<Longrightarrow> decoded pow a data frame fr c'"
  unfolding pstep_def decoded_def agrees_def using out_only_D[of a c] by auto metis+

definition eight_bit :: "u32 \<Rightarrow> bool" where
  "eight_bit fmt \<longleftrightarrow> \<not> is_ar30 fmt \<and> \<not> is_rgb16 fmt \<and> \<not> is_rgb16f fmt"

definition unmodified :: "u64 \<Rightarrow> bool" where
  "unmodified m \<longleftrightarrow> m = DRM_FORMAT_MOD_LINEAR \<or> m = DRM_FORMAT_MOD_INVALID"

text \<open>The scanout's own bytes, handed on as they are.\<close>

definition passed :: "obj option \<Rightarrow> drmtap_frame \<Rightarrow> drmtap_frame \<Rightarrow> bool" where
  "passed data frame fr \<longleftrightarrow> fr = frame \<and> (data = None \<and> f_dma_buf_fd frame < 0 \<or>
    unmodified (f_modifier frame) \<and> (data \<noteq> None \<longrightarrow> eight_bit (f_format frame)))"

definition proc_post ::
  "(rat \<Rightarrow> rat \<Rightarrow> rat) \<Rightarrow> env \<Rightarrow> nat \<Rightarrow> ctx \<Rightarrow> obj option \<Rightarrow> drmtap_frame \<Rightarrow> bool \<Rightarrow> int \<times> drmtap_frame \<times> ctx \<Rightarrow> bool" where
  "proc_post pow env f c data frame force res \<longleftrightarrow> (case res of (r, fr, c') \<Rightarrow>
    pstep f c c' \<and> converted frame fr \<and> r \<le> 0 \<and>
    (r = 0 \<longrightarrow> \<not> force \<and> passed data frame fr \<or>
      in_out fr c' \<and> (gpu_ran env frame \<and> (skip_sync c \<longrightarrow> from_gpu frame fr c') \<or>
        data \<noteq> None \<and> \<not> force \<and> (if unmodified (f_modifier frame) then reduced pow c data frame fr c'
          else decoded pow c data frame fr c'))))"

lemma reduce_eight: "reduce_linear_to_xrgb8888 pow env data frame c = (0, fr, c') \<Longrightarrow> ctx_ok f c \<Longrightarrow> data_ok c data frame \<Longrightarrow>
    data = Some s \<Longrightarrow> eight_bit (f_format frame)"
  by (auto simp: reduce_linear_to_xrgb8888_def eight_bit_def Let_def split: prod.splits if_splits)

lemma process_ok:
  assumes ok: "ctx_ok f c" and data: "data_ok c data frame"
  shows "proc_post pow env f c data frame force (gpu_auto_process pow env data frame force c)"
proof -
  let ?m = "f_modifier frame" and ?fd = "f_dma_buf_fd frame"
  have dims: "drmtap_validate_fb_dims (f_width frame) (f_height frame) = 0" using data by (simp add: data_ok_def)
  note run = gpu_auto_process_def[of pow env data frame force c, unfolded Let_def]
  show ?thesis
  proof (cases "data = None \<and> \<not> force \<and> ?fd < 0")
    case True
    show ?thesis unfolding run if_P[OF True] using pstep_refl[OF ok] True by (simp add: proc_post_def passed_def)
  next
    case False
    note run1 = run[unfolded if_not_P[OF False]]
    obtain lin c1 where l: "(if ?m = DRM_FORMAT_MOD_LINEAR then (True, c) else if ?m = DRM_FORMAT_MOD_INVALID
        then (case drmtap_gpu_egl_available env c of (a, c) \<Rightarrow> (\<not> a, c)) else (False, c)) = (lin, c1)" by fastforce
    have L: "pstep f c c1 \<and> (skip_sync c \<longrightarrow> skip_sync c1) \<and> (lin \<longrightarrow> unmodified ?m) \<and> (?m = DRM_FORMAT_MOD_LINEAR \<longrightarrow> lin)"
      using l available_step[OF ok, of env] pstep_refl[OF ok]
      by (auto simp: unmodified_def split: if_splits prod.splits)
    then have ok1: "ctx_ok f c1" and data1: "data_ok c1 data frame" using data_ok_step[OF _ data] by (auto simp: pstep_def)
    note run2 = run1[unfolded l prod.case]
    let ?go = "data \<noteq> None \<and> lin \<and> \<not> force"
    obtain red fr2 c2 where rd: "(if ?go then reduce_linear_to_xrgb8888 pow env data frame c1 else (0, frame, c1)) = (red, fr2, c2)"
      by (metis prod_cases3)
    have R: "pstep f c1 c2 \<and> converted frame fr2 \<and> (red \<noteq> 1 \<longrightarrow> fr2 = frame) \<and> (red = 0 \<longrightarrow> c2 = c1) \<and> red \<le> 1 \<and>
        (red = 1 \<longrightarrow> ?go \<and> in_out fr2 c2 \<and> reduced pow c1 data frame fr2 c2) \<and> (?go \<longrightarrow> red = 0 \<longrightarrow> eight_bit (f_format frame))"
    proof (cases ?go)
      case True
      then obtain s where s: "data = Some s" by blast
      have rr: "reduce_linear_to_xrgb8888 pow env data frame c1 = (red, fr2, c2)" using rd unfolding if_P[OF True] .
      show ?thesis using reduce_ok[OF ok1 data1 s rr] reduce_eight[OF _ ok1 data1 s] rr True by auto
    next
      case False
      then show ?thesis using rd pstep_refl[OF ok1] unfolding if_not_P[OF False] by auto
    qed
    have p2: "pstep f c c2" using pstep_trans L R by blast
    note run3 = run2[unfolded rd prod.case]
    show ?thesis
    proof (cases "red < 0")
      case True
      show ?thesis unfolding run3 if_P[OF True] using p2 R True by (simp add: proc_post_def)
    next
      case red: False
      note run4 = run3[unfolded if_not_P[OF red]]
      show ?thesis
      proof (cases "red = 1 \<or> lin \<and> \<not> force")
        case True
        have r01: "red = 1 \<or> red = 0" using red R by auto
        have "\<not> force \<and> passed data frame fr2 \<or> in_out fr2 c2 \<and> data \<noteq> None \<and> \<not> force \<and> unmodified ?m \<and> reduced pow c data frame fr2 c2"
        proof (cases "red = 1")
          case True
          then show ?thesis using R L reduced_from[of f c c1] by blast
        next
          case no: False
          then have "red = 0" "lin" "\<not> force" "fr2 = frame" using r01 True R by auto
          then show ?thesis using R L by (auto simp: passed_def)
        qed
        then show ?thesis unfolding run4 if_P[OF True] using p2 R by (auto simp: proc_post_def)
      next
        case go: False
        have e2: "fr2 = frame" "c2 = c1" using go red R by auto
        note run5 = run4[unfolded if_not_P[OF go] e2]
        obtain res c3 where at: "egl_attempt env frame c1 = (res, c3)" by fastforce
        note A = egl_attempt_ok[OF ok1 dims at]
        have p3: "pstep f c c3" using pstep_trans L A by blast
        note run6 = run5[unfolded at prod.case]
        show ?thesis
        proof (cases res)
          case (Some x)
          obtain r fr where x: "x = (r, fr)" by fastforce
          have "gpu_auto_process pow env data frame force c = (r, fr, c3)" unfolding run6 Some x by simp
          then show ?thesis using p3 A L Some x by (auto simp: proc_post_def)
        next
          case None
          note run7 = run6[unfolded None option.case]
          show ?thesis
          proof (cases "force \<or> data = None")
            case True
            show ?thesis unfolding run7 if_P[OF True] using p3 by (simp add: proc_post_def errno_defs)
          next
            case f: False
            then obtain s where s: "data = Some s" "\<not> force" by blast
            have ok3: "ctx_ok f c3" and data3: "data_ok c3 data frame" using p3 data_ok_step[OF p3 data] by (auto simp: pstep_def)
            note run8 = run7[unfolded if_not_P[OF f]]
            show ?thesis
            proof (cases "?m = DRM_FORMAT_MOD_INVALID")
              case True
              obtain red fr c4 where rd: "reduce_linear_to_xrgb8888 pow env data frame c3 = (red, fr, c4)" by (metis prod_cases3)
              note R = reduce_ok[OF ok3 data3 s(1) rd]
              have p4: "pstep f c c4" using pstep_trans[OF p3] R by blast
              have "red = 0 \<Longrightarrow> passed data frame fr" using R reduce_eight[OF _ ok3 data3 s(1), of pow env fr c4] rd True
                by (auto simp: passed_def unmodified_def)
              moreover have "red = 1 \<Longrightarrow> reduced pow c data frame fr c4" using R reduced_from[OF p3] by blast
              moreover have "red < 0 \<or> red = 0 \<or> red = 1" using R by linarith
              moreover have "unmodified ?m" using True by (simp add: unmodified_def)
              moreover have "gpu_auto_process pow env data frame force c = (if red < 0 then red else 0, fr, c4)"
                unfolding run8 if_P[OF True] rd by simp
              ultimately show ?thesis using p4 R s by (auto simp: proc_post_def)
            next
              case m: False
              obtain r fr c4 where cd: "cpu_detile pow env data frame c3 = (r, fr, c4)" by (metis prod_cases3)
              note C = cpu_detile_ok[OF ok3 data3 s(1) cd]
              have p4: "pstep f c c4" using pstep_trans[OF p3] C by blast
              have "\<not> unmodified ?m" using m go s L by (auto simp: unmodified_def)
              moreover have "gpu_auto_process pow env data frame force c = (r, fr, c4)" unfolding run8 if_not_P[OF m] cd ..
              ultimately show ?thesis using p4 C s decoded_from[OF p3] by (auto simp: proc_post_def)
            qed
          qed
        qed
      qed
    qed
  qed
qed

section \<open>Properties\<close>

lemma deswizzle_refused:
  assumes "w \<noteq> 0" "h \<noteq> 0" "\<not> cpu_decodable m"
  shows "drmtap_deswizzle (Some s) (Some d) w h ss ds m n hp = Some (- ENOTSUP, hp)"
  using assms by (auto simp: drmtap_deswizzle_def cpu_decodable_def Let_def errno_defs
    DRM_FORMAT_MOD_LINEAR_def DRM_FORMAT_MOD_INVALID_def DRM_FORMAT_MOD_VENDOR_INTEL_def DRM_FORMAT_MOD_VENDOR_NVIDIA_def)


definition wit_frame :: drmtap_frame where
  "wit_frame = zero_frame\<lparr>f_width := 8, f_height := 2, f_stride := 32, f_format := DRMTAP_FMT_XR24, f_dma_buf_fd := 3\<rparr>"

lemma wit_ctx_ok: "ctx_ok 0 wit_ctx"
  using wit_thread wit_ctx_fresh by (simp add: ctx_ok_def)

lemma wit_dims: "drmtap_validate_fb_dims 8 2 = 0" "validate_fb_size 32 2 = 0"
  by (simp_all add: validate_dims_ok validate_size_ok)


text \<open>
  C9. Without a GPU, a layout the CPU cannot decode is an error. When EGL is switched off and the
  modifier is outside LINEAR, INVALID and the Intel X, Y and Yf tilings, gpu_auto_process
  returns a negative errno, whatever the driver, and never the compressed or tiled bytes.
\<close>

theorem process_fails_closed:
  assumes "ctx_ok f c" "data_ok c data frame" "data = Some s"
    and "\<And>t. g_no_egl (v_gl env t)" "\<not> cpu_decodable (f_modifier frame)"
  shows "fst (gpu_auto_process pow env data frame force c) < 0"
proof -
  obtain r fr c' where run: "gpu_auto_process pow env data frame force c = (r, fr, c')" by (metis prod_cases3)
  have post: "proc_post pow env f c data frame force (r, fr, c')" using process_ok[OF assms(1,2)] run by metis
  have "\<not> unmodified (f_modifier frame)" using assms(5) by (auto simp: cpu_decodable_def unmodified_def)
  moreover have "\<not> gpu_ran env frame" using assms(4) by (simp add: gpu_ran_def)
  moreover have "\<not> decoded pow c data frame fr c'"
  proof
    assume d: "decoded pow c data frame fr c'"
    have dims: "f_width frame \<noteq> 0" "f_height frame \<noteq> 0" using assms(2) by (auto simp: data_ok_def validate_dims_ok)
    obtain hp hp' where "drmtap_deswizzle data (f_data fr) (f_width frame) (f_height frame) (f_stride frame) (f_stride frame)
        (f_modifier frame) (of_nat (unat (f_stride frame) * unat (f_height frame))) hp = Some (0, hp')"
      using d unfolding decoded_def by blast
    then show False using deswizzle_refused[OF dims assms(5)] by (auto simp: assms(3) errno_defs drmtap_deswizzle_def split: option.splits)
  qed
  ultimately have "r \<noteq> 0" using post assms(3) by (auto simp: proc_post_def passed_def)
  then show ?thesis using post by (simp add: run proc_post_def)
qed

text \<open>A context with one mapping, object 1, and a caller's buffer, object 2; and a kernel without EGL.\<close>

definition wit_mapped :: "byte list \<Rightarrow> byte list \<Rightarrow> ctx" where
  "wit_mapped src dst = wit_ctx\<lparr>mem := [1 \<mapsto> src, 2 \<mapsto> dst], next_obj := 3, live_maps := {1}, user_out := Some 2,
    user_out_len := length dst\<rparr>"

definition wit_cpu_env :: env where
  "wit_cpu_env = wit_env\<lparr>v_gl := \<lambda>t. wit_gl\<lparr>g_no_egl := True\<rparr>\<rparr>"

lemma wit_mapped_ok: "ctx_ok 0 (wit_mapped src dst)"
proof -
  have "thread_ok 0 (wit_mapped src dst)" using wit_thread(1) by (simp add: thread_ok_def wit_mapped_def)
  then show ?thesis by (auto simp: ctx_ok_def wit_mapped_def wit_ctx_def fresh_ok_def buf_inv_def holds_def)
qed

lemma wit_no_egl [simp]: "g_no_egl (v_gl wit_cpu_env t)"
  by (simp add: wit_cpu_env_def)

theorem process_fails_closed_witness:
  "fst (gpu_auto_process (\<lambda>x y. x) wit_cpu_env (Some 1) (wit_frame\<lparr>f_modifier := 0x010000000000000f\<rparr>) False
    (wit_mapped (replicate 64 1) [])) < 0"
proof (rule process_fails_closed[OF wit_mapped_ok _ refl])
  show "data_ok (wit_mapped (replicate 64 1) []) (Some 1) (wit_frame\<lparr>f_modifier := 0x010000000000000f\<rparr>)"
    using wit_dims by (simp add: data_ok_def wit_frame_def wit_mapped_def holds_def)
qed (simp_all add: mtl_ccs_not_decodable)

lemma attempt_off:
  assumes "\<And>t. g_no_egl (v_gl env t)"
  shows "\<exists>t. egl_attempt env frame c = (None, c\<lparr>tick := t\<rparr>)"
proof -
  have "drmtap_gpu_egl_available env c = (False, step_clock c)" for c :: ctx
    by (simp add: drmtap_gpu_egl_available_def assms Let_def)
  then show ?thesis by (simp add: egl_attempt_def step_clock_def) blast
qed

text \<open>
  C8. An Intel X-tiled scanout comes out as the picture it holds. With no EGL, on i915 or xe, and
  an output buffer set that holds the rows, gpu_auto_process returns 0 for a mapped XRGB8888-class
  scanout whose pixels a driver laid out in X tiles, and the frame then points at the output
  buffer, which holds the image pixel for pixel at the frame's stride; between and after the rows
  it is unchanged.
\<close>

theorem process_detiles_x:
  assumes ok: "ctx_ok f c" "data_ok c (Some s) frame" and off: "\<And>t. g_no_egl (v_gl env t)"
    and drv: "drmtap_gpu_intel_match (driver_name c)"
    and out: "user_out c = Some d" "unat (f_stride frame) * unat (f_height frame) \<le> user_out_len c"
    and lay: "f_modifier frame = I915_FORMAT_MOD_X_TILED" "\<not> is_ar30 (f_format frame)" "4 * unat (f_width frame) \<le> unat (f_stride frame)"
    and tiles: "unat (f_height frame) \<le> rows * 8"
      "rows * tiles_across 512 (f_stride frame) * 4096 \<le> unat (f_stride frame) * unat (f_height frame)"
    and src: "mem c s = Some (tile_image 512 8 x_in_tile (tiles_across 512 (f_stride frame)) (unat (f_width frame))
      (unat (f_height frame)) img (unat (f_stride frame) * unat (f_height frame)))" "\<And>y x. length (img y x) = 4"
  shows "\<exists>c' cd'. gpu_auto_process pow env (Some s) frame False c = (0, frame\<lparr>f_data := Some d\<rparr>, c') \<and> mem c' d = Some cd' \<and>
    framed (the (mem c d)) cd' (unat (f_width frame)) (unat (f_height frame)) (unat (f_stride frame)) img"
proof -
  let ?w = "f_width frame" and ?h = "f_height frame" and ?S = "f_stride frame"
  let ?n = "unat ?S * unat ?h"
  have nz: "?w \<noteq> 0" "?h \<noteq> 0" and le: "0 < ?n" "?n \<le> 132710400" and s: "s \<in> live_maps c \<or> pixel_buf c = Some s"
    using ok(2) by (auto simp: data_ok_def validate_dims_ok validate_size_ok unat_gt_0)
  have "1 \<le> unat ?h" using nz(2) by (simp add: Suc_le_eq unat_gt_0)
  from mult_le_mono2[OF this, of "unat ?S"] have "unat ?S \<le> 132710400" using le(2) by linarith
  then have S: "unat ?S + 511 < 2 ^ 32" by simp
  obtain cd where cd: "mem c d = Some cd" "user_out_len c \<le> length cd" "s \<noteq> d"
    using ok(1) out(1) s by (auto simp: ctx_ok_def buf_inv_def holds_def split: option.splits)
  have u: "unat (of_nat ?n :: u64) = ?n" using le(2) by (simp add: unat_of_nat del: of_nat_mult)
  have b: "unat ?h * unat ?S \<le> length cd" "unat ?h * unat ?S \<le> 2 ^ 32" "?n \<le> 2 ^ 32"
    using le(2) out(2) cd(2) by (simp_all add: mult.commute)
  have src': "mem c s = Some (tile_image 512 8 x_in_tile (tiles_across 512 ?S) (unat ?w) (unat ?h) img (unat (of_nat ?n :: u64)))"
    "rows * tiles_across 512 ?S * 4096 \<le> unat (of_nat ?n :: u64)" "unat (of_nat ?n :: u64) \<le> 2 ^ 32"
    unfolding u by (fact src(1) tiles(2) b(3))+
  from x_decodes[OF src'(1) cd(1,3) b(1,2) nz lay(3,3) S tiles(1) src'(2,3) src(2)]
  obtain cd' where dec: "drmtap_deswizzle (Some s) (Some d) ?w ?h ?S ?S I915_FORMAT_MOD_X_TILED (of_nat ?n) (mem c)
      = Some (0, (mem c)(d \<mapsto> cd'))" and fr: "framed cd cd' (unat ?w) (unat ?h) (unat ?S) img" unfolding u by blast
  obtain t where at: "egl_attempt env frame c = (None, c\<lparr>tick := t\<rparr>)" using attempt_off[OF off] by blast
  let ?c = "c\<lparr>tick := t, out_gen := out_gen c + 1\<rparr>"
  have eo: "drmtap_ensure_out env ?n (c\<lparr>tick := t\<rparr>) = (0, Some d, ?c)"
    using le out by (simp add: drmtap_ensure_out_def)
  have rc: "run_conv (drmtap_deswizzle (Some s) (Some d) ?w ?h ?S ?S (f_modifier frame) (of_nat ?n)) ?c
      = (0, ?c\<lparr>mem := (mem c)(d \<mapsto> cd')\<rparr>)"
  proof -
    have "mem ?c = mem c" by simp
    then show ?thesis unfolding run_conv_def lay(1) by (simp only: dec option.case prod.case)
  qed
  have m: "I915_FORMAT_MOD_X_TILED \<noteq> DRM_FORMAT_MOD_LINEAR" "I915_FORMAT_MOD_X_TILED \<noteq> DRM_FORMAT_MOD_INVALID"
    by (simp_all add: I915_FORMAT_MOD_X_TILED_def DRM_FORMAT_MOD_LINEAR_def DRM_FORMAT_MOD_INVALID_def)
  have "cpu_detile pow env (Some s) frame (c\<lparr>tick := t\<rparr>) = (0, frame\<lparr>f_data := Some d\<rparr>, ?c\<lparr>mem := (mem c)(d \<mapsto> cd')\<rparr>)"
    unfolding cpu_detile_def Let_def eo prod.case rc using drv lay(2) by simp
  then have "gpu_auto_process pow env (Some s) frame False c = (0, frame\<lparr>f_data := Some d\<rparr>, ?c\<lparr>mem := (mem c)(d \<mapsto> cd')\<rparr>)"
    by (simp add: gpu_auto_process_def Let_def lay(1) m at)
  then show ?thesis using fr cd(1) by (intro exI[of _ "?c\<lparr>mem := (mem c)(d \<mapsto> cd')\<rparr>"] exI[of _ cd']) simp
qed

theorem process_detiles_x_witness:
  "\<exists>c' cd'. gpu_auto_process (\<lambda>x y. x) wit_cpu_env (Some 1)
      (wit_frame\<lparr>f_width := 1, f_height := 8, f_stride := 512, f_modifier := I915_FORMAT_MOD_X_TILED\<rparr>) False
      (wit_mapped (tile_image 512 8 x_in_tile 1 1 8 (\<lambda>y x. [1, 2, 3, 4]) 4096) (replicate 4096 0))
    = (0, wit_frame\<lparr>f_width := 1, f_height := 8, f_stride := 512, f_modifier := I915_FORMAT_MOD_X_TILED, f_data := Some 2\<rparr>, c') \<and>
    mem c' 2 = Some cd' \<and> framed (replicate 4096 0) cd' 1 8 512 (\<lambda>y x. [1, 2, 3, 4])"
proof -
  let ?fr = "wit_frame\<lparr>f_width := 1, f_height := 8, f_stride := 512, f_modifier := I915_FORMAT_MOD_X_TILED\<rparr>"
  let ?src = "tile_image 512 8 x_in_tile 1 1 8 (\<lambda>y x. [1, 2, 3, 4]) 4096"
  let ?c = "wit_mapped ?src (replicate 4096 0)"
  have len: "length ?src = 4096" by (simp add: tile_image_def pixels_def upt_rec tile_addr_def x_in_tile_def)
  have d: "data_ok ?c (Some 1) ?fr"
    using len by (simp add: data_ok_def wit_frame_def wit_mapped_def holds_def validate_dims_ok validate_size_ok)
  have "drmtap_gpu_intel_match (driver_name ?c)" by (simp add: wit_mapped_def wit_ctx_def drmtap_gpu_intel_match_def)
  note T = process_detiles_x[OF wit_mapped_ok d wit_no_egl this, of 2 1 "\<lambda>y x. [1, 2, 3, 4]" "\<lambda>x y. x"]
  have "\<exists>c' cd'. gpu_auto_process (\<lambda>x y. x) wit_cpu_env (Some 1) ?fr False ?c = (0, ?fr\<lparr>f_data := Some 2\<rparr>, c') \<and> mem c' 2 = Some cd' \<and>
    framed (the (mem ?c 2)) cd' (unat (f_width ?fr)) (unat (f_height ?fr)) (unat (f_stride ?fr)) (\<lambda>y x. [1, 2, 3, 4])"
    by (rule T) (simp_all add: wit_mapped_def wit_frame_def tiles_across_def is_ar30_def fmt_defs)
  moreover have "the (mem ?c 2) = replicate 4096 0" "unat (f_width ?fr) = 1" "unat (f_height ?fr) = 8" "unat (f_stride ?fr) = 512"
    by (simp_all add: wit_mapped_def)
  ultimately show ?thesis by (simp only:)
qed

end
