(* ===== verification/Ledger.thy ===== *)
theory Ledger
  imports Grab ProcessOk
begin

text \<open>
  The ledger of what a call holds. The predicate owes states what a context holds
  beyond a starting point - mappings, descriptors, GEM handles, private records, open CPU-access
  windows - and every system call moves it by one entry; a failed grab ends with an empty ledger,
  a successful one with exactly the entries its frame releases.
\<close>

section \<open>Steps that move no resource\<close>

definition core where
  "core c = (mem c, next_obj c, live_maps c, live_fds c, next_fd c, live_gems c, next_gem c, live_privs c, windows c,
    faults c, self c, egl c, helper_fd c, user_out c, user_out_len c, deswizzle_buf c, deswizzle_buf_size c, out_gen c,
    pixel_buf c, pixel_buf_size c, driver_name c, device_path c, fast_slots c, fast_initialized (c :: ctx))"

definition mstep :: "ctx \<Rightarrow> ctx \<Rightarrow> bool" where
  "mstep c c' \<longleftrightarrow> core c' = core c \<and> (memo_ok c \<longrightarrow> memo_ok c')"

lemma mstep_refl [simp]: "mstep c c"
  by (simp add: mstep_def)

lemma mstep_trans: "mstep a b \<Longrightarrow> mstep b c \<Longrightarrow> mstep a c"
  by (simp add: mstep_def)

lemma mstep_upd [simp]:
  "mstep c (step_clock c)" "mstep c (c\<lparr>crtc_id := x\<rparr>)" "mstep c (c\<lparr>cur_hdr_eotf := e, cur_hdr_max_nits := n\<rparr>)"
  "mstep c (c\<lparr>grab_plane_id := x\<rparr>)" "mstep c (c\<lparr>atomic_cap_tried := b\<rparr>)" "mstep c (cache_planes fb2 c)"
  by (simp_all add: mstep_def core_def memo_ok_def step_clock_def cache_planes_def)

lemma mstep_find: "find_primary_plane env c = (p, c') \<Longrightarrow> mstep c c'"
  by (auto simp: find_primary_plane_def find_primary_plane_at_def select_first_active_crtc_def Let_def mstep_def core_def
    memo_ok_def step_clock_def split: option.splits if_splits prod.splits)

lemma mstep_hdr: "mstep c (read_hdr_for_current_crtc env c)"
  by (simp add: read_hdr_for_current_crtc_def read_hdr_metadata_direct_def mstep_def core_def memo_ok_def step_clock_def
    split: prod.split)

lemma mstep_rect: "read_primary_plane_rect env c = (r, c') \<Longrightarrow> mstep c c'"
proof -
  let ?c = "if atomic_cap_tried c then c else step_clock (c\<lparr>atomic_cap_tried := True\<rparr>)"
  have 1: "mstep c ?c" by (simp add: mstep_trans[OF mstep_upd(5) mstep_upd(1)])
  obtain p c1 where f: "find_primary_plane env ?c = (p, c1)" by fastforce
  assume "read_primary_plane_rect env c = (r, c')"
  then have "c' = c1" by (auto simp: read_primary_plane_rect_def Let_def f split: sum.splits if_splits prod.splits)
  then show ?thesis using mstep_trans[OF 1 mstep_find[OF f]] by simp
qed

lemma mstep_width:
  assumes "drmtap_scanout_width env w m c = (x, c')"
  shows "mstep c c' \<and> (memo_ok c \<longrightarrow> width_ok w m x)"
proof -
  have core: "core c' = core c"
  proof (cases "crtc_id c = 0 \<or> (\<exists>e. km_crtc (v_kms env (tick c)) (crtc_id c) = Inl e)")
    case True
    moreover have "crtc_id (step_clock c) = crtc_id c" by (simp add: step_clock_def)
    ultimately have "c' = c \<or> c' = step_clock c" using assms by (auto simp: drmtap_scanout_width_def Let_def split: if_splits)
    then show ?thesis using mstep_upd(1) by (auto simp: mstep_def)
  next
    case False
    then obtain crtc where k: "km_crtc (v_kms env (tick c)) (crtc_id (step_clock c)) = Inr crtc" "crtc_id c \<noteq> 0"
      by (cases "km_crtc (v_kms env (tick c)) (crtc_id c)") (auto simp: step_clock_def)
    obtain rect c1 where rd: "read_primary_plane_rect env (step_clock c) = (rect, c1)" by fastforce
    have "core c1 = core c" using mstep_rect[OF rd] mstep_upd(1)[of c] by (simp add: mstep_def)
    moreover have "core (step_clock c) = core c" using mstep_upd(1)[of c] by (simp add: mstep_def)
    moreover obtain out why where "drmtap_scanout_width_of w (Some rect) (layout_linear m) = (out, why)" by fastforce
    moreover from this have "c' = step_clock c \<or> c' = c1\<lparr>sw_key_crtc := crtc_id c1, sw_key_hdisplay := ucast (md_hdisplay (cr_mode crtc)),
        sw_key_fb_width := w, sw_key_modifier := m, sw_cached_width := out, sw_cached := True\<rparr>"
      using assms k by (auto simp: drmtap_scanout_width_def Let_def rd split: if_splits)
    moreover have "core (c1\<lparr>sw_key_crtc := a1, sw_key_hdisplay := a2, sw_key_fb_width := a3, sw_key_modifier := a4,
        sw_cached_width := a5, sw_cached := a6\<rparr>) = core c1" for a1 a2 a3 a4 a5 a6 by (simp add: core_def)
    ultimately show ?thesis by metis
  qed
  then show ?thesis using scanout_width_narrows[of c w m env] assms by (auto simp: mstep_def)
qed

section \<open>The ledger\<close>

definition own_fds :: "ctx \<Rightarrow> int set" where
  "own_fds c = live_fds c - {helper_fd c}"

definition owes :: "ctx \<Rightarrow> obj set \<Rightarrow> int set \<Rightarrow> nat set \<Rightarrow> nat \<Rightarrow> (int \<Rightarrow> nat) \<Rightarrow> ctx \<Rightarrow> bool" where
  "owes c0 M F G P W c \<longleftrightarrow>
    live_maps c = live_maps c0 \<union> M \<and> M \<inter> live_maps c0 = {} \<and> own_fds c = own_fds c0 \<union> F \<and> F \<inter> own_fds c0 = {} \<and>
    live_gems c = live_gems c0 \<union> G \<and> G \<inter> live_gems c0 = {} \<and> live_privs c = live_privs c0 + P \<and>
    windows c = (\<lambda>fd. windows c0 fd + W fd) \<and> faults c = faults c0"

definition clean :: "ctx \<Rightarrow> ctx \<Rightarrow> bool" where
  "clean c0 c \<longleftrightarrow> owes c0 {} {} {} 0 (\<lambda>_. 0) c"

definition gctx_ok :: "nat \<Rightarrow> ctx \<Rightarrow> bool" where
  "gctx_ok f c \<longleftrightarrow> ctx_ok f c \<and> conn_ok c \<and> memo_ok c"

lemma clean_refl [simp]: "clean c c"
  by (simp add: clean_def owes_def)

lemma core_D:
  assumes "core c' = core c"
  shows "mem c' = mem c" "next_obj c' = next_obj c" "live_maps c' = live_maps c" "live_fds c' = live_fds c"
    "next_fd c' = next_fd c" "live_gems c' = live_gems c" "next_gem c' = next_gem c" "live_privs c' = live_privs c"
    "windows c' = windows c" "faults c' = faults c" "self c' = self c" "egl c' = egl c" "helper_fd c' = helper_fd c"
    "user_out c' = user_out c" "user_out_len c' = user_out_len c" "deswizzle_buf c' = deswizzle_buf c"
    "deswizzle_buf_size c' = deswizzle_buf_size c" "out_gen c' = out_gen c" "pixel_buf c' = pixel_buf c"
    "pixel_buf_size c' = pixel_buf_size c" "driver_name c' = driver_name c" "fast_slots c' = fast_slots c"
    "fast_initialized c' = fast_initialized c"
  using assms by (simp_all add: core_def)

lemma core_ok: "core c' = core c \<Longrightarrow> ctx_ok f c \<Longrightarrow> ctx_ok f c'"
  using core_D[of c' c] by (simp add: ctx_ok_def thread_ok_def fresh_ok_def buf_inv_def holds_def)

lemma mstep_ok: "mstep c c' \<Longrightarrow> gctx_ok f c \<Longrightarrow> gctx_ok f c'"
  using core_ok[of c' c f] core_D[of c' c] by (auto simp: gctx_ok_def mstep_def conn_ok_def ctx_ok_def)

lemma mstep_owes: "mstep c c' \<Longrightarrow> owes c0 M F G P W c \<Longrightarrow> owes c0 M F G P W c'"
  using core_D[of c' c] by (simp add: owes_def mstep_def own_fds_def)

lemma memo_cong: "sw_cached c' = sw_cached c \<Longrightarrow> sw_key_fb_width c' = sw_key_fb_width c \<Longrightarrow>
    sw_key_modifier c' = sw_key_modifier c \<Longrightarrow> sw_cached_width c' = sw_cached_width c \<Longrightarrow> memo_ok c' = memo_ok c"
  by (simp add: memo_ok_def)

lemma pstep_ok: "pstep f c c' \<Longrightarrow> gctx_ok f c \<Longrightarrow> gctx_ok f c'"
proof -
  assume p: "pstep f c c'" and ok: "gctx_ok f c"
  then obtain t st m n g b k where c': "c' = c\<lparr>tick := t, egl := st, mem := m, next_obj := n, out_gen := g, deswizzle_buf := b,
      deswizzle_buf_size := k\<rparr>" unfolding pstep_def out_only_def by blast
  have "ctx_ok f c'" using p by (simp add: pstep_def)
  then show ?thesis using ok by (simp add: gctx_ok_def conn_ok_def ctx_ok_def c' memo_ok_def)
qed

lemma pstep_owes: "pstep f c c' \<Longrightarrow> owes c0 M F G P W c \<Longrightarrow> owes c0 M F G P W c'"
  unfolding pstep_def using out_only_D[of c c'] by (simp add: owes_def own_fds_def)

section \<open>System calls\<close>

lemma more_D:
  fixes c c' :: ctx
  assumes "world.more c' = world.more c"
  shows "egl c' = egl c" "self c' = self c" "helper_fd c' = helper_fd c" "user_out c' = user_out c" "user_out_len c' = user_out_len c"
    "deswizzle_buf c' = deswizzle_buf c" "deswizzle_buf_size c' = deswizzle_buf_size c" "pixel_buf c' = pixel_buf c"
    "pixel_buf_size c' = pixel_buf_size c" "memo_ok c' = memo_ok c" "fast_slots c' = fast_slots c"
  using assms by (cases c, cases c', simp add: memo_ok_def)+

text \<open>A call that keeps every live block outside the mappings, and the helper's socket.\<close>

lemma world_ok:
  assumes ok: "gctx_ok f c" and fr: "fresh_ok c'" and more: "world.more c' = world.more c"
    and mem: "\<And>q. mem c q \<noteq> None \<Longrightarrow> q \<notin> live_maps c \<Longrightarrow> mem c' q = mem c q \<and> q \<notin> live_maps c'"
    and sock: "0 \<le> helper_fd c \<Longrightarrow> helper_fd c \<in> live_fds c'"
  shows "gctx_ok f c'"
proof -
  note m = more_D[OF more]
  have h: "holds c' q n \<and> q \<notin> live_maps c'" if "holds c q n" "q \<notin> live_maps c" for q n
  proof -
    note hq = that(1)
    obtain bs where "mem c q = Some bs" "n \<le> length bs" using hq by (auto simp: holds_def split: option.splits)
    then show ?thesis using mem[of q] that(2) by (simp add: holds_def)
  qed
  have "buf_inv c'" using ok h unfolding gctx_ok_def ctx_ok_def buf_inv_def m by blast
  moreover have "thread_ok f c'" using ok by (simp add: gctx_ok_def ctx_ok_def thread_ok_def m)
  moreover have "conn_ok c'" using fr sock by (simp add: conn_ok_def m)
  ultimately show ?thesis using ok fr by (simp add: gctx_ok_def ctx_ok_def m)
qed

lemma gctx_fresh: "gctx_ok f c \<Longrightarrow> fresh_ok c" "gctx_ok f c \<Longrightarrow> 0 \<le> helper_fd c \<Longrightarrow> helper_fd c \<in> live_fds c"
  by (simp_all add: gctx_ok_def ctx_ok_def conn_ok_def)

lemma prime_step:
  assumes ok: "gctx_ok f c" and ow: "owes c0 M F G P W c" and run: "sys_prime env h c = (Inr fd, c')"
  shows "gctx_ok f c' \<and> owes c0 M (insert fd F) G P W c' \<and> fd \<notin> F \<and> 0 \<le> fd \<and> W fd = 0"
proof -
  have c': "fd = next_fd c" "c' = step_clock (c\<lparr>live_fds := insert (next_fd c) (live_fds c), next_fd := next_fd c + 1\<rparr>)"
    using run by (auto simp: sys_prime_def sys_mint_fd_def split: option.splits)
  have fr: "fresh_ok c'" using fresh_prime[OF gctx_fresh(1)[OF ok], of env h] by (simp add: run)
  have new: "fd \<notin> live_fds c" "0 \<le> fd" "windows c fd = 0" "fd \<noteq> helper_fd c"
    using gctx_fresh[OF ok] by (auto simp: fresh_ok_def c'(1))
  have "gctx_ok f c'" by (rule world_ok[OF ok fr]) (use gctx_fresh(2)[OF ok] in \<open>auto simp: c' step_clock_def\<close>)
  moreover have "fd \<notin> own_fds c" using new by (simp add: own_fds_def)
  moreover have "own_fds c' = insert fd (own_fds c)" using new by (auto simp: own_fds_def c' step_clock_def)
  ultimately show ?thesis using ow new by (auto simp: owes_def c' step_clock_def)
qed

lemma prime_fail: "sys_prime env h c = (Inl e, c') \<Longrightarrow> c' = step_clock c \<and> v_prime env (tick c) h = Some e"
  by (auto simp: sys_prime_def sys_mint_fd_def split: option.splits)

lemma close_step:
  assumes ok: "gctx_ok f c" and ow: "owes c0 M F G P W c" and fd: "fd \<in> F"
  shows "gctx_ok f (sys_close fd c) \<and> owes c0 M (F - {fd}) G P W (sys_close fd c)"
proof -
  have own: "fd \<in> live_fds c" "fd \<noteq> helper_fd c" "fd \<notin> own_fds c0" using ow fd by (auto simp: owes_def own_fds_def)
  then have c': "sys_close fd c = c\<lparr>live_fds := live_fds c - {fd}\<rparr>" by (simp add: sys_close_def)
  have "gctx_ok f (sys_close fd c)"
    by (rule world_ok[OF ok fresh_close[OF gctx_fresh(1)[OF ok]]]) (use gctx_fresh(2)[OF ok] own in \<open>auto simp: c'\<close>)
  moreover have "own_fds (sys_close fd c) = own_fds c - {fd}" by (auto simp: own_fds_def c')
  ultimately show ?thesis using ow own by (auto simp: owes_def c')
qed

definition gem_set :: "nat \<Rightarrow> nat set" where
  "gem_set h = (if h = 0 then {} else {h})"

lemma gem_step:
  assumes ok: "gctx_ok f c" and ow: "owes c0 M F (gem_set h) P W c"
  shows "gctx_ok f (drmtap_gem_close h c) \<and> owes c0 M F {} P W (drmtap_gem_close h c)"
proof (cases "h = 0")
  case True
  then show ?thesis using assms by (simp add: drmtap_gem_close_def gem_set_def)
next
  case False
  have h: "h \<in> live_gems c" "h \<notin> live_gems c0" using ow False by (auto simp: owes_def gem_set_def)
  then have c': "drmtap_gem_close h c = c\<lparr>live_gems := live_gems c - {h}\<rparr>" using False by (simp add: drmtap_gem_close_def gem_close_def)
  have fr: "fresh_ok (drmtap_gem_close h c)" using fresh_gem_close[OF gctx_fresh(1)[OF ok], of h] False by (simp add: drmtap_gem_close_def)
  have "gctx_ok f (drmtap_gem_close h c)"
    by (rule world_ok[OF ok fr]) (use gctx_fresh(2)[OF ok] in \<open>auto simp: c'\<close>)
  moreover have "live_gems (drmtap_gem_close h c) = live_gems c0" using ow h False by (auto simp: c' owes_def gem_set_def)
  ultimately show ?thesis using ow by (simp add: owes_def c' own_fds_def)
qed

lemma mmap_step:
  assumes ok: "gctx_ok f c" and ow: "owes c0 M F G P W c" and run: "sys_mmap env fd off n c = (Inr p, c')"
  shows "gctx_ok f c' \<and> owes c0 (insert p M) F G P W c' \<and> p \<notin> M \<and> p \<in> live_maps c' \<and> holds c' p n"
proof -
  obtain bs where c': "p = next_obj c" "c' = step_clock (c\<lparr>mem := (mem c)(next_obj c \<mapsto> pad n bs),
      live_maps := insert (next_obj c) (live_maps c), next_obj := Suc (next_obj c)\<rparr>)"
    using run by (auto simp: sys_mmap_def split: sum.splits)
  have fr: "fresh_ok c'" using fresh_mmap[OF gctx_fresh(1)[OF ok], of env fd off n] by (simp add: run)
  have new: "mem c p = None" "p \<notin> live_maps c" using gctx_fresh(1)[OF ok] by (auto simp: fresh_ok_def c'(1))
  have "gctx_ok f c'" by (rule world_ok[OF ok fr]) (use gctx_fresh(2)[OF ok] new in \<open>auto simp: c' step_clock_def\<close>)
  moreover have "live_maps c' = insert p (live_maps c)" "own_fds c' = own_fds c" by (simp_all add: c' step_clock_def own_fds_def)
  moreover have "holds c' p n" by (simp add: c' step_clock_def holds_def)
  ultimately show ?thesis using ow new by (auto simp: owes_def c' step_clock_def)
qed

lemma mmap_fail: "sys_mmap env fd off n c = (Inl e, c') \<Longrightarrow> c' = step_clock c"
  by (auto simp: sys_mmap_def split: sum.splits)

lemma munmap_step:
  assumes ok: "gctx_ok f c" and ow: "owes c0 M F G P W c" and p: "p \<in> M"
  shows "gctx_ok f (sys_munmap p c) \<and> owes c0 (M - {p}) F G P W (sys_munmap p c)"
proof -
  have l: "p \<in> live_maps c" "p \<notin> live_maps c0" using ow p by (auto simp: owes_def)
  then have c': "sys_munmap p c = c\<lparr>live_maps := live_maps c - {p}, mem := (mem c)(p := None)\<rparr>" by (simp add: sys_munmap_def)
  have "gctx_ok f (sys_munmap p c)"
    by (rule world_ok[OF ok fresh_munmap[OF gctx_fresh(1)[OF ok]]]) (use gctx_fresh(2)[OF ok] l in \<open>auto simp: c'\<close>)
  moreover have "live_maps (sys_munmap p c) = live_maps c0 \<union> (M - {p})" using ow l by (auto simp: owes_def c')
  ultimately show ?thesis using ow by (auto simp: owes_def c' own_fds_def)
qed

lemma start_step:
  assumes ok: "gctx_ok f c" and ow: "owes c0 M F G P W c" and run: "dmabuf_sync_start env fd c = (st, c')" and fd: "fd \<in> F"
  shows "gctx_ok f c' \<and> owes c0 M F G P (if st then W(fd := Suc (W fd)) else W) c' \<and> mem c' = mem c \<and> live_maps c' = live_maps c \<and>
    pixel_buf c' = pixel_buf c"
proof -
  have l: "fd \<in> live_fds c" using ow fd by (auto simp: owes_def own_fds_def)
  have c': "c' = step_clock (if st then c\<lparr>windows := (windows c)(fd := Suc (windows c fd))\<rparr> else c)"
    using run by (auto simp: dmabuf_sync_start_def split: if_splits)
  have fr: "fresh_ok c'" using fresh_sync_start[OF gctx_fresh(1)[OF ok], of env fd] by (simp add: run)
  have "gctx_ok f c'" by (rule world_ok[OF ok fr]) (use gctx_fresh(2)[OF ok] in \<open>auto simp: c' step_clock_def\<close>)
  moreover have "owes c0 M F G P (if st then W(fd := Suc (W fd)) else W) c'"
    using ow by (auto simp: owes_def c' step_clock_def own_fds_def fun_eq_iff)
  ultimately show ?thesis by (simp add: c' step_clock_def)
qed

lemma end_step:
  assumes ok: "gctx_ok f c" and ow: "owes c0 M F G P W c" and fd: "fd \<in> F" "0 < W fd"
  shows "gctx_ok f (dmabuf_sync_end fd c) \<and> owes c0 M F G P (W(fd := W fd - 1)) (dmabuf_sync_end fd c)"
proof -
  have l: "fd \<in> live_fds c" "0 < windows c fd" using ow fd by (auto simp: owes_def own_fds_def)
  then have c': "dmabuf_sync_end fd c = c\<lparr>windows := (windows c)(fd := windows c fd - 1)\<rparr>" by (simp add: dmabuf_sync_end_def)
  have "gctx_ok f (dmabuf_sync_end fd c)"
    by (rule world_ok[OF ok fresh_sync_end[OF gctx_fresh(1)[OF ok]]]) (use gctx_fresh(2)[OF ok] in \<open>auto simp: c'\<close>)
  then show ?thesis using ow fd by (auto simp: owes_def c' own_fds_def fun_eq_iff)
qed

lemma calloc_step:
  assumes ok: "gctx_ok f c" and ow: "owes c0 M F G P W c" and run: "calloc_priv env c = (b, c')"
  shows "gctx_ok f c' \<and> owes c0 M F G (if b then Suc P else P) W c' \<and> mem c' = mem c \<and> live_maps c' = live_maps c \<and>
    pixel_buf c' = pixel_buf c"
proof -
  have c': "c' = step_clock (if b then c\<lparr>live_privs := Suc (live_privs c)\<rparr> else c)"
    using run by (auto simp: calloc_priv_def split: if_splits)
  have fr: "fresh_ok c'" using fresh_calloc[OF gctx_fresh(1)[OF ok], of env] by (simp add: run)
  have "gctx_ok f c'" by (rule world_ok[OF ok fr]) (use gctx_fresh(2)[OF ok] in \<open>auto simp: c' step_clock_def\<close>)
  then show ?thesis using ow by (auto simp: owes_def c' step_clock_def own_fds_def)
qed

lemma free_priv_step:
  assumes ok: "gctx_ok f c" and ow: "owes c0 M F G (Suc P) W c"
  shows "gctx_ok f (free_priv c) \<and> owes c0 M F G P W (free_priv c)"
proof -
  have c': "free_priv c = c\<lparr>live_privs := live_privs c - 1\<rparr>" using ow by (auto simp: owes_def free_priv_def)
  have "gctx_ok f (free_priv c)"
    by (rule world_ok[OF ok fresh_free_priv[OF gctx_fresh(1)[OF ok]]]) (use gctx_fresh(2)[OF ok] in \<open>auto simp: c'\<close>)
  then show ?thesis using ow by (auto simp: owes_def c' own_fds_def)
qed

end
