(* ===== verification/GrabOk.thy ===== *)
theory GrabOk
  imports Ledger
begin

text \<open>
  What a grab guarantees (src/drm_grab.c): it owns what it hands out and nothing else. Each part of
  a grab - the framebuffer query, the export here or in the helper, the mapping, the processing,
  every clean-up - moves the ledger of Ledger.thy; a failed grab ends with an empty ledger, a
  successful one with the entries drmtap_frame_release returns, and a mapped one shows an image.
\<close>

section \<open>Handles of the framebuffer query\<close>

lemma gem_close_step:
  assumes ok: "gctx_ok f c" and ow: "owes c0 M F G P W c" and h: "h \<in> G" "h \<noteq> 0"
  shows "gctx_ok f (drmtap_gem_close h c) \<and> owes c0 M F (G - {h}) P W (drmtap_gem_close h c)"
proof -
  have l: "h \<in> live_gems c" "h \<notin> live_gems c0" using ow h by (auto simp: owes_def)
  then have c': "drmtap_gem_close h c = c\<lparr>live_gems := live_gems c - {h}\<rparr>" using h by (simp add: drmtap_gem_close_def gem_close_def)
  have fr: "fresh_ok (drmtap_gem_close h c)" using fresh_gem_close[OF gctx_fresh(1)[OF ok], of h] h by (simp add: drmtap_gem_close_def)
  have "gctx_ok f (drmtap_gem_close h c)"
    by (rule world_ok[OF ok fr]) (use gctx_fresh(2)[OF ok] in \<open>auto simp: c'\<close>)
  moreover have "live_gems (drmtap_gem_close h c) = live_gems c0 \<union> (G - {h})" using ow l by (auto simp: c' owes_def)
  ultimately show ?thesis using ow by (auto simp: owes_def c' own_fds_def)
qed

definition minted :: "nat list \<Rightarrow> nat set" where
  "minted hs = {h \<in> set hs. h \<noteq> 0}"

lemma getfb2_step:
  assumes ok: "gctx_ok f c" and ow: "owes c0 M F {} P W c" and run: "sys_getfb2 env fb_id c = (Inr fb2, c')"
  shows "gctx_ok f c' \<and> owes c0 M F (minted (fb2_handles fb2)) P W c' \<and> length (fb2_handles fb2) = 4"
proof -
  obtain fb where v: "v_fb2 env (tick c) fb_id = Inr fb" using run by (auto simp: sys_getfb2_def split: sum.splits)
  let ?hs = "map (mint_handle (next_gem c)) (take 4 (fb2_handles fb @ [0, 0, 0, 0]))"
  have hs: "fb2_handles fb2 = ?hs" and c': "c' = step_clock (c\<lparr>live_gems := live_gems c \<union> {h \<in> set ?hs. h \<noteq> 0},
      next_gem := Suc (Max (insert (next_gem c) (set ?hs)))\<rparr>)"
    using run v by (auto simp: sys_getfb2_def Let_def)
  have fr: "fresh_ok c'" using fresh_getfb2[OF gctx_fresh(1)[OF ok], of env fb_id] by (simp add: run)
  have g: "gctx_ok f c'" by (rule world_ok[OF ok fr]) (use gctx_fresh(2)[OF ok] in \<open>auto simp: c' step_clock_def\<close>)
  have "next_gem c \<le> h" if "h \<in> minted ?hs" for h using that by (auto simp: minted_def mint_handle_def split: if_splits)
  then have "minted ?hs \<inter> live_gems c = {}" using gctx_fresh(1)[OF ok] by (force simp: fresh_ok_def)
  then have "owes c0 M F (minted ?hs) P W c'"
    using ow by (auto simp: owes_def own_fds_def c' step_clock_def minted_def)
  then show ?thesis using g unfolding hs by simp
qed

lemma aux_step:
  assumes ok: "gctx_ok f c" and ow: "owes c0 M F (minted hs) P W c" and len: "length hs = 4"
  shows "gctx_ok f (close_auxiliary_gem_handles hs c) \<and> owes c0 M F (gem_set (hs ! 0)) P W (close_auxiliary_gem_handles hs c)"
proof -
  define stp where "stp = (\<lambda>p c. let h = hs ! p in if h = 0 \<or> h = hs ! 0 then c
      else if h \<in> set (map (\<lambda>q. hs ! q) [1 ..< p]) then c else drmtap_gem_close h (c :: ctx))"
  let ?G = "\<lambda>k. minted hs - (set (map (\<lambda>q. hs ! q) [1 ..< k]) - {0, hs ! 0})"
  have "k \<le> 4 \<longrightarrow> gctx_ok f (fold stp [1 ..< k] c) \<and> owes c0 M F (?G k) P W (fold stp [1 ..< k] c)" for k
  proof (induction k)
    case 0
    then show ?case using ok ow by simp
  next
    case (Suc k)
    show ?case
    proof (cases "1 \<le> k \<and> Suc k \<le> 4")
      case True
      let ?c = "fold stp [1 ..< k] c"
      have s: "gctx_ok f ?c" "owes c0 M F (?G k) P W ?c" using Suc.IH True by auto
      have e: "[1 ..< Suc k] = [1 ..< k] @ [k]" using True by simp
      have f: "fold stp [1 ..< Suc k] c = stp k ?c" unfolding e fold_append by (simp only: comp_apply fold.simps id_apply)
      show ?thesis
      proof (cases "hs ! k = 0 \<or> hs ! k = hs ! 0 \<or> hs ! k \<in> set (map (\<lambda>q. hs ! q) [1 ..< k])")
        case True
        then have "stp k ?c = ?c" "?G (Suc k) = ?G k" unfolding e stp_def by (auto simp: Let_def)
        then show ?thesis unfolding f using s by simp
      next
        case False
        have "hs ! k \<in> minted hs" using False len True by (simp add: minted_def)
        then have "hs ! k \<in> ?G k" using False by blast
        moreover have nz: "hs ! k \<noteq> 0" using False by simp
        ultimately have "gctx_ok f (drmtap_gem_close (hs ! k) ?c) \<and> owes c0 M F (?G k - {hs ! k}) P W (drmtap_gem_close (hs ! k) ?c)" by (rule gem_close_step[OF s])
        moreover have "?G (Suc k) = ?G k - {hs ! k}" "stp k ?c = drmtap_gem_close (hs ! k) ?c"
          using False unfolding e stp_def by (auto simp: Let_def)
        ultimately show ?thesis unfolding f by simp
      qed
    next
      case False
      then show ?thesis using ok ow by auto
    qed
  qed
  from this[of 4] have "gctx_ok f (close_auxiliary_gem_handles hs c) \<and> owes c0 M F (?G 4) P W (close_auxiliary_gem_handles hs c)"
    unfolding close_auxiliary_gem_handles_def stp_def by blast
  moreover have "?G 4 = gem_set (hs ! 0)"
  proof -
    have "{0 ..< 4} = insert 0 {1 ..< 4 :: nat}" by auto
    moreover have "set hs = (\<lambda>q. hs ! q) ` {0 ..< 4}" using len by (metis map_nth set_map set_upt)
    ultimately have "set hs = insert (hs ! 0) (set (map (\<lambda>q. hs ! q) [1 ..< 4]))" by simp
    then show ?thesis by (auto simp: minted_def gem_set_def)
  qed
  ultimately show ?thesis by simp
qed


section \<open>The receive buffer and the helper\<close>

lemma pixel_step:
  assumes ok: "gctx_ok f c" and ow: "owes c0 M F G P W c"
    and run: "drmtap_ensure_buf env (pixel_buf c) (pixel_buf_size c) n c = (r, b, k, c1)"
  defines "c' \<equiv> c1\<lparr>pixel_buf := b, pixel_buf_size := k\<rparr>"
  shows "gctx_ok f c' \<and> owes c0 M F G P W c' \<and> (r \<noteq> 0 \<longrightarrow> r < 0) \<and> (r = 0 \<longrightarrow> (\<exists>p. b = Some p \<and> holds c' p n))"
proof -
  have fr: "fresh_ok c" and inv: "buf_inv c" using ok by (simp_all add: gctx_ok_def ctx_ok_def)
  have own: "\<forall>p. pixel_buf c = Some p \<longrightarrow> holds c p (pixel_buf_size c) \<and> p \<notin> live_maps c" using inv by (simp add: buf_inv_def)
  note E = ensure_buf_ok[OF fr own run]
  obtain t m x where c1: "c1 = c\<lparr>tick := t, mem := m, next_obj := x\<rparr>" using E(8) by blast
  have keep: "holds c1 q i" if "holds c q i" "Some q \<noteq> pixel_buf c" for q i
    using that E(3) holds_lt[OF fr that(1)] by (simp add: frame_mem_def holds_def)
  have new: "b = Some q \<Longrightarrow> holds c1 q k \<and> q \<notin> live_maps c \<and> (pixel_buf c = Some q \<or> next_obj c \<le> q)" for q
    using E(4)[of q] by (simp add: c1)
  have dz: "holds c1 q (deswizzle_buf_size c) \<and> b \<noteq> Some q" if q: "deswizzle_buf c = Some q" for q
  proof -
    have "holds c q (deswizzle_buf_size c)" "Some q \<noteq> pixel_buf c" using inv q by (auto simp: buf_inv_def)
    then show ?thesis using keep[of q] new[of q] holds_lt[OF fr] by (metis leD)
  qed
  have us: "holds c1 q (user_out_len c) \<and> b \<noteq> Some q" if q: "user_out c = Some q" for q
  proof -
    have "holds c q (user_out_len c)" "Some q \<noteq> pixel_buf c" using inv q unfolding buf_inv_def by (blast, metis)
    then show ?thesis using keep[of q] new[of q] holds_lt[OF fr] by (metis leD)
  qed
  have h: "holds c' q i = holds c1 q i" for q i by (simp add: c'_def holds_def)
  have inv': "deswizzle_buf c = Some p \<Longrightarrow> p \<notin> live_maps c \<and> user_out c \<noteq> Some p" "user_out c = Some p \<Longrightarrow> p \<notin> live_maps c" for p
    using inv by (simp_all add: buf_inv_def)
  have f': "deswizzle_buf c' = deswizzle_buf c" "deswizzle_buf_size c' = deswizzle_buf_size c" "user_out c' = user_out c"
    "user_out_len c' = user_out_len c" "live_maps c' = live_maps c" "pixel_buf c' = b" "pixel_buf_size c' = k"
    by (simp_all add: c'_def c1)
  have "buf_inv c'" unfolding buf_inv_def h f' using dz us new inv' by blast
  moreover have "fresh_ok c'" using E(1) by (simp add: c'_def fresh_ok_def)
  ultimately have "gctx_ok f c'"
    using ok by (simp add: gctx_ok_def ctx_ok_def thread_ok_def conn_ok_def memo_ok_def c'_def c1)
  moreover have "owes c0 M F G P W c'" using ow by (simp add: owes_def own_fds_def c'_def c1)
  moreover have "r \<noteq> 0 \<longrightarrow> r < 0" using E(6) by (auto simp: errno_defs)
  moreover have "\<exists>p. b = Some p \<and> holds c' p n" if r: "r = 0"
  proof -
    obtain p where p: "b = Some p" "n \<le> k" using E(5)[OF r] by blast
    then have "holds c1 p n" using new[OF p(1)] by (auto simp: holds_def split: option.splits)
    then show ?thesis using p by (simp add: h)
  qed
  ultimately show ?thesis by blast
qed

lemma hmask_more:
  assumes "hmask c' = hmask c"
  shows "egl c' = egl c" "self c' = self c" "memo_ok c' = memo_ok c" "driver_name c' = driver_name c"
proof -
  have f: "g (hmask c') = g (hmask c)" for g :: "ctx \<Rightarrow> 'b" using assms by simp
  show "egl c' = egl c" using f[of egl] by (simp add: hmask_def)
  show "self c' = self c" using f[of self] by (simp add: hmask_def)
  show "memo_ok c' = memo_ok c" using f[of memo_ok] by (simp add: hmask_def memo_ok_def)
  show "driver_name c' = driver_name c" using f[of driver_name] by (simp add: hmask_def)
qed

lemma conn_step_ok:
  assumes ok: "gctx_ok f c" and ow: "owes c0 M F G P W c" and st: "conn_step_fd fd c c'" "conn_ok c'"
  shows "gctx_ok f c'" "0 \<le> fd \<Longrightarrow> fd \<notin> F \<and> owes c0 M (insert fd F) G P W c'" "fd < 0 \<Longrightarrow> owes c0 M F G P W c'"
proof -
  have h: "hmask c' = hmask c" and fl: "faults c' = faults c" using st(1) by (simp_all add: conn_step_fd_def)
  note d = hmask_D[OF h] and m = hmask_more[OF h]
  have hold: "holds c' q n = holds c q n" for q n by (simp add: holds_def d)
  have "buf_inv c'" using ok unfolding gctx_ok_def ctx_ok_def buf_inv_def hold d by blast
  then show "gctx_ok f c'" using ok st(2) by (simp add: gctx_ok_def ctx_ok_def thread_ok_def m conn_ok_def)
  show "0 \<le> fd \<Longrightarrow> fd \<notin> F \<and> owes c0 M (insert fd F) G P W c'"
    using st(1) ow by (auto simp: conn_step_fd_def owes_def own_fds_def d fl)
  show "fd < 0 \<Longrightarrow> owes c0 M F G P W c'"
    using st(1) ow by (simp add: conn_step_fd_def owes_def own_fds_def d fl)
qed

text \<open>A request to the helper: at most one new descriptor, and pixels in the receive buffer only.\<close>

lemma helper_step:
  assumes ok: "gctx_ok f c" and ow: "owes c0 M F G P W c" and buf: "pixel_buf c = Some p" "holds c p n"
    and run: "drmtap_helper_grab env (pixel_buf c) n c = ((r, w, fd), c')"
  shows "gctx_ok f c' \<and> owes c0 M (if 0 \<le> fd then insert fd F else F) G P W c' \<and> r \<le> 0 \<and> (r \<noteq> 0 \<longrightarrow> fd < 0) \<and>
    (0 \<le> fd \<longrightarrow> fd \<notin> F) \<and> pixel_buf c' = Some p \<and> holds c' p n \<and>
    (r = 0 \<longrightarrow> (\<exists>w'. w = Some w' \<and> (fd < 0 \<longrightarrow> unat (gw_data_size w') \<le> n)))"
proof -
  have room: "\<forall>k. 0 < k \<longrightarrow> k \<le> n \<longrightarrow> (\<exists>p bs. pixel_buf c = Some p \<and> mem c p = Some bs \<and> k \<le> length bs)"
    using buf by (auto simp: holds_def split: option.splits)
  have "helper_reply_ok (pixel_buf c) n c ((r, w, fd), c')"
    using helper_grab_ok[OF _ room, of env] ok run by (simp add: gctx_ok_def)
  note H = this[unfolded helper_reply_ok_def prod.case]
  obtain c1 where c1: "conn_step_fd fd c c1" "conn_ok c1"
      "c' = c1 \<or> r = 0 \<and> fd = - 1 \<and> (\<exists>p bs px w'. w = Some w' \<and> pixel_buf c = Some p \<and> mem c1 p = Some bs \<and>
        length px = unat (gw_data_size w') \<and> length px \<le> n \<and> 0 < length px \<and>
        c' = c1\<lparr>mem := (mem c1)(p \<mapsto> patch bs 0 px)\<rparr>)"
    using H[THEN conjunct2, THEN conjunct1] by (elim exE conjE) (rule that)
  note r = H[THEN conjunct2, THEN conjunct2, THEN conjunct1] H[THEN conjunct2, THEN conjunct2, THEN conjunct2, THEN conjunct2]
  note st = conn_step_ok[OF ok ow c1(1,2)]
  have hm: "hmask c1 = hmask c" using c1(1) by (simp only: conn_step_fd_def)
  note d = hmask_D(1)[OF hm] hmask_D(12)[OF hm]
  have h1: "holds c1 p n" using buf(2) by (simp add: holds_def d)
  have o1: "owes c0 M (if 0 \<le> fd then insert fd F else F) G P W c1" using st(2,3) by auto
  have "gctx_ok f c' \<and> owes c0 M (if 0 \<le> fd then insert fd F else F) G P W c' \<and> pixel_buf c' = Some p \<and> holds c' p n"
  proof (cases "c' = c1")
    case True
    then show ?thesis using st(1) o1 d(2) buf(1) h1 by simp
  next
    case False
    then obtain q bs px where q: "pixel_buf c = Some q" "mem c1 q = Some bs" "length px \<le> n" "c' = c1\<lparr>mem := (mem c1)(q \<mapsto> patch bs 0 px)\<rparr>"
      using c1(3) by blast
    then have e: "q = p" "n \<le> length bs" using buf(1) h1 by (simp_all add: holds_def)
    then have len: "length (patch bs 0 px) = length bs" using q(3) by simp
    note v = overwrite_inv[OF q(2) len]
    have "gctx_ok f c'" using st(1) v(1,2) by (simp add: gctx_ok_def ctx_ok_def thread_ok_def conn_ok_def memo_ok_def q(4))
    moreover have "owes c0 M (if 0 \<le> fd then insert fd F else F) G P W c'" using o1 by (simp add: owes_def own_fds_def q(4))
    moreover have "holds c' p n" using v(3)[of p n] h1 by (simp add: q(4))
    ultimately show ?thesis using d(2) buf(1) by (simp add: q(4))
  qed
  then show ?thesis using r st(2) by auto
qed


section \<open>The frame's ledger\<close>

definition priv_maps :: "frame_priv \<Rightarrow> obj set" where
  "priv_maps p = (case p_mapped p of None \<Rightarrow> {} | Some q \<Rightarrow> {q})"

definition priv_fds :: "frame_priv \<Rightarrow> int set" where
  "priv_fds p = (if 0 \<le> p_prime_fd p then {p_prime_fd p} else {})"

definition priv_windows :: "frame_priv \<Rightarrow> int \<Rightarrow> nat" where
  "priv_windows p = (\<lambda>fd. if p_sync_started p \<and> fd = p_prime_fd p then 1 else 0)"

definition priv_ok :: "frame_priv \<Rightarrow> bool" where
  "priv_ok p \<longleftrightarrow> p_helper_drm_fd p < 0 \<and> \<not> p_is_heap_buf p \<and> (p_mapped p \<noteq> None \<longrightarrow> p_mapped_size p \<noteq> 0) \<and>
    (p_sync_started p \<longrightarrow> 0 \<le> p_prime_fd p \<and> p_mapped p \<noteq> None)"

text \<open>Beyond c0, the context holds exactly what the frame will release.\<close>

definition frame_ledger :: "ctx \<Rightarrow> drmtap_frame \<Rightarrow> ctx \<Rightarrow> bool" where
  "frame_ledger c0 fr c \<longleftrightarrow> (\<exists>p. f_priv fr = Some p \<and> priv_ok p \<and> f_dma_buf_fd fr = p_prime_fd p \<and>
    owes c0 (priv_maps p) (priv_fds p) (gem_set (p_gem_handle p)) 1 (priv_windows p) c)"

lemma frame_ledger_cong: "f_priv fr' = f_priv fr \<Longrightarrow> f_dma_buf_fd fr' = f_dma_buf_fd fr \<Longrightarrow> frame_ledger c0 fr' c = frame_ledger c0 fr c"
  by (simp add: frame_ledger_def)

lemma unmap_step:
  assumes ok: "gctx_ok f c" and p: "priv_ok p" and ow: "owes c0 (priv_maps p) (priv_fds p) G P (priv_windows p) c"
  shows "gctx_ok f (unmap_priv p c) \<and> owes c0 {} (priv_fds p) G P (\<lambda>_. 0) (unmap_priv p c)"
proof (cases "p_mapped p")
  case None
  then have "priv_windows p = (\<lambda>_. 0)" "priv_maps p = {}" using p by (auto simp: priv_ok_def priv_windows_def priv_maps_def)
  then show ?thesis using ok ow None by (simp add: unmap_priv_def)
next
  case (Some q)
  let ?c = "if p_sync_started p \<and> 0 \<le> p_prime_fd p then dmabuf_sync_end (p_prime_fd p) c else c"
  have u: "unmap_priv p c = sys_munmap q ?c" using Some p by (simp add: unmap_priv_def priv_ok_def)
  have 1: "gctx_ok f ?c \<and> owes c0 {q} (priv_fds p) G P (\<lambda>_. 0) ?c"
  proof (cases "p_sync_started p")
    case True
    then have fd: "p_prime_fd p \<in> priv_fds p" "0 < priv_windows p (p_prime_fd p)" "0 \<le> p_prime_fd p"
      using p by (auto simp: priv_ok_def priv_fds_def priv_windows_def)
    have "(priv_windows p)(p_prime_fd p := priv_windows p (p_prime_fd p) - 1) = (\<lambda>_. 0)" by (auto simp: priv_windows_def)
    then show ?thesis using end_step[OF ok ow fd(1,2)] fd(3) True Some by (simp add: priv_maps_def)
  next
    case False
    then have "priv_windows p = (\<lambda>_. 0)" by (simp add: priv_windows_def)
    then show ?thesis using ok ow False Some by (simp add: priv_maps_def)
  qed
  then show ?thesis using munmap_step[of f ?c c0 "{q}" "priv_fds p" G P "\<lambda>_. 0" q] by (simp add: u)
qed

lemma release_ok:
  assumes ok: "gctx_ok f c" and led: "frame_ledger c0 fr c" and run: "drmtap_frame_release fr c = (fr', c')"
  shows "gctx_ok f c' \<and> clean c0 c' \<and> f_data fr' = None \<and> f_priv fr' = None \<and> f_dma_buf_fd fr' = - 1"
proof -
  obtain p where p: "f_priv fr = Some p" "priv_ok p" "owes c0 (priv_maps p) (priv_fds p) (gem_set (p_gem_handle p)) 1 (priv_windows p) c"
    using led by (auto simp: frame_ledger_def)
  let ?c1 = "unmap_priv p c"
  let ?c2 = "if 0 \<le> p_prime_fd p then sys_close (p_prime_fd p) ?c1 else ?c1"
  note 1 = unmap_step[OF ok p(2,3)]
  have 2: "gctx_ok f ?c2 \<and> owes c0 {} {} (gem_set (p_gem_handle p)) (Suc 0) (\<lambda>_. 0) ?c2"
  proof (cases "0 \<le> p_prime_fd p")
    case True
    then show ?thesis using close_step[of f ?c1 c0 "{}" "priv_fds p" "gem_set (p_gem_handle p)" 1 "\<lambda>_. 0" "p_prime_fd p"] 1
      by (simp add: priv_fds_def)
  next
    case False
    then show ?thesis using 1 by (simp add: priv_fds_def)
  qed
  then have 3: "gctx_ok f (drmtap_gem_close (p_gem_handle p) ?c2) \<and> owes c0 {} {} {} (Suc 0) (\<lambda>_. 0) (drmtap_gem_close (p_gem_handle p) ?c2)"
    using gem_step by blast
  have "c' = free_priv (drmtap_gem_close (p_gem_handle p) ?c2)" "fr' = zero_frame\<lparr>f_dma_buf_fd := - 1\<rparr>"
    using run p(1,2) by (simp_all add: drmtap_frame_release_def Let_def priv_ok_def)
  then show ?thesis using free_priv_step[of f _ c0 "{}" "{}" "{}" 0 "\<lambda>_. 0"] 3 by (simp add: clean_def zero_frame_def)
qed

lemma grab_cleanup_ok:
  assumes ok: "gctx_ok f c" and ow: "owes c0 {} (if 0 \<le> fd then {fd} else {}) (gem_set gem) (if has then 1 else 0) (\<lambda>_. 0) c"
    and run: "grab_cleanup fd gem has ret fr c = (r, fr', c')"
  shows "gctx_ok f c' \<and> clean c0 c' \<and> r = ret"
proof -
  let ?c1 = "if 0 \<le> fd then sys_close fd c else c"
  have 1: "gctx_ok f ?c1 \<and> owes c0 {} {} (gem_set gem) (if has then 1 else 0) (\<lambda>_. 0) ?c1"
    using close_step[OF ok ow, of fd] ok ow by (cases "0 \<le> fd") simp_all
  then have 2: "gctx_ok f (drmtap_gem_close gem ?c1) \<and> owes c0 {} {} {} (if has then 1 else 0) (\<lambda>_. 0) (drmtap_gem_close gem ?c1)"
    using gem_step by blast
  have e: "r = ret" "c' = (if has then free_priv (drmtap_gem_close gem ?c1) else drmtap_gem_close gem ?c1)"
    using run by (simp_all add: grab_cleanup_def Let_def)
  then show ?thesis using 2 free_priv_step[of f "drmtap_gem_close gem ?c1" c0 "{}" "{}" "{}" 0 "\<lambda>_. 0"]
    by (cases has) (simp_all add: clean_def)
qed

section \<open>Processing a grabbed frame\<close>

text \<open>The pixels shown are an image in the output buffer, or the scanout's own where it is linear.\<close>

definition shown :: "drmtap_frame \<Rightarrow> ctx \<Rightarrow> bool" where
  "shown fr c \<longleftrightarrow> in_out fr c \<or> unmodified (f_modifier fr) \<and> (case f_data fr of
      Some q \<Rightarrow> holds c q (unat (f_stride fr) * unat (f_height fr)) \<and> eight_bit (f_format fr)
    | None \<Rightarrow> 0 \<le> f_dma_buf_fd fr \<and> (\<exists>p. f_priv fr = Some p \<and> p_used_dumb_map p \<and> p_gem_handle p = 0))"

definition grab_post :: "nat \<Rightarrow> ctx \<Rightarrow> bool \<Rightarrow> int \<times> drmtap_frame \<times> ctx \<Rightarrow> bool" where
  "grab_post f c0 do_mmap res \<longleftrightarrow> (case res of (r, fr, c) \<Rightarrow>
    gctx_ok f c \<and> r \<le> 0 \<and> (r \<noteq> 0 \<longrightarrow> clean c0 c) \<and>
    (r = 0 \<longrightarrow> frame_ledger c0 fr c \<and> drmtap_validate_fb_dims (f_width fr) (f_height fr) = 0 \<and> (do_mmap \<longrightarrow> shown fr c)))"

lemma grab_post_fail: "gctx_ok f c \<Longrightarrow> clean c0 c \<Longrightarrow> r < 0 \<Longrightarrow> grab_post f c0 m (r, fr, c)"
  by (simp add: grab_post_def)

lemma plane_upd: "gctx_ok f (c\<lparr>grab_plane_id := x\<rparr>) = gctx_ok f c" "frame_ledger c0 fr (c\<lparr>grab_plane_id := x\<rparr>) = frame_ledger c0 fr c"
    "shown fr (c\<lparr>grab_plane_id := x\<rparr>) = shown fr c"
proof -
  have h: "holds (c\<lparr>grab_plane_id := x\<rparr>) = holds c" by (intro ext) (simp add: holds_def)
  show "gctx_ok f (c\<lparr>grab_plane_id := x\<rparr>) = gctx_ok f c" "frame_ledger c0 fr (c\<lparr>grab_plane_id := x\<rparr>) = frame_ledger c0 fr c"
    by (simp_all add: h gctx_ok_def ctx_ok_def thread_ok_def fresh_ok_def buf_inv_def conn_ok_def memo_ok_def
      frame_ledger_def owes_def own_fds_def)
  show "shown fr (c\<lparr>grab_plane_id := x\<rparr>) = shown fr c" unfolding shown_def in_out_def out_buf_def h by simp
qed

lemma finish_ok:
  assumes ok: "gctx_ok f c" and led: "frame_ledger c0 frame c" and data: "data_ok c data frame" "data = f_data frame"
    and none: "data = None \<longrightarrow> 0 \<le> f_dma_buf_fd frame \<and> (\<exists>p. f_priv frame = Some p \<and> p_used_dumb_map p \<and> p_gem_handle p = 0)"
  shows "grab_post f c0 True (grab_finish plane (gpu_auto_process pow env data frame force c))"
proof -
  obtain r fr c1 where run: "gpu_auto_process pow env data frame force c = (r, fr, c1)" by (metis prod_cases3)
  have ctx: "ctx_ok f c" using ok by (simp add: gctx_ok_def)
  note P = process_ok[OF ctx data(1), of pow env force, unfolded run proc_post_def prod.case]
  have p1: "pstep f c c1" and cv: "converted frame fr" using P by blast+
  have ok1: "gctx_ok f c1" by (rule pstep_ok[OF p1 ok])
  note cd = converted_D[OF cv]
  have "frame_ledger c0 frame c1" using led pstep_owes[OF p1] unfolding frame_ledger_def by blast
  then have led1: "frame_ledger c0 fr c1" using cd by (simp add: frame_ledger_def)
  show ?thesis
  proof (cases "r = 0")
    case False
    obtain fr2 c2 where rel: "drmtap_frame_release fr c1 = (fr2, c2)" by fastforce
    have e: "grab_finish plane (r, fr, c1) = (r, fr2, c2)" using False rel by (simp add: grab_finish_def)
    show ?thesis unfolding run e
      by (rule grab_post_fail) (use release_ok[OF ok1 led1 rel] P False in auto)
  next
    case True
    have "shown fr c1"
    proof (cases "in_out fr c1")
      case no: False
      then have pa: "passed data frame fr" using P True by blast
      then have fr: "fr = frame" "unmodified (f_modifier frame)" "data \<noteq> None \<longrightarrow> eight_bit (f_format frame)"
        using none by (auto simp: passed_def)
      have "data_ok c1 data frame" by (rule data_ok_step[OF p1 data(1)])
      then show ?thesis using fr none data(2) by (auto simp: shown_def data_ok_def split: option.split)
    qed (simp add: shown_def)
    moreover have "drmtap_validate_fb_dims (f_width fr) (f_height fr) = 0" using data(1) cd by (simp add: data_ok_def)
    moreover have "grab_finish plane (r, fr, c1) = (0, fr, c1\<lparr>grab_plane_id := plane\<rparr>)" using True by (simp add: grab_finish_def)
    ultimately show ?thesis unfolding run using ok1 led1 by (simp add: grab_post_def plane_upd)
  qed
qed

text \<open>Without a mapping, a failure leaves the frame without pixels.\<close>

lemma process_unmapped:
  assumes ok: "ctx_ok f c" and data: "data_ok c None frame" and run: "gpu_auto_process pow env None frame False c = (r, fr, c')" and "r \<noteq> 0"
  shows "fr = frame"
proof (cases "f_dma_buf_fd frame < 0")
  case True
  then show ?thesis using run by (simp add: gpu_auto_process_def)
next
  case False
  let ?m = "f_modifier frame"
  have dims: "drmtap_validate_fb_dims (f_width frame) (f_height frame) = 0" using data by (simp add: data_ok_def)
  note run1 = run[unfolded gpu_auto_process_def Let_def, simplified, unfolded if_not_P[OF False]]
  obtain lin c1 where l: "(if ?m = DRM_FORMAT_MOD_LINEAR then (True, c) else if ?m = DRM_FORMAT_MOD_INVALID
      then (case drmtap_gpu_egl_available env c of (a, c) \<Rightarrow> (\<not> a, c)) else (False, c)) = (lin, c1)" by fastforce
  have L: "pstep f c c1"
    using l available_step[OF ok, of env] pstep_refl[OF ok] by (auto split: if_splits prod.splits)
  obtain res c3 where at: "egl_attempt env frame c1 = (res, c3)" by fastforce
  have ok1: "ctx_ok f c1" using L by (simp add: pstep_def)
  note A = egl_attempt_ok[OF ok1 dims at]
  show ?thesis using run1 A assms(4) at unfolding l by (auto split: if_splits option.splits)
qed


section \<open>The direct grab\<close>

text \<open>The kernel reports failures as positive errno values (mmap's may be lost, and is then 0).\<close>

definition errnos_ok :: "env \<Rightarrow> bool" where
  "errnos_ok env \<longleftrightarrow> (\<forall>t fb e. v_fb2 env t fb = Inl e \<longrightarrow> 0 < e) \<and> (\<forall>t h e. v_prime env t h = Some e \<longrightarrow> 0 < e) \<and>
    (\<forall>t fd off n e. v_mmap env t fd off n = Inl e \<longrightarrow> 0 \<le> e)"

lemmas clock_ok = mstep_ok[OF mstep_upd(1)] and clock_owes = mstep_owes[OF mstep_upd(1)]

lemma virtio_map_step:
  assumes ok: "gctx_ok f c" and ow: "owes c0 M F G P W c"
    and run: "(if is_virtio_gpu c then
             (case virtio_transfer_from_host env gem w h c of (ret, c1) \<Rightarrow>
               if ret < 0 then (Inl EIO, c1) else virtio_dumb_mmap env gem n c1)
           else (Inl EIO, c)) = (res, c')"
  shows "gctx_ok f c' \<and> (case res of Inl e \<Rightarrow> owes c0 M F G P W c'
    | Inr p \<Rightarrow> owes c0 (insert p M) F G P W c' \<and> p \<in> live_maps c' \<and> holds c' p n)"
proof (cases "is_virtio_gpu c")
  case True
  obtain ret c1 where tr: "virtio_transfer_from_host env gem w h c = (ret, c1)" by fastforce
  have "c1 = step_clock c \<or> c1 = step_clock (step_clock c)"
    using tr by (auto simp: virtio_transfer_from_host_def Let_def split: if_splits)
  then have 1: "gctx_ok f c1" "owes c0 M F G P W c1" using ok ow clock_ok clock_owes by blast+
  show ?thesis
  proof (cases "ret < 0")
    case True
    then show ?thesis using run tr \<open>is_virtio_gpu c\<close> 1 by auto
  next
    case False
    then have dm: "virtio_dumb_mmap env gem n c1 = (res, c')" using run tr \<open>is_virtio_gpu c\<close> by simp
    let ?c2 = "step_clock c1"
    have 2: "gctx_ok f ?c2" "owes c0 M F G P W ?c2" using 1 clock_ok clock_owes by blast+
    show ?thesis
    proof (cases "v_map_dumb env (tick c1) gem")
      case None
      then show ?thesis using dm 2 by (auto simp: virtio_dumb_mmap_def sys_map_dumb_def)
    next
      case (Some off)
      then have mm: "sys_mmap env (drm_fd ?c2) off n ?c2 = (res, c')" using dm by (simp add: virtio_dumb_mmap_def sys_map_dumb_def)
      show ?thesis
      proof (cases res)
        case (Inl e)
        then show ?thesis using mmap_fail[of env "drm_fd ?c2" off n ?c2 e c'] mm 2 clock_ok clock_owes by simp
      next
        case (Inr p)
        then show ?thesis using mmap_step[OF 2, of env "drm_fd ?c2" off n p c'] mm by simp
      qed
    qed
  qed
qed (use run ok ow in auto)

lemma direct_mmap_step:
  assumes ok: "gctx_ok f c" and ow: "owes c0 M F G P W c" and env: "errnos_ok env"
    and run: "direct_mmap env fb2 fd n c = (res, dumb, c')"
  shows "gctx_ok f c' \<and> (case res of Inl e \<Rightarrow> 0 \<le> e \<and> owes c0 M F G P W c'
    | Inr p \<Rightarrow> owes c0 (insert p M) F G P W c' \<and> p \<in> live_maps c' \<and> holds c' p n)"
proof -
  let ?gem = "fb2_handles fb2 ! 0" and ?off = "unat (fb2_offsets fb2 ! 0)"
  obtain v c1 where v: "(if is_virtio_gpu c then
             (case virtio_transfer_from_host env ?gem (fb2_width fb2) (fb2_height fb2) c of (ret, c1) \<Rightarrow>
               if ret < 0 then (Inl EIO, c1) else virtio_dumb_mmap env ?gem n c1)
           else (Inl EIO, c)) = (v, c1)" by fastforce
  note V = virtio_map_step[OF ok ow v]
  note run1 = run[unfolded direct_mmap_def Let_def v prod.case]
  show ?thesis
  proof (cases v)
    case (Inr p)
    then show ?thesis using run1 V by auto
  next
    case (Inl e)
    then have 1: "gctx_ok f c1" "owes c0 M F G P W c1" using V by simp_all
    obtain r c2 where mm: "sys_mmap env fd ?off n c1 = (r, c2)" by fastforce
    have e: "res = r" "c' = c2" using run1 Inl mm by auto
    show ?thesis
    proof (cases r)
      case (Inr p)
      then show ?thesis using mmap_step[OF 1, of env fd ?off n p c2] mm by (simp add: e)
    next
      case (Inl e')
      then have "c2 = step_clock c1" using mmap_fail mm by blast
      moreover have "v_mmap env (tick c1) fd ?off n = Inl e'" using mm Inl by (auto simp: sys_mmap_def split: sum.splits)
      then have "0 \<le> e'" using env by (auto simp: errnos_ok_def)
      ultimately show ?thesis using 1 Inl clock_ok clock_owes by (simp add: e)
    qed
  qed
qed

lemma narrowed_dims:
  assumes "drmtap_validate_fb_dims fw h = 0" "width_ok fw m w"
  shows "drmtap_validate_fb_dims w h = 0"
proof -
  have le: "unat w \<le> unat fw" "w \<noteq> 0" using assms by (auto simp: width_ok_def word_le_nat_alt validate_dims_ok)
  have "unat w * unat h \<le> unat fw * unat h" using le(1) by (rule mult_le_mono1)
  then show ?thesis using assms(1) le unfolding validate_dims_ok by linarith
qed

lemma size_pos: "validate_fb_size s h = 0 \<Longrightarrow> unat s * unat h \<noteq> 0"
  by (auto simp: validate_size_ok unat_eq_zero)

lemma direct_ok:
  assumes ok: "gctx_ok f c" and env: "errnos_ok env" and fd: "0 \<le> fd"
    and ow: "owes c0 {} {fd} (gem_set (fb2_handles fb2 ! 0)) 0 (\<lambda>_. 0) c" and geo: "fb2_geometry fb2 = 0"
  shows "grab_post f c0 m (grab_direct pow env plane fb_id fb2 fd frame m c)"
proof -
  let ?gem = "fb2_handles fb2 ! 0" and ?n = "unat (fb2_pitches fb2 ! 0) * unat (fb2_height fb2)" and ?m = "fb2_effective_modifier fb2"
  have dims: "drmtap_validate_fb_dims (fb2_width fb2) (fb2_height fb2) = 0" and size: "validate_fb_size (fb2_pitches fb2 ! 0) (fb2_height fb2) = 0"
    using geo by (auto simp: fb2_geometry_def Let_def split: if_splits)
  obtain b c1 where cl: "calloc_priv env c = (b, c1)" by fastforce
  note C = calloc_step[OF ok ow cl]
  note run = grab_direct_def[of pow env plane fb_id fb2 fd frame m c, unfolded Let_def cl prod.case]
  show ?thesis
  proof (cases b)
    case False
    obtain r fr c2 where cu: "grab_cleanup fd ?gem False (- ENOMEM) frame c1 = (r, fr, c2)" by (metis prod_cases3)
    have "grab_direct pow env plane fb_id fb2 fd frame m c = (r, fr, c2)" using run False cu by simp
    then show ?thesis using grab_cleanup_ok[of f c1 c0 fd ?gem False "- ENOMEM" frame r fr c2] C cu fd False
      by (auto intro: grab_post_fail simp: errno_defs)
  next
    case True
    obtain width c2 where wd: "drmtap_scanout_width env (fb2_width fb2) ?m c1 = (width, c2)" by fastforce
    have ms: "mstep c1 c2" and wok: "width_ok (fb2_width fb2) ?m width"
      using mstep_width[OF wd] C by (simp_all add: gctx_ok_def)
    have 2: "gctx_ok f c2" "owes c0 {} {fd} (gem_set ?gem) 1 (\<lambda>_. 0) c2"
      using mstep_ok[OF ms] mstep_owes[OF ms] C True by simp_all
    have nd: "drmtap_validate_fb_dims width (fb2_height fb2) = 0" by (rule narrowed_dims[OF dims wok])
    define priv where "priv = fresh_priv\<lparr>p_prime_fd := fd, p_gem_handle := ?gem\<rparr>"
    define fr where "fr = zero_frame\<lparr>f_dma_buf_fd := fd, f_width := width, f_height := fb2_height fb2,
                 f_stride := fb2_pitches fb2 ! 0, f_format := fb2_format fb2, f_modifier := ?m,
                 f_fb_id := fb_id, f_priv := Some priv\<rparr>"
    have run1: "grab_direct pow env plane fb_id fb2 fd frame m c =
      (if \<not> m then (0, fr, c2\<lparr>grab_plane_id := plane\<rparr>)
       else case direct_mmap env fb2 fd ?n c2 of
             (Inl e, _, c3) \<Rightarrow>
               (case gpu_auto_process pow env None fr False c3 of (rc, fr, c4) \<Rightarrow>
                 if f_data fr = None
                 then grab_cleanup fd ?gem True (if rc = 0 then if e \<noteq> 0 then - e else - EIO else rc) fr c4
                 else (0, fr, c4\<lparr>grab_plane_id := plane\<rparr>))
           | (Inr p, dumb, c3) \<Rightarrow>
               (case dmabuf_sync_start env fd c3 of (st, c4) \<Rightarrow>
                 grab_finish plane (gpu_auto_process pow env (Some p) (fr\<lparr>f_data := Some p, f_priv := Some (priv\<lparr>p_mapped := Some p, p_mapped_size := ?n,
                   p_used_dumb_map := dumb, p_sync_started := st\<rparr>)\<rparr>) False c4)))"
      using run True wd unfolding priv_def fr_def by simp
    have fields: "f_width fr = width" "f_height fr = fb2_height fb2" "f_stride fr = fb2_pitches fb2 ! 0" "f_dma_buf_fd fr = fd"
      "f_priv fr = Some priv" "f_data fr = None" by (simp_all add: fr_def zero_frame_def)
    have base: "priv_ok priv" "priv_maps priv = {}" "priv_fds priv = {fd}" "priv_windows priv = (\<lambda>_. 0)" "p_gem_handle priv = ?gem" "p_prime_fd priv = fd"
      using fd by (simp_all add: priv_def fresh_priv_def priv_ok_def priv_maps_def priv_fds_def priv_windows_def)
    have led: "frame_ledger c0 fr c'" if "owes c0 {} {fd} (gem_set ?gem) 1 (\<lambda>_. 0) c'" for c'
      using that base by (simp add: frame_ledger_def fields)
    show ?thesis
    proof (cases m)
      case False
      then show ?thesis using run1 2(1) led[OF 2(2)] nd fields by (simp add: grab_post_def plane_upd)
    next
      case m: True
      obtain res dumb c3 where dm: "direct_mmap env fb2 fd ?n c2 = (res, dumb, c3)" by (metis prod_cases3)
      note D = direct_mmap_step[OF 2 env dm]
      show ?thesis
      proof (cases res)
        case (Inr p)
        have 3: "gctx_ok f c3" "owes c0 {p} {fd} (gem_set ?gem) 1 (\<lambda>_. 0) c3" "p \<in> live_maps c3" "holds c3 p ?n" using D Inr by simp_all
        obtain st c4 where ss: "dmabuf_sync_start env fd c3 = (st, c4)" by fastforce
        note S = start_step[OF 3(1,2) ss, simplified]
        let ?priv = "priv\<lparr>p_mapped := Some p, p_mapped_size := ?n, p_used_dumb_map := dumb, p_sync_started := st\<rparr>"
        let ?fr = "fr\<lparr>f_data := Some p, f_priv := Some ?priv\<rparr>"
        have w: "priv_windows ?priv = (if st then (\<lambda>_. 0)(fd := Suc 0) else (\<lambda>_. 0))" using base by (auto simp: priv_windows_def)
        have "priv_ok ?priv \<and> priv_maps ?priv = {p} \<and> priv_fds ?priv = {fd} \<and> p_gem_handle ?priv = ?gem"
          using base fd size_pos[OF size] by (simp add: priv_ok_def priv_maps_def priv_fds_def)
        then have led4: "frame_ledger c0 ?fr c4" using S w base fields by (cases st) (simp_all add: frame_ledger_def)
        have "data_ok c4 (Some p) ?fr" using nd size 3(3,4) S by (simp add: data_ok_def fields holds_def)
        from finish_ok[OF conjunct1[OF S] led4 this] show ?thesis using run1 m dm Inr ss by simp
      next
        case (Inl e)
        have 3: "gctx_ok f c3" "owes c0 {} {fd} (gem_set ?gem) 1 (\<lambda>_. 0) c3" "0 \<le> e" using D Inl by simp_all
        have d3: "data_ok c3 None fr" using nd size by (simp add: data_ok_def fields)
        obtain rc fr2 c4 where gp: "gpu_auto_process pow env None fr False c3 = (rc, fr2, c4)" by (metis prod_cases3)
        have x3: "ctx_ok f c3" using 3(1) by (simp add: gctx_ok_def)
        note P = process_ok[OF x3 d3, of pow env False, unfolded gp proc_post_def prod.case]
        have p4: "pstep f c3 c4" using P by blast
        have 4: "gctx_ok f c4" "owes c0 {} {fd} (gem_set ?gem) 1 (\<lambda>_. 0) c4" using pstep_ok[OF p4 3(1)] pstep_owes[OF p4 3(2)] .
        have run2: "grab_direct pow env plane fb_id fb2 fd frame m c =
          (if f_data fr2 = None then grab_cleanup fd ?gem True (if rc = 0 then if e \<noteq> 0 then - e else - EIO else rc) fr2 c4
           else (0, fr2, c4\<lparr>grab_plane_id := plane\<rparr>))"
          using run1 m dm Inl gp by simp
        show ?thesis
        proof (cases "f_data fr2 = None")
          case True
          let ?r = "if rc = 0 then if e \<noteq> 0 then - e else - EIO else rc"
          obtain r fr3 c5 where cu: "grab_cleanup fd ?gem True ?r fr2 c4 = (r, fr3, c5)" by (metis prod_cases3)
          have "?r < 0" using P 3(3) by (auto simp: errno_defs)
          then show ?thesis using run2 True grab_cleanup_ok[of f c4 c0 fd ?gem True ?r fr2 r fr3 c5] 4 cu fd
            by (auto intro!: grab_post_fail)
        next
          case False
          then have "rc = 0" using process_unmapped[OF x3 d3 gp] fields by metis
          then have "in_out fr2 c4" using P False fields by (auto simp: passed_def)
          have cv: "converted fr fr2" using P by blast
          have "frame_ledger c0 fr2 c4" using led[OF 4(2)] converted_D[OF cv] by (simp add: frame_ledger_def)
          moreover have "shown fr2 c4" using \<open>in_out fr2 c4\<close> by (simp add: shown_def)
          ultimately show ?thesis using run2 False 4(1) nd fields converted_D[OF cv] by (simp add: grab_post_def plane_upd)
        qed
      qed
    qed
  qed
qed


section \<open>The grab through the helper\<close>

lemma helper_fd_ok:
  assumes ok: "gctx_ok f c" and ow: "owes c0 {} {fd} {} 1 (\<lambda>_. 0) c" and fd: "0 \<le> fd"
    and dims: "drmtap_validate_fb_dims (f_width fr) (f_height fr) = 0" "validate_fb_size (f_stride fr) (f_height fr) = 0"
  shows "grab_post f c0 m (grab_helper_fd pow env plane fd virgl fr m c)"
proof -
  let ?n = "unat (f_stride fr) * unat (f_height fr)"
  define priv where "priv = fresh_priv\<lparr>p_prime_fd := fd\<rparr>"
  have base: "p_prime_fd priv = fd" "p_helper_drm_fd priv = - 1" "\<not> p_is_heap_buf priv" "p_gem_handle priv = 0" "p_mapped priv = None"
    "\<not> p_sync_started priv" by (simp_all add: priv_def fresh_priv_def)
  have both: "grab_post f c0 m (grab_finish plane (if m then gpu_auto_process pow env data fr' virgl c' else (0, fr', c')))"
    if a: "gctx_ok f c'" "frame_ledger c0 fr' c'" "data_ok c' data fr'" "data = f_data fr'"
      "data = None \<longrightarrow> 0 \<le> f_dma_buf_fd fr' \<and> (\<exists>p. f_priv fr' = Some p \<and> p_used_dumb_map p \<and> p_gem_handle p = 0)" for data fr' c'
  proof (cases m)
    case True
    then show ?thesis using finish_ok[OF a(1-5)] by simp
  next
    case False
    then show ?thesis using a(1-3) by (simp add: grab_finish_def grab_post_def plane_upd data_ok_def)
  qed
  obtain res c1 where mm: "sys_mmap env fd 0 ?n c = (res, c1)" by fastforce
  show ?thesis
  proof (cases res)
    case (Inl e)
    then have c1: "c1 = step_clock c" using mmap_fail mm by blast
    let ?fr = "fr\<lparr>f_data := None, f_dma_buf_fd := fd, f_priv := Some (priv\<lparr>p_used_dumb_map := True\<rparr>)\<rparr>"
    have e: "grab_helper_fd pow env plane fd virgl fr m c = grab_finish plane (if m then gpu_auto_process pow env None ?fr virgl c1 else (0, ?fr, c1))"
      unfolding grab_helper_fd_def Let_def mm Inl priv_def by simp
    have "gctx_ok f c1" "owes c0 {} {fd} {} 1 (\<lambda>_. 0) c1" using ok ow clock_ok clock_owes by (auto simp: c1)
    moreover from this(2) have "frame_ledger c0 ?fr c1"
      using fd base by (simp add: frame_ledger_def priv_ok_def priv_maps_def priv_fds_def priv_windows_def gem_set_def)
    moreover have "data_ok c1 None ?fr" using dims by (simp add: data_ok_def)
    ultimately show ?thesis unfolding e by (intro both) (simp_all add: fd base)
  next
    case (Inr p)
    note M = mmap_step[OF ok ow mm[unfolded Inr]]
    obtain st c2 where ss: "dmabuf_sync_start env fd c1 = (st, c2)" by fastforce
    have 1: "gctx_ok f c1" "owes c0 {p} {fd} {} 1 (\<lambda>_. 0) c1" using M by simp_all
    note S = start_step[OF 1 ss, simplified]
    let ?priv = "priv\<lparr>p_mapped := Some p, p_mapped_size := ?n, p_used_dumb_map := False, p_sync_started := st\<rparr>"
    let ?fr = "fr\<lparr>f_data := Some p, f_dma_buf_fd := fd, f_priv := Some ?priv\<rparr>"
    have e: "grab_helper_fd pow env plane fd virgl fr m c = grab_finish plane (if m then gpu_auto_process pow env (Some p) ?fr virgl c2 else (0, ?fr, c2))"
      unfolding grab_helper_fd_def Let_def mm Inr priv_def by (simp add: ss)
    have w: "priv_windows ?priv = (if st then (\<lambda>_. 0)(fd := Suc 0) else (\<lambda>_. 0))" using base by (auto simp: priv_windows_def)
    have "priv_ok ?priv \<and> priv_maps ?priv = {p} \<and> priv_fds ?priv = {fd} \<and> p_gem_handle ?priv = 0"
      using base fd size_pos[OF dims(2)] by (simp add: priv_ok_def priv_maps_def priv_fds_def)
    then have "frame_ledger c0 ?fr c2" using S w base by (cases st) (simp_all add: frame_ledger_def gem_set_def)
    moreover have "data_ok c2 (Some p) ?fr" using dims M S by (simp add: data_ok_def holds_def)
    ultimately show ?thesis unfolding e using S by (intro both) simp_all
  qed
qed

lemma helper_pixels_ok:
  assumes ok: "gctx_ok f c" and ow: "owes c0 {} {} {} 1 (\<lambda>_. 0) c"
    and buf: "pixel_buf c = Some p" "holds c p data_size"
    and dims: "drmtap_validate_fb_dims (f_width fr) (f_height fr) = 0" "validate_fb_size (f_stride fr) (f_height fr) = 0"
  shows "grab_post f c0 m (grab_helper_pixels pow env plane data_size fr m c)"
proof (cases "data_size = unat (f_stride fr) * unat (f_height fr)")
  case False
  then show ?thesis using free_priv_step[of f c c0 "{}" "{}" "{}" 0 "\<lambda>_. 0"] ok ow
    by (auto simp: grab_helper_pixels_def clean_def errno_defs intro!: grab_post_fail)
next
  case True
  let ?fr = "fr\<lparr>f_dma_buf_fd := - 1, f_data := pixel_buf c, f_priv := Some (fresh_priv\<lparr>p_used_dumb_map := True\<rparr>)\<rparr>"
  have led: "frame_ledger c0 ?fr c" using ow
    by (simp add: frame_ledger_def fresh_priv_def priv_ok_def priv_maps_def priv_fds_def priv_windows_def gem_set_def)
  have data: "data_ok c (pixel_buf c) ?fr" using dims buf True by (simp add: data_ok_def)
  have e: "grab_helper_pixels pow env plane data_size fr m c =
      grab_finish plane (if m then gpu_auto_process pow env (pixel_buf c) ?fr False c else (0, ?fr, c))"
    using True by (simp add: grab_helper_pixels_def Let_def)
  show ?thesis
  proof (cases m)
    case True
    then show ?thesis unfolding e using finish_ok[OF ok led data] buf by simp
  next
    case False
    then show ?thesis unfolding e using ok led dims by (simp add: grab_finish_def grab_post_def plane_upd)
  qed
qed

lemma wire_geometry_range: "wire_geometry fr \<le> 0"
  by (auto simp: wire_geometry_def Let_def drmtap_validate_fb_dims_def validate_fb_size_def errno_defs)

lemma wire_geometry_ok: "wire_geometry fr = 0 \<Longrightarrow>
    drmtap_validate_fb_dims (f_width fr) (f_height fr) = 0 \<and> validate_fb_size (f_stride fr) (f_height fr) = 0"
  by (auto simp: wire_geometry_def Let_def errno_defs split: if_splits)

lemma hdr_upd: "gctx_ok f (c\<lparr>cur_hdr_eotf := e, cur_hdr_max_nits := n\<rparr>) = gctx_ok f c"
    "owes c0 M F G P W (c\<lparr>cur_hdr_eotf := e, cur_hdr_max_nits := n\<rparr>) = owes c0 M F G P W c"
    "holds (c\<lparr>cur_hdr_eotf := e, cur_hdr_max_nits := n\<rparr>) = holds c"
proof -
  show h: "holds (c\<lparr>cur_hdr_eotf := e, cur_hdr_max_nits := n\<rparr>) = holds c" by (intro ext) (simp add: holds_def)
  show "gctx_ok f (c\<lparr>cur_hdr_eotf := e, cur_hdr_max_nits := n\<rparr>) = gctx_ok f c"
    "owes c0 M F G P W (c\<lparr>cur_hdr_eotf := e, cur_hdr_max_nits := n\<rparr>) = owes c0 M F G P W c"
    by (simp_all add: h gctx_ok_def ctx_ok_def thread_ok_def fresh_ok_def buf_inv_def conn_ok_def memo_ok_def owes_def own_fds_def)
qed

lemma helper_ok:
  assumes ok: "gctx_ok f c" and ow: "owes c0 {} {} {} 0 (\<lambda>_. 0) c"
  shows "grab_post f c0 m (grab_helper pow env plane fb2 frame m c)"
proof -
  let ?n = "unat (fb2_pitches fb2 ! 0) * unat (fb2_height fb2)"
  obtain ret buf cap cb where eb: "drmtap_ensure_buf env (pixel_buf c) (pixel_buf_size c) ?n c = (ret, buf, cap, cb)"
    by (metis prod_cases4)
  define c1 where "c1 = cb\<lparr>pixel_buf := buf, pixel_buf_size := cap\<rparr>"
  note B = pixel_step[OF ok ow eb, folded c1_def]
  note run = grab_helper_def[of pow env plane fb2 frame m c, unfolded Let_def eb prod.case, folded c1_def]
  show ?thesis
  proof (cases "ret = 0")
    case False
    then show ?thesis unfolding run using B by (auto simp: clean_def intro!: grab_post_fail)
  next
    case True
    then have nr: "\<not> ret \<noteq> 0" by simp
    obtain p where p: "pixel_buf c1 = Some p" "holds c1 p ?n" using B True by (auto simp: c1_def)
    obtain r w fd c2 where hg: "drmtap_helper_grab env (pixel_buf c1) ?n c1 = ((r, w, fd), c2)" by (metis surj_pair)
    have 1: "gctx_ok f c1" "owes c0 {} {} {} 0 (\<lambda>_. 0) c1" using B by blast+
    note H = helper_step[OF 1 p hg]
    note run1 = run[unfolded if_not_P[OF nr] hg prod.case]
    show ?thesis
    proof (cases "r = 0")
      case False
      then have 2: "owes c0 {} {} {} 0 (\<lambda>_. 0) c2" "r < 0" using H by auto
      obtain r2 fr2 c3 where cu: "grab_cleanup (- 1) 0 False (- EACCES) frame c2 = (r2, fr2, c3)" by (metis prod_cases3)
      have "grab_helper pow env plane fb2 frame m c = (r2, fr2, c3)" using run1 2 cu by simp
      then show ?thesis using grab_cleanup_ok[of f c2 c0 "- 1" 0 False "- EACCES" frame r2 fr2 c3] cu H 2
        by (auto simp: gem_set_def errno_defs intro!: grab_post_fail)
    next
      case r: True
      then obtain w' where w: "w = Some w'" "fd < 0 \<longrightarrow> unat (gw_data_size w') \<le> ?n" using H by blast
      let ?F = "if 0 \<le> fd then {fd} else {}"
      have 2: "gctx_ok f c2" "owes c0 {} ?F {} 0 (\<lambda>_. 0) c2" using H by auto
      obtain b c3 where cl: "calloc_priv env c2 = (b, c3)" by fastforce
      note C = calloc_step[OF 2 cl]
      have nlt: "\<not> r < 0" using r by simp
      show ?thesis
      proof (cases b)
        case False
        have 3: "gctx_ok f c3" "owes c0 {} ?F {} 0 (\<lambda>_. 0) c3" using C False by simp_all
        have e: "grab_helper pow env plane fb2 frame m c = (- ENOMEM, frame, if 0 \<le> fd then sys_close fd c3 else c3)"
          using run1 nlt w(1) cl False by simp
        have "gctx_ok f (if 0 \<le> fd then sys_close fd c3 else c3) \<and> owes c0 {} {} {} 0 (\<lambda>_. 0) (if 0 \<le> fd then sys_close fd c3 else c3)"
          using close_step[OF 3, of fd] 3 by (cases "0 \<le> fd") simp_all
        then show ?thesis unfolding e by (intro grab_post_fail) (simp_all add: clean_def errno_defs)
      next
        case b: True
        have 3: "gctx_ok f c3" "owes c0 {} ?F {} 1 (\<lambda>_. 0) c3" "pixel_buf c3 = Some p" "holds c3 p ?n"
          using C b H by (simp_all add: holds_def)
        obtain width c4 where wd: "drmtap_scanout_width env (gw_width w') (gw_modifier w') c3 = (width, c4)" by fastforce
        have ms: "mstep c3 c4" using mstep_width[OF wd] by blast
        define c5 where "c5 = c4\<lparr>cur_hdr_eotf := gw_hdr_eotf w', cur_hdr_max_nits := gw_hdr_max_nits w'\<rparr>"
        have core4: "core c4 = core c3" using ms by (simp add: mstep_def)
        note k = core_D[OF core4]
        have 5: "gctx_ok f c5" "owes c0 {} ?F {} 1 (\<lambda>_. 0) c5" "pixel_buf c5 = Some p" "holds c5 p ?n"
          using mstep_ok[OF ms 3(1)] mstep_owes[OF ms 3(2)] 3(3,4) by (simp_all add: c5_def hdr_upd k holds_def)
        define fr where "fr = zero_frame\<lparr>f_width := width, f_height := gw_height w', f_stride := gw_stride w',
                         f_format := gw_format w', f_modifier := gw_modifier w', f_fb_id := gw_fb_id w'\<rparr>"
        have run2: "grab_helper pow env plane fb2 frame m c =
          (if wire_geometry fr \<noteq> 0 then (wire_geometry fr, fr, free_priv (if 0 \<le> fd then sys_close fd c5 else c5))
           else if 0 \<le> fd then grab_helper_fd pow env plane fd (gw_flags w' AND HELPER_FLAG_VIRGL \<noteq> 0) fr m c5
           else grab_helper_pixels pow env plane (unat (gw_data_size w')) fr m c5)"
          using run1 nlt w(1) cl b wd unfolding fr_def c5_def by simp
        show ?thesis
        proof (cases "wire_geometry fr = 0")
          case False
          have 6: "gctx_ok f (if 0 \<le> fd then sys_close fd c5 else c5) \<and> owes c0 {} {} {} (Suc 0) (\<lambda>_. 0) (if 0 \<le> fd then sys_close fd c5 else c5)"
            using close_step[OF 5(1,2), of fd] 5 by (cases "0 \<le> fd") simp_all
          have "wire_geometry fr < 0" using wire_geometry_range[of fr] False by linarith
          then show ?thesis using run2 False free_priv_step[OF conjunct1[OF 6] conjunct2[OF 6]] by (simp add: grab_post_def clean_def)
        next
          case True
          note g = wire_geometry_ok[OF True]
          show ?thesis
          proof (cases "0 \<le> fd")
            case fd: True
            have "owes c0 {} {fd} {} 1 (\<lambda>_. 0) c5" using 5(2) fd by simp
            from helper_fd_ok[OF 5(1) this fd] g show ?thesis using run2 True fd by simp
          next
            case fd: False
            have "owes c0 {} {} {} 1 (\<lambda>_. 0) c5" using 5(2) fd by simp
            moreover have "holds c5 p (unat (gw_data_size w'))" using 5(4) w(2) fd by (auto simp: holds_def split: option.splits)
            ultimately show ?thesis using helper_pixels_ok[OF 5(1) _ 5(3)] g run2 True fd by simp
          qed
        qed
      qed
    qed
  qed
qed


section \<open>The whole grab\<close>

lemma fb2_geometry_range: "fb2_geometry fb2 \<le> 0"
  by (auto simp: fb2_geometry_def Let_def drmtap_validate_fb_dims_def validate_fb_size_def errno_defs)

lemma clean_mstep: "mstep c c' \<Longrightarrow> clean c c'"
  using mstep_owes[of c c' c "{}" "{}" "{}" 0 "\<lambda>_. 0"] by (simp add: clean_def owes_def)

lemma do_grab_ok:
  assumes ok: "gctx_ok f c0" and env: "errnos_ok env"
  shows "grab_post f c0 m (do_grab pow env frame m c0)"
proof (cases "is_render_only c0")
  case True
  then show ?thesis using ok by (auto simp: do_grab_def errno_defs intro: grab_post_fail)
next
  case False
  obtain plane c1 where fp: "find_primary_plane env c0 = (plane, c1)" by fastforce
  define c2 where "c2 = read_hdr_for_current_crtc env c1"
  have m2: "mstep c0 c2" using mstep_trans[OF mstep_find[OF fp] mstep_hdr] by (simp add: c2_def)
  define fb_id where "fb_id = (case km_plane (v_kms env (tick c2)) plane of None \<Rightarrow> 0 | Some pl \<Rightarrow> pl_fb_id pl)"
  define c3 where "c3 = step_clock c2"
  have m3: "mstep c0 c3" using mstep_trans[OF m2 mstep_upd(1)] by (simp add: c3_def)
  note run = do_grab_def[of pow env frame m c0, unfolded Let_def fp prod.case if_not_P[OF False], folded c2_def, folded fb_id_def c3_def]
  have step: "gctx_ok f c' \<and> clean c0 c'" if "mstep c0 c'" for c' using that mstep_ok[OF that ok] clean_mstep by blast
  show ?thesis
  proof (cases "plane = 0 \<or> fb_id = 0")
    case True
    then show ?thesis unfolding run using step[OF m2] step[OF m3] by (auto simp: errno_defs intro: grab_post_fail)
  next
    case no: False
    obtain q c4 where gf: "sys_getfb2 env fb_id c3 = (q, c4)" by fastforce
    have run1: "do_grab pow env frame m c0 = (case (q, c4) of (Inl e, c4) \<Rightarrow> (- e, frame, c4)
        | (Inr fb2, c4) \<Rightarrow>
          if fb2_geometry fb2 \<noteq> 0 then grab_cleanup (- 1) (fb2_handles fb2 ! 0) False (fb2_geometry fb2) frame (close_auxiliary_gem_handles (fb2_handles fb2) c4)
          else if fb2_handles fb2 ! 0 = 0 then grab_helper pow env plane fb2 frame m (cache_planes fb2 (close_auxiliary_gem_handles (fb2_handles fb2) c4))
          else case sys_prime env (fb2_handles fb2 ! 0) (cache_planes fb2 (close_auxiliary_gem_handles (fb2_handles fb2) c4)) of
            (Inl e, c7) \<Rightarrow> if e = EACCES \<or> e = EPERM
              then grab_helper pow env plane fb2 frame m (drmtap_gem_close (fb2_handles fb2 ! 0) c7)
              else grab_cleanup (- 1) (fb2_handles fb2 ! 0) False (- e) frame c7
          | (Inr fd, c7) \<Rightarrow> grab_direct pow env plane fb_id fb2 fd frame m c7)"
      unfolding run gf[symmetric] using no by simp
    show ?thesis
    proof (cases q)
      case (Inl e)
      then have v: "c4 = step_clock c3" "v_fb2 env (tick c3) fb_id = Inl e"
        using gf by (auto simp: sys_getfb2_def Let_def split: sum.splits)
      have "0 < e" using env v(2) by (auto simp: errnos_ok_def)
      then show ?thesis unfolding run1 Inl using step[OF mstep_trans[OF m3 mstep_upd(1)]] v(1) by (auto intro: grab_post_fail)
    next
      case (Inr fb2)
      let ?gem = "fb2_handles fb2 ! 0"
      have 3: "gctx_ok f c3" "owes c0 {} {} {} 0 (\<lambda>_. 0) c3" using step[OF m3] by (simp_all add: clean_def)
      note G = getfb2_step[OF 3 gf[unfolded Inr]]
      define c5 where "c5 = close_auxiliary_gem_handles (fb2_handles fb2) c4"
      have 5: "gctx_ok f c5" "owes c0 {} {} (gem_set ?gem) 0 (\<lambda>_. 0) c5" using aux_step[of f c4 c0] G by (auto simp: c5_def)
      define c6 where "c6 = cache_planes fb2 c5"
      have m6: "mstep c5 c6" by (simp add: c6_def)
      have 6: "gctx_ok f c6" "owes c0 {} {} (gem_set ?gem) 0 (\<lambda>_. 0) c6" using mstep_ok[OF m6 5(1)] mstep_owes[OF m6 5(2)] .
      note run2 = run1[unfolded Inr prod.case sum.case, folded c5_def, folded c6_def]
      show ?thesis
      proof (cases "fb2_geometry fb2 = 0")
        case False
        obtain r fr c' where cu: "grab_cleanup (- 1) ?gem False (fb2_geometry fb2) frame c5 = (r, fr, c')" by (metis prod_cases3)
        have "fb2_geometry fb2 < 0" using fb2_geometry_range[of fb2] False by linarith
        then show ?thesis unfolding run2 using grab_cleanup_ok[of f c5 c0 "- 1" ?gem False, OF _ _ cu] 5 False cu
          by (auto intro: grab_post_fail)
      next
        case geo: True
        show ?thesis
        proof (cases "?gem = 0")
          case True
          then show ?thesis unfolding run2 using helper_ok[OF 6(1)] 6(2) geo by (simp add: gem_set_def)
        next
          case gem: False
          obtain x c7 where pr: "sys_prime env ?gem c6 = (x, c7)" by fastforce
          show ?thesis
          proof (cases x)
            case (Inr fd)
            note P = prime_step[OF 6 pr[unfolded Inr]]
            have "owes c0 {} {fd} (gem_set ?gem) 0 (\<lambda>_. 0) c7" using P by simp
            from direct_ok[OF _ env _ this geo] P show ?thesis unfolding run2 using geo gem pr Inr by simp
          next
            case (Inl e)
            have pf: "c7 = step_clock c6" "v_prime env (tick c6) ?gem = Some e" using prime_fail[OF pr[unfolded Inl]] by blast+
            have e: "0 < e" using env pf(2) by (auto simp: errnos_ok_def)
            have 7: "gctx_ok f c7" "owes c0 {} {} (gem_set ?gem) 0 (\<lambda>_. 0) c7" using 6 clock_ok clock_owes by (auto simp: pf(1))
            show ?thesis
            proof (cases "e = EACCES \<or> e = EPERM")
              case True
              have "gctx_ok f (drmtap_gem_close ?gem c7)" "owes c0 {} {} {} 0 (\<lambda>_. 0) (drmtap_gem_close ?gem c7)"
                using gem_step[OF 7] by blast+
              from helper_ok[OF this] show ?thesis unfolding run2 using geo gem pr Inl True by simp
            next
              case False
              obtain r fr c' where cu: "grab_cleanup (- 1) ?gem False (- e) frame c7 = (r, fr, c')" by (metis prod_cases3)
              show ?thesis unfolding run2 using grab_cleanup_ok[of f c7 c0 "- 1" ?gem False, OF _ _ cu] 7 False cu geo gem pr Inl e
                by (auto intro: grab_post_fail)
            qed
          qed
        qed
      qed
    qed
  qed
qed


lemma process_linear:
  "f_modifier fr = DRM_FORMAT_MOD_LINEAR \<Longrightarrow> eight_bit (f_format fr) \<Longrightarrow> gpu_auto_process pow env (Some p) fr False c = (0, fr, c)"
  by (simp add: gpu_auto_process_def Let_def reduce_linear_to_xrgb8888_def eight_bit_def)

section \<open>Properties\<close>

text \<open>
  C1. A grab owns what it hands out and nothing else. Whatever the kernel, the helper and the GPU
  answer, drmtap_grab and drmtap_grab_mapped return 0 or a negative errno; after a failure the
  process holds exactly the mappings, descriptors, GEM handles, CPU-access windows and private
  records it held before; after a success drmtap_frame_release returns it to that state, and no
  double close or double unmap happens on either path. The context stays consistent. A mapped
  frame shows an image in the output buffer, or the scanout's own rows, all backed, where the
  layout is linear (or unstated) and 8 bits per channel - or no pixels at all, which only a
  descriptor passed by the helper can leave.
\<close>

theorem grab_owns_what_it_hands_out:
  assumes "gctx_ok f c" "errnos_ok env" "do_grab pow env frame m c = (r, fr, c')"
  shows "r \<le> 0 \<and> gctx_ok f c' \<and> clean c (if r = 0 then snd (drmtap_frame_release fr c') else c') \<and>
    (r = 0 \<longrightarrow> drmtap_validate_fb_dims (f_width fr) (f_height fr) = 0 \<and> (m \<longrightarrow> shown fr c'))"
proof -
  have post: "grab_post f c m (r, fr, c')" using do_grab_ok[OF assms(1,2), of m pow frame] assms(3) by simp
  obtain fr2 c2 where rel: "drmtap_frame_release fr c' = (fr2, c2)" by fastforce
  show ?thesis
  proof (cases "r = 0")
    case True
    then show ?thesis using post release_ok[OF _ _ rel, of f c] rel by (simp add: grab_post_def)
  qed (use post in \<open>simp add: grab_post_def\<close>)
qed

lemma wit_gctx: "gctx_ok 0 wit_ctx"
  using wit_ctx_ok wit_ctx_fresh by (simp add: gctx_ok_def conn_ok_def memo_ok_def) (simp add: wit_ctx_def)

lemma wit_errnos: "errnos_ok wit_env"
  by (simp add: errnos_ok_def wit_env_def)

lemma wit_env_simps:
  "v_kms wit_env t = wit_kms" "v_fb2 wit_env t fb = Inr wit_fb2" "v_prime wit_env t h = None" "v_mmap wit_env t fd off n = Inr []"
  "v_sync_start wit_env t fd" "v_calloc_priv wit_env t"
  by (simp_all add: wit_env_def)

lemma wit_find: "crtc_id c = 5 \<Longrightarrow> find_primary_plane wit_env c = (7, step_clock c)"
  by (simp add: find_primary_plane_def find_primary_plane_at_def wit_env_simps wit_kms_def)

lemma wit_hdr: "\<exists>e n. read_hdr_for_current_crtc wit_env c = step_clock (c\<lparr>cur_hdr_eotf := e, cur_hdr_max_nits := n\<rparr>)"
  by (simp add: read_hdr_for_current_crtc_def read_hdr_metadata_direct_def split: prod.split) blast

lemma wit_width: "crtc_id c = 5 \<Longrightarrow> drmtap_scanout_width wit_env 8 m c = (8, step_clock c)"
  by (simp add: drmtap_scanout_width_def wit_env_simps wit_kms_def wit_mode_def Let_def step_clock_def)

lemma wit_process: "f_modifier fr = 0 \<Longrightarrow> f_format fr = 0x34325258 \<Longrightarrow> gpu_auto_process pow env (Some p) fr False c = (0, fr, c)"
  by (simp add: gpu_auto_process_def Let_def DRM_FORMAT_MOD_LINEAR_def reduce_linear_to_xrgb8888_def is_ar30_def is_rgb16_def is_rgb16f_def
    fmt_defs DRMTAP_FMT_XR48_def DRMTAP_FMT_AR48_def DRMTAP_FMT_XB48_def DRMTAP_FMT_AB48_def)

lemma fold_idle: "(\<And>p c. p \<in> set xs \<Longrightarrow> g p c = c) \<Longrightarrow> fold g xs c = c"
  by (induction xs arbitrary: c) auto

lemma wit_aux: "close_auxiliary_gem_handles [h, 0, 0, 0] c = c"
  unfolding close_auxiliary_gem_handles_def
proof (rule fold_idle)
  fix p and c :: ctx
  assume "p \<in> set [1 ..< 4]"
  then have "p = 1 \<or> p = 2 \<or> p = 3" by auto
  then have "[h, 0, 0, 0] ! p = 0" by (elim disjE) (simp_all only: nth_Cons_numeral nth_Cons_0 One_nat_def nth_Cons_Suc numeral_2_eq_2 numeral_3_eq_3)
  then show "(let h' = [h, 0, 0, 0] ! p in if h' = 0 \<or> h' = [h, 0, 0, 0] ! 0 then c
      else if h' \<in> set (map (\<lambda>q. [h, 0, 0, 0] ! q) [1 ..< p]) then c else drmtap_gem_close h' c) = c"
    unfolding Let_def by (rule if_P[OF disjI1])
qed

lemma wit_getfb2: "sys_getfb2 wit_env fb c = (Inr (wit_fb2\<lparr>fb2_handles := [Suc (next_gem c), 0, 0, 0]\<rparr>),
    step_clock (c\<lparr>live_gems := live_gems c \<union> {Suc (next_gem c)}, next_gem := Suc (Suc (next_gem c))\<rparr>))"
proof -
  have "{h \<in> {Suc g, 0}. 0 < h} = {Suc g}" for g by auto
  then show ?thesis by (simp add: sys_getfb2_def wit_env_simps wit_fb2_def mint_handle_def Let_def)
qed

lemma wit_geometry: "fb2_geometry (wit_fb2\<lparr>fb2_handles := hs\<rparr>) = 0"
  by (simp add: fb2_geometry_def wit_fb2_def Let_def validate_dims_ok validate_size_ok)

lemma wit_direct:
  assumes "crtc_id c = 5" "driver_name c = ''i915''"
  shows "\<exists>fr c'. grab_direct pow wit_env plane fb (wit_fb2\<lparr>fb2_handles := hs\<rparr>) fd frame True c = (0, fr, c') \<and>
    f_data fr = Some (next_obj c) \<and> f_width fr = 8"
proof -
  let ?fb2 = "wit_fb2\<lparr>fb2_handles := hs\<rparr>"
  obtain c1 where 1: "calloc_priv wit_env c = (True, c1)" "crtc_id c1 = 5" "driver_name c1 = ''i915''" "next_obj c1 = next_obj c"
    using assms by (simp add: calloc_priv_def wit_env_simps step_clock_def)
  have 2: "drmtap_scanout_width wit_env (fb2_width ?fb2) (fb2_effective_modifier ?fb2) c1 = (8, step_clock c1)"
    using wit_width[OF 1(2)] by (simp add: wit_fb2_def)
  let ?n = "unat (fb2_pitches ?fb2 ! 0) * unat (fb2_height ?fb2)"
  obtain c3 where 3: "direct_mmap wit_env ?fb2 fd ?n (step_clock c1) = (Inr (next_obj c), False, c3)"
    using 1(3,4) by (simp add: direct_mmap_def is_virtio_gpu_def sys_mmap_def wit_env_simps step_clock_def Let_def)
  obtain st c4 where 4: "dmabuf_sync_start wit_env fd c3 = (st, c4)" by fastforce
  have p: "gpu_auto_process pow wit_env (Some q) fr False c4 = (0, fr, c4)"
    if "f_modifier fr = fb2_effective_modifier ?fb2" "f_format fr = fb2_format ?fb2" for q fr
    using that by (intro wit_process) (simp_all add: wit_fb2_def fb2_effective_modifier_def)
  show ?thesis unfolding grab_direct_def Let_def 1(1) prod.case 2 3 4 by (simp add: 4 p grab_finish_def zero_frame_def)
qed

lemma wit_reach:
  assumes "crtc_id c = 5" "\<not> is_render_only c" "driver_name c = ''i915''"
  shows "\<exists>hs fd c7. do_grab pow wit_env frame m c = grab_direct pow wit_env 7 2 (wit_fb2\<lparr>fb2_handles := hs\<rparr>) fd frame m c7 \<and>
    crtc_id c7 = 5 \<and> driver_name c7 = ''i915'' \<and> next_obj c7 = next_obj c \<and> fd = next_fd c"
proof -
  obtain e n where h: "read_hdr_for_current_crtc wit_env (step_clock c) = step_clock ((step_clock c)\<lparr>cur_hdr_eotf := e, cur_hdr_max_nits := n\<rparr>)"
    using wit_hdr by blast
  have pl: "km_plane wit_kms 7 = Some \<lparr>pl_id = 7, pl_crtc_id = 5, pl_fb_id = 2\<rparr>" by (simp add: wit_kms_def)
  define c3 where "c3 = step_clock (step_clock ((step_clock c)\<lparr>cur_hdr_eotf := e, cur_hdr_max_nits := n\<rparr>))"
  have 3: "crtc_id c3 = 5" "driver_name c3 = ''i915''" "next_obj c3 = next_obj c" "next_fd c3 = next_fd c" using assms by (simp_all add: c3_def step_clock_def)
  let ?fb2 = "wit_fb2\<lparr>fb2_handles := [Suc (next_gem c3), 0, 0, 0]\<rparr>"
  obtain c4 where 4: "sys_getfb2 wit_env 2 c3 = (Inr ?fb2, c4)" "crtc_id c4 = 5" "driver_name c4 = ''i915''" "next_obj c4 = next_obj c" "next_fd c4 = next_fd c"
    using 3 by (simp add: wit_getfb2 step_clock_def)
  obtain fd c7 where 7: "sys_prime wit_env (Suc (next_gem c3)) (cache_planes ?fb2 c4) = (Inr fd, c7)" "crtc_id c7 = 5" "driver_name c7 = ''i915''"
    "next_obj c7 = next_obj c" "fd = next_fd c"
    using 4 by (simp add: sys_prime_def sys_mint_fd_def wit_env_simps cache_planes_def step_clock_def)
  have hs: "fb2_handles ?fb2 = [Suc (next_gem c3), 0, 0, 0]" by simp
  have "do_grab pow wit_env frame m c = grab_direct pow wit_env 7 2 ?fb2 fd frame m c7"
    using assms(2) by (simp add: do_grab_def wit_find[OF assms(1)] h Let_def wit_env_simps pl c3_def[symmetric] 4(1) hs wit_aux wit_geometry 7(1)
      del: drm_fb2.simps)
  then show ?thesis using 7 by blast
qed

lemma wit_grab:
  assumes "crtc_id c = 5" "\<not> is_render_only c" "driver_name c = ''i915''"
  shows "\<exists>fr c'. do_grab pow wit_env frame True c = (0, fr, c') \<and> f_data fr = Some (next_obj c) \<and> f_width fr = 8"
  using wit_reach[OF assms, of pow frame True] wit_direct by metis

lemma wit_grab_desc:
  assumes "crtc_id c = 5" "\<not> is_render_only c" "driver_name c = ''i915''" "0 \<le> next_fd c"
  shows "\<exists>d fr c'. drmtap_grab_desc pow wit_env frame c = (0, d, fr, c') \<and> f_dma_buf_fd fr = next_fd c"
proof -
  obtain hs c7 where 7: "do_grab pow wit_env frame False c = grab_direct pow wit_env 7 2 (wit_fb2\<lparr>fb2_handles := hs\<rparr>) (next_fd c) frame False c7"
    using wit_reach[OF assms(1-3), of pow frame False] by blast
  obtain c8 where 8: "calloc_priv wit_env c7 = (True, c8)" by (simp add: calloc_priv_def wit_env_simps)
  obtain w c9 where 9: "drmtap_scanout_width wit_env 8 0 c8 = (w, c9)" by fastforce
  have "fb2_width (wit_fb2\<lparr>fb2_handles := hs\<rparr>) = 8" "fb2_effective_modifier (wit_fb2\<lparr>fb2_handles := hs\<rparr>) = 0"
    by (simp_all add: wit_fb2_def fb2_effective_modifier_def)
  then obtain fr c' where "do_grab pow wit_env frame False c = (0, fr, c') \<and> f_dma_buf_fd fr = next_fd c"
    unfolding 7 grab_direct_def Let_def 8 prod.case by (simp add: 9)
  then show ?thesis using assms(4) by (simp add: drmtap_grab_desc_def)
qed


theorem grab_owns_what_it_hands_out_witness:
  "\<exists>fr c'. do_grab (\<lambda>x y. x) wit_env zero_frame True wit_ctx = (0, fr, c') \<and> f_width fr = 8 \<and> f_data fr = Some 1 \<and>
    clean wit_ctx (snd (drmtap_frame_release fr c')) \<and> shown fr c'"
proof -
  obtain fr c' where run: "do_grab (\<lambda>x y. x) wit_env zero_frame True wit_ctx = (0, fr, c')" "f_data fr = Some 1" "f_width fr = 8"
    using wit_grab[of wit_ctx "\<lambda>x y. x" zero_frame] by (auto simp: wit_ctx_def)
  show ?thesis using grab_owns_what_it_hands_out[OF wit_gctx wit_errnos run(1)] run by auto
qed

text \<open>
  C13. A descriptor grab hands out a live descriptor or nothing. On success drmtap_grab_desc names a
  DMA-BUF the process holds, the frame's own, with a validated geometry and 1 to 4 planes, and
  releasing the frame returns everything; on failure - also the -ENOTSUP for a scanout without a
  descriptor - it hands out no descriptor and keeps nothing.
\<close>

theorem grab_desc_live_or_nothing:
  assumes "gctx_ok f c" "errnos_ok env" "drmtap_grab_desc pow env frame c = (r, d, fr, c')"
  shows "(r = 0 \<longrightarrow> (\<exists>desc. d = Some desc \<and> d_dma_buf_fd desc = f_dma_buf_fd fr \<and> d_dma_buf_fd desc \<in> live_fds c' \<and>
      drmtap_validate_fb_dims (d_width desc) (d_height desc) = 0 \<and> unat (d_num_planes desc) \<in> {1..4} \<and>
      clean c (snd (drmtap_frame_release fr c')))) \<and>
    (r \<noteq> 0 \<longrightarrow> r < 0 \<and> d = None \<and> clean c c')"
proof -
  obtain r1 fr1 c1 where g: "do_grab pow env frame False c = (r1, fr1, c1)" by (metis prod_cases3)
  have post: "grab_post f c False (r1, fr1, c1)" using do_grab_ok[OF assms(1,2), of False pow frame] g by simp
  obtain fr2 c2 where rel: "drmtap_frame_release fr1 c1 = (fr2, c2)" by fastforce
  note run = assms(3)[unfolded drmtap_grab_desc_def g prod.case rel]
  show ?thesis
  proof (cases "r1 = 0")
    case False
    then show ?thesis using run post by (auto simp: grab_post_def)
  next
    case True
    then have p: "gctx_ok f c1" "frame_ledger c fr1 c1" "drmtap_validate_fb_dims (f_width fr1) (f_height fr1) = 0"
      using post by (simp_all add: grab_post_def)
    have cl: "clean c c2" using release_ok[OF p(1,2) rel] by blast
    show ?thesis
    proof (cases "f_dma_buf_fd fr1 < 0")
      case neg: True
      have "clean c (c2\<lparr>grab_plane_id := x\<rparr>)" for x using cl by (simp add: clean_def owes_def own_fds_def)
      then show ?thesis using run True neg by (auto simp: errno_defs)
    next
      case fd: False
      then have e: "r = 0" "d = Some (desc_of fr1 c1)" "fr = fr1" "c' = c1" using run True by auto
      obtain q where q: "f_priv fr1 = Some q" "f_dma_buf_fd fr1 = p_prime_fd q" "own_fds c1 = own_fds c \<union> priv_fds q"
        using p(2) by (auto simp: frame_ledger_def owes_def)
      then have "f_dma_buf_fd fr1 \<in> live_fds c1" using fd by (auto simp: own_fds_def priv_fds_def)
      moreover have "unat (of_int (min 4 (if 0 < k then k else 1)) :: u32) \<in> {1..4}" for k :: int
      proof -
        have "min 4 (if 0 < k then k else 1) = 1 \<or> min 4 (if 0 < k then k else 1) = 2 \<or> min 4 (if 0 < k then k else 1) = 3 \<or>
            min 4 (if 0 < k then k else 1) = 4" by auto
        then show ?thesis by (elim disjE) simp_all
      qed
      ultimately show ?thesis using e p(3) rel cl by (simp add: desc_of_def errno_defs)
    qed
  qed
qed

theorem grab_desc_live_or_nothing_witness:
  "\<exists>desc fr c'. drmtap_grab_desc (\<lambda>x y. x) wit_env zero_frame wit_ctx = (0, Some desc, fr, c') \<and> d_dma_buf_fd desc = 4 \<and>
    4 \<in> live_fds c' \<and> clean wit_ctx (snd (drmtap_frame_release fr c'))"
proof -
  obtain d fr c' where run: "drmtap_grab_desc (\<lambda>x y. x) wit_env zero_frame wit_ctx = (0, d, fr, c')" "f_dma_buf_fd fr = 4"
    using wit_grab_desc[of wit_ctx "\<lambda>x y. x" zero_frame] by (auto simp: wit_ctx_def)
  show ?thesis using grab_desc_live_or_nothing[OF wit_gctx wit_errnos run(1)] run by auto
qed

text \<open>
  A mapping that fails on the helper's descriptor is reported as success without pixels. When
  mmap refuses the descriptor and the layout is linear, the mapped grab through the helper returns
  0 and a frame whose data pointer is NULL, where the direct path returns the mmap error.
\<close>

lemma helper_unmapped_is_success:
  assumes "\<And>t. v_mmap env t fd 0 (unat (f_stride fr) * unat (f_height fr)) = Inl e" "f_modifier fr = DRM_FORMAT_MOD_LINEAR"
  shows "\<exists>fr' c'. grab_helper_fd pow env plane fd False fr True c = (0, fr', c') \<and> f_data fr' = None"
proof -
  have "sys_mmap env fd 0 (unat (f_stride fr) * unat (f_height fr)) c = (Inl e, step_clock c)" by (simp add: sys_mmap_def assms(1))
  then show ?thesis using assms(2) by (simp add: grab_helper_fd_def Let_def gpu_auto_process_def grab_finish_def)
qed

end
