(* ===== verification/FastOk.thy ===== *)
theory FastOk
  imports Fast GrabOk
begin

text \<open>
  The fast grab's cache is a ledger too: beyond a base state the context holds exactly what its
  slots record - one descriptor, one mapping, one GEM handle each, and at most one open
  CPU-access window in all - and drmtap_fast_cleanup returns every one of them.
\<close>

section \<open>Slots as lists of resources\<close>

definition slot_maps :: "fast_slot \<Rightarrow> obj list" where
  "slot_maps s = (case s_mmap_ptr s of None \<Rightarrow> [] | Some p \<Rightarrow> [p])"

definition slot_fds :: "fast_slot \<Rightarrow> int list" where
  "slot_fds s = (if 0 \<le> s_prime_fd s then [s_prime_fd s] else [])"

definition slot_gems :: "fast_slot \<Rightarrow> nat list" where
  "slot_gems s = (if s_gem_handle s = 0 then [] else [s_gem_handle s])"

definition slot_win :: "fast_slot \<Rightarrow> int \<Rightarrow> nat" where
  "slot_win s fd = (if s_sync_started s \<and> s_prime_fd s = fd then 1 else 0)"

definition wins :: "fast_slot list \<Rightarrow> int \<Rightarrow> nat" where
  "wins S fd = sum_list (map (\<lambda>s. slot_win s fd) S)"

abbreviation all_of :: "('a \<Rightarrow> 'b list) \<Rightarrow> 'a list \<Rightarrow> 'b list" where
  "all_of g S \<equiv> concat (map g S)"

lemma all_of_drop:
  assumes "i < length S" "distinct (all_of g S)" "g y = []"
  shows "set (all_of g (S[i := y])) = set (all_of g S) - set (g (S ! i))" "distinct (all_of g (S[i := y]))"
proof -
  define A B where "A = take i S" and "B = drop (Suc i) S"
  have s: "S = A @ S ! i # B" "S[i := y] = A @ y # B"
    using assms(1) by (simp_all add: id_take_nth_drop A_def B_def upd_conv_take_nth_drop)
  have d: "distinct (all_of g A @ g (S ! i) @ all_of g B)" using assms(2) by (subst (asm) s(1)) simp
  have e: "all_of g S = all_of g A @ g (S ! i) @ all_of g B" by (subst s(1)) simp
  have u: "all_of g (S[i := y]) = all_of g A @ all_of g B" using assms(3) by (simp add: s(2))
  show "set (all_of g (S[i := y])) = set (all_of g S) - set (g (S ! i))" unfolding u e using d by auto
  show "distinct (all_of g (S[i := y]))" unfolding u using d by auto
qed

lemma all_of_add:
  assumes "i < length S" "distinct (all_of g S)" "g (S ! i) = []" "distinct (g y)" "set (g y) \<inter> set (all_of g S) = {}"
  shows "set (all_of g (S[i := y])) = set (all_of g S) \<union> set (g y)" "distinct (all_of g (S[i := y]))"
proof -
  define A B where "A = take i S" and "B = drop (Suc i) S"
  have s: "S = A @ S ! i # B" "S[i := y] = A @ y # B"
    using assms(1) by (simp_all add: id_take_nth_drop A_def B_def upd_conv_take_nth_drop)
  have e: "all_of g S = all_of g A @ all_of g B" using assms(3) by (subst s(1)) simp
  have u: "all_of g (S[i := y]) = all_of g A @ g y @ all_of g B" by (simp add: s(2))
  show "set (all_of g (S[i := y])) = set (all_of g S) \<union> set (g y)" unfolding u e by auto
  show "distinct (all_of g (S[i := y]))" unfolding u using assms(2,4,5) unfolding e by auto
qed

lemma all_of_same: "i < length S \<Longrightarrow> g y = g (S ! i) \<Longrightarrow> all_of g (S[i := y]) = all_of g S"
  by (metis list_update_id map_update)

lemma in_all_of: "i < length S \<Longrightarrow> set (g (S ! i)) \<subseteq> set (all_of g S)"
  by (auto intro!: bexI[of _ "S ! i"])

lemma wins_upd: "i < length S \<Longrightarrow> wins (S[i := y]) fd = wins S fd + slot_win y fd - slot_win (S ! i) fd"
  by (simp add: wins_def map_update sum_list_update)

lemma wins_ge: "i < length S \<Longrightarrow> slot_win (S ! i) fd \<le> wins S fd"
  unfolding wins_def using elem_le_sum_list[of i "map (\<lambda>s. slot_win s fd) S"] by simp

section \<open>The invariant\<close>

definition slot_ok :: "fast_slot \<Rightarrow> bool" where
  "slot_ok s \<longleftrightarrow> (if s_fb_id s = 0 then s_prime_fd s < 0 \<and> s_mmap_ptr s = None \<and> s_gem_handle s = 0 \<and> \<not> s_sync_started s
    else 0 \<le> s_prime_fd s \<and> s_mmap_ptr s \<noteq> None \<and> s_gem_handle s \<noteq> 0 \<and>
      drmtap_validate_fb_dims (s_width s) (s_height s) = 0 \<and> validate_fb_size (s_stride s) (s_height s) = 0)"

definition slot_backed :: "ctx \<Rightarrow> fast_slot \<Rightarrow> bool" where
  "slot_backed c s \<longleftrightarrow> (\<forall>p. s_mmap_ptr s = Some p \<longrightarrow> holds c p (unat (s_stride s) * unat (s_height s)))"

definition one_open :: "fast_slot list \<Rightarrow> bool" where
  "one_open S \<longleftrightarrow> (\<forall>i < length S. \<forall>j < length S. s_sync_started (S ! i) \<longrightarrow> s_sync_started (S ! j) \<longrightarrow> i = j)"

definition none_open :: "fast_slot list \<Rightarrow> bool" where
  "none_open S \<longleftrightarrow> (\<forall>s \<in> set S. \<not> s_sync_started s)"

definition slots_ok :: "ctx \<Rightarrow> bool" where
  "slots_ok c \<longleftrightarrow> length (fast_slots c) = DRMTAP_FAST_SLOTS \<and> (\<forall>s \<in> set (fast_slots c). slot_ok s \<and> slot_backed c s) \<and>
    distinct (all_of slot_maps (fast_slots c)) \<and> distinct (all_of slot_fds (fast_slots c)) \<and> distinct (all_of slot_gems (fast_slots c)) \<and>
    one_open (fast_slots c) \<and> (fast_initialized c \<or> fast_slots c = replicate DRMTAP_FAST_SLOTS empty_slot)"

text \<open>Beyond b, the context holds exactly what its slots record.\<close>

definition fast_inv :: "ctx \<Rightarrow> nat \<Rightarrow> ctx \<Rightarrow> bool" where
  "fast_inv b f c \<longleftrightarrow> gctx_ok f c \<and> slots_ok c \<and>
    owes b (set (all_of slot_maps (fast_slots c))) (set (all_of slot_fds (fast_slots c))) (set (all_of slot_gems (fast_slots c))) 0
      (wins (fast_slots c)) c"

lemma slots_upd: "gctx_ok f (c\<lparr>fast_slots := S\<rparr>) = gctx_ok f c" "owes b M F G P W (c\<lparr>fast_slots := S\<rparr>) = owes b M F G P W c"
    "slot_backed (c\<lparr>fast_slots := S\<rparr>) s = slot_backed c s"
  by (simp_all add: gctx_ok_def ctx_ok_def thread_ok_def fresh_ok_def buf_inv_def holds_def conn_ok_def memo_ok_def owes_def own_fds_def
    slot_backed_def)

lemma none_open_one: "none_open S \<Longrightarrow> one_open S"
  by (simp add: none_open_def one_open_def)

lemma one_open_upd: "one_open S \<Longrightarrow> \<not> s_sync_started y \<Longrightarrow> one_open (S[i := y])"
  by (cases "i < length S") (auto simp: one_open_def nth_list_update)

lemma none_open_set: "none_open S \<Longrightarrow> one_open (S[i := y])"
  by (cases "i < length S") (auto simp: one_open_def none_open_def nth_list_update)

text \<open>What a step may leave alone: every mapping of the start, and the slots.\<close>

definition kept :: "ctx \<Rightarrow> ctx \<Rightarrow> bool" where
  "kept c c' \<longleftrightarrow> (\<forall>q \<in> live_maps c. mem c' q = mem c q) \<and> fast_slots c' = fast_slots c \<and> fast_initialized c' = fast_initialized c"

lemma kept_refl [simp]: "kept c c"
  by (simp add: kept_def)

lemma slot_map_live:
  assumes inv: "fast_inv b f c" and s: "s \<in> set (fast_slots c)" "s_mmap_ptr s = Some p"
  shows "p \<in> live_maps c"
proof -
  have "p \<in> set (all_of slot_maps (fast_slots c))" using s by (auto simp: slot_maps_def intro!: bexI[of _ s])
  then show ?thesis using inv unfolding fast_inv_def owes_def by blast
qed

lemma slot_back_kept:
  assumes inv: "fast_inv b f c" and k: "kept c c'" and s: "s \<in> set (fast_slots c)"
  shows "slot_backed c' s"
proof -
  have "slot_backed c s" using inv s by (simp add: fast_inv_def slots_ok_def)
  then show ?thesis using slot_map_live[OF inv s] k by (simp add: slot_backed_def kept_def holds_def)
qed

lemma kept_inv:
  assumes inv: "fast_inv b f c" and ok: "gctx_ok f c'" and cl: "clean c c'" and k: "kept c c'"
  shows "fast_inv b f c'"
proof -
  let ?S = "fast_slots c"
  have S: "fast_slots c' = ?S" using k by (simp add: kept_def)
  have ow: "owes b (set (all_of slot_maps ?S)) (set (all_of slot_fds ?S)) (set (all_of slot_gems ?S)) 0 (wins ?S) c"
    using inv by (simp add: fast_inv_def)
  have "slots_ok c'" using inv slot_back_kept[OF inv k] k by (simp add: fast_inv_def slots_ok_def S kept_def)
  moreover have "owes b (set (all_of slot_maps ?S)) (set (all_of slot_fds ?S)) (set (all_of slot_gems ?S)) 0 (wins ?S) c'"
    using ow cl by (simp add: clean_def owes_def)
  ultimately show ?thesis using ok by (simp add: fast_inv_def S)
qed

lemma inv_nth: "fast_inv b f c \<Longrightarrow> i < 4 \<Longrightarrow> slot_ok (fast_slots c ! i) \<and> slot_backed c (fast_slots c ! i) \<and> i < length (fast_slots c)"
  by (simp add: fast_inv_def slots_ok_def DRMTAP_FAST_SLOTS_def)

text \<open>Rewriting the flag of one slot, with the window opened or closed to match.\<close>

lemma set_flag:
  assumes inv: "fast_inv b f c" and i: "i < 4" and ok: "gctx_ok f c'" and k: "kept c c'"
    and ow: "owes b (set (all_of slot_maps (fast_slots c))) (set (all_of slot_fds (fast_slots c))) (set (all_of slot_gems (fast_slots c))) 0
      (wins ((fast_slots c)[i := (fast_slots c ! i)\<lparr>s_sync_started := st\<rparr>])) c'"
    and s: "st \<longrightarrow> s_fb_id (fast_slots c ! i) \<noteq> 0 \<and> none_open (fast_slots c)"
  shows "fast_inv b f (set_slot i ((fast_slots c ! i)\<lparr>s_sync_started := st\<rparr>) c')"
proof -
  let ?S = "fast_slots c" and ?y = "(fast_slots c ! i)\<lparr>s_sync_started := st\<rparr>"
  have len: "i < length ?S" using inv_nth[OF inv i] by simp
  have S: "fast_slots c' = ?S" using k by (simp add: kept_def)
  have same: "all_of slot_maps (?S[i := ?y]) = all_of slot_maps ?S" "all_of slot_fds (?S[i := ?y]) = all_of slot_fds ?S"
    "all_of slot_gems (?S[i := ?y]) = all_of slot_gems ?S"
    by (intro all_of_same[OF len]; simp add: slot_maps_def slot_fds_def slot_gems_def)+
  note bk = slot_back_kept[OF inv k]
  have y: "slot_ok ?y \<and> slot_backed c' ?y"
    using inv_nth[OF inv i] bk[of "?S ! i"] len s by (auto simp: slot_ok_def slot_backed_def)
  have "\<forall>s \<in> set (?S[i := ?y]). slot_ok s \<and> slot_backed c' s"
    using y bk inv set_update_subset_insert[of ?S i ?y] by (auto simp: fast_inv_def slots_ok_def)
  moreover have "one_open (?S[i := ?y])"
    using s inv none_open_set one_open_upd by (cases st) (auto simp: fast_inv_def slots_ok_def)
  moreover have "fast_initialized c' \<or> ?S[i := ?y] = replicate DRMTAP_FAST_SLOTS empty_slot"
  proof (cases "fast_initialized c")
    case False
    then have e: "?S = replicate DRMTAP_FAST_SLOTS empty_slot" using inv by (simp add: fast_inv_def slots_ok_def)
    then have "?S ! i = empty_slot" using i by (simp add: DRMTAP_FAST_SLOTS_def)
    then have "?y = ?S ! i" using s by (simp add: empty_slot_def)
    then show ?thesis using e by simp
  qed (use k in \<open>simp add: kept_def\<close>)
  ultimately have "slots_ok (set_slot i ?y c')"
    using inv by (simp add: fast_inv_def slots_ok_def set_slot_def S slots_upd same)
  then show ?thesis using ok ow by (simp add: fast_inv_def set_slot_def S slots_upd same)
qed


section \<open>Windows\<close>

lemma slot_close_step:
  assumes inv: "fast_inv b f c" and i: "i < 4"
  shows "fast_inv b f (slot_sync_close i c) \<and>
    fast_slots (slot_sync_close i c) = (fast_slots c)[i := (fast_slots c ! i)\<lparr>s_sync_started := False\<rparr>]"
proof -
  let ?S = "fast_slots c" and ?s = "fast_slots c ! i"
  let ?c = "if s_sync_started ?s \<and> 0 \<le> s_prime_fd ?s then dmabuf_sync_end (s_prime_fd ?s) c else c"
  have len: "i < length ?S" and sok: "slot_ok ?s" using inv_nth[OF inv i] by simp_all
  have k: "kept c ?c" by (simp add: kept_def dmabuf_sync_end_def)
  have ok: "gctx_ok f c" and ow: "owes b (set (all_of slot_maps ?S)) (set (all_of slot_fds ?S)) (set (all_of slot_gems ?S)) 0 (wins ?S) c"
    using inv by (simp_all add: fast_inv_def)
  have "gctx_ok f ?c \<and> owes b (set (all_of slot_maps ?S)) (set (all_of slot_fds ?S)) (set (all_of slot_gems ?S)) 0
      (wins (?S[i := ?s\<lparr>s_sync_started := False\<rparr>])) ?c"
  proof (cases "s_sync_started ?s")
    case True
    then have fd: "0 \<le> s_prime_fd ?s" using sok by (auto simp: slot_ok_def split: if_splits)
    then have m: "s_prime_fd ?s \<in> set (all_of slot_fds ?S)" using in_all_of[OF len, of slot_fds] by (auto simp: slot_fds_def)
    have w: "0 < wins ?S (s_prime_fd ?s)" using wins_ge[OF len, of "s_prime_fd ?s"] True by (simp add: slot_win_def)
    have "(wins ?S)(s_prime_fd ?s := wins ?S (s_prime_fd ?s) - 1) = wins (?S[i := ?s\<lparr>s_sync_started := False\<rparr>])"
      using True by (auto simp: fun_eq_iff wins_upd[OF len] slot_win_def)
    then show ?thesis using end_step[OF ok ow m w] True fd by simp
  next
    case False
    then have "wins (?S[i := ?s\<lparr>s_sync_started := False\<rparr>]) = wins ?S" by (auto simp: fun_eq_iff wins_upd[OF len] slot_win_def)
    then show ?thesis using False ok ow by simp
  qed
  then have "fast_inv b f (set_slot i (?s\<lparr>s_sync_started := False\<rparr>) ?c)" by (intro set_flag[OF inv i _ k]) simp_all
  moreover have "fast_slots (set_slot i (?s\<lparr>s_sync_started := False\<rparr>) ?c) = ?S[i := ?s\<lparr>s_sync_started := False\<rparr>]"
    by (simp add: set_slot_def dmabuf_sync_end_def)
  ultimately show ?thesis by (simp only: slot_sync_close_def Let_def simp_thms)
qed

lemma sync_close_step:
  assumes inv: "fast_inv b f c"
  shows "fast_inv b f (fast_sync_close c) \<and> fast_slots (fast_sync_close c) = map (\<lambda>s. s\<lparr>s_sync_started := False\<rparr>) (fast_slots c)"
proof -
  have "n \<le> 4 \<longrightarrow> fast_inv b f (fold slot_sync_close [0 ..< n] c) \<and> length (fast_slots c) = 4 \<and>
      fast_slots (fold slot_sync_close [0 ..< n] c) = map (\<lambda>s. s\<lparr>s_sync_started := False\<rparr>) (take n (fast_slots c)) @ drop n (fast_slots c)" for n
  proof (induction n)
    case 0
    then show ?case using inv by (simp add: fast_inv_def slots_ok_def DRMTAP_FAST_SLOTS_def)
  next
    case (Suc n)
    show ?case
    proof
      assume n: "Suc n \<le> 4"
      let ?c = "fold slot_sync_close [0 ..< n] c"
      let ?h = "\<lambda>s :: fast_slot. s\<lparr>s_sync_started := False\<rparr>"
      have 1: "fast_inv b f ?c" "length (fast_slots c) = 4" "fast_slots ?c = map ?h (take n (fast_slots c)) @ drop n (fast_slots c)"
        using Suc.IH n by auto
      have d: "drop n (fast_slots c) = fast_slots c ! n # drop (Suc n) (fast_slots c)" using 1(2) n by (simp add: Cons_nth_drop_Suc)
      have t: "take (Suc n) (fast_slots c) = take n (fast_slots c) @ [fast_slots c ! n]" using 1(2) n by (simp add: take_Suc_conv_app_nth)
      have l: "length (map ?h (take n (fast_slots c))) = n" using 1(2) n by simp
      have "fast_slots ?c ! n = fast_slots c ! n" unfolding 1(3) d by (simp add: nth_append 1(2)) (use n in simp)
      moreover have "(fast_slots ?c)[n := x] = map ?h (take n (fast_slots c)) @ x # drop (Suc n) (fast_slots c)" for x
        unfolding 1(3) d list_update_append l by simp
      ultimately have "fast_slots (slot_sync_close n ?c) = map ?h (take (Suc n) (fast_slots c)) @ drop (Suc n) (fast_slots c)"
        using slot_close_step[OF 1(1), of n] n by (simp add: t)
      then show "fast_inv b f (fold slot_sync_close [0 ..< Suc n] c) \<and> length (fast_slots c) = 4 \<and>
          fast_slots (fold slot_sync_close [0 ..< Suc n] c) = map ?h (take (Suc n) (fast_slots c)) @ drop (Suc n) (fast_slots c)"
        using slot_close_step[OF 1(1), of n] n 1(2) by simp
    qed
  qed
  from this[of 4] show ?thesis by (simp add: fast_sync_close_def DRMTAP_FAST_SLOTS_def)
qed

lemma closed_none: "none_open (map (\<lambda>s. s\<lparr>s_sync_started := False\<rparr>) S)"
  by (auto simp: none_open_def)

lemma sync_begin_step:
  assumes inv: "fast_inv b f c" and i: "i < 4"
  shows "fast_inv b f (fast_sync_begin env i c) \<and> length (fast_slots (fast_sync_begin env i c)) = 4 \<and>
    (\<exists>st. fast_slots (fast_sync_begin env i c) ! i = (fast_slots c ! i)\<lparr>s_sync_started := st\<rparr>)"
proof -
  let ?c = "fast_sync_close c"
  let ?S = "fast_slots ?c"
  let ?s = "?S ! i"
  have C: "fast_inv b f ?c" "?S = map (\<lambda>s. s\<lparr>s_sync_started := False\<rparr>) (fast_slots c)" using sync_close_step[OF inv] by blast+
  have len: "i < length ?S" "length ?S = 4" and sok: "slot_ok ?s" using inv_nth[OF C(1) i] C(1)
    by (simp_all add: fast_inv_def slots_ok_def DRMTAP_FAST_SLOTS_def)
  have s: "?s = (fast_slots c ! i)\<lparr>s_sync_started := False\<rparr>" using len(1) by (simp add: C(2))
  show ?thesis
  proof (cases "0 \<le> s_prime_fd ?s")
    case False
    then show ?thesis using C(1) len(2) s by (auto simp: fast_sync_begin_def Let_def)
  next
    case True
    obtain st c' where ss: "dmabuf_sync_start env (s_prime_fd ?s) ?c = (st, c')" by fastforce
    have e: "fast_sync_begin env i c = set_slot i (?s\<lparr>s_sync_started := st\<rparr>) c'" using True ss by (simp add: fast_sync_begin_def Let_def)
    have m: "s_prime_fd ?s \<in> set (all_of slot_fds ?S)" using in_all_of[OF len(1), of slot_fds] True by (auto simp: slot_fds_def)
    have ok: "gctx_ok f ?c" and ow: "owes b (set (all_of slot_maps ?S)) (set (all_of slot_fds ?S)) (set (all_of slot_gems ?S)) 0 (wins ?S) ?c"
      using C(1) by (simp_all add: fast_inv_def)
    note T = start_step[OF ok ow ss m]
    have k: "kept ?c c'" using ss T by (auto simp: kept_def dmabuf_sync_start_def step_clock_def split: if_splits)
    have ns: "\<not> s_sync_started ?s" by (simp add: s)
    have w: "wins (?S[i := ?s\<lparr>s_sync_started := st\<rparr>]) = (if st then (wins ?S)(s_prime_fd ?s := Suc (wins ?S (s_prime_fd ?s))) else wins ?S)"
      using ns by (auto simp: fun_eq_iff wins_upd[OF len(1)] slot_win_def)
    have "s_fb_id ?s \<noteq> 0 \<and> none_open ?S" using True sok closed_none by (auto simp: slot_ok_def C(2) split: if_splits)
    then have "fast_inv b f (set_slot i (?s\<lparr>s_sync_started := st\<rparr>) c')" using T w by (intro set_flag[OF C(1) i _ k]) auto
    moreover have "fast_slots (set_slot i (?s\<lparr>s_sync_started := st\<rparr>) c') = ?S[i := ?s\<lparr>s_sync_started := st\<rparr>]"
      using k by (simp add: set_slot_def kept_def)
    ultimately show ?thesis using len s by (simp add: e) blast
  qed
qed

section \<open>Dropping a slot\<close>

lemma drop_inv:
  assumes inv: "fast_inv b f c" and i: "i < 4" and ok: "gctx_ok f c'"
    and S: "fast_slots c' = fast_slots c" and I: "fast_initialized c' = fast_initialized c"
    and closed: "\<not> s_sync_started (fast_slots c ! i)"
    and mem: "\<And>q. q \<in> set (all_of slot_maps (fast_slots c)) - set (slot_maps (fast_slots c ! i)) \<Longrightarrow> mem c' q = mem c q"
    and ow: "owes b (set (all_of slot_maps (fast_slots c)) - set (slot_maps (fast_slots c ! i)))
      (set (all_of slot_fds (fast_slots c)) - set (slot_fds (fast_slots c ! i)))
      (set (all_of slot_gems (fast_slots c)) - set (slot_gems (fast_slots c ! i))) 0 (wins (fast_slots c)) c'"
  shows "fast_inv b f (set_slot i empty_slot c')"
proof -
  let ?S = "fast_slots c" and ?T = "(fast_slots c)[i := empty_slot]"
  have len: "i < length ?S" using inv_nth[OF inv i] by simp
  have d: "distinct (all_of slot_maps ?S)" "distinct (all_of slot_fds ?S)" "distinct (all_of slot_gems ?S)" "one_open ?S" "length ?S = 4"
    using inv by (simp_all add: fast_inv_def slots_ok_def DRMTAP_FAST_SLOTS_def)
  have e: "slot_maps empty_slot = []" "slot_fds empty_slot = []" "slot_gems empty_slot = []" "\<not> s_sync_started empty_slot" "slot_ok empty_slot"
    by (simp_all add: empty_slot_def slot_maps_def slot_fds_def slot_gems_def slot_ok_def)
  note M = all_of_drop[OF len d(1) e(1)] and F = all_of_drop[OF len d(2) e(2)] and G = all_of_drop[OF len d(3) e(3)]
  have w: "wins ?T = wins ?S" using closed e(4) by (simp add: fun_eq_iff wins_upd[OF len] slot_win_def)
  have "slot_backed c' s" if s: "s \<in> set ?T" for s
  proof (cases "s_mmap_ptr s")
    case (Some p)
    then have "p \<in> set (all_of slot_maps ?T)" using s by (auto simp: slot_maps_def intro!: bexI[of _ s])
    then have q: "mem c' p = mem c p" using mem M(1) by blast
    have "s \<in> set ?S" using s Some set_update_subset_insert[of ?S i empty_slot] by (auto simp: empty_slot_def)
    then have "slot_backed c s" using inv by (simp add: fast_inv_def slots_ok_def)
    then show ?thesis using q Some by (simp add: slot_backed_def holds_def)
  qed (simp add: slot_backed_def)
  moreover have "slot_ok s" if "s \<in> set ?T" for s
    using that e(5) inv set_update_subset_insert[of ?S i empty_slot] by (auto simp: fast_inv_def slots_ok_def)
  moreover have "fast_initialized c \<or> ?T = replicate DRMTAP_FAST_SLOTS empty_slot"
  proof (cases "fast_initialized c")
    case False
    then have "?S = replicate DRMTAP_FAST_SLOTS empty_slot" using inv by (simp add: fast_inv_def slots_ok_def)
    then show ?thesis using i by (simp add: DRMTAP_FAST_SLOTS_def list_update_same_conv)
  qed simp
  ultimately have "slots_ok (set_slot i empty_slot c')"
    using I M(2) F(2) G(2) d(5) one_open_upd[OF d(4) e(4)] by (simp add: slots_ok_def set_slot_def S slots_upd DRMTAP_FAST_SLOTS_def)
  then show ?thesis using ok ow M(1) F(1) G(1) w by (simp add: fast_inv_def set_slot_def S slots_upd)
qed

lemma drop_step:
  assumes inv: "fast_inv b f c" and i: "i < 4" and closed: "\<not> s_sync_started (fast_slots c ! i)"
  shows "fast_inv b f (slot_drop i c) \<and> fast_slots (slot_drop i c) = (fast_slots c)[i := empty_slot]"
proof -
  let ?S = "fast_slots c" and ?s = "fast_slots c ! i"
  let ?M = "set (all_of slot_maps ?S)" and ?F = "set (all_of slot_fds ?S)" and ?G = "set (all_of slot_gems ?S)"
  have len: "i < length ?S" and sok: "slot_ok ?s" using inv_nth[OF inv i] by simp_all
  have ok: "gctx_ok f c" and ow: "owes b ?M ?F ?G 0 (wins ?S) c" using inv by (simp_all add: fast_inv_def)
  define c1 where "c1 = (case s_mmap_ptr ?s of None \<Rightarrow> c | Some p \<Rightarrow> sys_munmap p c)"
  define c2 where "c2 = (if 0 \<le> s_prime_fd ?s then sys_close (s_prime_fd ?s) c1 else c1)"
  define c3 where "c3 = drmtap_gem_close (s_gem_handle ?s) c2"
  have e: "slot_drop i c = set_slot i empty_slot c3" by (simp add: slot_drop_def Let_def c1_def c2_def c3_def)
  have f: "fast_slots c1 = ?S" "fast_slots c2 = fast_slots c1" "fast_slots c3 = fast_slots c2" "mem c2 = mem c1" "mem c3 = mem c2"
    "fast_initialized c1 = fast_initialized c" "fast_initialized c2 = fast_initialized c1" "fast_initialized c3 = fast_initialized c2"
    by (simp_all add: c1_def c2_def c3_def sys_munmap_def sys_close_def drmtap_gem_close_def gem_close_def split: option.split)
  have mem: "mem c1 q = mem c q" if "q \<notin> set (slot_maps ?s)" for q
    using that by (simp add: c1_def sys_munmap_def slot_maps_def split: option.splits)
  have 1: "gctx_ok f c1 \<and> owes b (?M - set (slot_maps ?s)) ?F ?G 0 (wins ?S) c1"
  proof (cases "s_mmap_ptr ?s")
    case (Some p)
    then have "p \<in> ?M" using in_all_of[OF len, of slot_maps] by (auto simp: slot_maps_def)
    from munmap_step[OF ok ow this] show ?thesis using Some by (simp add: c1_def slot_maps_def)
  qed (use ok ow in \<open>simp add: c1_def slot_maps_def\<close>)
  have 2: "gctx_ok f c2 \<and> owes b (?M - set (slot_maps ?s)) (?F - set (slot_fds ?s)) ?G 0 (wins ?S) c2"
  proof (cases "0 \<le> s_prime_fd ?s")
    case True
    then have "s_prime_fd ?s \<in> ?F" using in_all_of[OF len, of slot_fds] by (auto simp: slot_fds_def)
    from close_step[OF conjunct1[OF 1] conjunct2[OF 1] this] show ?thesis using True by (simp add: c2_def slot_fds_def)
  qed (use 1 in \<open>simp add: c2_def slot_fds_def\<close>)
  have 3: "gctx_ok f c3 \<and> owes b (?M - set (slot_maps ?s)) (?F - set (slot_fds ?s)) (?G - set (slot_gems ?s)) 0 (wins ?S) c3"
  proof (cases "s_gem_handle ?s = 0")
    case False
    then have "s_gem_handle ?s \<in> ?G" using in_all_of[OF len, of slot_gems] by (auto simp: slot_gems_def)
    from gem_close_step[OF conjunct1[OF 2] conjunct2[OF 2] this False] show ?thesis using False by (simp add: c3_def slot_gems_def)
  qed (use 2 in \<open>simp add: c3_def slot_gems_def drmtap_gem_close_def\<close>)
  have "fast_inv b f (set_slot i empty_slot c3)"
    by (rule drop_inv[OF inv i conjunct1[OF 3] _ _ closed _ conjunct2[OF 3]]) (simp_all add: f mem)
  then show ?thesis by (simp add: e set_slot_def f)
qed


section \<open>Steps that leave the slots alone\<close>

lemma meta_inv: "mstep c c' \<Longrightarrow> fast_inv b f c \<Longrightarrow> fast_inv b f c'"
  by (rule kept_inv) (auto simp: fast_inv_def kept_def mstep_def dest: core_D intro: clean_mstep mstep_ok)

lemma kept_pstep:
  assumes p: "pstep f c c'" and k: "kept c0 c" and l: "live_maps c0 \<subseteq> live_maps c"
  shows "kept c0 c'"
proof -
  have "fast_slots c' = fast_slots c \<and> fast_initialized c' = fast_initialized c" using p by (auto simp: pstep_def out_only_def)
  moreover have "mem c' q = mem c q" if "q \<in> live_maps c0" for q using p l that by (auto simp: pstep_def agrees_def)
  ultimately show ?thesis using k by (simp add: kept_def)
qed

lemma pstep_inv:
  assumes p: "pstep f c c'" and inv: "fast_inv b f c"
  shows "fast_inv b f c'"
proof (rule kept_inv[OF inv])
  show "gctx_ok f c'" using pstep_ok[OF p] inv by (simp add: fast_inv_def)
  show "clean c c'" unfolding clean_def by (rule pstep_owes[OF p clean_refl[unfolded clean_def]])
  show "kept c c'" by (rule kept_pstep[OF p]) simp_all
qed

lemma reset_upd:
  fixes x :: ctx
  shows "gctx_ok f (x\<lparr>fast_plane_id := 0, fast_last_fb_id := 0, fast_initialized := i, fast_no_cpu_map := False\<rparr>) = gctx_ok f x"
    "owes b M F G P W (x\<lparr>fast_plane_id := 0, fast_last_fb_id := 0, fast_initialized := i, fast_no_cpu_map := False\<rparr>) = owes b M F G P W x"
    "slot_backed (x\<lparr>fast_plane_id := 0, fast_last_fb_id := 0, fast_initialized := i, fast_no_cpu_map := False\<rparr>) s = slot_backed x s"
  by (simp_all add: slot_backed_def holds_def gctx_ok_def ctx_ok_def thread_ok_def fresh_ok_def buf_inv_def
    conn_ok_def memo_ok_def owes_def own_fds_def)

lemma cleanup_inv:
  assumes inv: "fast_inv b f c"
  shows "fast_inv b f (drmtap_fast_cleanup c) \<and> clean b (drmtap_fast_cleanup c) \<and>
    fast_slots (drmtap_fast_cleanup c) = replicate 4 empty_slot"
proof -
  let ?c = "fast_sync_close c"
  have C: "fast_inv b f ?c" "none_open (fast_slots ?c)" "length (fast_slots ?c) = 4"
    using sync_close_step[OF inv] closed_none by (auto simp: fast_inv_def slots_ok_def DRMTAP_FAST_SLOTS_def)
  have "n \<le> 4 \<longrightarrow> fast_inv b f (fold slot_drop [0 ..< n] ?c) \<and>
      fast_slots (fold slot_drop [0 ..< n] ?c) = replicate n empty_slot @ drop n (fast_slots ?c)" for n
  proof (induction n)
    case 0
    then show ?case using C by simp
  next
    case (Suc n)
    show ?case
    proof
      assume n: "Suc n \<le> 4"
      let ?d = "fold slot_drop [0 ..< n] ?c"
      have 1: "fast_inv b f ?d" "fast_slots ?d = replicate n empty_slot @ drop n (fast_slots ?c)" using Suc.IH n by auto
      have d: "drop n (fast_slots ?c) = fast_slots ?c ! n # drop (Suc n) (fast_slots ?c)" using C(3) n by (simp add: Cons_nth_drop_Suc)
      have "fast_slots ?d ! n = fast_slots ?c ! n" unfolding 1(2) d by (simp add: nth_append)
      then have "\<not> s_sync_started (fast_slots ?d ! n)" using C(2,3) n by (simp add: none_open_def)
      note D = drop_step[OF 1(1) _ this]
      have "replicate n empty_slot @ empty_slot # x = replicate (Suc n) empty_slot @ x" for x by (simp add: replicate_append_same[symmetric])
      then have "(fast_slots ?d)[n := empty_slot] = replicate (Suc n) empty_slot @ drop (Suc n) (fast_slots ?c)"
        unfolding 1(2) d list_update_append by simp
      then show "fast_inv b f (fold slot_drop [0 ..< Suc n] ?c) \<and>
          fast_slots (fold slot_drop [0 ..< Suc n] ?c) = replicate (Suc n) empty_slot @ drop (Suc n) (fast_slots ?c)"
        using D n by simp
    qed
  qed
  from this[of 4] have D: "fast_inv b f (fold slot_drop [0 ..< 4] ?c)" "fast_slots (fold slot_drop [0 ..< 4] ?c) = replicate 4 empty_slot"
    using C(3) by simp_all
  let ?e = "fold slot_drop [0 ..< 4] ?c"
  have e: "drmtap_fast_cleanup c = ?e\<lparr>fast_plane_id := 0, fast_last_fb_id := 0, fast_initialized := False, fast_no_cpu_map := False\<rparr>"
    by (simp add: drmtap_fast_cleanup_def DRMTAP_FAST_SLOTS_def)
  have inv': "fast_inv b f (drmtap_fast_cleanup c)" using D unfolding e fast_inv_def slots_ok_def reset_upd
    by (simp add: DRMTAP_FAST_SLOTS_def)
  have S: "fast_slots (drmtap_fast_cleanup c) = replicate 4 empty_slot" by (simp add: e D(2))
  have z: "wins (replicate 4 empty_slot) = (\<lambda>_. 0)" by (auto simp: wins_def slot_win_def empty_slot_def sum_list_replicate)
  have "all_of slot_maps (replicate 4 empty_slot) = []" "all_of slot_fds (replicate 4 empty_slot) = []" "all_of slot_gems (replicate 4 empty_slot) = []"
    by (auto simp: slot_maps_def slot_fds_def slot_gems_def empty_slot_def)
  then have "clean b (drmtap_fast_cleanup c)" using inv' unfolding fast_inv_def S clean_def z by simp
  then show ?thesis using inv' S by simp
qed

lemma slot_where_found: "slot_where P c = Some i \<Longrightarrow> i < 4 \<and> P (fast_slots c ! i)"
  by (auto simp: slot_where_def DRMTAP_FAST_SLOTS_def find_Some_iff)

lemma alloc_step:
  assumes inv: "fast_inv b f c" and closed: "none_open (fast_slots c)" and run: "find_or_alloc_slot fb_id c = (i, c')"
  shows "fast_inv b f c' \<and> none_open (fast_slots c') \<and> i < 4 \<and> (s_fb_id (fast_slots c' ! i) = fb_id \<or> s_fb_id (fast_slots c' ! i) = 0)"
proof (cases "slot_where (\<lambda>s. s_fb_id s = fb_id) c")
  case (Some j)
  then have "i = j" "c' = c" using run by (simp_all add: find_or_alloc_slot_def)
  then show ?thesis using slot_where_found[OF Some] inv closed by simp
next
  case none: None
  show ?thesis
  proof (cases "slot_where (\<lambda>s. s_fb_id s = 0) c")
    case (Some j)
    then have "i = j" "c' = c" using run none by (simp_all add: find_or_alloc_slot_def)
    then show ?thesis using slot_where_found[OF Some] inv closed by simp
  next
    case None
    have len: "length (fast_slots c) = 4" using inv by (simp add: fast_inv_def slots_ok_def DRMTAP_FAST_SLOTS_def)
    have ns: "\<not> s_sync_started (fast_slots c ! 0)" using closed len by (simp add: none_open_def)
    then have e: "i = 0" "c' = slot_drop 0 c" using run none None by (simp_all add: find_or_alloc_slot_def)
    note D = drop_step[OF inv _ ns]
    have "none_open ((fast_slots c)[0 := empty_slot])"
      using closed set_update_subset_insert[of "fast_slots c" 0 empty_slot] by (auto simp: none_open_def empty_slot_def)
    then show ?thesis using D e len by (simp add: empty_slot_def)
  qed
qed

section \<open>Resources in flight\<close>

text \<open>What a grab holds beyond c0 while the slots stay as they were.\<close>

definition flight :: "ctx \<Rightarrow> nat \<Rightarrow> obj set \<Rightarrow> int set \<Rightarrow> nat set \<Rightarrow> (int \<Rightarrow> nat) \<Rightarrow> ctx \<Rightarrow> bool" where
  "flight c0 f M F G W c \<longleftrightarrow> gctx_ok f c \<and> owes c0 M F G 0 W c \<and> kept c0 c"

lemma flight_start: "gctx_ok f c \<Longrightarrow> flight c f {} {} {} (\<lambda>_. 0) c"
  by (simp add: flight_def clean_refl[unfolded clean_def])

lemma flight_inv: "fast_inv b f c0 \<Longrightarrow> flight c0 f {} {} {} (\<lambda>_. 0) c \<Longrightarrow> fast_inv b f c"
  by (rule kept_inv[of b f c0 c]) (simp_all add: flight_def clean_def)

lemma kept_same: "kept c0 c \<Longrightarrow> mem c' = mem c \<Longrightarrow> fast_slots c' = fast_slots c \<Longrightarrow> fast_initialized c' = fast_initialized c \<Longrightarrow> kept c0 c'"
  by (simp add: kept_def)

lemma flight_meta: "mstep c c' \<Longrightarrow> flight c0 f M F G W c \<Longrightarrow> flight c0 f M F G W c'"
  using mstep_ok[of c c' f] mstep_owes[of c c' c0 M F G 0 W] core_D[of c' c] by (auto simp: flight_def mstep_def intro: kept_same)

lemma flight_live: "flight c0 f M F G W c \<Longrightarrow> live_maps c0 \<subseteq> live_maps c"
  by (auto simp: flight_def owes_def)

lemma flight_pstep: "pstep f c c' \<Longrightarrow> flight c0 f M F G W c \<Longrightarrow> flight c0 f M F G W c'"
  using pstep_ok[of f c c'] pstep_owes[of f c c' c0 M F G 0 W] kept_pstep[of f c c' c0] flight_live[of c0 f M F G W c]
  by (simp add: flight_def)

lemma flight_getfb2:
  assumes fl: "flight c0 f M F {} W c" and run: "sys_getfb2 env fb_id c = (Inr fb2, c')"
  shows "flight c0 f M F (gem_set (fb2_handles fb2 ! 0)) W (close_auxiliary_gem_handles (fb2_handles fb2) c')"
proof -
  have G: "gctx_ok f c'" "owes c0 M F (minted (fb2_handles fb2)) 0 W c'" "length (fb2_handles fb2) = 4"
    using getfb2_step[of f c c0 M F 0 W env fb_id fb2 c'] fl run by (auto simp: flight_def)
  have k1: "kept c0 c'" using fl run by (auto simp: flight_def sys_getfb2_def step_clock_def Let_def intro: kept_same split: sum.splits)
  have one: "mem (drmtap_gem_close h c) = mem c \<and> fast_slots (drmtap_gem_close h c) = fast_slots c \<and>
      fast_initialized (drmtap_gem_close h c) = fast_initialized c" for h and c :: ctx
    by (simp add: drmtap_gem_close_def gem_close_def)
  have "mem (close_auxiliary_gem_handles hs c) = mem c \<and> fast_slots (close_auxiliary_gem_handles hs c) = fast_slots c \<and>
      fast_initialized (close_auxiliary_gem_handles hs c) = fast_initialized c" for hs and c :: ctx
  proof -
    have "mem (fold g xs c) = mem c \<and> fast_slots (fold g xs c) = fast_slots c \<and> fast_initialized (fold g xs c) = fast_initialized c"
      if "\<And>p c. mem (g p c) = mem c \<and> fast_slots (g p c) = fast_slots c \<and> fast_initialized (g p c) = fast_initialized c" for g :: "nat \<Rightarrow> ctx \<Rightarrow> ctx" and xs
      using that by (induction xs arbitrary: c) simp_all
    then show ?thesis unfolding close_auxiliary_gem_handles_def Let_def using one by (simp split: if_split)
  qed
  then have "kept c0 (close_auxiliary_gem_handles (fb2_handles fb2) c')" using kept_same[OF k1] by blast
  then show ?thesis using aux_step[OF G] by (simp add: flight_def)
qed

lemma flight_prime:
  assumes fl: "flight c0 f M F G W c" and run: "sys_prime env h c = (Inr fd, c')"
  shows "flight c0 f M (insert fd F) G W c' \<and> 0 \<le> fd \<and> W fd = 0"
proof -
  have "kept c0 c'" using fl run by (auto simp: flight_def sys_prime_def sys_mint_fd_def step_clock_def intro: kept_same split: option.splits)
  then show ?thesis using prime_step[of f c c0 M F G 0 W env h fd c'] fl run by (simp add: flight_def)
qed

lemma flight_mmap:
  assumes fl: "flight c0 f M F G W c" and run: "sys_mmap env fd off n c = (Inr p, c')"
  shows "flight c0 f (insert p M) F G W c' \<and> p \<notin> M \<and> p \<in> live_maps c' \<and> holds c' p n"
proof -
  have new: "next_obj c \<notin> live_maps c" using fl by (auto simp: flight_def gctx_ok_def ctx_ok_def fresh_ok_def)
  have "kept c0 c'" using fl run new flight_live[OF fl]
    by (auto simp: flight_def sys_mmap_def step_clock_def kept_def split: sum.splits)
  then show ?thesis using mmap_step[of f c c0 M F G 0 W env fd off n p c'] fl run by (simp add: flight_def)
qed

lemma flight_munmap:
  assumes fl: "flight c0 f M F G W c" and p: "p \<in> M"
  shows "flight c0 f (M - {p}) F G W (sys_munmap p c)"
proof -
  have "p \<notin> live_maps c0" using fl p by (auto simp: flight_def owes_def)
  then have "kept c0 (sys_munmap p c)" using fl by (auto simp: flight_def sys_munmap_def kept_def)
  then show ?thesis using munmap_step[of f c c0 M F G 0 W p] fl p by (simp add: flight_def)
qed

lemma flight_start_sync:
  assumes fl: "flight c0 f M F G W c" and run: "dmabuf_sync_start env fd c = (st, c')" and fd: "fd \<in> F"
  shows "flight c0 f M F G (if st then W(fd := Suc (W fd)) else W) c'"
proof -
  have "kept c0 c'" using fl run by (auto simp: flight_def dmabuf_sync_start_def step_clock_def intro: kept_same split: if_splits)
  then show ?thesis using start_step[of f c c0 M F G 0 W env fd st c'] fl run fd by (simp add: flight_def)
qed

lemma flight_end_sync: "flight c0 f M F G W c \<Longrightarrow> fd \<in> F \<Longrightarrow> 0 < W fd \<Longrightarrow> flight c0 f M F G (W(fd := W fd - 1)) (dmabuf_sync_end fd c)"
  using end_step[of f c c0 M F G 0 W fd] by (auto simp: flight_def dmabuf_sync_end_def intro: kept_same)

lemma flight_close: "flight c0 f M F G W c \<Longrightarrow> fd \<in> F \<Longrightarrow> flight c0 f M (F - {fd}) G W (sys_close fd c)"
  using close_step[of f c c0 M F G 0 W fd] by (auto simp: flight_def sys_close_def intro: kept_same)

lemma flight_gem: "flight c0 f M F (gem_set h) W c \<Longrightarrow> flight c0 f M F {} W (drmtap_gem_close h c)"
  using gem_step[of f c c0 M F h 0 W] by (auto simp: flight_def drmtap_gem_close_def gem_close_def intro: kept_same)


section \<open>A frame of the fast grab\<close>

definition fast_shown :: "drmtap_frame \<Rightarrow> ctx \<Rightarrow> bool" where
  "fast_shown fr c \<longleftrightarrow> f_priv fr = None \<and> (in_out fr c \<or> unmodified (f_modifier fr) \<and> eight_bit (f_format fr) \<and>
    (\<exists>q. f_data fr = Some q \<and> holds c q (unat (f_stride fr) * unat (f_height fr))))"

definition fast_post :: "ctx \<Rightarrow> nat \<Rightarrow> int \<times> drmtap_frame \<times> ctx \<Rightarrow> bool" where
  "fast_post b f res \<longleftrightarrow> (case res of (r, fr, c) \<Rightarrow> r \<le> 0 \<and> fast_inv b f c \<and> (r = 0 \<longrightarrow> fast_shown fr c))"

lemma fast_fail: "fast_inv b f c \<Longrightarrow> r < 0 \<Longrightarrow> fast_post b f (r, fr, c)"
  by (simp add: fast_post_def)

lemma plane_inv: "fast_inv b f (c\<lparr>grab_plane_id := x\<rparr>) = fast_inv b f c"
  by (simp add: fast_inv_def slots_ok_def slot_backed_def holds_def gctx_ok_def ctx_ok_def thread_ok_def fresh_ok_def buf_inv_def
    conn_ok_def memo_ok_def owes_def own_fds_def)

lemma plane_shown: "fast_shown fr (c\<lparr>grab_plane_id := x\<rparr>) = fast_shown fr c"
  by (simp add: fast_shown_def in_out_def out_buf_def holds_def)

lemma fast_finish_post: "r \<le> 0 \<Longrightarrow> fast_inv b f c \<Longrightarrow> (r = 0 \<Longrightarrow> fast_shown fr c) \<Longrightarrow> fast_post b f (fast_finish (r, fr, c))"
  by (simp add: fast_finish_def fast_post_def plane_inv plane_shown)

text \<open>Processing the mapping of a slot.\<close>

lemma process_slot:
  assumes inv: "fast_inv b f c" and i: "i < 4" and s: "s_fb_id (fast_slots c ! i) \<noteq> 0"
    and fr: "fr0 = slot_frame (fast_slots c ! i) fb_id" and d: "d = s_mmap_ptr (fast_slots c ! i)"
  shows "fast_post b f (fast_finish (gpu_auto_process pow env d fr0 False c))"
proof -
  let ?s = "fast_slots c ! i"
  have N: "slot_ok ?s" "slot_backed c ?s" "i < length (fast_slots c)" using inv_nth[OF inv i] by simp_all
  obtain p where p: "s_mmap_ptr ?s = Some p" using N(1) s by (auto simp: slot_ok_def)
  have l: "p \<in> live_maps c" by (rule slot_map_live[OF inv _ p]) (use N(3) in simp)
  have data: "data_ok c d fr0" using N(1,2) s p l by (simp add: data_ok_def fr d slot_frame_def slot_ok_def slot_backed_def)
  have ctx: "ctx_ok f c" using inv by (simp add: fast_inv_def gctx_ok_def)
  obtain r fr1 c1 where run: "gpu_auto_process pow env d fr0 False c = (r, fr1, c1)" by (metis prod_cases3)
  note P = process_ok[OF ctx data, of pow env False, unfolded run proc_post_def prod.case]
  have p1: "pstep f c c1" and cv: "converted fr0 fr1" and r0: "r \<le> 0" using P by blast+
  have data1: "data_ok c1 d fr0" by (rule data_ok_step[OF p1 data])
  have "fast_shown fr1 c1" if "r = 0"
  proof (cases "in_out fr1 c1")
    case True
    then show ?thesis using converted_D[OF cv] by (simp add: fast_shown_def fr slot_frame_def)
  next
    case False
    then have "passed d fr0 fr1" using P that by blast
    then have "fr1 = fr0" "unmodified (f_modifier fr0)" "eight_bit (f_format fr0)" using d p by (auto simp: passed_def)
    then show ?thesis using data1 p by (simp add: fast_shown_def data_ok_def fr d slot_frame_def)
  qed
  then show ?thesis unfolding run using fast_finish_post[OF r0 pstep_inv[OF p1 inv]] by blast
qed

lemma refresh_step:
  assumes inv: "fast_inv b f c" and i: "i < 4" and run: "fast_refresh env i c = (ret, c')"
  shows "fast_inv b f c' \<and> (\<not> ret < 0 \<longrightarrow> (\<exists>st. fast_slots c' ! i = (fast_slots c ! i)\<lparr>s_sync_started := st\<rparr>))"
proof (cases "is_virtio_gpu c")
  case True
  let ?s = "fast_slots c ! i"
  obtain r c1 where tr: "virtio_transfer_from_host env (s_gem_handle ?s) (s_fb_width ?s) (s_height ?s) c = (r, c1)" by fastforce
  have "c1 = step_clock c \<or> c1 = step_clock (step_clock c)"
    using tr by (auto simp: virtio_transfer_from_host_def Let_def split: if_splits)
  then have m: "mstep c c1" using mstep_upd(1) mstep_trans by blast
  have inv1: "fast_inv b f c1" by (rule meta_inv[OF m inv])
  have S: "fast_slots c1 = fast_slots c" using m by (auto simp: mstep_def dest: core_D)
  have len: "i < length (fast_slots c)" using inv_nth[OF inv i] by simp
  show ?thesis
  proof (cases "r < 0")
    case True
    then show ?thesis using run tr \<open>is_virtio_gpu c\<close> inv1 by (simp add: fast_refresh_def Let_def)
  next
    case False
    then have "c' = fast_sync_close c1" using run tr \<open>is_virtio_gpu c\<close> by (simp add: fast_refresh_def Let_def)
    then show ?thesis using sync_close_step[OF inv1] len by (auto simp: S)
  qed
next
  case False
  then have "c' = fast_sync_begin env i c" using run by (simp add: fast_refresh_def Let_def)
  then show ?thesis using sync_begin_step[OF inv i, of env] by blast
qed

lemma serve_ok:
  assumes inv: "fast_inv b f c" and i: "i < 4" and s: "s_fb_id (fast_slots c ! i) \<noteq> 0"
  shows "fast_post b f (fast_serve pow env i fb_id frame c)"
proof -
  obtain ret c1 where rf: "fast_refresh env i c = (ret, c1)" by fastforce
  note R = refresh_step[OF inv i rf]
  note run = fast_serve_def[of pow env i fb_id frame c, unfolded rf prod.case Let_def]
  show ?thesis
  proof (cases "ret < 0")
    case True
    then show ?thesis unfolding run using R by (simp add: fast_fail)
  next
    case False
    let ?s = "fast_slots c1 ! i"
    let ?c = "fast_slot_restage_planes ?s (c1\<lparr>fast_last_fb_id := fb_id\<rparr>)"
    obtain st where st: "?s = (fast_slots c ! i)\<lparr>s_sync_started := st\<rparr>" using R False by blast
    have m: "mstep c1 ?c" by (simp add: mstep_def core_def memo_ok_def fast_slot_restage_planes_def)
    have inv2: "fast_inv b f ?c" using meta_inv[OF m] R by blast
    have S: "fast_slots ?c = fast_slots c1" by (simp add: fast_slot_restage_planes_def)
    have "s_fb_id ?s \<noteq> 0" using s by (simp add: st)
    from process_slot[OF inv2 i, unfolded S, OF this refl refl]
    have "fast_post b f (fast_finish (gpu_auto_process pow env (s_mmap_ptr ?s) (slot_frame ?s fb_id) False ?c))" .
    then show ?thesis unfolding run using False by simp
  qed
qed

section \<open>A framebuffer seen for the first time\<close>

lemma flight_virtio:
  assumes fl: "flight c0 f M F G W c"
    and run: "(if is_virtio_gpu c then
             (case virtio_transfer_from_host env gem w h c of (ret, c1) \<Rightarrow>
               if ret < 0 then (Inl EIO, c1) else virtio_dumb_mmap env gem n c1)
           else (Inl EIO, c)) = (res, c')"
  shows "case res of Inl e \<Rightarrow> flight c0 f M F G W c' | Inr p \<Rightarrow> flight c0 f (insert p M) F G W c' \<and> p \<in> live_maps c' \<and> holds c' p n"
proof -
  have V: "gctx_ok f c' \<and> (case res of Inl e \<Rightarrow> owes c0 M F G 0 W c'
    | Inr p \<Rightarrow> owes c0 (insert p M) F G 0 W c' \<and> p \<in> live_maps c' \<and> holds c' p n)"
    by (rule virtio_map_step[OF _ _ run]) (use fl in \<open>simp_all add: flight_def\<close>)
  have new: "next_obj c \<notin> live_maps c0" using fl flight_live[OF fl] by (auto simp: flight_def gctx_ok_def ctx_ok_def fresh_ok_def)
  have "kept c c' \<or> (\<forall>q. q \<noteq> next_obj c \<longrightarrow> mem c' q = mem c q) \<and> fast_slots c' = fast_slots c \<and> fast_initialized c' = fast_initialized c"
    using run by (auto simp: virtio_transfer_from_host_def virtio_dumb_mmap_def sys_map_dumb_def sys_mmap_def step_clock_def kept_def Let_def
      split: if_splits option.splits sum.splits)
  moreover have "kept c c' \<Longrightarrow> kept c0 c'" using fl flight_live[OF fl] by (auto simp: flight_def kept_def)
  moreover have "(\<forall>q. q \<noteq> next_obj c \<longrightarrow> mem c' q = mem c q) \<and> fast_slots c' = fast_slots c \<and> fast_initialized c' = fast_initialized c \<Longrightarrow> kept c0 c'"
    using fl new unfolding flight_def kept_def by metis
  ultimately show ?thesis using V by (auto simp: flight_def split: sum.splits)
qed

definition opened :: "bool \<Rightarrow> int \<Rightarrow> int \<Rightarrow> nat" where
  "opened st fd = (if st then (\<lambda>_. 0)(fd := 1) else (\<lambda>_. 0))"

lemma map_step:
  assumes fl: "flight c0 f {} {fd} G (\<lambda>_. 0) c" and run: "fast_map env force fb2 fd n c = (res, st, c')"
  shows "flight c0 f (case res of None \<Rightarrow> {} | Some p \<Rightarrow> {p}) {fd} G (opened st fd) c' \<and> (\<forall>p. res = Some p \<longrightarrow> holds c' p n)"
proof -
  let ?gem = "fb2_handles fb2 ! 0"
  obtain v c1 where v: "(if is_virtio_gpu c then
             (case virtio_transfer_from_host env ?gem (fb2_width fb2) (fb2_height fb2) c of (ret, c1) \<Rightarrow>
               if ret < 0 then (Inl EIO, c1) else virtio_dumb_mmap env ?gem n c1)
           else (Inl EIO, c)) = (v, c1)" by fastforce
  note V = flight_virtio[OF fl v]
  note run1 = run[unfolded fast_map_def Let_def v prod.case]
  show ?thesis
  proof (cases v)
    case (Inr p)
    then show ?thesis using run1 V by (auto simp: opened_def)
  next
    case (Inl e)
    then have f1: "flight c0 f {} {fd} G (\<lambda>_. 0) c1" using V by simp
    show ?thesis
    proof (cases "fast_no_cpu_map c1")
      case True
      then show ?thesis using run1 Inl f1 by (auto simp: opened_def)
    next
      case False
      obtain b c2 where ss: "dmabuf_sync_start env fd c1 = (b, c2)" by fastforce
      have f2: "flight c0 f {} {fd} G (opened b fd) c2" using flight_start_sync[OF f1 ss] by (cases b) (simp_all add: opened_def)
      obtain q c3 where mm: "sys_mmap env fd (unat (fb2_offsets fb2 ! 0)) n c2 = (q, c3)" by fastforce
      have u: "mstep x (x\<lparr>fast_no_cpu_map := True\<rparr>)" for x :: ctx by (simp add: mstep_def core_def memo_ok_def)
      note run2 = run1[unfolded Inl sum.case if_not_P[OF False] ss mm prod.case]
      show ?thesis
      proof (cases q)
        case (Inl e')
        have "mstep c2 c3" using mmap_fail[of env fd _ n c2 e' c3] mm Inl mstep_upd(1) by blast
        then have "flight c0 f {} {fd} G (opened b fd) (c3\<lparr>fast_no_cpu_map := True\<rparr>)" using flight_meta[OF u] flight_meta f2 by blast
        then show ?thesis using run2 Inl by auto
      next
        case (Inr p)
        note M = flight_mmap[OF f2 mm[unfolded Inr]]
        show ?thesis
        proof (cases force)
          case True
          have "flight c0 f {} {fd} G (opened b fd) (sys_munmap p c3)" using flight_munmap[of c0 f "{p}" "{fd}" G "opened b fd" c3 p] M by simp
          then have "flight c0 f {} {fd} G (opened b fd) ((sys_munmap p c3)\<lparr>fast_no_cpu_map := True\<rparr>)" using flight_meta[OF u] by blast
          then show ?thesis using run2 Inr True by auto
        next
          case False
          then show ?thesis using run2 Inr M by auto
        qed
      qed
    qed
  qed
qed

text \<open>Giving back the descriptor, its window and the handle.\<close>

definition fast_give_back :: "nat \<Rightarrow> int \<Rightarrow> bool \<Rightarrow> ctx \<Rightarrow> ctx" where
  "fast_give_back gem fd st c = drmtap_gem_close gem (sys_close fd (if st then dmabuf_sync_end fd c else c))"

lemma give_back_step:
  assumes fl: "flight c0 f {} {fd} (gem_set gem) (opened st fd) c"
  shows "flight c0 f {} {} {} (\<lambda>_. 0) (fast_give_back gem fd st c)"
proof -
  have "flight c0 f {} {fd} (gem_set gem) (\<lambda>_. 0) (if st then dmabuf_sync_end fd c else c)"
  proof (cases st)
    case True
    have "(opened st fd)(fd := opened st fd fd - 1) = (\<lambda>_. 0)" using True by (auto simp: opened_def)
    then show ?thesis using flight_end_sync[OF fl, of fd] True by (simp add: opened_def)
  next
    case False
    then show ?thesis using fl by (simp add: opened_def)
  qed
  from flight_close[OF this, of fd] have "flight c0 f {} {} (gem_set gem) (\<lambda>_. 0) (sys_close fd (if st then dmabuf_sync_end fd c else c))" by simp
  then show ?thesis unfolding fast_give_back_def by (rule flight_gem)
qed

lemma give_back_out: "in_out fr c \<Longrightarrow> in_out (fr\<lparr>f_dma_buf_fd := x\<rparr>) ((fast_give_back gem fd st c)\<lparr>fast_last_fb_id := y\<rparr>)"
proof -
  assume io: "in_out fr c"
  have f: "user_out (fast_give_back gem fd st c) = user_out c" "deswizzle_buf (fast_give_back gem fd st c) = deswizzle_buf c"
    "live_maps (fast_give_back gem fd st c) = live_maps c" "mem (fast_give_back gem fd st c) = mem c"
    by (simp_all add: fast_give_back_def drmtap_gem_close_def gem_close_def sys_close_def dmabuf_sync_end_def)
  have h: "holds ((fast_give_back gem fd st c)\<lparr>fast_last_fb_id := y\<rparr>) = holds c" by (intro ext) (simp add: holds_def f)
  have o: "out_buf ((fast_give_back gem fd st c)\<lparr>fast_last_fb_id := y\<rparr>) = out_buf c" by (simp add: out_buf_def f)
  show ?thesis using io by (simp add: in_out_def h o f)
qed

lemma unmapped_ok:
  assumes inv: "fast_inv b f c0" and fl: "flight c0 f {} {fd} (gem_set (fb2_handles fb2 ! 0)) (opened st fd) c" and geo: "fb2_geometry fb2 = 0"
  shows "fast_post b f (fast_unmapped pow env fb_id fb2 fd st frame c)"
proof -
  let ?gem = "fb2_handles fb2 ! 0" and ?m = "fb2_effective_modifier fb2"
  have dims: "drmtap_validate_fb_dims (fb2_width fb2) (fb2_height fb2) = 0" and size: "validate_fb_size (fb2_pitches fb2 ! 0) (fb2_height fb2) = 0"
    using geo by (auto simp: fb2_geometry_def Let_def split: if_splits)
  obtain avail c1 where av: "drmtap_gpu_egl_available env c = (avail, c1)" by fastforce
  have ok: "ctx_ok f c" using fl by (simp add: flight_def gctx_ok_def)
  have f1: "flight c0 f {} {fd} (gem_set ?gem) (opened st fd) c1" using flight_pstep available_step[OF ok av] fl by blast
  have give: "fast_inv b f (fast_give_back ?gem fd st x)" if "flight c0 f {} {fd} (gem_set ?gem) (opened st fd) x" for x
    using flight_inv[OF inv give_back_step[OF that]] .
  note run = fast_unmapped_def[of pow env fb_id fb2 fd st frame c, unfolded Let_def av prod.case, folded fast_give_back_def]
  show ?thesis
  proof (cases avail)
    case False
    then show ?thesis unfolding run using give[OF f1] by (simp add: fast_fail errno_defs)
  next
    case True
    obtain width c2 where wd: "drmtap_scanout_width env (fb2_width fb2) ?m c1 = (width, c2)" by fastforce
    have ms: "mstep c1 c2" and wok: "width_ok (fb2_width fb2) ?m width"
      using mstep_width[OF wd] f1 by (simp_all add: flight_def gctx_ok_def)
    have f2: "flight c0 f {} {fd} (gem_set ?gem) (opened st fd) c2" by (rule flight_meta[OF ms f1])
    define fr where "fr = \<lparr>f_data = None, f_dma_buf_fd = fd, f_width = width, f_height = fb2_height fb2,
                 f_stride = fb2_pitches fb2 ! 0, f_format = fb2_format fb2, f_modifier = ?m,
                 f_fb_id = fb_id, f_priv = None\<rparr>"
    have data: "data_ok c2 None fr" using narrowed_dims[OF dims wok] size by (simp add: data_ok_def fr_def)
    have ok2: "ctx_ok f c2" using f2 by (simp add: flight_def gctx_ok_def)
    obtain pr fr1 c3 where gp: "gpu_auto_process pow env None fr False c2 = (pr, fr1, c3)" by (metis prod_cases3)
    note P = process_ok[OF ok2 data, of pow env False, unfolded gp proc_post_def prod.case]
    have cv: "converted fr fr1" using P by blast
    have f3: "flight c0 f {} {fd} (gem_set ?gem) (opened st fd) c3" using flight_pstep P f2 by blast
    let ?c = "(fast_give_back ?gem fd st c3)\<lparr>fast_last_fb_id := 0\<rparr>"
    let ?r = "if pr = 0 \<and> f_data fr1 = None then - EIO else pr"
    have m: "mstep (fast_give_back ?gem fd st c3) ?c" by (simp add: mstep_def core_def memo_ok_def)
    have inv': "fast_inv b f ?c" by (rule meta_inv[OF m give[OF f3]])
    have "fast_shown (fr1\<lparr>f_dma_buf_fd := - 1\<rparr>) ?c" if "?r = 0"
    proof -
      have "pr = 0" "f_data fr1 \<noteq> None" using that by (auto simp: errno_defs split: if_splits)
      then have "in_out fr1 c3" using P by (auto simp: passed_def fr_def)
      then show ?thesis using give_back_out converted_D[OF cv] by (simp add: fast_shown_def fr_def)
    qed
    moreover have "?r \<le> 0" using P by (simp add: errno_defs)
    ultimately have "fast_post b f (fast_finish (?r, fr1\<lparr>f_dma_buf_fd := - 1\<rparr>, ?c))" using inv' by (intro fast_finish_post)
    then show ?thesis unfolding run if_P[OF True] wd prod.case fr_def[symmetric] gp by simp
  qed
qed


lemma owes_trans:
  assumes 1: "owes b M F G P W c" and 2: "owes c M' F' G' P' W' c'"
  shows "owes b (M \<union> M') (F \<union> F') (G \<union> G') (P + P') (\<lambda>x. W x + W' x) c'"
  using assms unfolding owes_def by auto

text \<open>Storing a mapped framebuffer in an empty slot.\<close>

lemma store_inv:
  assumes inv: "fast_inv b f c0" and closed: "none_open (fast_slots c0)" and init: "fast_initialized c0" and i: "i < 4" "s_fb_id (fast_slots c0 ! i) = 0"
    and fl: "flight c0 f {p} {fd} (gem_set gem) (opened st fd) c"
    and y: "s_fb_id y \<noteq> 0" "s_gem_handle y = gem" "gem \<noteq> 0" "s_prime_fd y = fd" "0 \<le> fd" "s_mmap_ptr y = Some p" "s_sync_started y = st"
    and geo: "drmtap_validate_fb_dims (s_width y) (s_height y) = 0" "validate_fb_size (s_stride y) (s_height y) = 0"
      "holds c p (unat (s_stride y) * unat (s_height y))"
  shows "fast_inv b f (set_slot i y c)"
proof -
  let ?S = "fast_slots c0" and ?T = "(fast_slots c0)[i := y]"
  let ?M = "set (all_of slot_maps ?S)" and ?F = "set (all_of slot_fds ?S)" and ?G = "set (all_of slot_gems ?S)"
  have len: "i < length ?S" and sok: "slot_ok (?S ! i)" using inv_nth[OF inv i(1)] by simp_all
  have S: "fast_slots c = ?S" using fl by (simp add: flight_def kept_def)
  have ok: "gctx_ok f c" and ow: "owes b ?M ?F ?G 0 (wins ?S) c0" and ow1: "owes c0 {p} {fd} (gem_set gem) 0 (opened st fd) c"
    using fl inv by (simp_all add: flight_def fast_inv_def)
  have d: "distinct (all_of slot_maps ?S)" "distinct (all_of slot_fds ?S)" "distinct (all_of slot_gems ?S)" "length ?S = 4"
    using inv by (simp_all add: fast_inv_def slots_ok_def DRMTAP_FAST_SLOTS_def)
  have e: "slot_maps (?S ! i) = []" "slot_fds (?S ! i) = []" "slot_gems (?S ! i) = []" "\<not> s_sync_started (?S ! i)"
    using sok i(2) by (simp_all add: slot_ok_def slot_maps_def slot_fds_def slot_gems_def)
  have v: "slot_maps y = [p]" "slot_fds y = [fd]" "slot_gems y = [gem]" using y by (simp_all add: slot_maps_def slot_fds_def slot_gems_def)
  have "?M \<subseteq> live_maps c0" "?F \<subseteq> own_fds c0" "?G \<subseteq> live_gems c0" using ow unfolding owes_def by blast+
  moreover have "p \<notin> live_maps c0" "fd \<notin> own_fds c0" "gem \<notin> live_gems c0" using ow1 y(3) unfolding owes_def gem_set_def by auto
  ultimately have n: "set [p] \<inter> ?M = {}" "set [fd] \<inter> ?F = {}" "set [gem] \<inter> ?G = {}" by auto
  note M = all_of_add[OF len d(1) e(1), of y, unfolded v, OF distinct_singleton n(1)]
    and F = all_of_add[OF len d(2) e(2), of y, unfolded v, OF distinct_singleton n(2)]
    and G = all_of_add[OF len d(3) e(3), of y, unfolded v, OF distinct_singleton n(3)]
  have w: "wins ?T = (\<lambda>x. wins ?S x + opened st fd x)"
    using e(4) y(4,7) by (auto simp: fun_eq_iff wins_upd[OF len] slot_win_def opened_def)
  have k: "kept c0 c" using fl by (simp add: flight_def)
  have ybk: "slot_ok y \<and> slot_backed c y" using y geo by (simp add: slot_ok_def slot_backed_def)
  have "slot_ok s \<and> slot_backed c s" if "s \<in> set ?T" for s
    using that ybk slot_back_kept[OF inv k] inv set_update_subset_insert[of ?S i y] by (auto simp: fast_inv_def slots_ok_def)
  then have "slots_ok (c\<lparr>fast_slots := ?T\<rparr>)"
    using M(2) F(2) G(2) d(4) none_open_set[OF closed] k init by (simp add: slots_ok_def slots_upd DRMTAP_FAST_SLOTS_def kept_def)
  moreover have "fast_slots (c\<lparr>fast_slots := ?T\<rparr>) = ?T" by simp
  moreover have "owes b (?M \<union> set [p]) (?F \<union> set [fd]) (?G \<union> set [gem]) 0 (\<lambda>x. wins ?S x + opened st fd x) c"
    using owes_trans[OF ow ow1] y(3) by (simp add: gem_set_def)
  ultimately show ?thesis using ok unfolding fast_inv_def set_slot_def S by (simp only: slots_upd M(1) F(1) G(1) w simp_thms)
qed


lemma miss_ok:
  assumes inv: "fast_inv b f c0" and closed: "none_open (fast_slots c0)" and init: "fast_initialized c0" and i: "i < 4" "s_fb_id (fast_slots c0 ! i) = 0"
    and fb: "fb_id \<noteq> 0" and env: "errnos_ok env"
  shows "fast_post b f (fast_miss pow env force i fb_id frame c0)"
proof -
  have f0: "flight c0 f {} {} {} (\<lambda>_. 0) c0" using inv by (simp add: fast_inv_def flight_start)
  obtain q c1 where gf: "sys_getfb2 env fb_id c0 = (q, c1)" by fastforce
  note run = fast_miss_def[of pow env force i fb_id frame c0, unfolded gf prod.case Let_def]
  show ?thesis
  proof (cases q)
    case (Inl e)
    then have "mstep c0 c1" "0 < e" using gf env mstep_upd(1) by (auto simp: sys_getfb2_def Let_def errnos_ok_def split: sum.splits)
    then show ?thesis unfolding run Inl using meta_inv[OF _ inv] by (simp add: fast_fail)
  next
    case (Inr fb2)
    let ?gem = "fb2_handles fb2 ! 0"
    define c2 where "c2 = close_auxiliary_gem_handles (fb2_handles fb2) c1"
    have f2: "flight c0 f {} {} (gem_set ?gem) (\<lambda>_. 0) c2" using flight_getfb2[OF f0 gf[unfolded Inr]] by (simp add: c2_def)
    note run2 = run[unfolded Inr sum.case, folded c2_def]
    have drop: "fast_inv b f (drmtap_gem_close ?gem x)" if "flight c0 f {} {} (gem_set ?gem) (\<lambda>_. 0) x" for x
      using flight_inv[OF inv flight_gem[OF that]] .
    show ?thesis
    proof (cases "?gem = 0")
      case True
      have m: "mstep c2 (c2\<lparr>fast_no_privilege := True\<rparr>)" by (simp add: mstep_def core_def memo_ok_def)
      have "fast_inv b f c2" using flight_inv[OF inv] f2 True by (simp add: gem_set_def)
      then have "fast_inv b f (drmtap_fast_cleanup (c2\<lparr>fast_no_privilege := True\<rparr>))" using cleanup_inv meta_inv[OF m] by blast
      then show ?thesis unfolding run2 using True by (simp add: fast_fail errno_defs)
    next
      case gem: False
      show ?thesis
      proof (cases "fb2_geometry fb2 = 0")
        case False
        then have "fb2_geometry fb2 < 0" using fb2_geometry_range[of fb2] by linarith
        then show ?thesis unfolding run2 using gem False drop[OF f2] by (simp add: fast_fail)
      next
        case geo: True
        have f2': "flight c0 f {} {} (gem_set ?gem) (\<lambda>_. 0) (cache_planes fb2 c2)" by (rule flight_meta[OF mstep_upd(6) f2])
        obtain x c3 where pr: "sys_prime env ?gem (cache_planes fb2 c2) = (x, c3)" by fastforce
        have run3: "fast_miss pow env force i fb_id frame c0 = (case (x, c3) of
            (Inl e, c3) \<Rightarrow> (- e, frame, drmtap_gem_close ?gem c3)
          | (Inr fd, c3) \<Rightarrow>
            (case fast_map env force fb2 fd (unat (fb2_pitches fb2 ! 0) * unat (fb2_height fb2)) c3 of
              (None, st, c4) \<Rightarrow> fast_unmapped pow env fb_id fb2 fd st frame c4
            | (Some p, st, c4) \<Rightarrow>
                fast_finish (gpu_auto_process pow env (Some p) (slot_frame (fast_slots ((fast_store env i fb_id fb2 fd st p
                    (unat (fb2_pitches fb2 ! 0) * unat (fb2_height fb2)) c4)\<lparr>fast_last_fb_id := fb_id\<rparr>) ! i) fb_id) False
                  ((fast_store env i fb_id fb2 fd st p (unat (fb2_pitches fb2 ! 0) * unat (fb2_height fb2)) c4)\<lparr>fast_last_fb_id := fb_id\<rparr>))))"
          unfolding run2 pr using gem geo by simp
        show ?thesis
        proof (cases x)
          case (Inl e)
          have pf: "c3 = step_clock (cache_planes fb2 c2)" "v_prime env (tick (cache_planes fb2 c2)) ?gem = Some e"
            using prime_fail[OF pr[unfolded Inl]] by blast+
          then have "0 < e" using env by (auto simp: errnos_ok_def)
          moreover have "flight c0 f {} {} (gem_set ?gem) (\<lambda>_. 0) c3" unfolding pf(1) by (rule flight_meta[OF mstep_upd(1) f2'])
          ultimately show ?thesis unfolding run3 Inl using drop by (simp add: fast_fail)
        next
          case (Inr fd)
          let ?n = "unat (fb2_pitches fb2 ! 0) * unat (fb2_height fb2)"
          have f3: "flight c0 f {} {fd} (gem_set ?gem) (\<lambda>_. 0) c3" and fd: "0 \<le> fd" using flight_prime[OF f2' pr[unfolded Inr]] by simp_all
          obtain res st c4 where mp: "fast_map env force fb2 fd ?n c3 = (res, st, c4)" by (metis prod_cases3)
          note M = map_step[OF f3 mp]
          show ?thesis
          proof (cases res)
            case None
            then show ?thesis unfolding run3 Inr prod.case sum.case mp using unmapped_ok[OF inv _ geo] M by simp
          next
            case (Some p)
            have f4: "flight c0 f {p} {fd} (gem_set ?gem) (opened st fd) c4" and h: "holds c4 p ?n" using M Some by simp_all
            obtain width c5 where wd: "drmtap_scanout_width env (fb2_width fb2) (fb2_effective_modifier fb2) c4 = (width, c5)" by fastforce
            have ms: "mstep c4 c5" and wok: "width_ok (fb2_width fb2) (fb2_effective_modifier fb2) width"
              using mstep_width[OF wd] f4 by (simp_all add: flight_def gctx_ok_def)
            have f5: "flight c0 f {p} {fd} (gem_set ?gem) (opened st fd) c5" by (rule flight_meta[OF ms f4])
            have core5: "core c5 = core c4" using ms by (simp add: mstep_def)
            have h5: "holds c5 p ?n" using h core_D(1)[OF core5] by (simp add: holds_def)
            define y where "y = \<lparr>s_fb_id = fb_id, s_gem_handle = ?gem, s_prime_fd = fd, s_mmap_ptr = Some p, s_mmap_size = ?n,
              s_width = width, s_height = fb2_height fb2, s_stride = fb2_pitches fb2 ! 0, s_fb_width = fb2_width fb2,
              s_format = fb2_format fb2, s_modifier = fb2_effective_modifier fb2, s_num_planes = cfb2_num_planes c5,
              s_pitches = cfb2_pitches c5, s_offsets = cfb2_offsets c5, s_sync_started = st\<rparr>"
            have st: "fast_store env i fb_id fb2 fd st p ?n c4 = set_slot i y c5" by (simp add: fast_store_def wd y_def)
            have dims: "drmtap_validate_fb_dims (fb2_width fb2) (fb2_height fb2) = 0" "validate_fb_size (fb2_pitches fb2 ! 0) (fb2_height fb2) = 0"
              using geo by (auto simp: fb2_geometry_def Let_def split: if_splits)
            have inv5: "fast_inv b f (set_slot i y c5)"
              by (rule store_inv[OF inv closed init i f5]) (use fb gem fd dims h5 narrowed_dims[OF dims(1) wok] in \<open>simp_all add: y_def\<close>)
            let ?c6 = "(set_slot i y c5)\<lparr>fast_last_fb_id := fb_id\<rparr>"
            have m6: "mstep (set_slot i y c5) ?c6" by (simp add: mstep_def core_def memo_ok_def)
            have inv6: "fast_inv b f ?c6" by (rule meta_inv[OF m6 inv5])
            have "i < length (fast_slots c5)" using inv_nth[OF inv5 i(1)] by (simp add: set_slot_def)
            then have S: "fast_slots ?c6 ! i = y" by (simp add: set_slot_def)
            have yf: "s_fb_id y \<noteq> 0" "s_mmap_ptr y = Some p" using fb by (simp_all add: y_def)
            from process_slot[OF inv6 i(1), unfolded S, OF yf(1) refl yf(2)[symmetric]]
            show ?thesis unfolding run3 Inr prod.case sum.case mp Some option.case st S .
          qed
        qed
      qed
    qed
  qed
qed


section \<open>The whole grab\<close>

lemma init_kept:
  "fast_initialized (fast_sync_close c) = fast_initialized c" "fast_initialized (snd (find_or_alloc_slot fb_id c)) = fast_initialized c"
proof -
  have one: "fast_initialized (slot_sync_close i c) = fast_initialized c" "fast_initialized (slot_drop i c) = fast_initialized c" for i c
    by (simp_all add: slot_sync_close_def slot_drop_def Let_def set_slot_def dmabuf_sync_end_def sys_munmap_def sys_close_def
      drmtap_gem_close_def gem_close_def split: option.split)
  have "fast_initialized (fold slot_sync_close xs c) = fast_initialized c" for xs by (induction xs arbitrary: c) (simp_all add: one)
  then show "fast_initialized (fast_sync_close c) = fast_initialized c" by (simp add: fast_sync_close_def)
  show "fast_initialized (snd (find_or_alloc_slot fb_id c)) = fast_initialized c" by (simp add: find_or_alloc_slot_def one split: option.split)
qed

lemma init_step:
  assumes inv: "fast_inv b f c" and run: "fast_init env c = (go, c')"
  shows "fast_inv b f c' \<and> (go \<longrightarrow> fast_initialized c')"
proof (cases "fast_initialized c")
  case True
  then show ?thesis using run inv by (simp add: fast_init_def)
next
  case False
  obtain plane c1 where fp: "find_primary_plane env c = (plane, c1)" by fastforce
  let ?c1 = "c1\<lparr>fast_plane_id := plane\<rparr>"
  let ?c2 = "read_hdr_for_current_crtc env ?c1"
  have m1: "mstep c1 ?c1" by (simp add: mstep_def core_def memo_ok_def)
  have m: "mstep c ?c2" by (rule mstep_trans[OF mstep_trans[OF mstep_find[OF fp] m1] mstep_hdr])
  have inv2: "fast_inv b f ?c2" by (rule meta_inv[OF m inv])
  have "core ?c2 = core c" using m by (simp add: mstep_def)
  then have "\<not> fast_initialized ?c2" using False core_D(23) by metis
  then have S: "fast_slots ?c2 = replicate DRMTAP_FAST_SLOTS empty_slot" using inv2 by (simp add: fast_inv_def slots_ok_def)
  let ?c3 = "?c2\<lparr>fast_slots := replicate DRMTAP_FAST_SLOTS empty_slot, fast_last_fb_id := 0, fast_no_cpu_map := False, fast_initialized := True\<rparr>"
  have u: "gctx_ok f ?c3 = gctx_ok f ?c2" "owes b M F G P W ?c3 = owes b M F G P W ?c2" "slot_backed ?c3 s = slot_backed ?c2 s" for M F G P W s
    by (simp_all add: slot_backed_def holds_def gctx_ok_def ctx_ok_def thread_ok_def fresh_ok_def buf_inv_def
      conn_ok_def memo_ok_def owes_def own_fds_def)
  have "fast_inv b f ?c3" using inv2 unfolding fast_inv_def slots_ok_def u S by simp
  then show ?thesis using run False fp inv2 by (auto simp: fast_init_def Let_def split: if_splits)
qed

lemma fast_ok:
  assumes inv: "fast_inv b f c0" and env: "errnos_ok env"
  shows "fast_post b f (drmtap_grab_mapped_fast pow env force frame c0)"
proof (cases "is_render_only c0 \<or> fast_no_privilege c0")
  case True
  then show ?thesis using inv by (auto simp: drmtap_grab_mapped_fast_def errno_defs intro: fast_fail)
next
  case no: False
  obtain go c1 where fi: "fast_init env c0 = (go, c1)" by fastforce
  note I = init_step[OF inv fi]
  define c2 where "c2 = step_clock c1"
  define fb_id where "fb_id = (case km_plane (v_kms env (tick c1)) (fast_plane_id c2) of None \<Rightarrow> 0 | Some pl \<Rightarrow> pl_fb_id pl)"
  let ?cached = "\<lambda>s. s_fb_id s = fb_id \<and> s_mmap_ptr s \<noteq> None"
  have n1: "\<not> is_render_only c0" "\<not> fast_no_privilege c0" using no by simp_all
  note run = drmtap_grab_mapped_fast_def[of pow env force frame c0, unfolded Let_def if_not_P[OF n1(1)] if_not_P[OF n1(2)] fi prod.case,
    folded c2_def, folded fb_id_def]
  have inv2: "fast_inv b f c2" using meta_inv[OF mstep_upd(1)] I by (simp add: c2_def)
  show ?thesis
  proof (cases "go \<and> fb_id \<noteq> 0")
    case False
    then show ?thesis unfolding run using I cleanup_inv[OF inv2] by (auto simp: errno_defs intro: fast_fail)
  next
    case True
    then have fb: "fb_id \<noteq> 0" and i2: "fast_initialized c2" using I by (simp_all add: c2_def step_clock_def)
    show ?thesis
    proof (cases "if fb_id = fast_last_fb_id c2 then slot_where ?cached c2 else None")
      case (Some i)
      then have w: "i < 4" "s_fb_id (fast_slots c2 ! i) = fb_id" using slot_where_found[of ?cached c2 i] by (auto split: if_splits)
      have "fast_post b f (fast_serve pow env i fb_id frame c2)" by (rule serve_ok[OF inv2 w(1)]) (use w(2) fb in simp)
      then show ?thesis unfolding run Some using True by simp
    next
      case None
      obtain i c3 where al: "find_or_alloc_slot fb_id (fast_sync_close c2) = (i, c3)" by fastforce
      have C: "fast_inv b f (fast_sync_close c2)" "none_open (fast_slots (fast_sync_close c2))"
        using sync_close_step[OF inv2] closed_none by auto
      note A = alloc_step[OF C al]
      have i3: "fast_initialized c3" using init_kept(2)[of fb_id "fast_sync_close c2"] init_kept(1)[of c2] i2 al by simp
      have run1: "drmtap_grab_mapped_fast pow env force frame c0 = (if ?cached (fast_slots c3 ! i) then fast_serve pow env i fb_id frame c3
                 else fast_miss pow env force i fb_id frame c3)"
        unfolding run None using True al by simp
      show ?thesis
      proof (cases "?cached (fast_slots c3 ! i)")
        case cached: True
        have "fast_post b f (fast_serve pow env i fb_id frame c3)" using A cached fb by (intro serve_ok) auto
        then show ?thesis unfolding run1 if_P[OF cached] .
      next
        case False
        have "slot_ok (fast_slots c3 ! i)" using inv_nth[of b f c3 i] A by blast
        then have z: "s_fb_id (fast_slots c3 ! i) = 0" using A False fb by (auto simp: slot_ok_def split: if_splits)
        have "fast_post b f (fast_miss pow env force i fb_id frame c3)" using A i3 z fb env by (intro miss_ok) auto
        then show ?thesis unfolding run1 if_not_P[OF False] .
      qed
    qed
  qed
qed

section \<open>Properties\<close>

text \<open>
  C2. The fast grab's cache is a ledger. From any state in which the context holds, beyond b,
  exactly what its slots record, drmtap_grab_mapped_fast returns 0 or a negative errno and leaves
  such a state, whatever the kernel and the GPU answer and however framebuffers come and go: at
  most four framebuffers, one mapping, descriptor and handle each, at most one open CPU-access
  window, nothing closed twice. drmtap_fast_cleanup then returns to b. A frame it hands out has no
  private state and shows an image in the output buffer, or the cached mapping of an 8-bit scanout
  with a linear (or unstated) layout, all rows backed.
\<close>

theorem fast_cache_is_a_ledger:
  assumes "fast_inv b f c" "errnos_ok env" "drmtap_grab_mapped_fast pow env force frame c = (r, fr, c')"
  shows "r \<le> 0 \<and> fast_inv b f c' \<and> (r = 0 \<longrightarrow> fast_shown fr c') \<and> clean b (drmtap_fast_cleanup c')"
proof -
  have "fast_post b f (r, fr, c')" using fast_ok[OF assms(1,2), of pow force frame] assms(3) by simp
  then show ?thesis using cleanup_inv by (auto simp: fast_post_def)
qed

lemma wit_fast_inv: "fast_inv wit_ctx 0 wit_ctx"
proof -
  have "wins (replicate 4 empty_slot) = (\<lambda>_. 0)" by (auto simp: wins_def slot_win_def empty_slot_def sum_list_replicate)
  moreover have "slots_ok wit_ctx"
    by (simp add: slots_ok_def wit_ctx_def DRMTAP_FAST_SLOTS_def slot_ok_def slot_backed_def empty_slot_def slot_maps_def slot_fds_def
      slot_gems_def one_open_def nth_replicate)
  moreover have "all_of slot_maps (fast_slots wit_ctx) = []" "all_of slot_fds (fast_slots wit_ctx) = []" "all_of slot_gems (fast_slots wit_ctx) = []"
    "fast_slots wit_ctx = replicate 4 empty_slot"
    by (simp_all add: wit_ctx_def slot_maps_def slot_fds_def slot_gems_def empty_slot_def)
  ultimately show ?thesis using wit_gctx clean_refl[unfolded clean_def] by (simp add: fast_inv_def)
qed

theorem fast_cache_is_a_ledger_witness:
  "case drmtap_grab_mapped_fast (\<lambda>x y. x) wit_env False zero_frame wit_ctx of (r, fr, c') \<Rightarrow>
    r \<le> 0 \<and> fast_inv wit_ctx 0 c' \<and> clean wit_ctx (drmtap_fast_cleanup c')"
proof -
  obtain r fr c' where run: "drmtap_grab_mapped_fast (\<lambda>x y. x) wit_env False zero_frame wit_ctx = (r, fr, c')" by (metis prod_cases3)
  show ?thesis using fast_cache_is_a_ledger[OF wit_fast_inv wit_errnos run] run by simp
qed


text \<open>
  A cached framebuffer id is served without asking the kernel what it names now. While the
  plane still reports the id of the last frame, a linear 8-bit slot with that id answers with its
  cached mapping, geometry and descriptor, whatever drmModeGetFB2 would say: an id the kernel has
  recycled for another buffer shows the old buffer's pixels.
\<close>

lemma fast_hit_trusts_fb_id:
  assumes inv: "fast_inv b f c" "fast_initialized c" "\<not> is_render_only c" "\<not> fast_no_privilege c" "\<not> is_virtio_gpu c"
    and plane: "km_plane (v_kms env (tick c)) (fast_plane_id c) = Some pl" "pl_fb_id pl = fast_last_fb_id c" "fast_last_fb_id c \<noteq> 0"
    and slot: "slot_where (\<lambda>s. s_fb_id s = fast_last_fb_id c \<and> s_mmap_ptr s \<noteq> None) c = Some i"
      "s_modifier (fast_slots c ! i) = DRM_FORMAT_MOD_LINEAR" "eight_bit (s_format (fast_slots c ! i))"
  shows "\<exists>c'. drmtap_grab_mapped_fast pow env force frame c = (0, slot_frame (fast_slots c ! i) (fast_last_fb_id c), c')"
proof -
  let ?id = "fast_last_fb_id c" and ?c = "step_clock c"
  have S: "fast_slots ?c = fast_slots c" "fast_last_fb_id ?c = ?id" "fast_plane_id ?c = fast_plane_id c" "is_virtio_gpu ?c = is_virtio_gpu c"
    by (simp_all add: step_clock_def is_virtio_gpu_def)
  have w: "i < 4" "s_mmap_ptr (fast_slots c ! i) \<noteq> None" using slot_where_found[OF slot(1)] by simp_all
  then obtain p where p: "s_mmap_ptr (fast_slots c ! i) = Some p" by blast
  have sw: "slot_where (\<lambda>s. s_fb_id s = ?id \<and> s_mmap_ptr s \<noteq> None) ?c = Some i" using slot(1) by (simp add: slot_where_def S)
  have e: "drmtap_grab_mapped_fast pow env force frame c = fast_serve pow env i ?id frame ?c"
    using inv(2-4) plane by (simp add: drmtap_grab_mapped_fast_def fast_init_def Let_def S sw del: not_None_eq)
  have rf: "fast_refresh env i ?c = (0, fast_sync_begin env i ?c)" using inv(5) by (simp add: fast_refresh_def S Let_def)
  have "fast_inv b f ?c" using meta_inv[OF mstep_upd(1) inv(1)] .
  then obtain st where st: "fast_slots (fast_sync_begin env i ?c) ! i = (fast_slots c ! i)\<lparr>s_sync_started := st\<rparr>"
    using sync_begin_step[of b f ?c i env] w(1) by (auto simp: S)
  have fr: "slot_frame ((fast_slots c ! i)\<lparr>s_sync_started := st\<rparr>) ?id = slot_frame (fast_slots c ! i) ?id" by (simp add: slot_frame_def)
  have "f_modifier (slot_frame (fast_slots c ! i) ?id) = DRM_FORMAT_MOD_LINEAR" "eight_bit (f_format (slot_frame (fast_slots c ! i) ?id))"
    using slot(2,3) by (simp_all add: slot_frame_def)
  note pr = process_linear[OF this]
  show ?thesis unfolding e fast_serve_def rf prod.case Let_def by (simp add: st fr p pr fast_finish_def)
qed

end
