(* ===== verification/ConvertFd.thy ===== *)
theory ConvertFd
  imports GrabOk
begin

text \<open>
  The split capture's unprivileged half (src/drm_grab.c, drmtap_convert_dmabuf): converting a
  DMA-BUF described by another process. The descriptor is untrusted: its geometry, its planes and
  the size of its buffer are checked before either conversion path touches it.
\<close>

section \<open>Checking the descriptor\<close>

definition desc_geometry :: "drmtap_desc \<Rightarrow> int" where
  "desc_geometry d =
    (let planes = (if d_num_planes d \<noteq> 0 then d_num_planes d else 1) in
     if 4 < planes \<or> d_width d = 0 then - EINVAL
     else
       let ret = drmtap_validate_fb_dims (d_width d) (d_height d);
           ret = (if ret = 0 then validate_fb_size (d_pitches d ! 0) (d_height d) else ret) in
       if ret \<noteq> 0 then ret
       else if ucast (d_pitches d ! 0) < (ucast (d_width d) * ucast (format_min_bpp (d_format d)) :: u64) then - EINVAL
       else 0)"

definition desc_planes :: "drmtap_desc \<Rightarrow> nat" where
  "desc_planes d = (if d_num_planes d \<noteq> 0 then unat (d_num_planes d) else 1)"

definition stage_desc :: "drmtap_desc \<Rightarrow> ctx \<Rightarrow> ctx" where
  "stage_desc d c =
    c\<lparr>cfb2_num_planes := int (desc_planes d),
      cfb2_pitches := map (\<lambda>p. if p < desc_planes d then d_pitches d ! p else 0) [0 ..< 4],
      cfb2_offsets := map (\<lambda>p. if p < desc_planes d then d_offsets d ! p else 0) [0 ..< 4],
      cur_hdr_eotf := d_hdr_eotf d, cur_hdr_max_nits := d_hdr_max_nits d\<rparr>"

definition desc_frame :: "drmtap_desc \<Rightarrow> drmtap_frame" where
  "desc_frame d = zero_frame\<lparr>f_width := d_width d, f_height := d_height d, f_stride := d_pitches d ! 0, f_format := d_format d,
    f_modifier := d_modifier d, f_fb_id := d_fb_id d, f_dma_buf_fd := d_dma_buf_fd d\<rparr>"

text \<open>The size lseek (else fstat) reports; None where neither gives a positive one.\<close>

definition sys_fd_size :: "env \<Rightarrow> int \<Rightarrow> ctx \<Rightarrow> nat option \<times> ctx" where
  "sys_fd_size env fd c = (case v_fd_size env (tick c) fd of None \<Rightarrow> None | Some n \<Rightarrow> if n = 0 then None else Some n, step_clock c)"

definition plane0_end :: "drmtap_desc \<Rightarrow> nat" where
  "plane0_end d = unat (d_offsets d ! 0) + unat (d_pitches d ! 0) * unat (d_height d)"

definition probe_fd :: "env \<Rightarrow> drmtap_desc \<Rightarrow> ctx \<Rightarrow> bool \<times> ctx" where
  "probe_fd env d c0 =
    (let fd = d_dma_buf_fd d in
     case dmabuf_sync_start env fd c0 of (st, c1) \<Rightarrow>
       if \<not> st then (False, c1)
       else case sys_fd_size env fd c1 of (sz, c2) \<Rightarrow>
         (case sz of None \<Rightarrow> False
          | Some n \<Rightarrow> plane0_end d \<le> n \<and>
              (\<forall>p \<in> {1 ..< desc_planes d}. unat (d_offsets d ! p) + unat (d_pitches d ! p) \<le> n),
          dmabuf_sync_end fd c2))"

section \<open>The two conversion paths\<close>

definition convert_gpu :: "env \<Rightarrow> drmtap_desc \<Rightarrow> drmtap_frame \<Rightarrow> ctx \<Rightarrow> drmtap_frame option \<times> ctx" where
  "convert_gpu env d fr c0 =
    (case drmtap_gpu_egl_available env c0 of (avail, c1) \<Rightarrow>
      if \<not> avail then (None, c1)
      else case egl_convert_impl env (d_dma_buf_fd d) (d_width d) (d_height d) (d_pitches d ! 0) (d_format d) (d_modifier d)
          (d_fb_id d) c1 of ((ret, out), c2) \<Rightarrow>
        (case (ret = 0, out) of
          (True, Some (Some p, n)) \<Rightarrow>
            (Some (fr\<lparr>f_data := Some p, f_format := DRM_FORMAT_XRGB8888, f_stride := d_width d * 4,
               f_modifier := DRM_FORMAT_MOD_LINEAR\<rparr>), c2)
        | _ \<Rightarrow> (None, c2)))"

text \<open>Copying a linear 8-bit scanout out of the temporary mapping, repacked to width*4.\<close>

definition repack :: "drmtap_desc \<Rightarrow> obj \<Rightarrow> obj option \<Rightarrow> heap \<Rightarrow> (int \<times> heap) option" where
  "repack d src dst hp =
    (let stride = d_width d * 4; n = unat stride * unat (d_height d) in
     case dst of None \<Rightarrow> None
     | Some q \<Rightarrow> map_option (\<lambda>hp. (0, hp))
         (if d_pitches d ! 0 = stride then memcpy hp q 0 src 0 n
          else loop32 (d_height d) (\<lambda>y hp. memcpy hp q (unat y * unat stride) src (unat y * unat (d_pitches d ! 0)) (unat stride)) hp))"

definition convert_pixels ::
  "(rat \<Rightarrow> rat \<Rightarrow> rat) \<Rightarrow> env \<Rightarrow> drmtap_desc \<Rightarrow> obj \<Rightarrow> drmtap_frame \<Rightarrow> ctx \<Rightarrow> int \<times> drmtap_frame \<times> ctx" where
  "convert_pixels pow env d src fr0 c0 =
    (case gpu_auto_process pow env (Some src) (fr0\<lparr>f_data := Some src, f_dma_buf_fd := - 1\<rparr>) False c0 of (ret, fr, c1) \<Rightarrow>
      let fr = fr\<lparr>f_dma_buf_fd := d_dma_buf_fd d\<rparr> in
      if ret = 0 \<and> f_data fr = Some src then
        (case drmtap_ensure_out env (unat (d_width d * 4) * unat (d_height d)) c1 of (ret, out, c2) \<Rightarrow>
          if ret \<noteq> 0 then (ret, fr, c2)
          else case run_conv (repack d src out) c2 of (ret, c3) \<Rightarrow> (ret, fr\<lparr>f_data := out, f_stride := d_width d * 4\<rparr>, c3))
      else (ret, fr, c1))"

definition convert_cpu ::
  "(rat \<Rightarrow> rat \<Rightarrow> rat) \<Rightarrow> env \<Rightarrow> drmtap_desc \<Rightarrow> drmtap_frame \<Rightarrow> ctx \<Rightarrow> int \<times> drmtap_frame \<times> ctx" where
  "convert_cpu pow env d fr c0 =
    (let fd = d_dma_buf_fd d; n = unat (d_pitches d ! 0) * unat (d_height d) in
     if fd < 0 then (- EINVAL, fr, c0)
     else case dmabuf_sync_start env fd c0 of (st, c1) \<Rightarrow>
       if \<not> st then (- EINVAL, fr, c1)
       else case sys_fd_size env fd c1 of (sz, c2) \<Rightarrow>
         if (case sz of None \<Rightarrow> True | Some k \<Rightarrow> k < plane0_end d) then (- EINVAL, fr, dmabuf_sync_end fd c2)
         else case sys_mmap env fd (unat (d_offsets d ! 0)) n c2 of
           (Inl e, c3) \<Rightarrow> (if e \<noteq> 0 then - e else - EIO, fr, dmabuf_sync_end fd c3)
         | (Inr src, c3) \<Rightarrow>
             (case convert_pixels pow env d src fr c3 of (ret, fr, c4) \<Rightarrow>
               let c5 = sys_munmap src (dmabuf_sync_end fd c4); ret = (if ret = 0 \<and> f_data fr = None then - ENOTSUP else ret) in
               (ret, if ret \<noteq> 0 then fr\<lparr>f_data := None\<rparr> else fr, c5)))"

definition drmtap_convert_dmabuf ::
  "(rat \<Rightarrow> rat \<Rightarrow> rat) \<Rightarrow> env \<Rightarrow> drmtap_desc \<Rightarrow> drmtap_frame \<Rightarrow> ctx \<Rightarrow> int \<times> drmtap_frame \<times> ctx" where
  "drmtap_convert_dmabuf pow env d frame c0 =
    (let ret = desc_geometry d in
     if ret \<noteq> 0 then (ret, frame, c0)
     else
       let c1 = stage_desc d c0; fr = desc_frame d in
       case (if 0 \<le> d_dma_buf_fd d then probe_fd env d c1 else (True, c1)) of (go, c2) \<Rightarrow>
         if \<not> go then (- EINVAL, fr, c2)
         else case convert_gpu env d fr c2 of
           (Some fr', c3) \<Rightarrow> (0, fr', c3)
         | (None, c3) \<Rightarrow> convert_cpu pow env d fr c3)"


section \<open>Windows on the caller's descriptor\<close>

lemma window_open:
  assumes ok: "gctx_ok f c" and ow: "owes c0 M F G P W c" and run: "dmabuf_sync_start env fd c = (st, c')"
  shows "gctx_ok f c' \<and> owes c0 M F G P (if st then W(fd := Suc (W fd)) else W) c' \<and> (st \<longrightarrow> fd \<in> live_fds c')"
proof -
  have c': "c' = step_clock (if st then c\<lparr>windows := (windows c)(fd := Suc (windows c fd))\<rparr> else c)" "st \<longrightarrow> fd \<in> live_fds c"
    using run by (auto simp: dmabuf_sync_start_def split: if_splits)
  have fr: "fresh_ok c'" using fresh_sync_start[OF gctx_fresh(1)[OF ok], of env fd] by (simp add: run)
  have "gctx_ok f c'" by (rule world_ok[OF ok fr]) (use gctx_fresh(2)[OF ok] in \<open>auto simp: c'(1) step_clock_def\<close>)
  moreover have "owes c0 M F G P (if st then W(fd := Suc (W fd)) else W) c'"
    using ow by (auto simp: owes_def c'(1) step_clock_def own_fds_def fun_eq_iff)
  ultimately show ?thesis using c'(2) by (simp add: c'(1) step_clock_def)
qed

lemma window_close:
  assumes ok: "gctx_ok f c" and ow: "owes c0 M F G P W c" and fd: "fd \<in> live_fds c" "0 < W fd"
  shows "gctx_ok f (dmabuf_sync_end fd c) \<and> owes c0 M F G P (W(fd := W fd - 1)) (dmabuf_sync_end fd c)"
proof -
  have "0 < windows c fd" using ow fd by (auto simp: owes_def)
  then have c': "dmabuf_sync_end fd c = c\<lparr>windows := (windows c)(fd := windows c fd - 1)\<rparr>" using fd(1) by (simp add: dmabuf_sync_end_def)
  have "gctx_ok f (dmabuf_sync_end fd c)"
    by (rule world_ok[OF ok fresh_sync_end[OF gctx_fresh(1)[OF ok]]]) (use gctx_fresh(2)[OF ok] in \<open>auto simp: c'\<close>)
  then show ?thesis using ow fd by (auto simp: owes_def c' own_fds_def fun_eq_iff)
qed

definition at_fd :: "int \<Rightarrow> int \<Rightarrow> nat" where
  "at_fd fd = (\<lambda>_. 0)(fd := 1)"

lemma at_fd_close: "(at_fd fd)(fd := at_fd fd fd - 1) = (\<lambda>_. 0)" "0 < at_fd fd fd"
  by (auto simp: at_fd_def)

lemma probe_step:
  assumes ok: "gctx_ok f c" and ow: "owes c0 {} {} {} 0 (\<lambda>_. 0) c" and run: "probe_fd env d c = (go, c')"
  shows "gctx_ok f c' \<and> owes c0 {} {} {} 0 (\<lambda>_. 0) c' \<and> (go \<longrightarrow> (\<exists>t n. v_fd_size env t (d_dma_buf_fd d) = Some n \<and> plane0_end d \<le> n))"
proof -
  let ?fd = "d_dma_buf_fd d"
  obtain st c1 where ss: "dmabuf_sync_start env ?fd c = (st, c1)" by fastforce
  note S = window_open[OF ok ow ss]
  show ?thesis
  proof (cases st)
    case False
    then show ?thesis using run S ss by (simp add: probe_fd_def Let_def)
  next
    case True
    have 1: "gctx_ok f c1" "owes c0 {} {} {} 0 (at_fd ?fd) c1" "?fd \<in> live_fds c1" using S True by (simp_all add: at_fd_def)
    have 2: "gctx_ok f (step_clock c1)" "owes c0 {} {} {} 0 (at_fd ?fd) (step_clock c1)" "?fd \<in> live_fds (step_clock c1)"
      using clock_ok[OF 1(1)] clock_owes[OF 1(2)] 1(3) by (simp_all add: step_clock_def)
    have c': "c' = dmabuf_sync_end ?fd (step_clock c1)" using run True ss by (auto simp: probe_fd_def sys_fd_size_def Let_def)
    have "go \<longrightarrow> (\<exists>n. v_fd_size env (tick c1) ?fd = Some n \<and> plane0_end d \<le> n)"
      using run True ss by (auto simp: probe_fd_def sys_fd_size_def Let_def split: option.splits if_splits)
    then show ?thesis using window_close[OF 2(1,2,3) at_fd_close(2)] unfolding at_fd_close(1) c' by blast
  qed
qed

section \<open>Repacking\<close>

lemma repack_framed:
  assumes src: "hp s = Some cs" "unat (d_height d) * unat (d_pitches d ! 0) \<le> length cs"
      "unat (d_height d) * unat (d_pitches d ! 0) \<le> 2 ^ 32" "4 * unat (d_width d) \<le> unat (d_pitches d ! 0)"
    and dst: "hp q = Some cd" "unat (d_height d) * (4 * unat (d_width d)) \<le> length cd" "s \<noteq> q"
    and dims: "drmtap_validate_fb_dims (d_width d) (d_height d) = 0"
  shows "\<exists>cd'. repack d s (Some q) hp = Some (0, hp(q \<mapsto> cd')) \<and> framed cd cd' (unat (d_width d)) (unat (d_height d)) (4 * unat (d_width d))
    (\<lambda>y x. take 4 (drop (y * unat (d_pitches d ! 0) + 4 * x) cs))"
proof -
  let ?w = "d_width d" and ?h = "d_height d" and ?P = "d_pitches d ! 0"
  have w4: "unat (?w * 4) = 4 * unat ?w" by (rule width4[OF dims])
  have b: "0 < unat ?w" "unat ?h * (4 * unat ?w) \<le> 2 ^ 32" using dims by (auto simp: validate_dims_ok unat_gt_0 mult_ac)
  have d2: "unat ?h * unat (?w * 4) \<le> length cd" "unat ?h * unat (?w * 4) \<le> 2 ^ 32" "4 * unat ?w \<le> unat (?w * 4)"
    using dst(2) b(2) by (simp_all add: w4)
  show ?thesis
  proof (cases "?P = ?w * 4")
    case True
    let ?n = "unat ?h * (4 * unat ?w)"
    have P: "unat ?P = 4 * unat ?w" using w4 True by simp
    have n: "?n \<le> length cs" using src(2) by (simp add: P)
    let ?c = "patch cd 0 (take ?n cs)"
    have run: "repack d s (Some q) hp = Some (0, hp(q \<mapsto> ?c))"
      using True n src(1) dst by (simp add: repack_def Let_def w4 memcpy_distinct rd_in_bounds wr_in_bounds mult_ac)
    have at: "?c ! i = (if i < ?n then cs ! i else cd ! i)" if "i < length cd" for i
      using that n dst(2) by (simp add: nth_patch)
    have "framed cd ?c (unat ?w) (unat ?h) (4 * unat ?w) (\<lambda>y x. take 4 (drop (y * unat ?P + 4 * x) cs))"
      unfolding framed_def
    proof (intro conjI allI impI)
      show "length ?c = length cd" using n dst(2) by simp
      fix y x k assume y: "y < unat ?h" and x: "x < unat ?w" and k: "k < (4 :: nat)"
      have "y * (4 * unat ?w) + 4 * unat ?w \<le> ?n" using mult_le_mono1[of "Suc y" "unat ?h" "4 * unat ?w"] y by simp
      then have lt: "y * (4 * unat ?w) + 4 * x + k < ?n" using x k by linarith
      then show "?c ! (y * (4 * unat ?w) + 4 * x + k) = take 4 (drop (y * unat ?P + 4 * x) cs) ! k"
        using at n dst(2) k by (simp add: P add_ac)
    next
      fix i assume i: "i < length cd" and o: "\<forall>y < unat ?h. \<forall>j < 4 * unat ?w. i \<noteq> y * (4 * unat ?w) + j"
      have "\<not> i < ?n"
      proof
        assume "i < ?n"
        then have "i div (4 * unat ?w) < unat ?h" by (simp add: less_mult_imp_div_less)
        moreover have "i mod (4 * unat ?w) < 4 * unat ?w" using b(1) by simp
        ultimately have "i \<noteq> i div (4 * unat ?w) * (4 * unat ?w) + i mod (4 * unat ?w)" using o by blast
        then show False using div_mult_mod_eq[of i "4 * unat ?w", symmetric] by (rule notE)
      qed
      then show "?c ! i = cd ! i" using at[OF i] by simp
    qed
    then show ?thesis using run by blast
  next
    case False
    obtain cd' where c: "loop32 ?h (\<lambda>y hp. memcpy hp q (unat (y * (?w * 4))) s (unat (y * ?P)) (unat (?w * 4))) hp = Some (hp(q \<mapsto> cd'))"
        "framed cd cd' (unat ?w) (unat ?h) (unat (?w * 4)) (\<lambda>y x. take 4 (drop (y * unat ?P + 4 * x) cs))"
      using row_copy_framed[OF src dst(1) d2 dst(3) b(1)] by blast
    have "loop32 ?h (\<lambda>y hp. memcpy hp q (unat y * unat (?w * 4)) s (unat y * unat ?P) (unat (?w * 4))) hp =
        loop32 ?h (\<lambda>y hp. memcpy hp q (unat (y * (?w * 4))) s (unat (y * ?P)) (unat (?w * 4))) hp"
      unfolding loop32_def
    proof (rule loop_cong)
      fix i t assume i: "i < unat ?h"
      have u: "unat (of_nat i :: u32) = i" using i unat_u32_bound[of ?h] by (simp add: unat_of_nat)
      have "unat (of_nat i * (?w * 4)) = i * unat (?w * 4)" by (rule dst_offsets(2)[OF b(1) i d2(3,2)])
      moreover have "unat (of_nat i * ?P) = i * unat ?P" by (rule dst_offsets(2)[OF b(1) i src(4,3)])
      ultimately show "memcpy t q (unat (of_nat i :: u32) * unat (?w * 4)) s (unat (of_nat i :: u32) * unat ?P) (unat (?w * 4)) =
          memcpy t q (unat (of_nat i * (?w * 4))) s (unat (of_nat i * ?P)) (unat (?w * 4))" by (simp only: u)
    qed
    then show ?thesis using c False by (intro exI[of _ cd']) (simp add: repack_def Let_def w4)
  qed
qed


section \<open>The contract\<close>

lemma desc_geometry_range: "desc_geometry d \<le> 0"
  by (auto simp: desc_geometry_def Let_def drmtap_validate_fb_dims_def validate_fb_size_def errno_defs)

lemma desc_geometry_ok:
  assumes "desc_geometry d = 0"
  shows "drmtap_validate_fb_dims (d_width d) (d_height d) = 0" "validate_fb_size (d_pitches d ! 0) (d_height d) = 0"
    "4 * unat (d_width d) \<le> unat (d_pitches d ! 0)"
proof -
  let ?w = "d_width d" and ?P = "d_pitches d ! 0"
  show dims: "drmtap_validate_fb_dims (d_width d) (d_height d) = 0" and size: "validate_fb_size (d_pitches d ! 0) (d_height d) = 0"
    using assms by (auto simp: desc_geometry_def Let_def errno_defs split: if_splits)
  have ge: "\<not> ucast ?P < (ucast ?w * ucast (format_min_bpp (d_format d)) :: u64)"
    using assms dims size by (auto simp: desc_geometry_def Let_def errno_defs split: if_splits)
  have w: "unat ?w \<le> 32768" using dims by (simp add: validate_dims_ok)
  have m: "4 \<le> unat (format_min_bpp (d_format d))" "unat (format_min_bpp (d_format d)) \<le> 8" by (simp_all add: format_min_bpp_def)
  have "unat ?w * unat (format_min_bpp (d_format d)) \<le> 32768 * 8" using w m(2) by (rule mult_le_mono)
  then have "unat (ucast ?w * ucast (format_min_bpp (d_format d)) :: u64) = unat ?w * unat (format_min_bpp (d_format d))"
    by (subst unat_mult_small64) (simp_all add: unat_ucast_u32_u64)
  then have "unat ?w * unat (format_min_bpp (d_format d)) \<le> unat ?P"
    using ge by (simp add: word_less_nat_alt not_less unat_ucast_u32_u64)
  moreover have "unat ?w * 4 \<le> unat ?w * unat (format_min_bpp (d_format d))" using m(1) by (rule mult_le_mono2)
  ultimately show "4 * unat ?w \<le> unat ?P" by linarith
qed

lemma stage_step: "mstep c (stage_desc d c)"
  by (simp add: mstep_def core_def memo_ok_def stage_desc_def)

lemma gpu_step:
  assumes ok: "ctx_ok f c" and dims: "drmtap_validate_fb_dims (d_width d) (d_height d) = 0" and run: "convert_gpu env d fr c = (res, c')"
    and fr: "f_width fr = d_width d" "f_height fr = d_height d"
  shows "pstep f c c' \<and> (\<forall>fr'. res = Some fr' \<longrightarrow> in_out fr' c' \<and> f_stride fr' = d_width d * 4 \<and> f_modifier fr' = DRM_FORMAT_MOD_LINEAR)"
proof -
  obtain avail c1 where av: "drmtap_gpu_egl_available env c = (avail, c1)" by fastforce
  have A: "pstep f c c1" using available_step[OF ok av] by blast
  note run1 = run[unfolded convert_gpu_def av prod.case]
  show ?thesis
  proof (cases avail)
    case False
    then show ?thesis using run1 A by auto
  next
    case True
    then have n: "\<not> \<not> avail" by simp
    obtain ret out c2 where ec: "egl_convert_impl env (d_dma_buf_fd d) (d_width d) (d_height d) (d_pitches d ! 0) (d_format d) (d_modifier d)
        (d_fb_id d) c1 = ((ret, out), c2)" by (metis surj_pair)
    have ok1: "thread_ok f c1" "fresh_ok c1" "buf_inv c1" using A by (simp_all add: pstep_def ctx_ok_def)
    note P = convert_ok[OF ok1, of "d_width d" "d_height d" env "d_dma_buf_fd d" "d_pitches d ! 0" "d_format d" "d_modifier d" "d_fb_id d",
        unfolded ec convert_post_def prod.case]
    have "agrees c1 (mem c2)" by (rule agrees_frame[OF ok1(2,3)]) (use P in blast)
    then have "pstep f c1 c2" using P by (simp add: pstep_def ctx_ok_def)
    then have p2: "pstep f c c2" by (rule pstep_trans[OF A])
    note run2 = run1[unfolded if_not_P[OF n] ec prod.case]
    show ?thesis
    proof (cases "ret = 0")
      case False
      then show ?thesis using run2 p2 by auto
    next
      case True
      then obtain p where p: "out = Some (Some p, unat (d_width d) * unat (d_height d) * 4)" "out_buf c2 = Some p" "p \<notin> live_maps c2"
        "holds c2 p (unat (d_width d) * unat (d_height d) * 4)" using P by blast
      then show ?thesis using run2 True p2 width4[OF dims] by (auto simp: in_out_def fr mult_ac)
    qed
  qed
qed

lemma pixels_step:
  assumes ok: "ctx_ok f c" and geo: "desc_geometry d = 0"
    and src: "src \<in> live_maps c" "holds c src (unat (d_pitches d ! 0) * unat (d_height d))"
    and fr0: "fr0 = desc_frame d" and run: "convert_pixels pow env d src fr0 c = (r, fr, c')"
  shows "pstep f c c' \<and> r \<le> 0 \<and> (r = 0 \<longrightarrow> in_out fr c')"
proof -
  note geo' = desc_geometry_ok[OF geo]
  let ?fr0 = "fr0\<lparr>f_data := Some src, f_dma_buf_fd := - 1\<rparr>"
  have data: "data_ok c (Some src) ?fr0" using geo' src by (simp add: data_ok_def fr0 desc_frame_def)
  obtain ret fr1 c1 where gp: "gpu_auto_process pow env (Some src) ?fr0 False c = (ret, fr1, c1)" by (metis prod_cases3)
  note P = process_ok[OF ok data, of pow env False, unfolded gp proc_post_def prod.case]
  have p1: "pstep f c c1" and cv: "converted ?fr0 fr1" and r0: "ret \<le> 0" using P by blast+
  have ok1: "ctx_ok f c1" and l1: "live_maps c1 = live_maps c" using p1 out_only_D by (simp_all add: pstep_def)
  note run1 = run[unfolded convert_pixels_def gp prod.case Let_def]
  have iff: "in_out (fr1\<lparr>f_dma_buf_fd := x\<rparr>) c1 = in_out fr1 c1" for x by (simp add: in_out_def)
  show ?thesis
  proof (cases "ret = 0 \<and> f_data fr1 = Some src")
    case False
    have "in_out fr1 c1" if "ret = 0"
    proof (rule ccontr)
      assume "\<not> in_out fr1 c1"
      then have "passed (Some src) ?fr0 fr1" using P that by blast
      then show False using False that by (simp add: passed_def)
    qed
    then show ?thesis using run1 False p1 r0 iff by auto
  next
    case True
    then have t: "ret = 0 \<and> f_data (fr1\<lparr>f_dma_buf_fd := d_dma_buf_fd d\<rparr>) = Some src" by simp
    let ?n = "unat (d_width d * 4) * unat (d_height d)"
    obtain b out c2 where eo: "drmtap_ensure_out env ?n c1 = (b, out, c2)" by (metis surj_pair)
    note E = ensure_out_step[OF ok1 eo]
    note run2 = run1[unfolded if_P[OF t] eo prod.case]
    have p2: "pstep f c c2" using pstep_trans[OF p1] E by blast
    show ?thesis
    proof (cases "b = 0")
      case False
      then show ?thesis using run2 E p2 by auto
    next
      case b: True
      then have nb: "\<not> b \<noteq> 0" by simp
      obtain q where q: "out = Some q" "out_buf c2 = Some q" "q \<notin> live_maps c2" "pixel_buf c2 \<noteq> Some q" "holds c2 q ?n"
        using E b by blast
      have ok2: "ctx_ok f c2" and l2: "live_maps c2 = live_maps c" and a2: "agrees c (mem c2)" using p2 out_only_D by (simp_all add: pstep_def)
      obtain cs where cs: "mem c2 src = Some cs" "unat (d_pitches d ! 0) * unat (d_height d) \<le> length cs"
        using a2 src by (auto simp: agrees_def holds_def split: option.splits)
      obtain cd where cd: "mem c2 q = Some cd" "?n \<le> length cd" using q(5) by (auto simp: holds_def split: option.splits)
      have ne: "src \<noteq> q" using src(1) q(3) l2 by auto
      have w4: "unat (d_width d * 4) = 4 * unat (d_width d)" by (rule width4[OF geo'(1)])
      have sz: "unat (d_height d) * unat (d_pitches d ! 0) \<le> length cs" "unat (d_height d) * unat (d_pitches d ! 0) \<le> 2 ^ 32"
        "unat (d_height d) * (4 * unat (d_width d)) \<le> length cd"
        using cs(2) cd(2) geo'(2) by (simp_all add: validate_size_ok w4 mult.commute)
      obtain cd' where rp: "repack d src (Some q) (mem c2) = Some (0, (mem c2)(q \<mapsto> cd'))"
          "framed cd cd' (unat (d_width d)) (unat (d_height d)) (4 * unat (d_width d))
            (\<lambda>y x. take 4 (drop (y * unat (d_pitches d ! 0) + 4 * x) cs))"
        using repack_framed[OF cs(1) sz(1,2) geo'(3) cd(1) sz(3) ne geo'(1)] by blast
      have into: "conv_into (repack d src (Some q)) q (mem c2)"
        by (rule conv_intoI[where cd' = cd' and cd = cd]) (use rp cd framed_length in auto)
      obtain r3 c3 where rc: "run_conv (repack d src (Some q)) c2 = (r3, c3)" by fastforce
      note R = run_conv_step[OF ok2 cd(1) q(3,4) into rc]
      have e: "r = r3" "c' = c3" "fr = fr1\<lparr>f_dma_buf_fd := d_dma_buf_fd d, f_data := out, f_stride := d_width d * 4\<rparr>"
        using run2 b rc q(1) by auto
      have "pstep f c c3" using pstep_trans[OF p2] R by blast
      moreover have "live_maps c3 = live_maps c2" using R out_only_D by (simp add: pstep_def)
      moreover have "f_width fr1 = d_width d" "f_height fr1 = d_height d" using converted_D[OF cv] by (simp_all add: fr0 desc_frame_def)
      ultimately show ?thesis using R q(1,2,3,5) e by (simp add: in_out_def w4 mult_ac)
    qed
  qed
qed


lemma cpu_step:
  assumes ok: "gctx_ok f c" and ow: "owes c0 {} {} {} 0 (\<lambda>_. 0) c" and geo: "desc_geometry d = 0" and env: "errnos_ok env"
    and run: "convert_cpu pow env d (desc_frame d) c = (r, fr, c')"
  shows "gctx_ok f c' \<and> clean c0 c' \<and> r \<le> 0 \<and> (r = 0 \<longrightarrow> in_out fr c')"
proof (cases "d_dma_buf_fd d < 0")
  case True
  then show ?thesis using run ok ow by (simp add: convert_cpu_def Let_def errno_defs clean_def)
next
  case fd: False
  let ?fd = "d_dma_buf_fd d" and ?n = "unat (d_pitches d ! 0) * unat (d_height d)"
  obtain st c1 where ss: "dmabuf_sync_start env ?fd c = (st, c1)" by fastforce
  note S = window_open[OF ok ow ss]
  note run1 = run[unfolded convert_cpu_def Let_def if_not_P[OF fd] ss prod.case]
  show ?thesis
  proof (cases st)
    case False
    then show ?thesis using run1 S by (auto simp: clean_def errno_defs)
  next
    case True
    define c2 where "c2 = step_clock c1"
    have 2: "gctx_ok f c2" "owes c0 {} {} {} 0 (at_fd ?fd) c2" "?fd \<in> live_fds c2"
      using S True clock_ok[of f c1] clock_owes[of c0 "{}" "{}" "{}" 0 "at_fd ?fd" c1] by (simp_all add: c2_def at_fd_def) (simp add: step_clock_def)
    have shut: "gctx_ok f (dmabuf_sync_end ?fd x) \<and> owes c0 M {} {} 0 (\<lambda>_. 0) (dmabuf_sync_end ?fd x)"
      if "gctx_ok f x" "owes c0 M {} {} 0 (at_fd ?fd) x" "?fd \<in> live_fds x" for x M
      using window_close[OF that at_fd_close(2)] unfolding at_fd_close(1) .
    obtain sz where sz: "sys_fd_size env ?fd c1 = (sz, c2)" by (simp add: sys_fd_size_def c2_def)
    have n: "\<not> \<not> st" using True by simp
    note run2 = run1[unfolded if_not_P[OF n] sz prod.case]
    show ?thesis
    proof (cases "case sz of None \<Rightarrow> True | Some k \<Rightarrow> k < plane0_end d")
      case True
      then show ?thesis using run2 shut[OF 2] by (auto simp: clean_def errno_defs)
    next
      case False
      obtain q c3 where mm: "sys_mmap env ?fd (unat (d_offsets d ! 0)) ?n c2 = (q, c3)" by fastforce
      note run3 = run2[unfolded if_not_P[OF False] mm prod.case]
      show ?thesis
      proof (cases q)
        case (Inl e)
        have c3: "c3 = step_clock c2" using mmap_fail mm Inl by blast
        have "v_mmap env (tick c2) ?fd (unat (d_offsets d ! 0)) ?n = Inl e" using mm Inl by (auto simp: sys_mmap_def split: sum.splits)
        then have "0 \<le> e" using env by (auto simp: errnos_ok_def)
        moreover have "gctx_ok f c3" "owes c0 {} {} {} 0 (at_fd ?fd) c3" "?fd \<in> live_fds c3"
          using 2 clock_ok[of f c2] clock_owes[of c0 "{}" "{}" "{}" 0 "at_fd ?fd" c2] by (simp_all add: c3) (simp add: step_clock_def)
        ultimately show ?thesis using run3 Inl shut[of c3 "{}"] by (auto simp: clean_def errno_defs split: if_splits)
      next
        case (Inr src)
        note M = mmap_step[OF 2(1,2) mm[unfolded Inr]]
        have l3: "?fd \<in> live_fds c3" using 2(3) mm by (auto simp: sys_mmap_def step_clock_def split: sum.splits)
        obtain ret fr1 c4 where cp: "convert_pixels pow env d src (desc_frame d) c3 = (ret, fr1, c4)" by (metis prod_cases3)
        have ok3: "ctx_ok f c3" using M by (simp add: gctx_ok_def)
        have P: "pstep f c3 c4" "ret \<le> 0" "ret = 0 \<longrightarrow> in_out fr1 c4"
          using pixels_step[OF ok3 geo _ _ refl cp] M by blast+
        have 4: "gctx_ok f c4" "owes c0 {src} {} {} 0 (at_fd ?fd) c4"
          using pstep_ok[OF P(1)] pstep_owes[OF P(1), of c0 "{src}" "{}" "{}" 0 "at_fd ?fd"] M by simp_all
        have l4: "?fd \<in> live_fds c4" and m4: "live_maps c4 = live_maps c3" using P(1) l3 out_only_D by (auto simp: pstep_def)
        let ?c5 = "dmabuf_sync_end ?fd c4"
        note E = shut[OF 4 l4]
        have 6: "gctx_ok f (sys_munmap src ?c5) \<and> clean c0 (sys_munmap src ?c5)"
          using munmap_step[OF conjunct1[OF E] conjunct2[OF E], of src] by (simp add: clean_def)
        let ?r = "if ret = 0 \<and> f_data fr1 = None then - ENOTSUP else ret"
        have e: "r = ?r" "fr = (if ?r \<noteq> 0 then fr1\<lparr>f_data := None\<rparr> else fr1)" "c' = sys_munmap src ?c5"
          using run3 cp Inr by (auto split: if_splits)
        have "in_out fr c'" if "r = 0"
        proof -
          have r: "ret = 0" "fr = fr1" using that e by (auto simp: errno_defs split: if_splits)
          then obtain p where p: "f_data fr1 = Some p" "out_buf c4 = Some p" "p \<notin> live_maps c4"
            "holds c4 p (unat (f_stride fr1) * unat (f_height fr1))" "4 * unat (f_width fr1) \<le> unat (f_stride fr1)"
            using P(3) by (auto simp: in_out_def)
          have "src \<in> live_maps c4" using M m4 by simp
          then have ne: "p \<noteq> src" using p(3) by auto
          have u: "user_out c' = user_out c4" "deswizzle_buf c' = deswizzle_buf c4" "live_maps c' \<subseteq> live_maps c4"
            by (auto simp: e(3) sys_munmap_def dmabuf_sync_end_def)
          have "mem c' p = mem c4 p" using ne by (simp add: e(3) sys_munmap_def dmabuf_sync_end_def)
          then show ?thesis using p u by (auto simp: in_out_def r(2) out_buf_def holds_def)
        qed
        then show ?thesis using 6 P(2) e by (simp add: errno_defs)
      qed
    qed
  qed
qed

lemma convert_dmabuf_ok:
  assumes ok: "gctx_ok f c" and env: "errnos_ok env" and run: "drmtap_convert_dmabuf pow env d frame c = (r, fr, c')"
  shows "gctx_ok f c' \<and> clean c c' \<and> r \<le> 0 \<and> (r = 0 \<longrightarrow> in_out fr c')"
proof (cases "desc_geometry d = 0")
  case False
  then show ?thesis using run ok desc_geometry_range[of d] by (simp add: drmtap_convert_dmabuf_def Let_def)
next
  case geo: True
  then have ng: "\<not> desc_geometry d \<noteq> 0" by simp
  let ?c1 = "stage_desc d c"
  have 1: "gctx_ok f ?c1" "owes c {} {} {} 0 (\<lambda>_. 0) ?c1"
    using mstep_ok[OF stage_step ok] mstep_owes[OF stage_step clean_refl[unfolded clean_def]] .
  obtain go c2 where pr: "(if 0 \<le> d_dma_buf_fd d then probe_fd env d ?c1 else (True, ?c1)) = (go, c2)" by fastforce
  have 2: "gctx_ok f c2" "owes c {} {} {} 0 (\<lambda>_. 0) c2"
    using probe_step[OF 1, of env d go c2] pr 1 by (auto split: if_splits)
  note run1 = run[unfolded drmtap_convert_dmabuf_def Let_def if_not_P[OF ng] pr prod.case]
  show ?thesis
  proof (cases go)
    case False
    then show ?thesis using run1 2 by (auto simp: clean_def errno_defs)
  next
    case True
    then have n: "\<not> \<not> go" by simp
    obtain g c3 where cg: "convert_gpu env d (desc_frame d) c2 = (g, c3)" by fastforce
    have ok2: "ctx_ok f c2" using 2 by (simp add: gctx_ok_def)
    have w: "f_width (desc_frame d) = d_width d" "f_height (desc_frame d) = d_height d" by (simp_all add: desc_frame_def)
    note G = gpu_step[OF ok2 desc_geometry_ok(1)[OF geo] cg w]
    have p3: "pstep f c2 c3" using G by blast
    have 3: "gctx_ok f c3" "owes c {} {} {} 0 (\<lambda>_. 0) c3" using pstep_ok[OF p3 2(1)] pstep_owes[OF p3 2(2)] .
    note run2 = run1[unfolded if_not_P[OF n] cg prod.case]
    show ?thesis
    proof (cases g)
      case (Some fr')
      then show ?thesis using run2 3 G by (auto simp: clean_def)
    next
      case None
      then have "convert_cpu pow env d (desc_frame d) c3 = (r, fr, c')" using run2 by simp
      from cpu_step[OF 3 geo env this] show ?thesis .
    qed
  qed
qed

section \<open>Properties\<close>

text \<open>
  C18. Converting another process's DMA-BUF leaks nothing and never hands out the peer's memory.
  Whatever the descriptor says, whatever the kernel and the GPU answer, drmtap_convert_dmabuf
  returns 0 or a negative errno, ends every CPU-access window it opened on the caller's descriptor
  exactly once and unmaps what it mapped, and on success the pixels are in the output buffer, all
  rows backed at a stride of at least width*4 - not in the temporary mapping.
\<close>

theorem convert_dmabuf_contract:
  assumes "gctx_ok f c" "errnos_ok env" "drmtap_convert_dmabuf pow env d frame c = (r, fr, c')"
  shows "gctx_ok f c' \<and> clean c c' \<and> r \<le> 0 \<and> (r = 0 \<longrightarrow> in_out fr c')"
  by (rule convert_dmabuf_ok[OF assms])

definition wit_desc :: drmtap_desc where
  "wit_desc = \<lparr>d_dma_buf_fd = 3, d_width = 2, d_height = 2, d_format = DRMTAP_FMT_XR24, d_modifier = DRM_FORMAT_MOD_LINEAR, d_fb_id = 2,
    d_num_planes = 1, d_offsets = [0, 0, 0, 0], d_pitches = [16, 0, 0, 0], d_hdr_eotf = 0, d_hdr_max_nits = 0\<rparr>"

theorem convert_dmabuf_contract_witness:
  "case drmtap_convert_dmabuf (\<lambda>x y. x) wit_env wit_desc zero_frame wit_ctx of (r, fr, c') \<Rightarrow>
    gctx_ok 0 c' \<and> clean wit_ctx c' \<and> r \<le> 0 \<and> (r = 0 \<longrightarrow> in_out fr c')"
proof -
  obtain r fr c' where run: "drmtap_convert_dmabuf (\<lambda>x y. x) wit_env wit_desc zero_frame wit_ctx = (r, fr, c')" by (metis prod_cases3)
  show ?thesis using convert_dmabuf_contract[OF wit_gctx wit_errnos run] run by simp
qed

text \<open>
  C19. A descriptor that claims more than its buffer holds is refused before any conversion. When the
  size of the descriptor's buffer is unknown, or smaller than plane 0's last row, or than the first
  row of any further plane, drmtap_convert_dmabuf returns a negative errno and no pixels, with or
  without a GPU.
\<close>

theorem convert_rejects_short:
  assumes "0 \<le> d_dma_buf_fd d" "\<And>t. v_fd_size env t (d_dma_buf_fd d) = sz"
    and "case sz of None \<Rightarrow> True | Some n \<Rightarrow> n = 0 \<or> n < plane0_end d \<or>
      (\<exists>p \<in> {1 ..< desc_planes d}. n < unat (d_offsets d ! p) + unat (d_pitches d ! p))"
  shows "fst (drmtap_convert_dmabuf pow env d frame c) < 0 \<and>
    (f_data frame = None \<longrightarrow> f_data (fst (snd (drmtap_convert_dmabuf pow env d frame c))) = None)"
proof (cases "desc_geometry d = 0")
  case False
  then show ?thesis using desc_geometry_range[of d] by (simp add: drmtap_convert_dmabuf_def Let_def)
next
  case True
  have "fst (probe_fd env d (stage_desc d c)) = False"
    using assms(2,3) by (auto simp: probe_fd_def sys_fd_size_def Let_def not_le split: prod.splits option.splits if_splits)
  then obtain c2 where "probe_fd env d (stage_desc d c) = (False, c2)" by (metis prod.collapse)
  then show ?thesis using True assms(1) by (simp add: drmtap_convert_dmabuf_def Let_def errno_defs desc_frame_def zero_frame_def)
qed

theorem convert_rejects_short_witness:
  "fst (drmtap_convert_dmabuf (\<lambda>x y. x) (wit_env\<lparr>v_fd_size := \<lambda>t fd. Some 31\<rparr>) wit_desc zero_frame wit_ctx) < 0"
  using convert_rejects_short[of wit_desc "wit_env\<lparr>v_fd_size := \<lambda>t fd. Some 31\<rparr>" "Some 31" "\<lambda>x y. x" zero_frame wit_ctx]
  by (simp add: wit_desc_def plane0_end_def)


text \<open>
  C20. A linear 8-bit buffer comes out pixel for pixel. Without EGL, for a descriptor within bounds
  on a DMA-BUF of sufficient size that maps, and an output buffer set that holds width*height*4
  bytes, drmtap_convert_dmabuf returns 0, the frame points at that buffer with stride width*4, and
  the buffer holds exactly the visible pixels of each row, whatever padding the source rows carry.
\<close>

theorem convert_linear_exact:
  assumes ok: "ctx_ok f c" and geo: "desc_geometry d = 0" and fd: "0 \<le> d_dma_buf_fd d" "d_dma_buf_fd d \<in> live_fds c" "desc_planes d = 1"
    and env: "\<And>t. g_no_egl (v_gl env t)" "\<And>t. v_sync_start env t (d_dma_buf_fd d)" "\<And>t. v_fd_size env t (d_dma_buf_fd d) = Some n"
      "\<And>t off k. v_mmap env t (d_dma_buf_fd d) off k = Inr bs"
    and size: "0 < n" "plane0_end d \<le> n"
    and lay: "d_modifier d = DRM_FORMAT_MOD_LINEAR" "eight_bit (d_format d)"
    and out: "user_out c = Some q" "4 * unat (d_width d) * unat (d_height d) \<le> user_out_len c"
  shows "\<exists>fr c' cd'. drmtap_convert_dmabuf pow env d frame c = (0, fr, c') \<and> f_data fr = Some q \<and> f_stride fr = d_width d * 4 \<and>
    mem c' q = Some cd' \<and> framed (the (mem c q)) cd' (unat (d_width d)) (unat (d_height d)) (4 * unat (d_width d))
      (\<lambda>y x. take 4 (drop (y * unat (d_pitches d ! 0) + 4 * x) (pad (unat (d_pitches d ! 0) * unat (d_height d)) bs)))"
proof -
  let ?fd = "d_dma_buf_fd d" and ?n = "unat (d_pitches d ! 0) * unat (d_height d)" and ?cs = "pad (unat (d_pitches d ! 0) * unat (d_height d)) bs"
  note geo' = desc_geometry_ok[OF geo]
  have w4: "unat (d_width d * 4) = 4 * unat (d_width d)" by (rule width4[OF geo'(1)])
  obtain cd where cd: "mem c q = Some cd" "4 * unat (d_width d) * unat (d_height d) \<le> length cd" and q: "q < next_obj c"
    using ok out holds_lt[of c q "user_out_len c"] by (auto simp: ctx_ok_def buf_inv_def holds_def split: option.splits)
  obtain c2 where 2: "probe_fd env d (stage_desc d c) = (True, c2)" "mem c2 = mem c" "next_obj c2 = next_obj c" "?fd \<in> live_fds c2"
    "user_out c2 = user_out c" "user_out_len c2 = user_out_len c"
    using env(2,3) fd size by (simp add: probe_fd_def sys_fd_size_def Let_def dmabuf_sync_start_def dmabuf_sync_end_def step_clock_def stage_desc_def)
  obtain c3 where 3: "convert_gpu env d (desc_frame d) c2 = (None, c3)" "mem c3 = mem c" "next_obj c3 = next_obj c" "?fd \<in> live_fds c3"
    "user_out c3 = user_out c" "user_out_len c3 = user_out_len c"
    using env(1) 2 by (simp add: convert_gpu_def drmtap_gpu_egl_available_def Let_def step_clock_def)
  obtain c4 where 4: "dmabuf_sync_start env ?fd c3 = (True, c4)" "mem c4 = mem c" "next_obj c4 = next_obj c" "?fd \<in> live_fds c4"
    "user_out c4 = user_out c" "user_out_len c4 = user_out_len c"
    using env(2) 3 by (simp add: dmabuf_sync_start_def step_clock_def)
  obtain c5 where 5: "sys_fd_size env ?fd c4 = (Some n, c5)" "mem c5 = mem c" "next_obj c5 = next_obj c" "?fd \<in> live_fds c5"
    "user_out c5 = user_out c" "user_out_len c5 = user_out_len c"
    using env(3) size(1) 4 by (simp add: sys_fd_size_def step_clock_def)
  let ?src = "next_obj c"
  obtain c6 where 6: "sys_mmap env ?fd (unat (d_offsets d ! 0)) ?n c5 = (Inr ?src, c6)" "mem c6 = (mem c)(?src \<mapsto> ?cs)"
    "user_out c6 = user_out c" "user_out_len c6 = user_out_len c"
    using env(4) 5 by (simp add: sys_mmap_def step_clock_def)
  let ?fr0 = "(desc_frame d)\<lparr>f_data := Some ?src, f_dma_buf_fd := - 1\<rparr>"
  have gp: "gpu_auto_process pow env (Some ?src) ?fr0 False c6 = (0, ?fr0, c6)"
    using lay by (intro process_linear) (simp_all add: desc_frame_def)
  let ?c7 = "c6\<lparr>out_gen := out_gen c6 + 1\<rparr>" and ?m = "unat (d_width d * 4) * unat (d_height d)"
  have pos: "0 < unat (d_width d)" "0 < unat (d_height d)" "unat (d_width d) * unat (d_height d) * 4 \<le> 132710400"
    using geo'(1) by (auto simp: validate_dims_ok unat_gt_0)
  then have "0 < ?m" "?m \<le> DRMTAP_MAX_FB_BYTES" "\<not> user_out_len c6 < ?m" using out(2) 6(4) by (simp_all add: w4)
  then have eo: "drmtap_ensure_out env ?m c6 = (0, Some q, ?c7)"
    using out(1) 6(3) by (simp add: drmtap_ensure_out_def)
  have ne: "?src \<noteq> q" using q by simp
  have m7: "mem ?c7 ?src = Some ?cs" "mem ?c7 q = Some cd" using 6(2) cd(1) ne by simp_all
  have sz: "unat (d_height d) * unat (d_pitches d ! 0) \<le> length ?cs" "unat (d_height d) * unat (d_pitches d ! 0) \<le> 2 ^ 32"
    "unat (d_height d) * (4 * unat (d_width d)) \<le> length cd"
    using geo'(2) cd(2) by (simp_all add: validate_size_ok mult_ac)
  obtain cd' where rp: "repack d ?src (Some q) (mem ?c7) = Some (0, (mem ?c7)(q \<mapsto> cd'))"
    "framed cd cd' (unat (d_width d)) (unat (d_height d)) (4 * unat (d_width d))
      (\<lambda>y x. take 4 (drop (y * unat (d_pitches d ! 0) + 4 * x) ?cs))"
    using repack_framed[OF m7(1) sz(1,2) geo'(3) m7(2) sz(3) ne geo'(1)] by blast
  let ?c8 = "?c7\<lparr>mem := (mem ?c7)(q \<mapsto> cd')\<rparr>" and ?fr = "(desc_frame d)\<lparr>f_data := Some q, f_stride := d_width d * 4\<rparr>"
  have rc: "run_conv (repack d ?src (Some q)) ?c7 = (0, ?c8)" unfolding run_conv_def rp(1) by simp
  have cp: "convert_pixels pow env d ?src (desc_frame d) c6 = (0, ?fr, ?c8)"
    unfolding convert_pixels_def gp prod.case Let_def by (simp add: eo rc[simplified] desc_frame_def zero_frame_def)
  let ?c9 = "sys_munmap ?src (dmabuf_sync_end ?fd ?c8)"
  have nfd: "\<not> ?fd < 0" using fd(1) by simp
  have "convert_cpu pow env d (desc_frame d) c3 = (0, ?fr, ?c9)"
    unfolding convert_cpu_def Let_def if_not_P[OF nfd] 4(1) 5(1) 6(1) prod.case using size(2) cp by simp
  then have run: "drmtap_convert_dmabuf pow env d frame c = (0, ?fr, ?c9)"
    using geo fd(1) by (simp add: drmtap_convert_dmabuf_def Let_def 2(1) 3(1))
  have "mem ?c9 q = Some cd'" using ne by (simp add: sys_munmap_def dmabuf_sync_end_def)
  then show ?thesis using run rp(2) cd(1) by (intro exI[of _ ?fr] exI[of _ ?c9] exI[of _ cd']) simp
qed

theorem convert_linear_exact_witness:
  "\<exists>fr c'. drmtap_convert_dmabuf (\<lambda>x y. x) wit_cpu_env wit_desc zero_frame ((wit_mapped [] (replicate 16 0))\<lparr>live_fds := {3}\<rparr>) =
    (0, fr, c') \<and> f_data fr = Some 2"
proof -
  let ?c = "(wit_mapped [] (replicate 16 0))\<lparr>live_fds := {3}\<rparr>"
  have "thread_ok 0 ?c" using wit_thread(1) by (simp add: thread_ok_def wit_mapped_def)
  then have ok: "ctx_ok 0 ?c" by (auto simp: ctx_ok_def wit_mapped_def wit_ctx_def fresh_ok_def buf_inv_def holds_def)
  have geo: "desc_geometry wit_desc = 0"
    by (simp add: desc_geometry_def wit_desc_def Let_def validate_dims_ok validate_size_ok format_min_bpp_def)
  have env: "v_sync_start wit_cpu_env t 3" "v_fd_size wit_cpu_env t 3 = Some 64" "v_mmap wit_cpu_env t 3 off k = Inr []" for t off k
    by (simp_all add: wit_cpu_env_def wit_env_def)
  have "\<exists>fr c' cd'. drmtap_convert_dmabuf (\<lambda>x y. x) wit_cpu_env wit_desc zero_frame ?c = (0, fr, c') \<and> f_data fr = Some 2 \<and>
    f_stride fr = d_width wit_desc * 4 \<and> mem c' 2 = Some cd' \<and>
    framed (the (mem ?c 2)) cd' (unat (d_width wit_desc)) (unat (d_height wit_desc)) (4 * unat (d_width wit_desc))
      (\<lambda>y x. take 4 (drop (y * unat (d_pitches wit_desc ! 0) + 4 * x) (pad (unat (d_pitches wit_desc ! 0) * unat (d_height wit_desc)) [])))"
    by (rule convert_linear_exact[OF ok geo, where n = 64])
      (simp_all add: env wit_no_egl wit_desc_def wit_mapped_def desc_planes_def plane0_end_def eight_bit_def is_ar30_def is_rgb16_def is_rgb16f_def
        fmt_defs DRMTAP_FMT_XR48_def DRMTAP_FMT_AR48_def DRMTAP_FMT_XB48_def DRMTAP_FMT_AB48_def)
  then show ?thesis by blast
qed

end
