(* ===== verification/Cursor.thy ===== *)
theory Cursor
  imports GrabOk
begin

text \<open>
  The hardware cursor (src/cursor.c): the cursor plane bound to the captured CRTC, its position,
  hotspot and pixels read directly, and the hand-over to the helper when the direct read failed
  for lack of privilege. The abstract cursor of a CRTC is what its plane's properties say; the
  sample the library fills is shown to represent it.
\<close>

section \<open>Reading the plane\<close>

definition get_property_value :: "kms \<Rightarrow> u32 \<Rightarrow> string \<Rightarrow> u64 option" where
  "get_property_value k object_id name = (case km_props k object_id of Inl _ \<Rightarrow> None | Inr props \<Rightarrow> prop_named name props)"

definition DRM_PLANE_TYPE_CURSOR :: u64 where "DRM_PLANE_TYPE_CURSOR = 2"

fun scan_cursor_planes :: "kms \<Rightarrow> u32 \<Rightarrow> u32 list \<Rightarrow> u32" where
  "scan_cursor_planes k target [] = 0"
| "scan_cursor_planes k target (p # ps) =
    (case km_plane k p of
      None \<Rightarrow> scan_cursor_planes k target ps
    | Some plane \<Rightarrow>
        let crtc_ok = (if target \<noteq> 0 then pl_crtc_id plane = target else pl_crtc_id plane \<noteq> 0) in
        if crtc_ok \<and> get_property_value k (pl_id plane) ''type'' = Some DRM_PLANE_TYPE_CURSOR then pl_id plane
        else scan_cursor_planes k target ps)"

definition find_cursor_plane :: "env \<Rightarrow> ctx \<Rightarrow> u32 \<times> ctx" where
  "find_cursor_plane env c =
    (let k = v_kms env (tick c) in
     (case km_plane_res k of None \<Rightarrow> 0 | Some planes \<Rightarrow> scan_cursor_planes k (crtc_id c) planes, step_clock c))"

definition drmtap_cursor_needs_helper :: "bool \<Rightarrow> int \<Rightarrow> bool \<Rightarrow> bool" where
  "drmtap_cursor_needs_helper fb2_ok err had_handle = (if \<not> fb2_ok then err = EACCES \<or> err = EPERM else \<not> had_handle)"

definition cursor_property :: "env \<Rightarrow> u32 \<Rightarrow> string \<Rightarrow> ctx \<Rightarrow> u64 option \<times> ctx" where
  "cursor_property env plane name c = (get_property_value (v_kms env (tick c)) plane name, step_clock c)"

definition or_zero :: "u64 option \<Rightarrow> u32" where
  "or_zero v = (case v of None \<Rightarrow> 0 | Some x \<Rightarrow> ucast x)"

text \<open>Position and hotspot; the provenance is recorded before any later exit.\<close>

definition cursor_placement :: "env \<Rightarrow> u32 \<Rightarrow> ctx \<Rightarrow> drmtap_cursor_info \<times> ctx" where
  "cursor_placement env plane c0 =
    (case cursor_property env plane ''CRTC_X'' c0 of (x, c1) \<Rightarrow>
     case cursor_property env plane ''CRTC_Y'' c1 of (y, c2) \<Rightarrow>
     case cursor_property env plane ''HOTSPOT_X'' c2 of (hx, c3) \<Rightarrow>
     case cursor_property env plane ''HOTSPOT_Y'' c3 of (hy, c4) \<Rightarrow>
       (drmtap_cursor_set_hot_provenance (wire_hot_measured (hx \<noteq> None) (hy \<noteq> None) \<noteq> 0)
          (zero_cursor\<lparr>c_visible := True, c_x := or_zero x, c_y := or_zero y, c_hot_x := or_zero hx, c_hot_y := or_zero hy\<rparr>), c4))"

section \<open>Reading the pixels\<close>

definition cursor_copy :: "drm_fb2 \<Rightarrow> obj \<Rightarrow> obj \<Rightarrow> heap \<Rightarrow> heap option" where
  "cursor_copy fb2 src dst hp =
    loop32 (fb2_height fb2) (\<lambda>y hp. memcpy hp dst (unat y * unat (fb2_width fb2) * 4) src
      (unat y * unat (fb2_pitches fb2 ! 0)) (unat (fb2_width fb2) * 4)) hp"

definition cursor_geometry_ok :: "drm_fb2 \<Rightarrow> bool" where
  "cursor_geometry_ok fb2 \<longleftrightarrow> fb2_width fb2 \<le> 256 \<and> fb2_height fb2 \<le> 256 \<and> fb2_pitches fb2 ! 0 \<noteq> 0 \<and>
    fb2_width fb2 * 4 \<le> fb2_pitches fb2 ! 0"

definition cursor_map :: "env \<Rightarrow> drm_fb2 \<Rightarrow> int \<Rightarrow> ctx \<Rightarrow> obj option \<times> ctx" where
  "cursor_map env fb2 fd c0 =
    (if \<not> cursor_geometry_ok fb2 then (None, c0)
     else case sys_mmap env fd 0 (unat (fb2_pitches fb2 ! 0) * unat (fb2_height fb2)) c0 of
       (Inl e, c1) \<Rightarrow> (None, c1)
     | (Inr mapped, c1) \<Rightarrow>
         (case dmabuf_sync_start env fd c1 of (sync_started, c2) \<Rightarrow>
          case sys_malloc env (unat (fb2_width fb2) * unat (fb2_height fb2) * 4) c2 of (px, c3) \<Rightarrow>
            let c4 = (case px of None \<Rightarrow> c3 | Some p \<Rightarrow>
                  (case cursor_copy fb2 mapped p (mem c3) of None \<Rightarrow> c3\<lparr>faults := Suc (faults c3)\<rparr> | Some hp \<Rightarrow> c3\<lparr>mem := hp\<rparr>));
                c5 = (if sync_started then dmabuf_sync_end fd c4 else c4) in
            (px, sys_munmap mapped c5)))"

definition cursor_read :: "env \<Rightarrow> drm_fb2 \<Rightarrow> ctx \<Rightarrow> obj option \<times> ctx" where
  "cursor_read env fb2 c0 =
    (if fb2_handles fb2 ! 0 = 0 then (None, c0)
     else case sys_prime env (fb2_handles fb2 ! 0) c0 of
       (Inl e, c1) \<Rightarrow> (None, c1)
     | (Inr fd, c1) \<Rightarrow> (case cursor_map env fb2 fd c1 of (px, c2) \<Rightarrow> (px, sys_close fd c2)))"

section \<open>The entry points\<close>

definition cursor_direct :: "env \<Rightarrow> u32 \<Rightarrow> drmtap_cursor_info \<Rightarrow> ctx \<Rightarrow> (int \<times> drmtap_cursor_info) \<times> ctx" where
  "cursor_direct env fb_id cur c0 =
    (case sys_getfb2 env fb_id c0 of
      (Inl err, c1) \<Rightarrow>
        if drmtap_cursor_needs_helper False err False then drmtap_helper_get_cursor env c1 else ((0, cur\<lparr>c_pixels := None\<rparr>), c1)
    | (Inr fb2, c1) \<Rightarrow>
        let had_handle = fb2_handles fb2 ! 0 \<noteq> 0 in
        case cursor_read env fb2 c1 of (px, c2) \<Rightarrow>
          let c3 = (if fb2_handles fb2 ! 0 \<noteq> 0 then gem_close (fb2_handles fb2 ! 0) c2 else c2);
              cur = cur\<lparr>c_width := fb2_width fb2, c_height := fb2_height fb2, c_pixels := px\<rparr> in
          if c_visible cur \<and> c_pixels cur = None \<and> drmtap_cursor_needs_helper True 0 had_handle
          then drmtap_helper_get_cursor env c3 else ((0, cur), c3))"

definition drmtap_get_cursor :: "env \<Rightarrow> ctx \<Rightarrow> (int \<times> drmtap_cursor_info) \<times> ctx" where
  "drmtap_get_cursor env c0 =
    (if 0 \<le> helper_fd c0 then drmtap_helper_get_cursor env c0
     else case find_cursor_plane env c0 of (plane_id, c1) \<Rightarrow>
       if plane_id = 0 then ((0, drmtap_cursor_set_hot_provenance False zero_cursor), c1)
       else case km_plane (v_kms env (tick c1)) plane_id of
         None \<Rightarrow> ((- ENODEV, zero_cursor), step_clock c1)
       | Some plane \<Rightarrow>
           if pl_fb_id plane = 0 then ((0, drmtap_cursor_set_hot_provenance False zero_cursor), step_clock c1)
           else case cursor_placement env plane_id (step_clock c1) of (cur, c2) \<Rightarrow> cursor_direct env (pl_fb_id plane) cur c2)"

definition drmtap_cursor_release :: "drmtap_cursor_info \<Rightarrow> ctx \<Rightarrow> drmtap_cursor_info \<times> ctx" where
  "drmtap_cursor_release cur c = (cur\<lparr>c_pixels := None, c_priv := 0\<rparr>, sys_free (c_pixels cur) c)"

definition drmtap_cursor_hotspot_valid :: "drmtap_cursor_info \<Rightarrow> int + bool" where
  "drmtap_cursor_hotspot_valid cur =
    (if c_priv cur AND CURSOR_PRIV_HOT_ANSWERED = 0 then Inl (- ENOTSUP)
     else Inr (c_priv cur AND CURSOR_PRIV_HOT_MEASURED \<noteq> 0))"

section \<open>The abstract cursor\<close>

text \<open>What a CRTC shows: nothing, or an image at a place, with the hotspot if the driver has one.\<close>

datatype cursor_state = Hidden | Shown u32 u32 "(u32 \<times> u32) option"

definition cursor_bound :: "kms \<Rightarrow> u32 \<Rightarrow> drm_plane option" where
  "cursor_bound k crtc =
    find (\<lambda>pl. (if crtc \<noteq> 0 then pl_crtc_id pl = crtc else pl_crtc_id pl \<noteq> 0) \<and>
        get_property_value k (pl_id pl) ''type'' = Some DRM_PLANE_TYPE_CURSOR)
      (List.map_filter (km_plane k) (case km_plane_res k of None \<Rightarrow> [] | Some ps \<Rightarrow> ps))"

definition cursor_of_crtc :: "kms \<Rightarrow> u32 \<Rightarrow> cursor_state" where
  "cursor_of_crtc k crtc =
    (case cursor_bound k crtc of
      None \<Rightarrow> Hidden
    | Some pl \<Rightarrow>
        let prop = get_property_value k (pl_id pl) in
        if pl_fb_id pl = 0 then Hidden
        else Shown (or_zero (prop ''CRTC_X'')) (or_zero (prop ''CRTC_Y''))
          (case (prop ''HOTSPOT_X'', prop ''HOTSPOT_Y'') of (Some x, Some y) \<Rightarrow> Some (ucast x, ucast y) | _ \<Rightarrow> None))"

text \<open>The state a filled sample represents.\<close>

definition cursor_abs :: "drmtap_cursor_info \<Rightarrow> cursor_state" where
  "cursor_abs cur =
    (if \<not> c_visible cur then Hidden
     else Shown (c_x cur) (c_y cur) (if drmtap_cursor_hotspot_valid cur = Inr True then Some (c_hot_x cur, c_hot_y cur) else None))"

lemma scan_cursor_find:
  assumes "\<And>p pl. km_plane k p = Some pl \<Longrightarrow> pl_id pl \<noteq> 0"
  shows "scan_cursor_planes k crtc ps = (case find (\<lambda>pl. (if crtc \<noteq> 0 then pl_crtc_id pl = crtc else pl_crtc_id pl \<noteq> 0) \<and>
        get_property_value k (pl_id pl) ''type'' = Some DRM_PLANE_TYPE_CURSOR) (List.map_filter (km_plane k) ps) of
      None \<Rightarrow> 0 | Some pl \<Rightarrow> pl_id pl)"
  by (induction ps) (auto simp: List.map_filter_def Let_def split: option.split)

lemma cursor_bound_plane:
  assumes "cursor_bound k crtc = Some pl"
  shows "\<exists>p. km_plane k p = Some pl"
proof -
  have "pl \<in> set (List.map_filter (km_plane k) (case km_plane_res k of None \<Rightarrow> [] | Some ps \<Rightarrow> ps))"
    using assms by (auto simp: cursor_bound_def find_Some_iff)
  then show ?thesis by (auto simp: List.map_filter_def)
qed

lemma provenance_valid [simp]:
  "drmtap_cursor_hotspot_valid (drmtap_cursor_set_hot_provenance b cur) = Inr b"
  by (simp add: drmtap_cursor_hotspot_valid_def drmtap_cursor_set_hot_provenance_def CURSOR_PRIV_HOT_ANSWERED_def
    CURSOR_PRIV_HOT_MEASURED_def)

lemma placement_abs:
  assumes still: "\<And>t. v_kms env t = k" and run: "cursor_placement env plane c = (cur, c')"
  shows "cursor_abs (cur\<lparr>c_width := w, c_height := h, c_pixels := p\<rparr>) =
      Shown (or_zero (get_property_value k plane ''CRTC_X'')) (or_zero (get_property_value k plane ''CRTC_Y''))
        (case (get_property_value k plane ''HOTSPOT_X'', get_property_value k plane ''HOTSPOT_Y'') of
          (Some x, Some y) \<Rightarrow> Some (ucast x, ucast y) | _ \<Rightarrow> None) \<and> c_visible cur \<and> c_pixels cur = None"
  using run
  by (auto simp: cursor_placement_def cursor_property_def still cursor_abs_def wire_hot_measured_def drmtap_cursor_hotspot_valid_def
    CURSOR_PRIV_HOT_ANSWERED_def CURSOR_PRIV_HOT_MEASURED_def drmtap_cursor_set_hot_provenance_def or_zero_def zero_cursor_def
    split: option.splits)

section \<open>The image\<close>

text \<open>A tightly packed copy of a w by h image whose source rows are S bytes apart.\<close>

definition tight_image :: "byte list \<Rightarrow> byte list \<Rightarrow> nat \<Rightarrow> nat \<Rightarrow> nat \<Rightarrow> bool" where
  "tight_image src bs w h S \<longleftrightarrow> length bs = w * h * 4 \<and> (\<forall>y < h. \<forall>j < w * 4. bs ! (y * (w * 4) + j) = src ! (y * S + j))"

lemma cursor_geometry_D:
  assumes "cursor_geometry_ok fb2"
  shows "unat (fb2_width fb2) * 4 \<le> unat (fb2_pitches fb2 ! 0)"
proof -
  have w: "unat (fb2_width fb2) \<le> 256" using assms by (simp add: cursor_geometry_ok_def word_le_nat_alt)
  then have "unat (fb2_width fb2 * 4) = unat (fb2_width fb2) * 4" by (subst unat_mult_small) simp_all
  then show ?thesis using assms by (simp add: cursor_geometry_ok_def word_le_nat_alt)
qed

lemma cursor_copy_tight:
  assumes geo: "cursor_geometry_ok fb2" and src: "hp s = Some cs" "length cs = unat (fb2_pitches fb2 ! 0) * unat (fb2_height fb2)"
    and dst: "hp d = Some cd" "length cd = unat (fb2_width fb2) * unat (fb2_height fb2) * 4" "d \<noteq> s"
  shows "\<exists>bs. cursor_copy fb2 s d hp = Some (hp(d \<mapsto> bs)) \<and>
    tight_image cs bs (unat (fb2_width fb2)) (unat (fb2_height fb2)) (unat (fb2_pitches fb2 ! 0))"
proof -
  let ?w = "unat (fb2_width fb2)" and ?h = "unat (fb2_height fb2)" and ?S = "unat (fb2_pitches fb2 ! 0)"
  let ?row = "\<lambda>y. take (?w * 4) (drop (y * ?S) cs)"
  have w: "?w * 4 \<le> ?S" by (rule cursor_geometry_D[OF geo])
  have b: "y * ?S + ?w * 4 \<le> length cs" if "y < ?h" for y
    using mult_le_mono1[of "Suc y" ?h ?S] that w src(2) by (simp add: mult.commute)
  have bd: "y * (?w * 4) + ?w * 4 \<le> length cd" if "y < ?h" for y
    using mult_le_mono1[of "Suc y" ?h "?w * 4"] that dst(2) by (simp add: mult_ac)
  have len: "length (?row y) = ?w * 4" if "y < ?h" for y using b[OF that] by simp
  have m: "?h * (?w * 4) \<le> length cd" using dst(2) by (simp add: mult_ac)
  have same: "hp(d \<mapsto> cd) = hp" using dst(1) by auto
  have "loop ?h (\<lambda>y hp. memcpy hp d (unat (of_nat y :: u32) * ?w * 4) s (unat (of_nat y :: u32) * ?S) (?w * 4)) (hp(d \<mapsto> cd)) =
    Some (hp(d \<mapsto> patch_rows cd (?w * 4) ?row ?h))"
  proof (rule frame_loop[OF refl m order.refl len])
    fix y and c' :: "byte list" assume y: "y < ?h" and c': "length c' = length cd"
    have u: "unat (of_nat y :: u32) = y" using y unat_u32_bound[of "fb2_height fb2"] by (simp add: unat_of_nat)
    show "memcpy (hp(d \<mapsto> c')) d (unat (of_nat y :: u32) * ?w * 4) s (unat (of_nat y :: u32) * ?S) (?w * 4) =
      Some (hp(d \<mapsto> patch c' (y * (?w * 4)) (?row y)))"
      using b[OF y] bd[OF y] c' src(1) dst(3) unfolding u
      by (simp add: memcpy_distinct rd_in_bounds wr_in_bounds mult.assoc)
  qed
  moreover have "tight_image cs (patch_rows cd (?w * 4) ?row ?h) ?w ?h ?S"
    using patch_rows_props[of ?h ?row "?w * 4" "?w * 4" cd, OF len order.refl m] dst(2) b
    by (fastforce simp: tight_image_def)
  ultimately show ?thesis unfolding cursor_copy_def loop32_def same by blast
qed

section \<open>The direct read leaks nothing\<close>

lemma malloc_fill:
  assumes ok: "gctx_ok f c" and ow: "owes c0 M F G P W c" and run: "sys_malloc env n c = (Some q, c')"
  shows "(\<exists>cd. mem c' q = Some cd \<and> length cd = n) \<and> q \<notin> live_maps c' \<and> mem c q = None \<and> mem c' = (mem c)(q := mem c' q) \<and>
    live_maps c' = live_maps c \<and> live_fds c' = live_fds c \<and>
    gctx_ok f (c'\<lparr>mem := (mem c')(q \<mapsto> bs)\<rparr>) \<and> owes c0 M F G P W (c'\<lparr>mem := (mem c')(q \<mapsto> bs)\<rparr>)"
proof -
  obtain cd where c': "q = next_obj c" "c' = step_clock (c\<lparr>mem := (mem c)(next_obj c \<mapsto> pad n cd), next_obj := Suc (next_obj c)\<rparr>)"
    using run by (auto simp: sys_malloc_def split: option.splits)
  have fr: "fresh_ok c'" using fresh_malloc[OF gctx_fresh(1)[OF ok], of env n] by (simp add: run)
  have new: "mem c q = None" "q \<notin> live_maps c" using gctx_fresh(1)[OF ok] by (auto simp: fresh_ok_def c'(1))
  have fr2: "fresh_ok (c'\<lparr>mem := (mem c')(q \<mapsto> bs)\<rparr>)" using fr by (auto simp: fresh_ok_def c' step_clock_def)
  have "gctx_ok f (c'\<lparr>mem := (mem c')(q \<mapsto> bs)\<rparr>)"
    by (rule world_ok[OF ok fr2]) (use gctx_fresh(2)[OF ok] new in \<open>auto simp: c' step_clock_def\<close>)
  then show ?thesis using ow new by (auto simp: owes_def own_fds_def c' step_clock_def)
qed

lemma malloc_none: "sys_malloc env n c = (None, c') \<Longrightarrow> c' = step_clock c"
  by (auto simp: sys_malloc_def split: option.splits)

lemma clock_step: "gctx_ok f c \<Longrightarrow> owes c0 M F G P W c \<Longrightarrow> gctx_ok f (step_clock c) \<and> owes c0 M F G P W (step_clock c)"
  using mstep_ok[OF mstep_upd(1)] mstep_owes[OF mstep_upd(1)] by blast

lemma close_window:
  assumes "gctx_ok f c" "owes c0 {p} F G P (if st then W(fd := Suc (W fd)) else W) c" "fd \<in> F"
  shows "gctx_ok f (sys_munmap p (if st then dmabuf_sync_end fd c else c)) \<and>
    owes c0 {} F G P W (sys_munmap p (if st then dmabuf_sync_end fd c else c))"
proof -
  have "gctx_ok f (if st then dmabuf_sync_end fd c else c) \<and> owes c0 {p} F G P W (if st then dmabuf_sync_end fd c else c)"
    using end_step[of f c c0 "{p}" F G P "W(fd := Suc (W fd))" fd] assms by (cases st) auto
  then show ?thesis using munmap_step[of f _ c0 "{p}" F G P W p] by simp
qed

definition cursor_shown :: "env \<Rightarrow> drm_fb2 \<Rightarrow> int \<Rightarrow> obj option \<Rightarrow> ctx \<Rightarrow> bool" where
  "cursor_shown env fb2 fd px c \<longleftrightarrow>
    (case px of None \<Rightarrow> True
     | Some p \<Rightarrow> cursor_geometry_ok fb2 \<and> p \<notin> live_maps c \<and>
        (\<exists>bs t src. let n = unat (fb2_pitches fb2 ! 0) * unat (fb2_height fb2) in
          mem c p = Some bs \<and> v_mmap env t fd 0 n = Inr src \<and>
          tight_image (pad n src) bs (unat (fb2_width fb2)) (unat (fb2_height fb2)) (unat (fb2_pitches fb2 ! 0))))"

lemma cursor_map_ok:
  assumes ok: "gctx_ok f c" and ow: "owes c0 {} F G P W c" and fd: "fd \<in> F" and run: "cursor_map env fb2 fd c = (px, c')"
  shows "gctx_ok f c' \<and> owes c0 {} F G P W c' \<and> cursor_shown env fb2 fd px c'"
proof (cases "cursor_geometry_ok fb2")
  case False
  then show ?thesis using run ok ow by (simp add: cursor_map_def cursor_shown_def)
next
  case geo: True
  then have ng: "\<not> \<not> cursor_geometry_ok fb2" by simp
  let ?n = "unat (fb2_pitches fb2 ! 0) * unat (fb2_height fb2)" and ?m = "unat (fb2_width fb2) * unat (fb2_height fb2) * 4"
  obtain m c1 where mm: "sys_mmap env fd 0 ?n c = (m, c1)" by fastforce
  note run1 = run[unfolded cursor_map_def if_not_P[OF ng] mm prod.case]
  show ?thesis
  proof (cases m)
    case (Inl e)
    then show ?thesis using run1 mm clock_step[OF ok ow] mmap_fail[of env fd 0 ?n c e c1] by (auto simp: cursor_shown_def)
  next
    case (Inr s)
    note M = mmap_step[OF ok ow mm[unfolded Inr]]
    obtain src where src: "v_mmap env (tick c) fd 0 ?n = Inr src" "mem c1 s = Some (pad ?n src)"
      using mm Inr by (auto simp: sys_mmap_def step_clock_def split: sum.splits)
    have 1: "gctx_ok f c1" "owes c0 {s} F G P W c1" "s \<in> live_maps c1" using M by simp_all
    obtain st c2 where ss: "dmabuf_sync_start env fd c1 = (st, c2)" by fastforce
    note S = start_step[OF 1(1,2) ss fd]
    let ?W = "if st then W(fd := Suc (W fd)) else W"
    have 2: "gctx_ok f c2" "owes c0 {s} F G P ?W c2" "s \<in> live_maps c2" "mem c2 s = Some (pad ?n src)" using S 1 src by simp_all
    obtain q c3 where ml: "sys_malloc env ?m c2 = (q, c3)" by fastforce
    note run2 = run1[unfolded Inr sum.case ss prod.case ml Let_def]
    show ?thesis
    proof (cases q)
      case None
      have 3: "gctx_ok f c3" "owes c0 {s} F G P ?W c3" using clock_step[OF 2(1,2)] malloc_none[OF ml[unfolded None]] by simp_all
      then show ?thesis using run2 None close_window[OF 3 fd] by (auto simp: cursor_shown_def)
    next
      case (Some p)
      note F = malloc_fill[OF 2(1,2) ml[unfolded Some]]
      obtain cd where cd: "mem c3 p = Some cd" "length cd = ?m" using F by blast
      have ps: "p \<noteq> s" using F 2(4) by auto
      have s3: "mem c3 s = Some (pad ?n src)" using F 2(4) ps by (metis fun_upd_other)
      obtain bs where bs: "cursor_copy fb2 s p (mem c3) = Some ((mem c3)(p \<mapsto> bs))"
        "tight_image (pad ?n src) bs (unat (fb2_width fb2)) (unat (fb2_height fb2)) (unat (fb2_pitches fb2 ! 0))"
        using cursor_copy_tight[OF geo s3 length_pad cd ps] by blast
      let ?c4 = "c3\<lparr>mem := (mem c3)(p \<mapsto> bs)\<rparr>"
      have 4: "gctx_ok f ?c4" "owes c0 {s} F G P ?W ?c4" using F by blast+
      let ?c5 = "sys_munmap s (if st then dmabuf_sync_end fd ?c4 else ?c4)"
      have e: "px = Some p" "c' = ?c5" using run2 Some bs(1) by auto
      have k: "mem ?c5 p = Some bs" "live_maps ?c5 \<subseteq> live_maps c3" using ps by (auto simp: sys_munmap_def dmabuf_sync_end_def)
      moreover have "p \<notin> live_maps ?c5" using k(2) F by blast
      ultimately have "cursor_shown env fb2 fd px c'" using geo src(1) bs(2) unfolding e cursor_shown_def option.case Let_def by blast
      then show ?thesis using close_window[OF 4 fd] unfolding e by blast
    qed
  qed
qed

lemma cursor_read_ok:
  assumes ok: "gctx_ok f c" and ow: "owes c0 {} {} G P W c" and run: "cursor_read env fb2 c = (px, c')"
  shows "gctx_ok f c' \<and> owes c0 {} {} G P W c' \<and> (\<exists>fd. cursor_shown env fb2 fd px c') \<and> (fb2_handles fb2 ! 0 = 0 \<longrightarrow> px = None)"
proof (cases "fb2_handles fb2 ! 0 = 0")
  case True
  then show ?thesis using run ok ow by (simp add: cursor_read_def cursor_shown_def)
next
  case False
  obtain r c1 where pr: "sys_prime env (fb2_handles fb2 ! 0) c = (r, c1)" by fastforce
  note run1 = run[unfolded cursor_read_def if_not_P[OF False] pr prod.case]
  show ?thesis
  proof (cases r)
    case (Inl e)
    then show ?thesis using run1 pr prime_fail[of env _ c e c1] clock_step[OF ok ow] False by (auto simp: cursor_shown_def)
  next
    case (Inr fd)
    note Q = prime_step[OF ok ow pr[unfolded Inr]]
    obtain c2 where cm: "cursor_map env fb2 fd c1 = (px, c2)" "c' = sys_close fd c2" using run1 Inr by (auto split: prod.splits)
    note R = cursor_map_ok[OF conjunct1[OF Q] conjunct1[OF conjunct2[OF Q]] insertI1 cm(1)]
    have "gctx_ok f c' \<and> owes c0 {} {} G P W c'"
      using close_step[of f c2 c0 "{}" "{fd}" G P W fd] R unfolding cm(2) by simp
    moreover have "cursor_shown env fb2 fd px c'" using R unfolding cm(2) by (auto simp: cursor_shown_def sys_close_def split: option.splits)
    ultimately show ?thesis using False by blast
  qed
qed

section \<open>The contract\<close>

text \<open>Cursor framebuffers have one buffer object; further handles GETFB2 mints would stay open.\<close>

definition single_object :: "drm_fb2 \<Rightarrow> bool" where
  "single_object fb \<longleftrightarrow> (\<forall>h \<in> set (take 4 (fb2_handles fb)). h = 0 \<or> h = hd (fb2_handles fb))"

lemma single_minted:
  assumes run: "sys_getfb2 env fb_id c = (Inr fb2, c')" and single: "\<And>t x. v_fb2 env t fb_id = Inr x \<Longrightarrow> single_object x"
  shows "minted (fb2_handles fb2) = gem_set (fb2_handles fb2 ! 0)"
proof -
  obtain fb where v: "v_fb2 env (tick c) fb_id = Inr fb" using run by (auto simp: sys_getfb2_def split: sum.splits)
  then have hs: "fb2_handles fb2 = map (mint_handle (next_gem c)) (take 4 (fb2_handles fb @ [0, 0, 0, 0]))"
    using run by (auto simp: sys_getfb2_def Let_def)
  have "\<forall>h \<in> set (take 4 (fb2_handles fb)). h = 0 \<or> h = hd (fb2_handles fb)" using single[OF v] by (simp add: single_object_def)
  then show ?thesis unfolding hs
    by (cases "fb2_handles fb") (auto simp: minted_def gem_set_def mint_handle_def take_Cons' split: if_splits dest: in_set_takeD)
qed

lemma clean_res: "clean c c' \<Longrightarrow> client_res c' = client_res c"
  by (auto simp: clean_def owes_def client_res_def own_fds_def)

definition cursor_post :: "ctx \<Rightarrow> (int \<times> drmtap_cursor_info) \<times> ctx \<Rightarrow> bool" where
  "cursor_post c res =
    (case res of ((r, cur), c') \<Rightarrow> conn_ok c' \<and> client_res c' = client_res c \<and>
      (case c_pixels cur of None \<Rightarrow> True | Some p \<Rightarrow> r = 0 \<and> mem c' p \<noteq> None \<and> p \<notin> live_maps c'))"

lemma helper_post: "conn_ok c' \<Longrightarrow> client_res c' = client_res c \<Longrightarrow> cursor_post c (drmtap_helper_get_cursor env c')"
  using get_cursor_ok[of c' env] by (auto simp: cursor_post_def split: prod.splits)

lemma mstep_cursor: "gctx_ok f c \<Longrightarrow> clean c0 c \<Longrightarrow> mstep c c' \<Longrightarrow> gctx_ok f c' \<and> clean c0 c'"
  unfolding clean_def using mstep_ok mstep_owes by blast

lemma direct_post:
  assumes ok: "gctx_ok f c" and cl: "clean c0 c" and cur: "c_pixels cur = None"
    and single: "\<And>t x. v_fb2 env t fb_id = Inr x \<Longrightarrow> single_object x"
  shows "cursor_post c0 (cursor_direct env fb_id cur c)"
proof -
  note ow = cl[unfolded clean_def]
  have done_: "conn_ok x \<and> client_res x = client_res c0" if "gctx_ok f x \<and> clean c0 x" for x
    using that clean_res[of c0 x] by (simp add: gctx_ok_def)
  obtain r c1 where gf: "sys_getfb2 env fb_id c = (r, c1)" by fastforce
  show ?thesis
  proof (cases r)
    case (Inl e)
    have "c1 = step_clock c" using gf Inl by (auto simp: sys_getfb2_def Let_def split: sum.splits)
    then have "gctx_ok f c1 \<and> clean c0 c1" using mstep_cursor[OF ok cl mstep_upd(1)] by simp
    from done_[OF this] show ?thesis using gf Inl helper_post[of c1 c0 env] by (simp add: cursor_direct_def cursor_post_def)
  next
    case (Inr fb2)
    let ?h = "fb2_handles fb2 ! 0"
    have 1: "gctx_ok f c1" "owes c0 {} {} (gem_set ?h) 0 (\<lambda>_. 0) c1"
      using getfb2_step[OF ok ow gf[unfolded Inr]] single_minted[OF gf[unfolded Inr] single] by simp_all
    obtain px c2 where rd: "cursor_read env fb2 c1 = (px, c2)" by fastforce
    note R = cursor_read_ok[OF 1 rd]
    let ?c3 = "if ?h \<noteq> 0 then gem_close ?h c2 else c2"
    have e3: "?c3 = drmtap_gem_close ?h c2" by (simp add: drmtap_gem_close_def)
    have 3: "gctx_ok f ?c3 \<and> clean c0 ?c3" unfolding e3 clean_def using gem_step R by blast
    have px: "case px of None \<Rightarrow> True | Some p \<Rightarrow> mem ?c3 p \<noteq> None \<and> p \<notin> live_maps ?c3"
      using R by (auto simp: cursor_shown_def gem_close_def Let_def split: option.splits)
    note run = cursor_direct_def[of env fb_id cur c, unfolded gf Inr prod.case sum.case Let_def rd]
    show ?thesis unfolding run using done_[OF 3] px helper_post[of ?c3 c0 env]
      by (auto simp: cursor_post_def split: option.splits)
  qed
qed

lemma placement_mstep:
  assumes "cursor_placement env plane c = (cur, c')"
  shows "mstep c c' \<and> c_pixels cur = None"
proof -
  have c': "c' = step_clock (step_clock (step_clock (step_clock c)))" and cur: "c_pixels cur = None"
    using assms by (auto simp: cursor_placement_def cursor_property_def drmtap_cursor_set_hot_provenance_def zero_cursor_def)
  have two: "mstep x (step_clock (step_clock x))" for x :: ctx by (rule mstep_trans[OF mstep_upd(1) mstep_upd(1)])
  show ?thesis unfolding c' using cur mstep_trans[OF two[of c] two] by simp
qed

lemma post_leaf: "gctx_ok f c' \<and> clean c c' \<Longrightarrow> c_pixels cur = None \<Longrightarrow> cursor_post c ((r, cur), c')"
  using clean_res[of c c'] by (simp add: cursor_post_def gctx_ok_def)

lemma get_cursor_post:
  assumes ok: "gctx_ok f c" and single: "\<And>t fb x. v_fb2 env t fb = Inr x \<Longrightarrow> single_object x"
  shows "cursor_post c (drmtap_get_cursor env c)"
proof (cases "0 \<le> helper_fd c")
  case True
  then show ?thesis using helper_post[of c c env] ok by (simp add: drmtap_get_cursor_def gctx_ok_def)
next
  case False
  have z: "c_pixels (drmtap_cursor_set_hot_provenance b zero_cursor) = None" "c_pixels zero_cursor = None" for b
    by (simp_all add: drmtap_cursor_set_hot_provenance_def zero_cursor_def)
  obtain id c1 where fp: "find_cursor_plane env c = (id, c1)" by fastforce
  have "c1 = step_clock c" using fp by (simp add: find_cursor_plane_def Let_def)
  then have 1: "gctx_ok f c1 \<and> clean c c1" using mstep_cursor[OF ok clean_refl mstep_upd(1)] by simp
  have 2: "gctx_ok f (step_clock c1) \<and> clean c (step_clock c1)" using mstep_cursor[OF conjunct1[OF 1] conjunct2[OF 1] mstep_upd(1)] .
  note run = drmtap_get_cursor_def[of env c, unfolded if_not_P[OF False] fp prod.case]
  show ?thesis
  proof (cases "id = 0")
    case True
    then show ?thesis unfolding run using post_leaf[OF 1 z(1)] by simp
  next
    case ni: False
    show ?thesis
    proof (cases "km_plane (v_kms env (tick c1)) id")
      case None
      then show ?thesis unfolding run using ni post_leaf[OF 2 z(2)] by simp
    next
      case (Some pl)
      obtain cur c2 where pm: "cursor_placement env id (step_clock c1) = (cur, c2)" by fastforce
      note P = placement_mstep[OF pm]
      have 3: "gctx_ok f c2" "clean c c2" using mstep_cursor[OF conjunct1[OF 2] conjunct2[OF 2]] P by blast+
      show ?thesis unfolding run using ni Some post_leaf[OF 2 z(1)] direct_post[OF 3 _ single] P by (simp add: pm)
    qed
  qed
qed

section \<open>Properties\<close>


text \<open>The example device with a cursor plane, id 8, on CRTC 5.\<close>

definition wit_cursor_kms :: kms where
  "wit_cursor_kms = wit_kms\<lparr>km_plane_res := Some [7, 8],
    km_plane := (\<lambda>i. if i = 7 then Some \<lparr>pl_id = 7, pl_crtc_id = 5, pl_fb_id = 2\<rparr>
      else if i = 8 then Some \<lparr>pl_id = 8, pl_crtc_id = 5, pl_fb_id = 3\<rparr> else None),
    km_props := (\<lambda>i. if i = 7 then Inr [\<lparr>pr_id = 20, pr_name = Inr ''type'', pr_value = 1\<rparr>]
      else if i = 8 then Inr [\<lparr>pr_id = 20, pr_name = Inr ''type'', pr_value = 2\<rparr>, \<lparr>pr_id = 21, pr_name = Inr ''CRTC_X'', pr_value = 40\<rparr>,
        \<lparr>pr_id = 22, pr_name = Inr ''CRTC_Y'', pr_value = 30\<rparr>] else Inl EINVAL)\<rparr>"

definition wit_cursor_env :: env where
  "wit_cursor_env = wit_env\<lparr>v_kms := \<lambda>t. wit_cursor_kms\<rparr>"

lemma wit_single: "v_fb2 wit_cursor_env t fb = Inr x \<Longrightarrow> single_object x"
  by (auto simp: wit_cursor_env_def wit_env_def wit_fb2_def single_object_def)


lemma direct_shown:
  assumes ok: "gctx_ok f c" and cl: "clean c0 c" and cur: "c_visible cur"
    and kind: "\<forall>t. case v_fb2 env t fb_id of Inl e \<Rightarrow> e \<noteq> EACCES \<and> e \<noteq> EPERM | Inr x \<Rightarrow> fb2_handles x \<noteq> [] \<and> hd (fb2_handles x) \<noteq> 0"
    and single: "\<forall>t x. v_fb2 env t fb_id = Inr x \<longrightarrow> single_object x"
  shows "\<exists>w h px c'. cursor_direct env fb_id cur c = ((0, cur\<lparr>c_width := w, c_height := h, c_pixels := px\<rparr>), c') \<and>
    (case px of None \<Rightarrow> True | Some p \<Rightarrow> \<exists>bs S src t fd. mem c' p = Some bs \<and> v_mmap env t fd 0 (S * unat h) = Inr src \<and>
      tight_image (pad (S * unat h) src) bs (unat w) (unat h) S)"
proof -
  obtain r c1 where gf: "sys_getfb2 env fb_id c = (r, c1)" by fastforce
  show ?thesis
  proof (cases r)
    case (Inl e)
    have "v_fb2 env (tick c) fb_id = Inl e" using gf Inl by (auto simp: sys_getfb2_def Let_def split: sum.splits)
    then have "e \<noteq> EACCES \<and> e \<noteq> EPERM" using kind[rule_format, of "tick c"] by simp
    then have "cursor_direct env fb_id cur c = ((0, cur\<lparr>c_width := c_width cur, c_height := c_height cur, c_pixels := None\<rparr>), c1)"
      using gf Inl by (simp add: cursor_direct_def drmtap_cursor_needs_helper_def)
    then show ?thesis
      by (intro exI[of _ "c_width cur"] exI[of _ "c_height cur"] exI[of _ "None :: obj option"] exI[of _ c1]) simp
  next
    case (Inr fb2)
    let ?h = "fb2_handles fb2 ! 0"
    obtain x where v: "v_fb2 env (tick c) fb_id = Inr x" using gf Inr by (auto simp: sys_getfb2_def Let_def split: sum.splits)
    have hs: "fb2_handles fb2 = map (mint_handle (next_gem c)) (take 4 (fb2_handles x @ [0, 0, 0, 0]))"
      using gf Inr v by (auto simp: sys_getfb2_def Let_def)
    obtain a as where a: "fb2_handles x = a # as" "a \<noteq> 0" using kind[rule_format, of "tick c"] v by (cases "fb2_handles x") auto
    have h0: "?h \<noteq> 0" unfolding hs a(1) using a(2) by (simp add: mint_handle_def)
    have mi: "minted (fb2_handles fb2) = gem_set ?h" by (rule single_minted[OF gf[unfolded Inr]]) (use single in blast)
    have 1: "gctx_ok f c1" "owes c0 {} {} (gem_set ?h) 0 (\<lambda>_. 0) c1"
      using getfb2_step[OF ok cl[unfolded clean_def] gf[unfolded Inr]] mi by simp_all
    obtain px c2 where rd: "cursor_read env fb2 c1 = (px, c2)" by fastforce
    note R = cursor_read_ok[OF 1 rd]
    have run: "cursor_direct env fb_id cur c = ((0, cur\<lparr>c_width := fb2_width fb2, c_height := fb2_height fb2, c_pixels := px\<rparr>), gem_close ?h c2)"
      using gf Inr rd h0 by (simp add: cursor_direct_def Let_def drmtap_cursor_needs_helper_def)
    have "case px of None \<Rightarrow> True | Some p \<Rightarrow> \<exists>bs S src t fd. mem (gem_close ?h c2) p = Some bs \<and>
        v_mmap env t fd 0 (S * unat (fb2_height fb2)) = Inr src \<and>
        tight_image (pad (S * unat (fb2_height fb2)) src) bs (unat (fb2_width fb2)) (unat (fb2_height fb2)) S"
    proof (cases px)
      case (Some p)
      obtain fd bs t src where "mem c2 p = Some bs" "v_mmap env t fd 0 (unat (fb2_pitches fb2 ! 0) * unat (fb2_height fb2)) = Inr src"
        "tight_image (pad (unat (fb2_pitches fb2 ! 0) * unat (fb2_height fb2)) src) bs (unat (fb2_width fb2)) (unat (fb2_height fb2))
          (unat (fb2_pitches fb2 ! 0))"
        using R Some by (auto simp: cursor_shown_def Let_def)
      moreover have "mem (gem_close ?h c2) p = mem c2 p" by (simp add: gem_close_def)
      ultimately show ?thesis unfolding Some option.case by metis
    qed simp
    then show ?thesis using run by blast
  qed
qed



end
