(* ===== verification/Devices.thy ===== *)
theory Devices
  imports Enumerate
begin

text \<open>
  Finding a device (src/drmtap.c): the card drmtap_open picks on its own, drmtap_list_devices, and
  the render node of the card that drives a display. What the machine answers - which nodes open,
  their mode-setting tables, the environment, sysfs - is the parameter sysenv; a descriptor is
  known by the path it was opened with.
\<close>

record sysenv =
  o_root :: bool
  o_getenv :: "string \<Rightarrow> string option"
  o_open :: "nat \<Rightarrow> string \<Rightarrow> bool"
  o_kms :: "nat \<Rightarrow> string \<Rightarrow> kms"
  o_capget :: "nat \<Rightarrow> bool option"
  o_driver :: "nat \<Rightarrow> string \<Rightarrow> string option"
  o_render_node :: "nat \<Rightarrow> string \<Rightarrow> string option"
  o_dup_high :: "nat \<Rightarrow> bool"
  o_dir :: "string \<Rightarrow> string list option"
  o_file :: "string \<Rightarrow> string option"
  o_calloc :: "nat \<Rightarrow> bool"

text \<open>What a call asks of the device itself.\<close>

datatype dev_event = DropMaster int | SetClientCap int u32

definition sys_open :: "sysenv \<Rightarrow> string \<Rightarrow> 'a world_scheme \<Rightarrow> int option \<times> 'a world_scheme" where
  "sys_open env path w =
    (if o_open env (tick w) path then (case sys_mint_fd w of (fd, w1) \<Rightarrow> (Some fd, step_clock w1)) else (None, step_clock w))"

definition drmtap_have_cap_sys_admin :: "sysenv \<Rightarrow> 'a world_scheme \<Rightarrow> bool \<times> 'a world_scheme" where
  "drmtap_have_cap_sys_admin env w = (case o_capget env (tick w) of None \<Rightarrow> o_root env | Some b \<Rightarrow> b, step_clock w)"

section \<open>The card to capture\<close>

definition card_path :: "nat \<Rightarrow> string" where
  "card_path i = ''/dev/dri/card'' @ show_u i"

definition crtc_active :: "kms \<Rightarrow> u32 \<Rightarrow> bool" where
  "crtc_active k r = (case km_crtc k r of Inl _ \<Rightarrow> False | Inr crtc \<Rightarrow> cr_mode_valid crtc \<and> 0 < cr_buffer_id crtc)"

definition count_active :: "kms \<Rightarrow> drm_res \<Rightarrow> nat" where
  "count_active k res = fold (\<lambda>r n. if crtc_active k r then Suc n else n) (rs_crtcs res) 0"

record card_scan =
  best_card :: "(int \<times> string) option"
  best_active :: nat
  fallback_card :: "(int \<times> string) option"

definition scan_card :: "sysenv \<Rightarrow> nat \<Rightarrow> card_scan \<times> 'a world_scheme \<Rightarrow> card_scan \<times> 'a world_scheme" where
  "scan_card env i sw =
    (case sw of (s, w) \<Rightarrow> let path = card_path i in
     case sys_open env path w of
       (None, w1) \<Rightarrow> (s, w1)
     | (Some fd, w1) \<Rightarrow>
         let k = o_kms env (tick w1) path; w2 = step_clock w1 in
         case km_res k of
           None \<Rightarrow> (s, sys_close fd w2)
         | Some res \<Rightarrow>
             let active = count_active k res in
             if 0 < active then
               if best_active s < active then
                 (s\<lparr>best_card := Some (fd, path), best_active := active\<rparr>,
                  case best_card s of None \<Rightarrow> w2 | Some (old, _) \<Rightarrow> sys_close old w2)
               else (s, sys_close fd w2)
             else
               (case fallback_card s of
                 None \<Rightarrow> (s\<lparr>fallback_card := Some (fd, path)\<rparr>, w2)
               | Some _ \<Rightarrow> (s, sys_close fd w2)))"

definition scan_cards :: "sysenv \<Rightarrow> nat \<Rightarrow> 'a world_scheme \<Rightarrow> card_scan \<times> 'a world_scheme" where
  "scan_cards env n w = fold (scan_card env) [0 ..< n] (\<lparr>best_card = None, best_active = 0, fallback_card = None\<rparr>, w)"

text \<open>DRM_DEVICE is honoured only without privilege; the path is kept to its 256-byte field.\<close>

definition open_drm_env :: "sysenv \<Rightarrow> 'a world_scheme \<Rightarrow> (int \<times> string) option \<times> 'a world_scheme" where
  "open_drm_env env w =
    (case (if o_root env then None else o_getenv env ''DRM_DEVICE'') of
      None \<Rightarrow> (None, w)
    | Some dev \<Rightarrow> (case sys_open env dev w of (fd, w1) \<Rightarrow> (map_option (\<lambda>fd. (fd, take 255 dev)) fd, w1)))"

definition open_drm_auto :: "sysenv \<Rightarrow> 'a world_scheme \<Rightarrow> (int \<times> string) option \<times> 'a world_scheme" where
  "open_drm_auto env w =
    (case open_drm_env env w of
      (Some r, w1) \<Rightarrow> (Some r, w1)
    | (None, w1) \<Rightarrow>
        (case scan_cards env 16 w1 of (s, w2) \<Rightarrow>
          case best_card s of
            Some b \<Rightarrow> (Some b, case fallback_card s of None \<Rightarrow> w2 | Some (fd, _) \<Rightarrow> sys_close fd w2)
          | None \<Rightarrow> (fallback_card s, w2)))"

section \<open>Listing devices\<close>

record drmtap_device =
  dev_path :: string
  dev_driver :: string
  dev_render_node :: string
  dev_display_count :: nat

definition list_device ::
  "sysenv \<Rightarrow> nat \<Rightarrow> (drmtap_device list \<times> dev_event list) \<times> 'a world_scheme \<Rightarrow> (drmtap_device list \<times> dev_event list) \<times> 'a world_scheme" where
  "list_device env i st =
    (case st of ((devs, ev), w) \<Rightarrow> let path = card_path i in
     case sys_open env path w of
       (None, w1) \<Rightarrow> ((devs, ev), w1)
     | (Some fd, w1) \<Rightarrow>
         (case drmtap_have_cap_sys_admin env w1 of (admin, w2) \<Rightarrow>
           let ev = (if admin then ev @ [DropMaster fd] else ev); k = o_kms env (tick w2) path; w3 = step_clock w2 in
           case km_res k of
             None \<Rightarrow> ((devs, ev), sys_close fd w3)
           | Some res \<Rightarrow>
               let drv = (case o_driver env (tick w3) path of None \<Rightarrow> [] | Some n \<Rightarrow> take 31 n); w4 = step_clock w3;
                   node = (case o_render_node env (tick w4) path of None \<Rightarrow> [] | Some n \<Rightarrow> take 63 n); w5 = step_clock w4 in
               ((devs @ [\<lparr>dev_path = path, dev_driver = drv, dev_render_node = node, dev_display_count = count_active k res\<rparr>], ev),
                sys_close fd w5)))"

text \<open>The loop stops at 16 cards or when the caller's array is full.\<close>

definition drmtap_list_devices ::
  "sysenv \<Rightarrow> bool \<Rightarrow> int \<Rightarrow> 'a world_scheme \<Rightarrow> (int + drmtap_device list \<times> dev_event list) \<times> 'a world_scheme" where
  "drmtap_list_devices env out max_count w =
    (if \<not> out \<or> max_count \<le> 0 then (Inl (- EINVAL), w)
     else case fold (\<lambda>i st. if int (length (fst (fst st))) < max_count then list_device env i st else st) [0 ..< 16] (([], []), w) of
       (r, w1) \<Rightarrow> (Inr r, w1))"

section \<open>The render node of the card that drives a display\<close>

definition first_line :: "string \<Rightarrow> string" where
  "first_line s = takeWhile (\<lambda>ch. ch \<noteq> CHR 0x0A) s"

text \<open>The first line of a small sysfs file, at most len - 1 bytes of it.\<close>

definition read_sysfs_line :: "sysenv \<Rightarrow> string \<Rightarrow> nat \<Rightarrow> string option" where
  "read_sysfs_line env path len =
    (case o_file env path of
      None \<Rightarrow> None
    | Some content \<Rightarrow> let buf = take (len - 1) content in if buf = [] then None else Some (first_line buf))"

definition sysfs_drm :: string where "sysfs_drm = ''/sys/class/drm''"

fun first_card :: "nat \<Rightarrow> string list \<Rightarrow> string option" where
  "first_card out_len [] = None"
| "first_card out_len (d # ds) =
    (if take 4 d \<noteq> ''card'' \<or> length d = 4 \<or> CHR ''-'' \<in> set d \<or> out_len \<le> length d then first_card out_len ds else Some d)"

definition card_for_render_node :: "sysenv \<Rightarrow> string \<Rightarrow> nat \<Rightarrow> string option" where
  "card_for_render_node env render_name out_len =
    (case o_dir env (take 319 (sysfs_drm @ ''/'' @ render_name @ ''/device/drm'')) of
      None \<Rightarrow> None
    | Some ents \<Rightarrow> first_card out_len ents)"

definition connector_attr :: "sysenv \<Rightarrow> string \<Rightarrow> string \<Rightarrow> string option" where
  "connector_attr env d attr = read_sysfs_line env (take 319 (sysfs_drm @ ''/'' @ d @ ''/'' @ attr)) 32"

fun rank_entries :: "sysenv \<Rightarrow> string \<Rightarrow> string list \<Rightarrow> nat \<Rightarrow> nat" where
  "rank_entries env crd [] rank = rank"
| "rank_entries env crd (d # ds) rank =
    (if take (length crd + 1) d \<noteq> crd @ ''-'' then rank_entries env crd ds rank
     else if connector_attr env d ''status'' \<noteq> Some ''connected'' then rank_entries env crd ds rank
     else if connector_attr env d ''enabled'' = Some ''enabled'' then 2
     else rank_entries env crd ds (if rank < 1 then 1 else rank))"

definition card_output_rank :: "sysenv \<Rightarrow> string \<Rightarrow> nat" where
  "card_output_rank env crd = (case o_dir env sysfs_drm of None \<Rightarrow> 0 | Some ents \<Rightarrow> rank_entries env crd ents 0)"

fun pick_entries :: "sysenv \<Rightarrow> string list \<Rightarrow> nat \<Rightarrow> string \<Rightarrow> nat \<times> string" where
  "pick_entries env [] best_rank best = (best_rank, best)"
| "pick_entries env (d # ds) best_rank best =
    (if take 7 d \<noteq> ''renderD'' then pick_entries env ds best_rank best
     else case card_for_render_node env d 64 of
       None \<Rightarrow> pick_entries env ds best_rank best
     | Some crd \<Rightarrow>
         if 64 \<le> length d then pick_entries env ds best_rank best
         else
           let rank = card_output_rank env crd in
           if best_rank < rank then (if 2 \<le> rank then (rank, d) else pick_entries env ds rank d)
           else pick_entries env ds best_rank best)"

definition pick_scanout_render_node :: "sysenv \<Rightarrow> nat \<Rightarrow> string option" where
  "pick_scanout_render_node env out_len =
    (case o_dir env sysfs_drm of
      None \<Rightarrow> None
    | Some ents \<Rightarrow>
        (case pick_entries env ents 0 [] of (best_rank, best) \<Rightarrow>
          if best_rank = 0 then None else Some (take (out_len - 1) (''/dev/dri/'' @ best))))"

section \<open>Descriptors of a scan\<close>

text \<open>A world up to the clock and its descriptor table.\<close>

definition fdmask :: "'a world_scheme \<Rightarrow> 'a world_scheme" where
  "fdmask w = w\<lparr>tick := 0, live_fds := {}, next_fd := 0\<rparr>"

definition fdstep :: "'a world_scheme \<Rightarrow> int set \<Rightarrow> 'a world_scheme \<Rightarrow> bool" where
  "fdstep w F w' \<longleftrightarrow> fresh_ok w' \<and> live_fds w' = F \<and> fdmask w' = fdmask w"

lemma fdmask_faults:
  assumes "fdmask w' = fdmask w"
  shows "faults w' = faults w"
proof -
  have "faults (fdmask w') = faults (fdmask w)" by (simp only: assms)
  then show ?thesis by (simp add: fdmask_def)
qed

lemma fdstep_trans: "fdstep w F w' \<Longrightarrow> fdstep w' F' w'' \<Longrightarrow> fdstep w F' w''"
  by (simp add: fdstep_def)

lemma fdstep_refl: "fresh_ok w \<Longrightarrow> fdstep w (live_fds w) w"
  by (simp add: fdstep_def)

lemma fdstep_clock: "fresh_ok w \<Longrightarrow> fdstep w (live_fds w) (step_clock w)"
  by (simp add: fdstep_def fresh_step_clock) (simp add: step_clock_def fdmask_def)

lemma fdstep_mint:
  assumes "fresh_ok w" "sys_mint_fd w = (fd, w')"
  shows "fdstep w (insert fd (live_fds w)) w' \<and> fd \<notin> live_fds w \<and> 0 \<le> fd"
proof -
  have "fresh_ok w'" using fresh_mint_fd[OF assms(1)] assms(2) by simp
  then show ?thesis using assms by (auto simp: fdstep_def sys_mint_fd_def fdmask_def fresh_ok_def)
qed

lemma fdstep_close: "fresh_ok w \<Longrightarrow> fd \<in> live_fds w \<Longrightarrow> fdstep w (live_fds w - {fd}) (sys_close fd w)"
  by (simp add: fdstep_def fresh_close) (simp add: sys_close_def fdmask_def)

lemma sys_open_step:
  assumes "fresh_ok w" "sys_open env path w = (r, w')"
  shows "(r = None \<longleftrightarrow> \<not> o_open env (tick w) path) \<and>
    (case r of None \<Rightarrow> fdstep w (live_fds w) w' | Some fd \<Rightarrow> fdstep w (insert fd (live_fds w)) w' \<and> fd \<notin> live_fds w \<and> 0 \<le> fd)"
proof (cases "o_open env (tick w) path")
  case True
  obtain fd w1 where m: "sys_mint_fd w = (fd, w1)" by fastforce
  note M = fdstep_mint[OF assms(1) m]
  have "fdstep w1 (live_fds w1) (step_clock w1)" using M by (intro fdstep_clock) (simp add: fdstep_def)
  then show ?thesis using assms(2) True m M fdstep_trans[of w _ w1 _ w'] by (auto simp: sys_open_def fdstep_def)
next
  case False
  then show ?thesis using assms fdstep_clock[OF assms(1)] by (auto simp: sys_open_def)
qed

section \<open>The choice of a card\<close>

text \<open>The machine stands still; what a card drives, None when it does not open or has no resources.\<close>

definition steady :: "sysenv \<Rightarrow> bool" where
  "steady env \<longleftrightarrow> (\<forall>t p. o_open env t p = o_open env 0 p \<and> o_kms env t p = o_kms env 0 p)"

definition card_displays :: "sysenv \<Rightarrow> nat \<Rightarrow> nat option" where
  "card_displays env i =
    (if o_open env 0 (card_path i)
     then map_option (\<lambda>res. length (filter (crtc_active (o_kms env 0 (card_path i))) (rs_crtcs res))) (km_res (o_kms env 0 (card_path i)))
     else None)"

lemma count_active_length: "count_active k res = length (filter (crtc_active k) (rs_crtcs res))"
proof -
  have "fold (\<lambda>r n. if crtc_active k r then Suc n else n) rs m = m + length (filter (crtc_active k) rs)" for rs m
    by (induction rs arbitrary: m) auto
  then show ?thesis by (simp add: count_active_def)
qed

definition fd_of :: "(int \<times> string) option \<Rightarrow> int set" where
  "fd_of r = (case r of None \<Rightarrow> {} | Some (fd, _) \<Rightarrow> {fd})"

lemma fd_of_simps [simp]: "fd_of None = {}" "fd_of (Some (fd, p)) = {fd}"
  by (simp_all add: fd_of_def)

text \<open>One card: what it adds to the choice, and the descriptors open after it.\<close>

lemma scan_card_step:
  assumes st: "steady env" and fr: "fresh_ok w" and held: "fd_of (best_card s) \<subseteq> live_fds w" and run: "scan_card env i (s, w) = (s', w')"
  shows "case card_displays env i of
      None \<Rightarrow> s' = s \<and> fdstep w (live_fds w) w'
    | Some m \<Rightarrow>
        if 0 < m \<and> best_active s < m then \<exists>fd. s' = s\<lparr>best_card := Some (fd, card_path i), best_active := m\<rparr> \<and> fd \<notin> live_fds w \<and>
          fdstep w (insert fd (live_fds w) - fd_of (best_card s)) w'
        else if m = 0 \<and> fallback_card s = None then \<exists>fd. s' = s\<lparr>fallback_card := Some (fd, card_path i)\<rparr> \<and> fd \<notin> live_fds w \<and>
          fdstep w (insert fd (live_fds w)) w'
        else s' = s \<and> fdstep w (live_fds w) w'"
proof -
  let ?p = "card_path i" and ?k = "o_kms env 0 (card_path i)"
  obtain r w1 where op: "sys_open env ?p w = (r, w1)" by fastforce
  note O = sys_open_step[OF fr op]
  have o0: "o_open env (tick w) ?p = o_open env 0 ?p" "o_kms env (tick w1) ?p = ?k" using st unfolding steady_def by blast+
  note run1 = run[unfolded scan_card_def prod.case Let_def op o0(2)]
  show ?thesis
  proof (cases r)
    case None
    then show ?thesis using run1 O o0 None by (auto simp: card_displays_def)
  next
    case (Some fd)
    let ?w2 = "step_clock w1"
    have 1: "fresh_ok w1" "fdstep w (insert fd (live_fds w)) w1" "fd \<notin> live_fds w" "o_open env 0 ?p" using O Some o0 by (auto simp: fdstep_def)
    have 2: "fdstep w (insert fd (live_fds w)) ?w2" "fresh_ok ?w2" "live_fds ?w2 = insert fd (live_fds w)"
      using fdstep_trans[OF 1(2) fdstep_clock[OF 1(1)]] 1(2) by (auto simp: fdstep_def)
    have shut: "fdstep w (insert fd (live_fds w) - {x}) (sys_close x ?w2)" if "x \<in> insert fd (live_fds w)" for x
      using fdstep_trans[OF 2(1) fdstep_close[OF 2(2)]] that 2(3) by auto
    have shut_new: "fdstep w (live_fds w) (sys_close fd ?w2)" using shut[of fd] 1(3) by simp
    show ?thesis
    proof (cases "km_res ?k")
      case None
      then show ?thesis using run1 Some shut_new by (simp add: card_displays_def)
    next
      case (Some res)
      have d: "card_displays env i = Some (count_active ?k res)" using 1(4) Some by (simp add: card_displays_def count_active_length)
      note run2 = run1[unfolded \<open>r = Some fd\<close> option.case Some]
      show ?thesis
      proof (cases "best_card s")
        case None
        then show ?thesis using run2 d shut_new 2(1) 1(3) by (auto split: if_splits option.splits)
      next
        case (Some b)
        obtain old q where b: "b = (old, q)" by (cases b)
        then have "old \<in> live_fds w" using held Some by simp
        then show ?thesis using run2 d shut_new 2(1) 1(3) Some b shut[of old] by (auto split: if_splits option.splits)
      qed
    qed
  qed
qed

text \<open>After the first n cards: the choice, and the descriptors held are those of the choice.\<close>

definition scan_inv :: "sysenv \<Rightarrow> 'a world_scheme \<Rightarrow> nat \<Rightarrow> card_scan \<Rightarrow> 'a world_scheme \<Rightarrow> bool" where
  "scan_inv env w0 n s w \<longleftrightarrow>
    fdstep w0 (live_fds w0 \<union> fd_of (best_card s) \<union> fd_of (fallback_card s)) w \<and>
    (fd_of (best_card s) \<union> fd_of (fallback_card s)) \<inter> live_fds w0 = {} \<and> fd_of (best_card s) \<inter> fd_of (fallback_card s) = {} \<and>
    (case best_card s of
      None \<Rightarrow> best_active s = 0 \<and> (\<forall>j < n. \<forall>m. card_displays env j = Some m \<longrightarrow> m = 0)
    | Some (fd, p) \<Rightarrow> 0 < best_active s \<and> (\<exists>i < n. p = card_path i \<and> card_displays env i = Some (best_active s) \<and>
        (\<forall>j < n. \<forall>m. card_displays env j = Some m \<longrightarrow> m \<le> best_active s \<and> (m = best_active s \<longrightarrow> i \<le> j)))) \<and>
    (case fallback_card s of
      None \<Rightarrow> \<forall>j < n. card_displays env j \<noteq> Some 0
    | Some (fd, p) \<Rightarrow> \<exists>i < n. p = card_path i \<and> card_displays env i = Some 0 \<and> (\<forall>j < i. card_displays env j \<noteq> Some 0))"

lemma scan_cards_inv:
  assumes st: "steady env" and fr: "fresh_ok w0"
  shows "case scan_cards env n w0 of (s, w) \<Rightarrow> scan_inv env w0 n s w"
proof (induction n)
  case 0
  then show ?case using fdstep_refl[OF fr] by (simp add: scan_cards_def scan_inv_def)
next
  case (Suc n)
  obtain s w where sc: "scan_cards env n w0 = (s, w)" by fastforce
  obtain s' w' where s1: "scan_card env n (s, w) = (s', w')" by fastforce
  have run: "scan_cards env (Suc n) w0 = (s', w')" using sc s1 by (simp add: scan_cards_def)
  have I: "scan_inv env w0 n s w" using Suc sc by simp
  then have w: "fresh_ok w" "live_fds w = live_fds w0 \<union> fd_of (best_card s) \<union> fd_of (fallback_card s)"
    by (simp_all add: scan_inv_def fdstep_def)
  note S = scan_card_step[OF st w(1) _ s1]
  have held: "fd_of (best_card s) \<subseteq> live_fds w" by (auto simp: w(2))
  note T = fdstep_trans[of w0 _ w _ w']
  have best: "case best_card s of
      None \<Rightarrow> best_active s = 0 \<and> (\<forall>j < n. \<forall>m. card_displays env j = Some m \<longrightarrow> m = 0)
    | Some (fd, p) \<Rightarrow> 0 < best_active s \<and> (\<exists>i < n. p = card_path i \<and> card_displays env i = Some (best_active s) \<and>
        (\<forall>j < n. \<forall>m. card_displays env j = Some m \<longrightarrow> m \<le> best_active s \<and> (m = best_active s \<longrightarrow> i \<le> j)))"
    and fall: "case fallback_card s of
      None \<Rightarrow> \<forall>j < n. card_displays env j \<noteq> Some 0
    | Some (fd, p) \<Rightarrow> \<exists>i < n. p = card_path i \<and> card_displays env i = Some 0 \<and> (\<forall>j < i. card_displays env j \<noteq> Some 0)"
    and res: "fdstep w0 (live_fds w0 \<union> fd_of (best_card s) \<union> fd_of (fallback_card s)) w"
      "(fd_of (best_card s) \<union> fd_of (fallback_card s)) \<inter> live_fds w0 = {}" "fd_of (best_card s) \<inter> fd_of (fallback_card s) = {}"
    using I by (auto simp: scan_inv_def)
  have bmax: "m \<le> best_active s" if "j < n" "card_displays env j = Some m" for j m
    using best that by (auto split: option.splits)
  have "scan_inv env w0 (Suc n) s' w'"
  proof (cases "card_displays env n")
    case None
    then have "s' = s" "fdstep w0 (live_fds w) w'" using S[OF held] T[OF res(1)] by auto
    then show ?thesis using best fall res None w(2) less_Suc_eq unfolding scan_inv_def by (auto split: option.splits)
  next
    case (Some m)
    show ?thesis
    proof (cases "0 < m \<and> best_active s < m")
      case True
      obtain fd where f: "s' = s\<lparr>best_card := Some (fd, card_path n), best_active := m\<rparr>" "fd \<notin> live_fds w"
        "fdstep w (insert fd (live_fds w) - fd_of (best_card s)) w'" using S[OF held] Some True by auto
      have e: "insert fd (live_fds w) - fd_of (best_card s) = live_fds w0 \<union> {fd} \<union> fd_of (fallback_card s)"
        using f(2) res(2,3) unfolding w(2) by auto
      have "\<forall>j < Suc n. \<forall>k. card_displays env j = Some k \<longrightarrow> k \<le> m \<and> (k = m \<longrightarrow> n \<le> j)"
        using bmax True Some by (fastforce simp: less_Suc_eq)
      moreover have "fdstep w0 (live_fds w0 \<union> {fd} \<union> fd_of (fallback_card s)) w'" using T[OF res(1) f(3)] unfolding e .
      moreover have "fd \<notin> live_fds w0 \<union> fd_of (fallback_card s)" using f(2) by (auto simp: w(2))
      ultimately show ?thesis using f(1) Some True fall res(2,3) less_Suc_eq unfolding scan_inv_def
        by (auto split: option.splits)
    next
      case nb: False
      show ?thesis
      proof (cases "m = 0 \<and> fallback_card s = None")
        case True
        obtain fd where f: "s' = s\<lparr>fallback_card := Some (fd, card_path n)\<rparr>" "fd \<notin> live_fds w" "fdstep w (insert fd (live_fds w)) w'"
          using S[OF held] Some True nb by auto
        have e: "insert fd (live_fds w) = live_fds w0 \<union> fd_of (best_card s) \<union> {fd}" using True by (auto simp: w(2))
        show ?thesis using T[OF res(1) f(3)] f(1,2) Some True best fall res(2,3) less_Suc_eq unfolding scan_inv_def e w(2)
          by (auto split: option.splits)
      next
        case False
        then have f: "s' = s" "fdstep w0 (live_fds w) w'" using S[OF held] Some nb T[OF res(1)] by (auto split: if_splits)
        have "m \<le> best_active s" using nb by auto
        then show ?thesis using f Some False nb best fall res(2,3) less_Suc_eq w(2) unfolding scan_inv_def by (auto split: option.splits)
      qed
    qed
  qed
  then show ?case by (simp add: run)
qed

text \<open>What automatic selection answers: nothing but the descriptor it returns stays open.\<close>

lemma auto_ok:
  assumes st: "steady env" and fr: "fresh_ok w0" and dev: "o_root env \<or> o_getenv env ''DRM_DEVICE'' = None"
    and run: "open_drm_auto env w0 = (r, w')"
  shows "fdstep w0 (live_fds w0 \<union> fd_of r) w' \<and> fd_of r \<inter> live_fds w0 = {} \<and>
    (case r of
      None \<Rightarrow> \<forall>j < 16. card_displays env j = None
    | Some (fd, p) \<Rightarrow> \<exists>i < 16. \<exists>n. p = card_path i \<and> card_displays env i = Some n \<and>
        (\<forall>j < 16. \<forall>m. card_displays env j = Some m \<longrightarrow> m \<le> n \<and> (m = n \<longrightarrow> i \<le> j)))"
proof -
  have e: "open_drm_env env w0 = (None, w0)" using dev by (auto simp: open_drm_env_def)
  obtain s w where sc: "scan_cards env 16 w0 = (s, w)" by fastforce
  have I: "scan_inv env w0 16 s w" using scan_cards_inv[OF st fr, of 16] sc by simp
  then have w: "fresh_ok w" "live_fds w = live_fds w0 \<union> fd_of (best_card s) \<union> fd_of (fallback_card s)" "fdmask w = fdmask w0"
    by (simp_all add: scan_inv_def fdstep_def)
  note run1 = run[unfolded open_drm_auto_def e prod.case option.case sc]
  show ?thesis
  proof (cases "best_card s")
    case (Some b)
    obtain fd p where b: "b = (fd, p)" by (cases b)
    have r: "r = Some (fd, p)" "w' = (case fallback_card s of None \<Rightarrow> w | Some (fd, _) \<Rightarrow> sys_close fd w)" using run1 Some b by simp_all
    have "fd_of (fallback_card s) \<subseteq> live_fds w" by (auto simp: w(2))
    then have "fdstep w (live_fds w - fd_of (fallback_card s)) w'"
      using fdstep_close[OF w(1)] fdstep_refl[OF w(1)] by (auto simp: r(2) split: option.splits)
    moreover have "live_fds w - fd_of (fallback_card s) = live_fds w0 \<union> {fd}" using I Some b by (auto simp: w(2) scan_inv_def)
    ultimately have "fdstep w0 (live_fds w0 \<union> {fd}) w'" using w(3) by (simp add: fdstep_def)
    then show ?thesis using I Some b by (auto simp: r(1) scan_inv_def)
  next
    case None
    then have r: "r = fallback_card s" "w' = w" using run1 by simp_all
    have z: "m = 0" if "j < 16" "card_displays env j = Some m" for j m using I None that by (simp add: scan_inv_def)
    show ?thesis
    proof (cases "fallback_card s")
      case None
      then have "\<forall>j < 16. card_displays env j \<noteq> Some 0" using I by (simp add: scan_inv_def)
      then have "\<forall>j < 16. card_displays env j = None" using z by (metis not_None_eq)
      then show ?thesis using I \<open>best_card s = None\<close> None by (simp add: r scan_inv_def)
    next
      case (Some b)
      obtain fd p where b: "b = (fd, p)" by (cases b)
      obtain i where i: "i < 16" "p = card_path i" "card_displays env i = Some 0" "\<forall>j < i. card_displays env j \<noteq> Some 0"
        using I Some b by (auto simp: scan_inv_def)
      then have "\<forall>j < 16. \<forall>m. card_displays env j = Some m \<longrightarrow> m \<le> 0 \<and> (m = 0 \<longrightarrow> i \<le> j)" using z by (metis le_zero_eq not_le)
      then show ?thesis using I Some b i \<open>best_card s = None\<close> by (auto simp: r scan_inv_def)
    qed
  qed
qed

text \<open>Whatever the machine answers, nothing but the descriptor returned stays open.\<close>

definition scan_held :: "'a world_scheme \<Rightarrow> card_scan \<times> 'a world_scheme \<Rightarrow> bool" where
  "scan_held w0 sw \<longleftrightarrow> (case sw of (s, w) \<Rightarrow>
    fdstep w0 (live_fds w0 \<union> fd_of (best_card s) \<union> fd_of (fallback_card s)) w \<and>
    (fd_of (best_card s) \<union> fd_of (fallback_card s)) \<inter> live_fds w0 = {} \<and> fd_of (best_card s) \<inter> fd_of (fallback_card s) = {} \<and>
    (\<forall>fd \<in> fd_of (best_card s) \<union> fd_of (fallback_card s). 0 \<le> fd))"

lemma scan_card_held:
  assumes "scan_held w0 sw"
  shows "scan_held w0 (scan_card env i sw)"
proof -
  obtain s w where sw: "sw = (s, w)" by (rule prod.exhaust)
  have H: "fdstep w0 (live_fds w0 \<union> fd_of (best_card s) \<union> fd_of (fallback_card s)) w"
    "(fd_of (best_card s) \<union> fd_of (fallback_card s)) \<inter> live_fds w0 = {}" "fd_of (best_card s) \<inter> fd_of (fallback_card s) = {}"
    "\<forall>fd \<in> fd_of (best_card s) \<union> fd_of (fallback_card s). 0 \<le> fd"
    using assms by (simp_all add: scan_held_def sw)
  have w: "fresh_ok w" "live_fds w = live_fds w0 \<union> fd_of (best_card s) \<union> fd_of (fallback_card s)" using H(1) by (simp_all add: fdstep_def)
  obtain r w1 where op: "sys_open env (card_path i) w = (r, w1)" by (rule prod.exhaust)
  note O = sys_open_step[OF w(1) op]
  note T = fdstep_trans[OF H(1)]
  show ?thesis
  proof (cases r)
    case None
    have "fdstep w0 (live_fds w) w1" using T O None by auto
    then show ?thesis using H op None by (simp add: scan_held_def scan_card_def sw Let_def w(2))
  next
    case (Some fd)
    let ?w2 = "step_clock w1"
    have 1: "fdstep w (insert fd (live_fds w)) w1" "fd \<notin> live_fds w" "0 \<le> fd" "fresh_ok w1" using O Some by (auto simp: fdstep_def)
    have 2: "fdstep w0 (insert fd (live_fds w)) ?w2" "fresh_ok ?w2" "live_fds ?w2 = insert fd (live_fds w)"
      using T[OF fdstep_trans[OF 1(1) fdstep_clock[OF 1(4)]]] 1(1) by (auto simp: fdstep_def)
    have shut: "fdstep w0 (insert fd (live_fds w) - {x}) (sys_close x ?w2)" if "x \<in> insert fd (live_fds w)" for x
      using fdstep_trans[OF 2(1) fdstep_close[OF 2(2)]] that 2(3) by auto
    have shut_new: "fdstep w0 (live_fds w) (sys_close fd ?w2)" using shut[of fd] 1(2) by simp
    have keep: "scan_held w0 (s, sys_close fd ?w2)" using shut_new H by (simp add: scan_held_def w(2))
    have fall: "scan_held w0 (s\<lparr>fallback_card := Some (fd, card_path i)\<rparr>, ?w2)" if "fallback_card s = None"
      using 2(1) H 1(2,3) that by (auto simp: scan_held_def w(2))
    have best: "scan_held w0 (s\<lparr>best_card := Some (fd, card_path i), best_active := m\<rparr>,
        case best_card s of None \<Rightarrow> ?w2 | Some (old, _) \<Rightarrow> sys_close old ?w2)" for m
    proof (cases "best_card s")
      case None
      then show ?thesis using 2(1) H 1(2,3) by (auto simp: scan_held_def w(2))
    next
      case (Some b)
      obtain old q where b: "b = (old, q)" by (rule prod.exhaust)
      have "fdstep w0 (insert fd (live_fds w) - {old}) (sys_close old ?w2)" using shut[of old] Some b by (simp add: w(2))
      moreover have "insert fd (live_fds w) - {old} = live_fds w0 \<union> {fd} \<union> fd_of (fallback_card s)"
        using Some b H(2,3) 1(2) by (auto simp: w(2))
      ultimately show ?thesis using Some b H 1(2,3) by (auto simp: scan_held_def w(2))
    qed
    show ?thesis
    proof (cases "km_res (o_kms env (tick w1) (card_path i))")
      case None
      then show ?thesis using keep op \<open>r = Some fd\<close> by (simp add: scan_card_def sw Let_def)
    next
      case (Some res)
      then show ?thesis using keep op \<open>r = Some fd\<close> best fall by (auto simp: scan_card_def sw Let_def split: option.split)
    qed
  qed
qed

lemma auto_held:
  assumes fr: "fresh_ok w0" and run: "open_drm_auto env w0 = (r, w')"
  shows "fdstep w0 (live_fds w0 \<union> fd_of r) w' \<and> fd_of r \<inter> live_fds w0 = {} \<and> (\<forall>fd \<in> fd_of r. 0 \<le> fd)"
proof -
  obtain r0 w1 where e: "open_drm_env env w0 = (r0, w1)" by (rule prod.exhaust)
  have E: "(case r0 of None \<Rightarrow> fdstep w0 (live_fds w0) w1
    | Some (fd, p) \<Rightarrow> fdstep w0 (insert fd (live_fds w0)) w1 \<and> fd \<notin> live_fds w0 \<and> 0 \<le> fd)"
    using e fdstep_refl[OF fr] sys_open_step[OF fr] by (fastforce simp: open_drm_env_def split: option.splits prod.splits)
  show ?thesis
  proof (cases r0)
    case (Some x)
    then show ?thesis using run e E by (cases x) (auto simp: open_drm_auto_def)
  next
    case None
    have 1: "fdstep w0 (live_fds w0) w1" using E None by simp
    then have f1: "fresh_ok w1" "live_fds w1 = live_fds w0" by (simp_all add: fdstep_def)
    have many: "scan_held w1 (fold (scan_card env) ns sw)" if "scan_held w1 sw" for ns sw
      using that by (induction ns arbitrary: sw) (simp_all add: scan_card_held)
    have H0: "scan_held w1 (scan_cards env 16 w1)"
      unfolding scan_cards_def by (rule many) (use fdstep_refl[OF f1(1)] in \<open>simp add: scan_held_def\<close>)
    obtain s w where sc: "scan_cards env 16 w1 = (s, w)" by (rule prod.exhaust)
    have H: "fdstep w1 (live_fds w0 \<union> fd_of (best_card s) \<union> fd_of (fallback_card s)) w"
      "(fd_of (best_card s) \<union> fd_of (fallback_card s)) \<inter> live_fds w0 = {}" "fd_of (best_card s) \<inter> fd_of (fallback_card s) = {}"
      "\<forall>fd \<in> fd_of (best_card s) \<union> fd_of (fallback_card s). 0 \<le> fd"
      using H0 sc f1(2) by (simp_all add: scan_held_def)
    have w: "fresh_ok w" "live_fds w = live_fds w0 \<union> fd_of (best_card s) \<union> fd_of (fallback_card s)" using H(1) by (simp_all add: fdstep_def)
    note run1 = run[unfolded open_drm_auto_def e None prod.case option.case sc]
    note T = fdstep_trans[OF fdstep_trans[OF 1 H(1)]]
    show ?thesis
    proof (cases "best_card s")
      case None
      then show ?thesis using run1 fdstep_trans[OF 1 H(1)] H by auto
    next
      case (Some b)
      obtain fd p where b: "b = (fd, p)" by (rule prod.exhaust)
      have r: "r = Some (fd, p)" "w' = (case fallback_card s of None \<Rightarrow> w | Some (fd, _) \<Rightarrow> sys_close fd w)" using run1 Some b by simp_all
      have "fd_of (fallback_card s) \<subseteq> live_fds w" by (auto simp: w(2))
      then have "fdstep w (live_fds w - fd_of (fallback_card s)) w'"
        using fdstep_close[OF w(1)] fdstep_refl[OF w(1)] by (auto simp: r(2) split: option.splits)
      moreover have "live_fds w - fd_of (fallback_card s) = live_fds w0 \<union> {fd}" using H Some b by (auto simp: w(2))
      ultimately show ?thesis using T[of "live_fds w0 \<union> {fd}" w'] H Some b by (simp add: r(1))
    qed
  qed
qed

section \<open>Listing\<close>

text \<open>The device a card is reported as, None when it is not a capturable one.\<close>

definition device_of :: "sysenv \<Rightarrow> nat \<Rightarrow> drmtap_device option" where
  "device_of env i =
    (case card_displays env i of
      None \<Rightarrow> None
    | Some n \<Rightarrow> Some \<lparr>dev_path = card_path i,
        dev_driver = (case o_driver env 0 (card_path i) of None \<Rightarrow> [] | Some d \<Rightarrow> take 31 d),
        dev_render_node = (case o_render_node env 0 (card_path i) of None \<Rightarrow> [] | Some d \<Rightarrow> take 63 d), dev_display_count = n\<rparr>)"

definition steady_info :: "sysenv \<Rightarrow> bool" where
  "steady_info env \<longleftrightarrow> steady env \<and> (\<forall>t p. o_driver env t p = o_driver env 0 p \<and> o_render_node env t p = o_render_node env 0 p) \<and>
    (\<forall>t. o_capget env t = o_capget env 0)"

definition admin :: "sysenv \<Rightarrow> bool" where
  "admin env = (case o_capget env 0 of None \<Rightarrow> o_root env | Some b \<Rightarrow> b)"

lemma list_device_step:
  assumes st: "steady_info env" and fr: "fresh_ok w" and run: "list_device env i ((devs, ev), w) = ((devs', ev'), w')"
  shows "devs' = devs @ (case device_of env i of None \<Rightarrow> [] | Some d \<Rightarrow> [d]) \<and> fdstep w (live_fds w) w' \<and>
    (\<exists>es. ev' = ev @ es \<and> (es \<noteq> [] \<longrightarrow> admin env)) \<and>
    (admin env \<longrightarrow> length devs' - length devs \<le> length ev' - length ev)"
proof -
  let ?p = "card_path i"
  have k: "o_kms env t ?p = o_kms env 0 ?p" "o_driver env t ?p = o_driver env 0 ?p" "o_render_node env t ?p = o_render_node env 0 ?p"
    "o_open env t ?p = o_open env 0 ?p" "o_capget env t = o_capget env 0" for t
    using st unfolding steady_info_def steady_def by blast+
  obtain r w1 where op: "sys_open env ?p w = (r, w1)" by fastforce
  note O = sys_open_step[OF fr op]
  show ?thesis
  proof (cases r)
    case None
    then show ?thesis using run op O k(4)[of "tick w"] by (auto simp: list_device_def Let_def device_of_def card_displays_def)
  next
    case (Some fd)
    have 1: "fresh_ok w1" "live_fds w1 = insert fd (live_fds w)" "fdmask w1 = fdmask w" "fd \<notin> live_fds w" "o_open env 0 ?p"
      using O Some k(4)[of "tick w"] by (auto simp: fdstep_def)
    have c: "fresh_ok (step_clock x) \<and> live_fds (step_clock x) = live_fds x \<and> fdmask (step_clock x) = fdmask x" if "fresh_ok x" for x :: "'a world_scheme"
      using fdstep_clock[OF that] by (simp add: fdstep_def)
    have cl: "fdstep w (live_fds w) (sys_close fd x)" if "fresh_ok x" "live_fds x = insert fd (live_fds w)" "fdmask x = fdmask w" for x
      using fdstep_close[OF that(1), of fd] that 1(4) by (simp add: fdstep_def)
    let ?w3 = "step_clock (step_clock w1)"
    have 3: "fresh_ok ?w3" "live_fds ?w3 = insert fd (live_fds w)" "fdmask ?w3 = fdmask w" using c[OF 1(1)] c[of "step_clock w1"] 1 by auto
    have 5: "fresh_ok (step_clock (step_clock ?w3))" "live_fds (step_clock (step_clock ?w3)) = insert fd (live_fds w)"
      "fdmask (step_clock (step_clock ?w3)) = fdmask w" using c[OF 3(1)] c[of "step_clock ?w3"] 3 by auto
    have a: "drmtap_have_cap_sys_admin env w1 = (admin env, step_clock w1)"
      using k(5)[of "tick w1"] by (simp add: drmtap_have_cap_sys_admin_def admin_def)
    have kk: "o_kms env (tick (step_clock w1)) ?p = o_kms env 0 ?p" "o_driver env (tick ?w3) ?p = o_driver env 0 ?p"
      "o_render_node env (tick (step_clock ?w3)) ?p = o_render_node env 0 ?p" using k by blast+
    show ?thesis
    proof (cases "km_res (o_kms env 0 ?p)")
      case None
      have "((devs', ev'), w') = ((devs, if admin env then ev @ [DropMaster fd] else ev), sys_close fd ?w3)"
        using run unfolding list_device_def prod.case Let_def op Some option.case a kk(1) None by simp
      then show ?thesis using cl[OF 3] 1(5) None by (auto simp: device_of_def card_displays_def)
    next
      case (Some res)
      let ?d = "\<lparr>dev_path = ?p, dev_driver = (case o_driver env 0 ?p of None \<Rightarrow> [] | Some n \<Rightarrow> take 31 n),
        dev_render_node = (case o_render_node env 0 ?p of None \<Rightarrow> [] | Some n \<Rightarrow> take 63 n), dev_display_count = count_active (o_kms env 0 ?p) res\<rparr>"
      have "((devs', ev'), w') = ((devs @ [?d], if admin env then ev @ [DropMaster fd] else ev), sys_close fd (step_clock (step_clock ?w3)))"
        using run unfolding list_device_def prod.case Let_def op \<open>r = Some fd\<close> option.case a kk Some by simp
      then show ?thesis using cl[OF 5] 1(5) Some by (auto simp: device_of_def card_displays_def count_active_length)
    qed
  qed
qed

lemma list_devices_ok:
  assumes st: "steady_info env" and fr: "fresh_ok w0"
  shows "case fold (\<lambda>i st. if int (length (fst (fst st))) < M then list_device env i st else st) [0 ..< n] (([], []), w0) of
    ((devs, ev), w) \<Rightarrow> devs = take (nat M) (List.map_filter (device_of env) [0 ..< n]) \<and> fdstep w0 (live_fds w0) w \<and>
      (ev \<noteq> [] \<longrightarrow> admin env) \<and> (admin env \<longrightarrow> length devs \<le> length ev)"
proof (induction n)
  case 0
  then show ?case using fdstep_refl[OF fr] by (simp add: List.map_filter_def)
next
  case (Suc n)
  let ?f = "\<lambda>i st. if int (length (fst (fst st))) < M then list_device env i st else st"
  obtain de w where f0: "fold ?f [0 ..< n] (([], []), w0) = (de, w)" by (rule prod.exhaust)
  obtain devs ev where de: "de = (devs, ev)" by (rule prod.exhaust)
  have f: "fold ?f [0 ..< n] (([], []), w0) = ((devs, ev), w)" by (simp only: f0 de)
  have I: "devs = take (nat M) (List.map_filter (device_of env) [0 ..< n])" "fdstep w0 (live_fds w0) w" "ev \<noteq> [] \<longrightarrow> admin env"
    "admin env \<longrightarrow> length devs \<le> length ev" using Suc f by auto
  have mf: "List.map_filter (device_of env) [0 ..< Suc n] = List.map_filter (device_of env) [0 ..< n] @ (case device_of env n of None \<Rightarrow> [] | Some d \<Rightarrow> [d])"
    by (auto simp: List.map_filter_def split: option.split)
  let ?l = "List.map_filter (device_of env) [0 ..< n]"
  show ?case
  proof (cases "int (length devs) < M")
    case True
    obtain de' w' where s0: "list_device env n ((devs, ev), w) = (de', w')" by (rule prod.exhaust)
    obtain devs' ev' where de': "de' = (devs', ev')" by (rule prod.exhaust)
    note s = s0[unfolded de']
    have fw: "fresh_ok w" "live_fds w = live_fds w0" using I(2) by (simp_all add: fdstep_def)
    note S = list_device_step[OF st fw(1) s]
    have l: "devs = ?l" "length ?l < nat M" using I(1) True by auto
    have "devs' = take (nat M) (List.map_filter (device_of env) [0 ..< Suc n])"
      unfolding mf using S l by (auto split: option.splits)
    moreover have "fdstep w0 (live_fds w0) w'" using fdstep_trans[OF I(2)] S fw(2) by simp
    moreover have "(ev' \<noteq> [] \<longrightarrow> admin env) \<and> (admin env \<longrightarrow> length devs' \<le> length ev')" using S I(3,4) by auto
    ultimately show ?thesis using f s True by simp
  next
    case False
    then have "nat M \<le> length ?l" using I(1) by auto
    then have "devs = take (nat M) (List.map_filter (device_of env) [0 ..< Suc n])" unfolding mf using I(1) by simp
    then show ?thesis using f False I by simp
  qed
qed

section \<open>Ranking render nodes\<close>

text \<open>What sysfs says of a card: some connector is connected and enabled, or at least connected.\<close>

definition connected_entry :: "sysenv \<Rightarrow> string \<Rightarrow> string \<Rightarrow> bool" where
  "connected_entry env crd d \<longleftrightarrow> take (length crd + 1) d = crd @ ''-'' \<and> connector_attr env d ''status'' = Some ''connected''"

definition enabled_entry :: "sysenv \<Rightarrow> string \<Rightarrow> bool" where
  "enabled_entry env d \<longleftrightarrow> connector_attr env d ''enabled'' = Some ''enabled''"

definition drives_display :: "sysenv \<Rightarrow> string \<Rightarrow> nat" where
  "drives_display env crd =
    (let conns = filter (connected_entry env crd) (case o_dir env sysfs_drm of None \<Rightarrow> [] | Some ents \<Rightarrow> ents) in
     if \<exists>d \<in> set conns. enabled_entry env d then 2 else if conns \<noteq> [] then 1 else 0)"

lemma rank_step:
  "rank_entries env crd (d # ds) r =
    (if \<not> connected_entry env crd d then rank_entries env crd ds r
     else if enabled_entry env d then 2 else rank_entries env crd ds (if r < 1 then 1 else r))"
  unfolding rank_entries.simps(2) connected_entry_def enabled_entry_def
  by (cases "take (length crd + 1) d = crd @ ''-''"; cases "connector_attr env d ''status'' = Some ''connected''"; simp only: simp_thms if_True if_False)

lemma rank_entries_spec:
  "r \<le> 1 \<Longrightarrow> rank_entries env crd ds r =
    (if \<exists>d \<in> set ds. connected_entry env crd d \<and> enabled_entry env d then 2
     else if \<exists>d \<in> set ds. connected_entry env crd d then 1 else r)"
proof (induction ds arbitrary: r)
  case (Cons d ds)
  show ?case using Cons.IH[of r] Cons.IH[of 1] Cons.prems unfolding rank_step by auto
qed simp

lemma card_output_rank_spec: "card_output_rank env crd = drives_display env crd"
  using rank_entries_spec[of 0 env crd]
  by (auto simp: card_output_rank_def drives_display_def filter_empty_conv Let_def split: option.split)

text \<open>How strongly a directory entry qualifies: 0 when it is no render node of a card.\<close>

definition node_rank :: "sysenv \<Rightarrow> string \<Rightarrow> nat" where
  "node_rank env d =
    (if take 7 d = ''renderD'' \<and> length d < 64
     then (case card_for_render_node env d 64 of None \<Rightarrow> 0 | Some crd \<Rightarrow> drives_display env crd) else 0)"

lemma node_rank_bound: "node_rank env d \<le> 2"
  by (simp add: node_rank_def drives_display_def Let_def split: option.split)

text \<open>The first entry of the highest rank, and only one that drives something.\<close>

definition best_node :: "sysenv \<Rightarrow> string list \<Rightarrow> nat \<Rightarrow> string \<Rightarrow> nat \<times> string \<Rightarrow> bool" where
  "best_node env ds r0 b0 res \<longleftrightarrow>
    (if \<forall>d \<in> set ds. node_rank env d \<le> r0 then res = (r0, b0)
     else \<exists>xs d ys. ds = xs @ d # ys \<and> res = (node_rank env d, d) \<and> r0 < node_rank env d \<and>
       (\<forall>x \<in> set xs. node_rank env x < node_rank env d) \<and> (\<forall>y \<in> set ys. node_rank env y \<le> node_rank env d))"

lemma pick_step:
  "pick_entries env (d # ds) r b = (if r < node_rank env d then (if 2 \<le> node_rank env d then (node_rank env d, d)
      else pick_entries env ds (node_rank env d) d) else pick_entries env ds r b)"
  by (auto simp: node_rank_def card_output_rank_spec Let_def not_less split: option.split)

lemma pick_entries_best: "best_node env ds r b (pick_entries env ds r b)"
proof (induction ds arbitrary: r b)
  case Nil
  then show ?case by (simp add: best_node_def)
next
  case (Cons d ds)
  let ?n = "node_rank env d"
  show ?case
  proof (cases "r < ?n")
    case up: True
    have ns: "\<not> (\<forall>x \<in> set (d # ds). node_rank env x \<le> r)" using up by auto
    show ?thesis
    proof (cases "2 \<le> ?n \<or> (\<forall>x \<in> set ds. node_rank env x \<le> ?n)")
      case True
      have all: "\<forall>x \<in> set ds. node_rank env x \<le> ?n" using True node_rank_bound order_trans by blast
      have "pick_entries env (d # ds) r b = (?n, d)" using Cons.IH[of ?n d] up all by (simp add: pick_step best_node_def del: pick_entries.simps(2))
      then show ?thesis unfolding best_node_def if_not_P[OF ns] using up all by (intro exI[of _ "[]"] exI[of _ d] exI[of _ ds]) simp
    next
      case False
      then have e: "pick_entries env (d # ds) r b = pick_entries env ds ?n d" using up by (simp add: pick_step del: pick_entries.simps(2))
      obtain xs x ys where x: "ds = xs @ x # ys" "pick_entries env ds ?n d = (node_rank env x, x)" "?n < node_rank env x"
        "\<forall>x' \<in> set xs. node_rank env x' < node_rank env x" "\<forall>y \<in> set ys. node_rank env y \<le> node_rank env x"
        using Cons.IH[of ?n d] False unfolding best_node_def by (metis (no_types, lifting))
      then show ?thesis unfolding best_node_def if_not_P[OF ns] e using up
        by (intro exI[of _ "d # xs"] exI[of _ x] exI[of _ ys]) auto
    qed
  next
    case False
    then have e: "pick_entries env (d # ds) r b = pick_entries env ds r b" by (simp add: pick_step del: pick_entries.simps(2))
    show ?thesis
    proof (cases "\<forall>x \<in> set ds. node_rank env x \<le> r")
      case True
      then show ?thesis using Cons.IH[of r b] False unfolding e by (simp add: best_node_def)
    next
      case no: False
      obtain xs x ys where x: "ds = xs @ x # ys" "pick_entries env ds r b = (node_rank env x, x)" "r < node_rank env x"
        "\<forall>x' \<in> set xs. node_rank env x' < node_rank env x" "\<forall>y \<in> set ys. node_rank env y \<le> node_rank env x"
        using Cons.IH[of r b] unfolding best_node_def if_not_P[OF no] by blast
      have no2: "\<not> (\<forall>x \<in> set (d # ds). node_rank env x \<le> r)" using no by simp
      show ?thesis unfolding best_node_def if_not_P[OF no2] e
        by (rule exI[of _ "d # xs"], rule exI[of _ x], rule exI[of _ ys]) (use x False in auto)
    qed
  qed
qed

section \<open>Properties\<close>


text \<open>A machine whose only card is card1, an i915 driving one display.\<close>

definition wit_sysenv :: sysenv where
  "wit_sysenv = \<lparr>o_root = False, o_getenv = (\<lambda>v. None), o_open = (\<lambda>t p. p = card_path 1), o_kms = (\<lambda>t p. wit_kms),
    o_capget = (\<lambda>t. Some True), o_driver = (\<lambda>t p. Some ''i915''), o_render_node = (\<lambda>t p. Some ''/dev/dri/renderD128''),
    o_dup_high = (\<lambda>t. True),
    o_dir = (\<lambda>d. if d = ''/sys/class/drm'' then Some [''renderD128'', ''card1-DP-1''] else
      if d = ''/sys/class/drm/renderD128/device/drm'' then Some [''renderD128'', ''card1''] else None),
    o_file = (\<lambda>f. if f = ''/sys/class/drm/card1-DP-1/status'' then Some ''connected'' else
      if f = ''/sys/class/drm/card1-DP-1/enabled'' then Some ''enabled'' else None), o_calloc = (\<lambda>t. True)\<rparr>"

lemma wit_card: "card_displays wit_sysenv i = (if card_path i = card_path 1 then Some 1 else None)"
  by (simp add: card_displays_def wit_sysenv_def wit_kms_def crtc_active_def)


text \<open>
  C28. Listing devices reports exactly the capturable cards. On a machine that stands still,
  drmtap_list_devices answers the first max_count of the cards that open and have mode-setting
  resources, in minor order, each with its driver, render node and number of active CRTCs; it
  leaves no descriptor open, and gives DRM master back on every device it opened when it holds
  CAP_SYS_ADMIN, on none otherwise.
\<close>

theorem list_devices_exact:
  assumes "steady_info env" "fresh_ok w" "0 < max_count"
  shows "case drmtap_list_devices env True max_count w of (r, w') \<Rightarrow>
    fresh_ok w' \<and> live_fds w' = live_fds w \<and> faults w' = faults w \<and>
    (\<exists>ev. r = Inr (take (nat max_count) (List.map_filter (device_of env) [0 ..< 16]), ev) \<and> (ev \<noteq> [] \<longrightarrow> admin env) \<and>
      (admin env \<longrightarrow> length (take (nat max_count) (List.map_filter (device_of env) [0 ..< 16])) \<le> length ev))"
proof -
  let ?F = "fold (\<lambda>i st. if int (length (fst (fst st))) < max_count then list_device env i st else st) [0 ..< 16] (([], []), w)"
  obtain de w' where f0: "?F = (de, w')" by (rule prod.exhaust)
  obtain devs ev where de: "de = (devs, ev)" by (rule prod.exhaust)
  have L: "devs = take (nat max_count) (List.map_filter (device_of env) [0 ..< 16])" "fdstep w (live_fds w) w'"
    "ev \<noteq> [] \<longrightarrow> admin env" "admin env \<longrightarrow> length devs \<le> length ev"
    using list_devices_ok[OF assms(1,2), of max_count 16] unfolding f0 de prod.case by blast+
  have run: "drmtap_list_devices env True max_count w = (Inr (devs, ev), w')" using assms(3) f0 de by (simp add: drmtap_list_devices_def)
  have "faults w' = faults w" using L(2) fdmask_faults by (auto simp: fdstep_def)
  then show ?thesis using L(2-4) unfolding run prod.case L(1)[symmetric] by (simp add: fdstep_def)
qed

theorem list_devices_exact_witness:
  "\<exists>ev. fst (drmtap_list_devices wit_sysenv True 1 wit_ctx) = Inr (take 1 (List.map_filter (device_of wit_sysenv) [0 ..< 16]), ev)"
proof -
  have st: "steady_info wit_sysenv" by (simp add: steady_info_def steady_def wit_sysenv_def)
  obtain r w' where run: "drmtap_list_devices wit_sysenv True 1 wit_ctx = (r, w')" by (rule prod.exhaust)
  have "\<exists>ev. r = Inr (take (nat 1) (List.map_filter (device_of wit_sysenv) [0 ..< 16]), ev)"
    using list_devices_exact[OF st wit_ctx_fresh, of 1] unfolding run by auto
  then show ?thesis by (simp add: run)
qed

text \<open>
  C27. The render node picked belongs to a card that drives a display, and to one that drives it
  best. pick_scanout_render_node answers none exactly when no render node's card has a connected
  connector; otherwise it names the first directory entry of the highest rank, 2 when a connector
  of its card is connected and enabled, 1 when one is merely connected.
\<close>

theorem pick_render_node_best:
  assumes "o_dir env sysfs_drm = Some ents"
  shows "case pick_scanout_render_node env out_len of
      None \<Rightarrow> \<forall>d \<in> set ents. node_rank env d = 0
    | Some p \<Rightarrow> \<exists>xs d ys. ents = xs @ d # ys \<and> p = take (out_len - 1) (''/dev/dri/'' @ d) \<and> 0 < node_rank env d \<and>
        (\<forall>x \<in> set xs. node_rank env x < node_rank env d) \<and> (\<forall>y \<in> set ys. node_rank env y \<le> node_rank env d)"
proof (cases "\<forall>d \<in> set ents. node_rank env d = 0")
  case True
  then have "pick_entries env ents 0 [] = (0, [])" using pick_entries_best[of env ents 0 "[]"] by (simp add: best_node_def)
  then show ?thesis using True assms by (simp add: pick_scanout_render_node_def)
next
  case False
  then have no: "\<not> (\<forall>d \<in> set ents. node_rank env d \<le> 0)" by simp
  obtain xs d ys where x: "ents = xs @ d # ys" "pick_entries env ents 0 [] = (node_rank env d, d)" "0 < node_rank env d"
    "\<forall>x \<in> set xs. node_rank env x < node_rank env d" "\<forall>y \<in> set ys. node_rank env y \<le> node_rank env d"
    using pick_entries_best[of env ents 0 "[]"] unfolding best_node_def if_not_P[OF no] by blast
  have eq: "pick_scanout_render_node env out_len = Some (take (out_len - 1) (''/dev/dri/'' @ d))"
    using assms x(2,3) by (simp add: pick_scanout_render_node_def)
  show ?thesis unfolding eq option.case using x(1,3-5) by blast
qed

theorem pick_render_node_best_witness:
  "pick_scanout_render_node wit_sysenv 96 \<noteq> None"
proof
  assume none: "pick_scanout_render_node wit_sysenv 96 = None"
  have dir: "o_dir wit_sysenv sysfs_drm = Some [''renderD128'', ''card1-DP-1'']" by (simp add: wit_sysenv_def sysfs_drm_def)
  have card: "card_for_render_node wit_sysenv ''renderD128'' 64 = Some ''card1''"
    by (simp add: card_for_render_node_def sysfs_drm_def wit_sysenv_def)
  have attrs: "o_file wit_sysenv ''/sys/class/drm/card1-DP-1/status'' = Some ''connected''"
    "o_file wit_sysenv ''/sys/class/drm/card1-DP-1/enabled'' = Some ''enabled''" by (simp_all add: wit_sysenv_def)
  have attr: "connector_attr wit_sysenv ''card1-DP-1'' ''status'' = Some ''connected''"
    "connector_attr wit_sysenv ''card1-DP-1'' ''enabled'' = Some ''enabled''"
    using attrs by (simp_all add: connector_attr_def read_sysfs_line_def first_line_def sysfs_drm_def)
  have "drives_display wit_sysenv ''card1'' = 2"
    using attr by (simp add: drives_display_def dir connected_entry_def enabled_entry_def)
  then have "node_rank wit_sysenv ''renderD128'' = 2" by (simp add: node_rank_def card)
  then show False using pick_render_node_best[OF dir, of 96] unfolding none by simp
qed

end
