(* ===== verification/Lifecycle.thy ===== *)
theory Lifecycle
  imports FastOk Devices
begin

text \<open>
  The life of a context (src/drmtap.c): drmtap_open, drmtap_open_render and drmtap_close. Opening
  establishes the invariant every other operation keeps, on exactly one new descriptor; closing
  returns everything the context holds.
\<close>

record drmtap_config =
  cf_device_path :: "string option"
  cf_crtc_id :: u32
  cf_helper_path :: "string option"

text \<open>calloc and the first assignments: no device, no helper, four empty slots.\<close>

definition new_ctx :: "nat \<Rightarrow> egl_state \<Rightarrow> bool \<Rightarrow> world \<Rightarrow> ctx" where
  "new_ctx t st render w =
    \<lparr>tick = tick w, mem = mem w, next_obj = next_obj w, live_maps = live_maps w, live_fds = live_fds w, next_fd = next_fd w,
     live_gems = live_gems w, next_gem = next_gem w, live_privs = live_privs w, windows = windows w, faults = faults w,
     chan = chan w, sent = sent w,
     self = t, egl = st, drm_fd = - 1, device_path = [], driver_name = [], crtc_id = 0, is_render_only = render, helper_path = [],
     helper_fd = - 1, helper_pid = - 1, fast_slots = replicate DRMTAP_FAST_SLOTS empty_slot, fast_plane_id = 0, fast_last_fb_id = 0,
     fast_initialized = False, fast_no_cpu_map = False, fast_no_privilege = False, helper_no_cursor2 = False, helper_cursor2_ok = False,
     helper_cursor2_retried = False, atomic_cap_tried = False, sw_key_crtc = 0, sw_key_hdisplay = 0, sw_key_fb_width = 0,
     sw_key_modifier = 0, sw_cached_width = 0, sw_cached = False, user_out = None, user_out_len = 0, deswizzle_buf = None,
     deswizzle_buf_size = 0, out_gen = 0, pixel_buf = None, pixel_buf_size = 0, cfb2_num_planes = 0, cfb2_pitches = [0, 0, 0, 0],
     cfb2_offsets = [0, 0, 0, 0], grab_plane_id = 0, rot_prop_plane_id = 0, rot_prop_id = 0, rot_prop_state = 0, cur_hdr_eotf = 0,
     cur_hdr_max_nits = 0, cached_topology_hash = 0\<rparr>"

section \<open>Opening\<close>

text \<open>F_DUPFD_CLOEXEC from 100 on; when it fails the descriptor stays where it is.\<close>

definition sys_dup_high :: "sysenv \<Rightarrow> 'a world_scheme \<Rightarrow> int option \<times> 'a world_scheme" where
  "sys_dup_high env w =
    (if o_dup_high env (tick w)
     then let fd = max 100 (next_fd w) in (Some fd, step_clock (w\<lparr>live_fds := insert fd (live_fds w), next_fd := fd + 1\<rparr>))
     else (None, step_clock w))"

definition raise_fd :: "sysenv \<Rightarrow> int \<Rightarrow> 'a world_scheme \<Rightarrow> int \<times> 'a world_scheme" where
  "raise_fd env fd w = (case sys_dup_high env w of (None, w1) \<Rightarrow> (fd, w1) | (Some high, w1) \<Rightarrow> (high, sys_close fd w1))"

definition detect_driver :: "sysenv \<Rightarrow> string \<Rightarrow> 'a world_scheme \<Rightarrow> string \<times> 'a world_scheme" where
  "detect_driver env path w = (case o_driver env (tick w) path of None \<Rightarrow> [] | Some n \<Rightarrow> take 63 n, step_clock w)"

definition DRM_CLIENT_CAP_UNIVERSAL_PLANES :: u32 where "DRM_CLIENT_CAP_UNIVERSAL_PLANES = 2"
definition DRM_CLIENT_CAP_ATOMIC :: u32 where "DRM_CLIENT_CAP_ATOMIC = 3"
definition DRM_CLIENT_CAP_CURSOR_PLANE_HOTSPOT :: u32 where "DRM_CLIENT_CAP_CURSOR_PLANE_HOTSPOT = 6"

definition config_path :: "drmtap_config option \<Rightarrow> string" where
  "config_path cfg = (case cfg of None \<Rightarrow> [] | Some cf \<Rightarrow> (case cf_device_path cf of None \<Rightarrow> [] | Some p \<Rightarrow> take 255 p))"

definition open_device :: "sysenv \<Rightarrow> string \<Rightarrow> 'a world_scheme \<Rightarrow> (int \<times> string) option \<times> 'a world_scheme" where
  "open_device env path w =
    (if path \<noteq> [] then (case sys_open env path w of (fd, w1) \<Rightarrow> (map_option (\<lambda>fd. (fd, path)) fd, w1)) else open_drm_auto env w)"

text \<open>Inl is NULL; the events are what the device was asked, in order.\<close>

definition drmtap_open :: "sysenv \<Rightarrow> nat \<Rightarrow> egl_state \<Rightarrow> drmtap_config option \<Rightarrow> world \<Rightarrow> world + ctx \<times> dev_event list" where
  "drmtap_open env t st cfg w =
    (if \<not> o_calloc env (tick w) then Inl (step_clock w)
     else case open_device env (config_path cfg) (step_clock w) of
       (None, w1) \<Rightarrow> Inl w1
     | (Some (fd0, path), w1) \<Rightarrow>
         (case raise_fd env fd0 w1 of (fd, w2) \<Rightarrow>
          case drmtap_have_cap_sys_admin env w2 of (adm, w3) \<Rightarrow>
          case detect_driver env path w3 of (drv, w4) \<Rightarrow>
            Inr ((new_ctx t st False w4)\<lparr>drm_fd := fd, device_path := path, driver_name := drv,
                crtc_id := (case cfg of None \<Rightarrow> 0 | Some cf \<Rightarrow> cf_crtc_id cf),
                helper_path := (case cfg of None \<Rightarrow> [] | Some cf \<Rightarrow> (case cf_helper_path cf of None \<Rightarrow> [] | Some p \<Rightarrow> take 511 p))\<rparr>,
              (if adm then [DropMaster fd] else []) @
              [SetClientCap fd DRM_CLIENT_CAP_UNIVERSAL_PLANES, SetClientCap fd DRM_CLIENT_CAP_ATOMIC,
               SetClientCap fd DRM_CLIENT_CAP_CURSOR_PLANE_HOTSPOT])))"

fun open_first :: "sysenv \<Rightarrow> string list \<Rightarrow> 'a world_scheme \<Rightarrow> (int \<times> string) option \<times> 'a world_scheme" where
  "open_first env [] w = (None, w)"
| "open_first env (p # ps) w = (case sys_open env p w of (Some fd, w1) \<Rightarrow> (Some (fd, p), w1) | (None, w1) \<Rightarrow> open_first env ps w1)"

definition render_paths :: "string list" where
  "render_paths = map (\<lambda>i. ''/dev/dri/renderD'' @ show_u i) [128 ..< 192]"

definition open_render_device :: "sysenv \<Rightarrow> string \<Rightarrow> 'a world_scheme \<Rightarrow> (int \<times> string) option \<times> 'a world_scheme" where
  "open_render_device env node w =
    (if node \<noteq> [] then (case sys_open env node w of (fd, w1) \<Rightarrow> (map_option (\<lambda>fd. (fd, take 255 node)) fd, w1))
     else case (case pick_scanout_render_node env 96 of None \<Rightarrow> (None, w) | Some p \<Rightarrow> open_first env [p] w) of
       (Some r, w1) \<Rightarrow> (Some r, w1)
     | (None, w1) \<Rightarrow> open_first env render_paths w1)"

definition drmtap_open_render :: "sysenv \<Rightarrow> nat \<Rightarrow> egl_state \<Rightarrow> string \<Rightarrow> world \<Rightarrow> world + ctx" where
  "drmtap_open_render env t st node w =
    (if \<not> o_calloc env (tick w) then Inl (step_clock w)
     else case open_render_device env node (step_clock w) of
       (None, w1) \<Rightarrow> Inl w1
     | (Some (fd0, path), w1) \<Rightarrow>
         (case raise_fd env fd0 w1 of (fd, w2) \<Rightarrow>
          case detect_driver env path w2 of (drv, w3) \<Rightarrow>
            Inr ((new_ctx t st True w3)\<lparr>drm_fd := fd, device_path := path, driver_name := drv\<rparr>)))"

section \<open>Closing\<close>

text \<open>What is left of the process once the context itself is freed, and the thread's GL state.\<close>

definition drmtap_close :: "ctx \<Rightarrow> world \<times> egl_state" where
  "drmtap_close c0 =
    (let c1 = drmtap_fast_cleanup c0;
         c2 = c1\<lparr>egl := egl_cleanup (egl c1)\<rparr>;
         c3 = drmtap_helper_stop c2;
         c4 = (if 0 \<le> drm_fd c3 then (sys_close (drm_fd c3) c3)\<lparr>drm_fd := - 1\<rparr> else c3);
         c5 = (sys_free (deswizzle_buf c4) c4)\<lparr>deswizzle_buf := None, deswizzle_buf_size := 0\<rparr>;
         c6 = (sys_free (pixel_buf c5) c5)\<lparr>pixel_buf := None, pixel_buf_size := 0\<rparr> in
     (world.truncate c6, egl c6))"

section \<open>What opening establishes\<close>

lemma raise_fd_step:
  assumes fr: "fresh_ok w" and fd: "fd \<in> live_fds w" "0 \<le> fd" and run: "raise_fd env fd w = (fd', w')"
  shows "fdstep w (insert fd' (live_fds w - {fd})) w' \<and> fd' \<notin> live_fds w - {fd} \<and> 0 \<le> fd'"
proof (cases "o_dup_high env (tick w)")
  case True
  define h where "h = max 100 (next_fd w)"
  let ?w = "step_clock (w\<lparr>live_fds := insert h (live_fds w), next_fd := h + 1\<rparr>)"
  have e: "fd' = h" "w' = sys_close fd ?w" using run[unfolded raise_fd_def sys_dup_high_def if_P[OF True] Let_def, folded h_def] by auto
  have b: "next_fd w \<le> h" "100 \<le> h" by (simp_all add: h_def)
  have h: "h \<notin> live_fds w" "h \<noteq> fd" using fr fd b by (auto simp: fresh_ok_def)
  have f1: "fresh_ok ?w" using fr b by (auto simp: fresh_ok_def step_clock_def)
  have l: "live_fds ?w = insert h (live_fds w)" by (simp add: step_clock_def)
  have "fdstep w (insert h (live_fds w)) ?w" unfolding fdstep_def l using f1 by (simp add: step_clock_def fdmask_def)
  then have "fdstep w (live_fds ?w - {fd}) w'" unfolding e(2) by (rule fdstep_trans) (rule fdstep_close[OF f1], simp add: l fd(1))
  moreover have "live_fds ?w - {fd} = insert h (live_fds w - {fd})" using h(2) unfolding l by blast
  ultimately show ?thesis using h(1) b(2) unfolding e(1) by simp
next
  case False
  then have "w' = step_clock w" "fd' = fd" using run by (simp_all add: raise_fd_def sys_dup_high_def)
  moreover have "insert fd (live_fds w - {fd}) = live_fds w" using fd(1) by blast
  ultimately show ?thesis using fdstep_clock[OF fr] fd(2) by auto
qed

lemma open_first_step:
  assumes "fresh_ok w" "open_first env ps w = (r, w')"
  shows "fdstep w (live_fds w \<union> fd_of r) w' \<and> fd_of r \<inter> live_fds w = {} \<and> (\<forall>fd \<in> fd_of r. 0 \<le> fd)"
  using assms
proof (induction ps arbitrary: w)
  case Nil
  then show ?case using fdstep_refl[of w] by auto
next
  case (Cons p ps)
  obtain r0 w1 where op: "sys_open env p w = (r0, w1)" by (rule prod.exhaust)
  note O = sys_open_step[OF Cons.prems(1) op]
  show ?case
  proof (cases r0)
    case None
    then have 1: "fdstep w (live_fds w) w1" "fresh_ok w1" "live_fds w1 = live_fds w" using O by (auto simp: fdstep_def)
    then show ?thesis using Cons.IH[OF 1(2)] Cons.prems(2) op None fdstep_trans[OF 1(1)] by simp
  next
    case (Some fd)
    then show ?thesis using Cons.prems(2) op O by auto
  qed
qed

lemma open_one_step:
  assumes "fresh_ok w" "sys_open env p w = (r, w')"
  shows "fdstep w (live_fds w \<union> fd_of (map_option (\<lambda>fd. (fd, q)) r)) w' \<and> fd_of (map_option (\<lambda>fd. (fd, q)) r) \<inter> live_fds w = {} \<and>
    (\<forall>fd \<in> fd_of (map_option (\<lambda>fd. (fd, q)) r). 0 \<le> fd)"
  using sys_open_step[OF assms] by (cases r) auto

lemma open_device_step:
  assumes "fresh_ok w" "open_device env path w = (r, w')"
  shows "fdstep w (live_fds w \<union> fd_of r) w' \<and> fd_of r \<inter> live_fds w = {} \<and> (\<forall>fd \<in> fd_of r. 0 \<le> fd)"
proof (cases "path = []")
  case True
  then show ?thesis using assms auto_held[of w env r w'] by (simp add: open_device_def)
next
  case False
  then show ?thesis using assms open_one_step[OF assms(1), of env path] by (auto simp: open_device_def split: prod.splits)
qed

lemma open_render_device_step:
  assumes fr: "fresh_ok w" and run: "open_render_device env node w = (r, w')"
  shows "fdstep w (live_fds w \<union> fd_of r) w' \<and> fd_of r \<inter> live_fds w = {} \<and> (\<forall>fd \<in> fd_of r. 0 \<le> fd)"
proof (cases "node = []")
  case False
  then show ?thesis using run open_one_step[OF fr, of env node] by (auto simp: open_render_device_def split: prod.splits)
next
  case True
  obtain r0 w1 where p: "(case pick_scanout_render_node env 96 of None \<Rightarrow> (None, w) | Some p \<Rightarrow> open_first env [p] w) = (r0, w1)"
    by (rule prod.exhaust)
  have P: "fdstep w (live_fds w \<union> fd_of r0) w1 \<and> fd_of r0 \<inter> live_fds w = {} \<and> (\<forall>fd \<in> fd_of r0. 0 \<le> fd)"
    using p fdstep_refl[OF fr] open_first_step[OF fr] by (auto split: option.splits simp del: open_first.simps)
  show ?thesis
  proof (cases r0)
    case (Some x)
    then show ?thesis using run True p P by (simp add: open_render_device_def)
  next
    case None
    then have 1: "fdstep w (live_fds w) w1" "fresh_ok w1" "live_fds w1 = live_fds w" using P by (auto simp: fdstep_def)
    have "open_first env render_paths w1 = (r, w')" using run True p None by (simp add: open_render_device_def)
    then show ?thesis using open_first_step[OF 1(2)] fdstep_trans[OF 1(1)] by (simp add: 1(3))
  qed
qed

text \<open>A context as opening builds it satisfies the invariant of every later operation.\<close>

definition just_opened :: "ctx \<Rightarrow> bool" where
  "just_opened c \<longleftrightarrow> fast_slots c = replicate DRMTAP_FAST_SLOTS empty_slot \<and> \<not> fast_initialized c \<and> helper_fd c = - 1 \<and> \<not> sw_cached c \<and>
    user_out c = None \<and> deswizzle_buf c = None \<and> pixel_buf c = None"

lemma opened_inv:
  assumes "just_opened c" "fresh_ok c" "thread_ok f c"
  shows "fast_inv c f c"
proof -
  have "wins (replicate 4 empty_slot) = (\<lambda>_. 0)" by (auto simp: wins_def slot_win_def empty_slot_def sum_list_replicate)
  moreover have "slots_ok c" using assms(1)
    by (simp add: just_opened_def slots_ok_def DRMTAP_FAST_SLOTS_def slot_ok_def slot_backed_def empty_slot_def slot_maps_def slot_fds_def
      slot_gems_def one_open_def nth_replicate)
  moreover have "all_of slot_maps (fast_slots c) = []" "all_of slot_fds (fast_slots c) = []" "all_of slot_gems (fast_slots c) = []"
    "fast_slots c = replicate 4 empty_slot"
    using assms(1) by (simp_all add: just_opened_def DRMTAP_FAST_SLOTS_def slot_maps_def slot_fds_def slot_gems_def empty_slot_def)
  moreover have "gctx_ok f c" using assms
    by (simp add: gctx_ok_def ctx_ok_def conn_ok_def memo_ok_def buf_inv_def just_opened_def)
  ultimately show ?thesis using clean_refl[of c, unfolded clean_def] by (simp add: fast_inv_def)
qed

text \<open>What the system sees of a new context: the process of the world it was opened in.\<close>

lemma new_ctx_inv:
  assumes "fresh_ok w" "gl_ok f st" "prov st" and c: "c = (new_ctx t st b w)\<lparr>drm_fd := fd, device_path := p, driver_name := d, crtc_id := r, helper_path := h\<rparr>"
  shows "fast_inv c f c \<and> live_fds c = live_fds w \<and> faults c = faults w \<and> live_maps c = live_maps w \<and> live_gems c = live_gems w \<and>
    live_privs c = live_privs w \<and> windows c = windows w \<and> helper_fd c = - 1 \<and> drm_fd c = fd"
proof -
  have "just_opened c" "fresh_ok c" "thread_ok f c"
    using assms by (simp_all add: just_opened_def new_ctx_def fresh_ok_def thread_ok_def)
  then show ?thesis using opened_inv by (simp add: c new_ctx_def)
qed

lemma fdmask_D:
  assumes "fdmask w' = fdmask w"
  shows "live_maps w' = live_maps w" "live_gems w' = live_gems w" "live_privs w' = live_privs w" "windows w' = windows w"
    "faults w' = faults w" "mem w' = mem w"
proof -
  have f: "f (fdmask w') = f (fdmask w)" for f :: "'a world_scheme \<Rightarrow> 'b" using assms by simp
  show "live_maps w' = live_maps w" using f[of live_maps] by (simp add: fdmask_def)
  show "live_gems w' = live_gems w" using f[of live_gems] by (simp add: fdmask_def)
  show "live_privs w' = live_privs w" using f[of live_privs] by (simp add: fdmask_def)
  show "windows w' = windows w" using f[of windows] by (simp add: fdmask_def)
  show "faults w' = faults w" using f[of faults] by (simp add: fdmask_def)
  show "mem w' = mem w" using f[of mem] by (simp add: fdmask_def)
qed

definition opened_on :: "world \<Rightarrow> nat \<Rightarrow> ctx \<Rightarrow> bool" where
  "opened_on w f c \<longleftrightarrow> fast_inv c f c \<and> helper_fd c = - 1 \<and> 0 \<le> drm_fd c \<and> drm_fd c \<notin> live_fds w \<and>
    live_fds c = insert (drm_fd c) (live_fds w) \<and> live_maps c = live_maps w \<and> live_gems c = live_gems w \<and>
    live_privs c = live_privs w \<and> windows c = windows w \<and> faults c = faults w"

lemma raised:
  assumes "fdstep w (live_fds w \<union> {fd0}) w1" "fd0 \<notin> live_fds w" "0 \<le> fd0" "raise_fd env fd0 w1 = (fd, w2)"
  shows "fdstep w (insert fd (live_fds w)) w2 \<and> fd \<notin> live_fds w \<and> 0 \<le> fd"
proof -
  have 1: "fresh_ok w1" "live_fds w1 = insert fd0 (live_fds w)" using assms(1) by (simp_all add: fdstep_def)
  have "live_fds w1 - {fd0} = live_fds w" using 1(2) assms(2) by auto
  then show ?thesis using raise_fd_step[OF 1(1) _ assms(3,4)] fdstep_trans[OF assms(1)] by (auto simp: 1(2))
qed

lemma opened_from:
  assumes w0: "fdstep w (live_fds w) w0" and dev: "fdstep w0 (live_fds w0 \<union> {fd0}) w1" "fd0 \<notin> live_fds w0" "0 \<le> fd0"
    and rf: "raise_fd env fd0 w1 = (fd, w2)" and last: "fdstep w2 (live_fds w2) w3" and gl: "gl_ok f st" "prov st"
    and c: "c = (new_ctx t st b w3)\<lparr>drm_fd := fd, device_path := p, driver_name := d, crtc_id := r, helper_path := h\<rparr>"
  shows "opened_on w f c"
proof -
  have l0: "live_fds w0 = live_fds w" using w0 by (simp add: fdstep_def)
  note R = raised[OF dev rf]
  have l2: "live_fds w2 = insert fd (live_fds w)" using R by (simp add: fdstep_def l0)
  have e: "fdstep w (insert fd (live_fds w)) w3"
    using fdstep_trans[OF fdstep_trans[OF w0 conjunct1[OF R]] last] by (simp add: l2)
  then have "fresh_ok w3" "live_fds w3 = insert fd (live_fds w)" "fdmask w3 = fdmask w" by (simp_all add: fdstep_def)
  then show ?thesis using new_ctx_inv[OF _ gl c] fdmask_D[of w3 w] R by (simp add: opened_on_def l0)
qed

lemma admin_step:
  assumes "fresh_ok w" "drmtap_have_cap_sys_admin env w = (adm, w')"
  shows "fdstep w (live_fds w) w' \<and> (adm \<longrightarrow> (\<exists>t. o_capget env t = Some True \<or> o_capget env t = None \<and> o_root env))"
  using assms fdstep_clock[of w] by (auto simp: drmtap_have_cap_sys_admin_def split: option.splits)

lemma driver_step: "fresh_ok w \<Longrightarrow> detect_driver env path w = (d, w') \<Longrightarrow> fdstep w (live_fds w) w'"
  using fdstep_clock[of w] by (auto simp: detect_driver_def)

lemma open_ok:
  assumes fr: "fresh_ok w" and gl: "gl_ok f st" "prov st"
  shows "case drmtap_open env t st cfg w of
      Inl w' \<Rightarrow> fdstep w (live_fds w) w'
    | Inr (c, ev) \<Rightarrow> opened_on w f c \<and> (\<forall>fd. DropMaster fd \<in> set ev \<longrightarrow>
        fd = drm_fd c \<and> (\<exists>t. o_capget env t = Some True \<or> o_capget env t = None \<and> o_root env))"
proof (cases "o_calloc env (tick w)")
  case False
  then show ?thesis using fdstep_clock[OF fr] by (simp add: drmtap_open_def)
next
  case True
  then have n: "\<not> \<not> o_calloc env (tick w)" by simp
  note W0 = fdstep_clock[OF fr]
  have f0: "fresh_ok (step_clock w)" "live_fds (step_clock w) = live_fds w" using W0 by (simp_all add: fdstep_def)
  obtain r w1 where od: "open_device env (config_path cfg) (step_clock w) = (r, w1)" by (rule prod.exhaust)
  note D = open_device_step[OF f0(1) od]
  note run = drmtap_open_def[of env t st cfg w, unfolded if_not_P[OF n] od prod.case]
  show ?thesis
  proof (cases r)
    case None
    then show ?thesis using D fdstep_trans[OF W0, of _ w1] unfolding run by (simp add: f0(2))
  next
    case (Some x)
    obtain fd0 path where x: "x = (fd0, path)" by (rule prod.exhaust)
    have D': "fdstep (step_clock w) (live_fds (step_clock w) \<union> {fd0}) w1" "fd0 \<notin> live_fds (step_clock w)" "0 \<le> fd0"
      using D Some x by simp_all
    obtain fd w2 where rf: "raise_fd env fd0 w1 = (fd, w2)" by (rule prod.exhaust)
    have f2: "fresh_ok w2" using raised[OF D' rf] by (simp add: fdstep_def)
    obtain adm w3 where ad: "drmtap_have_cap_sys_admin env w2 = (adm, w3)" by (rule prod.exhaust)
    note A = admin_step[OF f2 ad]
    have f3: "fresh_ok w3" "live_fds w3 = live_fds w2" using A by (simp_all add: fdstep_def)
    obtain drv w4 where dr: "detect_driver env path w3 = (drv, w4)" by (rule prod.exhaust)
    have L: "fdstep w2 (live_fds w2) w4" using fdstep_trans[OF conjunct1[OF A]] driver_step[OF f3(1) dr] by (simp add: f3(2))
    let ?c = "(new_ctx t st False w4)\<lparr>drm_fd := fd, device_path := path, driver_name := drv,
        crtc_id := (case cfg of None \<Rightarrow> 0 | Some cf \<Rightarrow> cf_crtc_id cf),
        helper_path := (case cfg of None \<Rightarrow> [] | Some cf \<Rightarrow> (case cf_helper_path cf of None \<Rightarrow> [] | Some p \<Rightarrow> take 511 p))\<rparr>"
    have "opened_on w f ?c" by (rule opened_from[OF W0 D' rf L gl refl])
    moreover have "drm_fd ?c = fd" by simp
    ultimately show ?thesis using A unfolding run Some x option.case prod.case rf ad dr sum.case
      by (auto simp del: ctx.update_convs)
  qed
qed

lemma open_render_ok:
  assumes fr: "fresh_ok w" and gl: "gl_ok f st" "prov st"
  shows "case drmtap_open_render env t st node w of
      Inl w' \<Rightarrow> fdstep w (live_fds w) w'
    | Inr c \<Rightarrow> opened_on w f c \<and> is_render_only c"
proof (cases "o_calloc env (tick w)")
  case False
  then show ?thesis using fdstep_clock[OF fr] by (simp add: drmtap_open_render_def)
next
  case True
  then have n: "\<not> \<not> o_calloc env (tick w)" by simp
  note W0 = fdstep_clock[OF fr]
  have f0: "fresh_ok (step_clock w)" "live_fds (step_clock w) = live_fds w" using W0 by (simp_all add: fdstep_def)
  obtain r w1 where od: "open_render_device env node (step_clock w) = (r, w1)" by (rule prod.exhaust)
  note D = open_render_device_step[OF f0(1) od]
  note run = drmtap_open_render_def[of env t st node w, unfolded if_not_P[OF n] od prod.case]
  show ?thesis
  proof (cases r)
    case None
    then show ?thesis using D fdstep_trans[OF W0, of _ w1] unfolding run by (simp add: f0(2))
  next
    case (Some x)
    obtain fd0 path where x: "x = (fd0, path)" by (rule prod.exhaust)
    have D': "fdstep (step_clock w) (live_fds (step_clock w) \<union> {fd0}) w1" "fd0 \<notin> live_fds (step_clock w)" "0 \<le> fd0"
      using D Some x by simp_all
    obtain fd w2 where rf: "raise_fd env fd0 w1 = (fd, w2)" by (rule prod.exhaust)
    have f2: "fresh_ok w2" using raised[OF D' rf] by (simp add: fdstep_def)
    obtain drv w3 where dr: "detect_driver env path w2 = (drv, w3)" by (rule prod.exhaust)
    let ?c = "(new_ctx t st True w3)\<lparr>drm_fd := fd, device_path := path, driver_name := drv\<rparr>"
    have same: "?c = (new_ctx t st True w3)\<lparr>drm_fd := fd, device_path := path, driver_name := drv, crtc_id := 0, helper_path := []\<rparr>"
      by (simp add: new_ctx_def)
    have "opened_on w f ?c" by (rule opened_from[OF W0 D' rf driver_step[OF f2 dr] gl same])
    moreover have "is_render_only ?c" by (simp add: new_ctx_def)
    ultimately show ?thesis unfolding run Some x option.case prod.case rf dr sum.case by blast
  qed
qed

section \<open>What closing returns\<close>

lemma slot_drop_keeps:
  "drm_fd (slot_drop i c) = drm_fd c" "egl (slot_drop i c) = egl c" "deswizzle_buf (slot_drop i c) = deswizzle_buf c"
  "pixel_buf (slot_drop i c) = pixel_buf c"
  by (simp_all add: slot_drop_def set_slot_def sys_munmap_def sys_close_def drmtap_gem_close_def gem_close_def Let_def split: option.split)

lemma cleanup_keeps:
  "drm_fd (drmtap_fast_cleanup c) = drm_fd c \<and> egl (drmtap_fast_cleanup c) = egl c \<and>
    deswizzle_buf (drmtap_fast_cleanup c) = deswizzle_buf c \<and> pixel_buf (drmtap_fast_cleanup c) = pixel_buf c"
proof -
  let ?k = "\<lambda>x :: ctx. (drm_fd x, egl x, deswizzle_buf x, pixel_buf x)"
  have s: "?k (slot_sync_close i x) = ?k x" for i and x :: ctx
    by (simp add: slot_sync_close_def set_slot_def dmabuf_sync_end_def Let_def)
  have "?k (fold slot_drop ns x) = ?k x" for ns x by (induction ns arbitrary: x) (simp_all add: slot_drop_keeps)
  moreover have "?k (fold slot_sync_close ns x) = ?k x" for ns x using s by (induction ns arbitrary: x) simp_all
  ultimately show ?thesis by (simp add: drmtap_fast_cleanup_def fast_sync_close_def Let_def)
qed

lemma stop_helper:
  assumes "conn_ok c"
  shows "fresh_ok (drmtap_helper_stop c) \<and> live_fds (drmtap_helper_stop c) = own_fds c \<and> mem (drmtap_helper_stop c) = mem c \<and>
    live_maps (drmtap_helper_stop c) = live_maps c \<and> live_gems (drmtap_helper_stop c) = live_gems c \<and>
    live_privs (drmtap_helper_stop c) = live_privs c \<and> windows (drmtap_helper_stop c) = windows c \<and> faults (drmtap_helper_stop c) = faults c \<and>
    drm_fd (drmtap_helper_stop c) = drm_fd c \<and> egl (drmtap_helper_stop c) = egl c \<and>
    deswizzle_buf (drmtap_helper_stop c) = deswizzle_buf c \<and> pixel_buf (drmtap_helper_stop c) = pixel_buf c"
proof -
  let ?s = "drmtap_helper_stop c"
  note S = stop_conn[OF assms]
  have m: "hmask ?s = hmask c" by (rule hmask_stop)
  have r: "client_res ?s = client_res c" using conn_step_res S by blast
  have fr: "fresh_ok ?s" using S by (simp add: conn_ok_def)
  have neg: "helper_fd ?s < 0" by (simp add: drmtap_helper_stop_def Let_def split_beta)
  then have "helper_fd ?s \<notin> live_fds ?s" using fr by (auto simp: fresh_ok_def)
  then have l: "live_fds ?s = own_fds c" "faults ?s = faults c" using r by (simp_all add: client_res_def own_fds_def)
  have e: "egl ?s = egl c" using arg_cong[OF m, of egl] unfolding hmask_def by simp
  have d: "drm_fd ?s = drm_fd c" using arg_cong[OF m, of drm_fd] unfolding hmask_def by simp
  show ?thesis using fr l hmask_D[OF m] e d by simp
qed

definition released :: "ctx \<Rightarrow> world \<Rightarrow> bool" where
  "released c w' \<longleftrightarrow> (\<forall>p. deswizzle_buf c = Some p \<or> pixel_buf c = Some p \<longrightarrow> mem w' p = None)"

lemma close_ok:
  assumes inv: "fast_inv b f c" and drm: "0 \<le> drm_fd c" "drm_fd c \<in> own_fds b" and run: "drmtap_close c = (w', st')"
  shows "live_fds w' = own_fds b - {drm_fd c} \<and> live_maps w' = live_maps b \<and> live_gems w' = live_gems b \<and> live_privs w' = live_privs b \<and>
    windows w' = windows b \<and> faults w' = faults b \<and> released c w' \<and> gl_ok f st' \<and> prov st' \<and>
    (e_initialized (egl c) \<longrightarrow> gl_live st' = {})"
proof -
  let ?c1 = "drmtap_fast_cleanup c"
  have C: "fast_inv b f ?c1" "clean b ?c1" using cleanup_inv[OF inv] by simp_all
  note K = cleanup_keeps[of c]
  let ?c2 = "?c1\<lparr>egl := egl_cleanup (egl ?c1)\<rparr>"
  have t1: "gctx_ok f ?c1" using C(1) by (simp add: fast_inv_def)
  have gl: "gl_ok f (egl c)" "prov (egl c)" using t1 K by (simp_all add: gctx_ok_def ctx_ok_def thread_ok_def)
  have ok2: "conn_ok ?c2" "buf_inv ?c2" using t1 by (simp_all add: gctx_ok_def ctx_ok_def conn_ok_def fresh_ok_def buf_inv_def holds_def)
  have own2: "own_fds ?c2 = own_fds b" "live_maps ?c2 = live_maps b" "live_gems ?c2 = live_gems b" "live_privs ?c2 = live_privs b"
    "windows ?c2 = windows b" "faults ?c2 = faults b"
    using C(2) by (simp_all add: clean_def owes_def own_fds_def)
  define c3 where "c3 = drmtap_helper_stop ?c2"
  have 3: "live_fds c3 = own_fds b" "mem c3 = mem ?c2" "live_maps c3 = live_maps b" "live_gems c3 = live_gems b" "live_privs c3 = live_privs b"
    "windows c3 = windows b" "faults c3 = faults b" "drm_fd c3 = drm_fd c" "egl c3 = egl_cleanup (egl c)"
    "deswizzle_buf c3 = deswizzle_buf c" "pixel_buf c3 = pixel_buf c"
    using stop_helper[OF ok2(1)] own2 K unfolding c3_def by simp_all
  have held: "mem c3 p \<noteq> None \<and> p \<notin> live_maps c3" if "deswizzle_buf c = Some p \<or> pixel_buf c = Some p" for p
    using ok2(2) that K own2(2) unfolding 3(2,3) by (auto simp: buf_inv_def holds_def split: option.splits)
  have ne: "deswizzle_buf c = Some p \<Longrightarrow> pixel_buf c \<noteq> Some p" for p using ok2(2) K by (auto simp: buf_inv_def)
  define c4 where "c4 = c3\<lparr>live_fds := live_fds c3 - {drm_fd c}, drm_fd := - 1\<rparr>"
  have e4: "(if 0 \<le> drm_fd c3 then (sys_close (drm_fd c3) c3)\<lparr>drm_fd := - 1\<rparr> else c3) = c4"
    using drm by (simp add: c4_def sys_close_def 3(1,8))
  define c5 where "c5 = c4\<lparr>mem := (case deswizzle_buf c of None \<Rightarrow> mem c3 | Some p \<Rightarrow> (mem c3)(p := None)), deswizzle_buf := None, deswizzle_buf_size := 0\<rparr>"
  have e5: "(sys_free (deswizzle_buf c4) c4)\<lparr>deswizzle_buf := None, deswizzle_buf_size := 0\<rparr> = c5"
    using held by (cases "deswizzle_buf c") (simp_all add: c5_def c4_def sys_free_def 3(10))
  have h5: "mem c5 p \<noteq> None \<and> p \<notin> live_maps c5" if "pixel_buf c = Some p" for p
    using held[of p] ne[of p] that by (auto simp: c5_def c4_def split: option.splits)
  have p5: "pixel_buf c5 = pixel_buf c" by (simp add: c5_def c4_def 3(11))
  define c6 where "c6 = c5\<lparr>mem := (case pixel_buf c of None \<Rightarrow> mem c5 | Some p \<Rightarrow> (mem c5)(p := None)), pixel_buf := None, pixel_buf_size := 0\<rparr>"
  have e6: "(sys_free (pixel_buf c5) c5)\<lparr>pixel_buf := None, pixel_buf_size := 0\<rparr> = c6"
    using h5 by (cases "pixel_buf c") (simp_all add: c6_def sys_free_def p5)
  have res: "w' = world.truncate c6" "st' = egl c6"
    using run unfolding drmtap_close_def Let_def c3_def[symmetric] e4 e5 e6 by simp_all
  have rel: "released c w'" unfolding res(1) c6_def c5_def released_def by (auto simp: world.truncate_def split: option.splits)
  have st: "st' = egl_cleanup (egl c)" by (simp add: res(2) c6_def c5_def c4_def 3(9))
  have "live_fds w' = own_fds b - {drm_fd c}" "live_maps w' = live_maps b" "live_gems w' = live_gems b" "live_privs w' = live_privs b"
    "windows w' = windows b" "faults w' = faults b"
    by (simp_all add: res(1) c6_def c5_def c4_def 3 world.truncate_def)
  then show ?thesis using rel st cleanup_ok[OF gl] by simp
qed

section \<open>Properties\<close>

text \<open>
  C24. Opening builds a well-formed context on exactly one new descriptor, or nothing. Whatever the
  machine answers - allocation, the environment, which nodes open, the duplication to a high
  number - drmtap_open and drmtap_open_render either fail with every descriptor they opened closed
  again, or return a context that satisfies the invariant of all later operations and holds one
  descriptor the process did not have; and DRM master is given up only on that descriptor and only
  by a process that may do without it.
\<close>

theorem open_establishes_invariant:
  assumes "fresh_ok w" "gl_ok f st" "prov st"
  shows "(case drmtap_open env t st cfg w of
      Inl w' \<Rightarrow> fresh_ok w' \<and> live_fds w' = live_fds w \<and> faults w' = faults w
    | Inr (c, ev) \<Rightarrow> opened_on w f c \<and> (\<forall>fd. DropMaster fd \<in> set ev \<longrightarrow>
        fd = drm_fd c \<and> (\<exists>t. o_capget env t = Some True \<or> o_capget env t = None \<and> o_root env))) \<and>
    (case drmtap_open_render env t st node w of
      Inl w' \<Rightarrow> fresh_ok w' \<and> live_fds w' = live_fds w \<and> faults w' = faults w
    | Inr c \<Rightarrow> opened_on w f c \<and> is_render_only c)"
  using open_ok[OF assms, of env t cfg] open_render_ok[OF assms, of env t node] fdmask_faults
  by (auto simp: fdstep_def split: sum.splits prod.splits)

definition wit_process0 :: world where
  "wit_process0 = world.truncate wit_ctx"

lemma wit_process0_fresh: "fresh_ok wit_process0"
  by (simp add: wit_process0_def fresh_ok_def wit_ctx_def world.truncate_def)

lemma wit_no_gl: "gl_ok 0 empty_egl" "prov empty_egl"
  using wit_thread(1) by (simp_all add: thread_ok_def wit_ctx_def)

theorem open_establishes_invariant_witness:
  "case drmtap_open_render wit_sysenv 1 empty_egl [] wit_process0 of Inl w' \<Rightarrow> live_fds w' = {} | Inr c \<Rightarrow> is_render_only c"
proof -
  have "live_fds wit_process0 = {}" by (simp add: wit_process0_def wit_ctx_def world.truncate_def)
  then show ?thesis using open_establishes_invariant[OF wit_process0_fresh wit_no_gl, of wit_sysenv 1 None "[]"] by (auto split: sum.splits)
qed

text \<open>
  C25. Closing gives back everything. For a context opened on a world and used through any
  operations that keep its invariant, drmtap_close leaves the process holding exactly what it held
  before the context was opened - descriptors, mappings, GEM handles, private records, CPU-access
  windows - without a single bad release; the context's own buffers are freed, and no GL object of
  the thread survives.
\<close>

theorem close_returns_everything:
  assumes "opened_on w f b" "fast_inv b f c" "drm_fd c = drm_fd b" "drmtap_close c = (w', st')"
  shows "resources w' = resources w \<and> released c w' \<and> gl_ok f st' \<and> (e_initialized (egl c) \<longrightarrow> gl_live st' = {})"
proof -
  have b: "helper_fd b = - 1" "0 \<le> drm_fd b" "drm_fd b \<notin> live_fds w" "live_fds b = insert (drm_fd b) (live_fds w)"
    "live_maps b = live_maps w" "live_gems b = live_gems w" "live_privs b = live_privs w" "windows b = windows w" "faults b = faults w"
    using assms(1) by (simp_all add: opened_on_def)
  have "fresh_ok b" using assms(1) by (simp add: opened_on_def fast_inv_def gctx_ok_def ctx_ok_def)
  then have o: "own_fds b = live_fds b" using b(1) by (auto simp: own_fds_def fresh_ok_def)
  show ?thesis using close_ok[OF assms(2) _ _ assms(4)] assms(3) b by (simp add: o resources_def)
qed

theorem close_returns_everything_witness:
  "\<exists>w' st'. drmtap_close ((new_ctx 1 empty_egl False (wit_process0\<lparr>live_fds := {4}, next_fd := 5\<rparr>))\<lparr>drm_fd := 4\<rparr>) = (w', st') \<and>
    resources w' = resources wit_process0"
proof -
  let ?w = "wit_process0\<lparr>live_fds := {4}, next_fd := 5\<rparr>"
  let ?c = "(new_ctx 1 empty_egl False ?w)\<lparr>drm_fd := 4\<rparr>"
  have fr: "fresh_ok ?w" using wit_process0_fresh by (auto simp: fresh_ok_def wit_process0_def wit_ctx_def world.truncate_def)
  have same: "?c = (new_ctx 1 empty_egl False ?w)\<lparr>drm_fd := 4, device_path := [], driver_name := [], crtc_id := 0, helper_path := []\<rparr>"
    by (simp add: new_ctx_def)
  note N = new_ctx_inv[OF fr wit_no_gl same]
  have o: "opened_on wit_process0 0 ?c" using N by (simp add: opened_on_def wit_process0_def wit_ctx_def world.truncate_def)
  obtain w' st' where run: "drmtap_close ?c = (w', st')" by (rule prod.exhaust)
  show ?thesis using close_returns_everything[OF o _ refl run] N run by blast
qed

end
