(* ===== verification/HelperSrv.thy ===== *)
theory HelperSrv
  imports Cursor
begin

text \<open>
  The privileged helper process (helper/drmtap-helper.c): its replies to a grab and to a cursor
  query, and the loop that serves commands. It is a process of its own, so its state extends the
  world with its static variables and with what has reached the peer: sv_out, the messages in order,
  each with the number of descriptors that travelled with it. A finite channel ends in a closed
  socket, so the loop ends with its input.
\<close>

record helper_srv = world +
  h_packed :: obj
  h_primary_ids :: "u32 list option"
  h_virtio_detected :: bool
  h_virtio_virgl :: bool
  h_seq :: u32
  h_frame_num :: u32
  sv_out :: "(byte list \<times> nat) list"

text \<open>What only the helper asks: the virtio-gpu 3D feature word and the wall clock (seconds, nanoseconds).\<close>

record henv =
  hv_3d_features :: "nat \<Rightarrow> u64 option"
  hv_time :: "nat \<Rightarrow> u64 \<times> u64"

section \<open>Socket helpers\<close>

definition srv_send_all :: "byte list \<Rightarrow> helper_srv \<Rightarrow> int \<times> helper_srv" where
  "srv_send_all bs s =
    (case wire_send_all bs (ch_tx (chan s)) of (ok, out, tx) \<Rightarrow>
      (if ok then 0 else - 1, s\<lparr>chan := (chan s)\<lparr>ch_tx := tx\<rparr>, sv_out := sv_out s @ [(out, 0)]\<rparr>))"

definition srv_send_fd :: "byte list \<Rightarrow> helper_srv \<Rightarrow> int \<times> helper_srv" where
  "srv_send_fd meta s =
    (case wire_send_fd meta (ch_tx (chan s)) of (ok, out, fd_sent, tx) \<Rightarrow>
      (if ok then 0 else - 1, s\<lparr>chan := (chan s)\<lparr>ch_tx := tx\<rparr>, sv_out := sv_out s @ [(out, if fd_sent then 1 else 0)]\<rparr>))"

text \<open>Sending n bytes from the start of an object; reading past its end is a fault.\<close>

definition srv_send_object :: "obj \<Rightarrow> nat \<Rightarrow> helper_srv \<Rightarrow> int \<times> helper_srv" where
  "srv_send_object p n s =
    (case rd (mem s) p 0 n of None \<Rightarrow> (- 1, s\<lparr>faults := Suc (faults s)\<rparr>) | Some bs \<Rightarrow> srv_send_all bs s)"

definition helper_gem_close :: "nat \<Rightarrow> helper_srv \<Rightarrow> helper_srv" where
  "helper_gem_close handle s = (if handle = 0 then s else gem_close handle s)"

definition zero_grab :: helper_grab_wire where
  "zero_grab = \<lparr>gw_width = 0, gw_height = 0, gw_stride = 0, gw_format = 0, gw_fb_id = 0, gw_data_size = 0, gw_modifier = 0,
    gw_seq = 0, gw_timestamp_ms = 0, gw_flags = 0, gw_hdr_eotf = 0, gw_hdr_max_nits = 0\<rparr>"

definition send_error :: "helper_srv \<Rightarrow> int \<times> helper_srv" where
  "send_error s = (- 1, snd (srv_send_all (encode_grab zero_grab) s))"

text \<open>It differs from send_error in what it logs.\<close>

definition send_error_errno :: "helper_srv \<Rightarrow> int \<times> helper_srv" where
  "send_error_errno s = (- 1, snd (srv_send_all (encode_grab zero_grab) s))"

definition get_prop_val_found :: "kms \<Rightarrow> u32 \<Rightarrow> string \<Rightarrow> u64 \<times> bool" where
  "get_prop_val_found k obj_id name =
    (case km_props k obj_id of
      Inl _ \<Rightarrow> (0, False)
    | Inr props \<Rightarrow> (case prop_named name props of None \<Rightarrow> (0, False) | Some v \<Rightarrow> (v, True)))"

definition get_prop_val :: "kms \<Rightarrow> u32 \<Rightarrow> string \<Rightarrow> u64" where
  "get_prop_val k obj_id name = fst (get_prop_val_found k obj_id name)"

section \<open>The cursor\<close>

definition zero_cursor_wire :: helper_cursor_wire where
  "zero_cursor_wire = \<lparr>cw_x = 0, cw_y = 0, cw_hot_x = 0, cw_hot_y = 0, cw_width = 0, cw_height = 0, cw_visible = 0,
    cw_data_size = 0, cw_hot_from_property = 0\<rparr>"

definition send_cursor_meta :: "helper_cursor_wire \<Rightarrow> bool \<Rightarrow> helper_srv \<Rightarrow> int \<times> helper_srv" where
  "send_cursor_meta meta extended s = srv_send_all (if extended then encode_cursor2 meta else encode_cursor meta) s"

text \<open>The reply without pixels; the handler's own result is always 0.\<close>

definition cursor_invisible :: "helper_cursor_wire \<Rightarrow> bool \<Rightarrow> helper_srv \<Rightarrow> int \<times> helper_srv" where
  "cursor_invisible meta extended s = (0, snd (send_cursor_meta meta extended s))"

fun helper_cursor_plane :: "kms \<Rightarrow> u32 \<Rightarrow> u32 list \<Rightarrow> u32 \<times> u32" where
  "helper_cursor_plane k target [] = (0, 0)"
| "helper_cursor_plane k target (p # ps) =
    (case km_plane k p of
      None \<Rightarrow> helper_cursor_plane k target ps
    | Some plane \<Rightarrow>
        if pl_fb_id plane \<noteq> 0 \<and> (target = 0 \<or> pl_crtc_id plane = target) \<and>
          get_prop_val k (pl_id plane) ''type'' = DRM_PLANE_TYPE_CURSOR
        then (pl_fb_id plane, pl_id plane)
        else helper_cursor_plane k target ps)"

definition srv_property :: "env \<Rightarrow> u32 \<Rightarrow> string \<Rightarrow> helper_srv \<Rightarrow> (u64 \<times> bool) \<times> helper_srv" where
  "srv_property env plane name s = (get_prop_val_found (v_kms env (tick s)) plane name, step_clock s)"

definition helper_placement :: "env \<Rightarrow> u32 \<Rightarrow> helper_srv \<Rightarrow> helper_cursor_wire \<times> helper_srv" where
  "helper_placement env plane s0 =
    (case srv_property env plane ''CRTC_X'' s0 of ((x, _), s1) \<Rightarrow>
     case srv_property env plane ''CRTC_Y'' s1 of ((y, _), s2) \<Rightarrow>
     case srv_property env plane ''HOTSPOT_X'' s2 of ((hx, have_hot_x), s3) \<Rightarrow>
     case srv_property env plane ''HOTSPOT_Y'' s3 of ((hy, have_hot_y), s4) \<Rightarrow>
       (zero_cursor_wire\<lparr>cw_x := ucast x, cw_y := ucast y, cw_hot_x := ucast hx, cw_hot_y := ucast hy,
          cw_hot_from_property := wire_hot_measured have_hot_x have_hot_y\<rparr>, s4))"

text \<open>Exporting and mapping the cursor's buffer; the descriptor stays open with the mapping.\<close>

definition cursor_export :: "env \<Rightarrow> nat \<Rightarrow> nat \<Rightarrow> helper_srv \<Rightarrow> (obj \<times> int) option \<times> helper_srv" where
  "cursor_export env handle n s =
    (case sys_prime env handle s of
      (Inl e, s1) \<Rightarrow> (None, s1)
    | (Inr fd, s1) \<Rightarrow>
        (case sys_mmap env fd 0 n s1 of
          (Inl e, s2) \<Rightarrow> (None, sys_close fd s2)
        | (Inr p, s2) \<Rightarrow> (Some (p, fd), s2)))"

definition helper_repack :: "u32 \<Rightarrow> u32 \<Rightarrow> u32 \<Rightarrow> obj \<Rightarrow> obj \<Rightarrow> heap \<Rightarrow> heap option" where
  "helper_repack cw ch cstride mapped packed hp =
    loop32 ch (\<lambda>y hp. memcpy hp packed (unat y * unat cw * 4) mapped (unat y * unat cstride) (unat cw * 4)) hp"

definition cursor_serve :: "env \<Rightarrow> drm_fb2 \<Rightarrow> helper_cursor_wire \<Rightarrow> bool \<Rightarrow> helper_srv \<Rightarrow> int \<times> helper_srv" where
  "cursor_serve env fb2 meta extended s0 =
    (let cw = fb2_width fb2; ch = fb2_height fb2; cstride = fb2_pitches fb2 ! 0; chandle = fb2_handles fb2 ! 0;
         meta = meta\<lparr>cw_width := cw, cw_height := ch\<rparr> in
     if \<not> (cw \<le> 256 \<and> ch \<le> 256 \<and> cstride \<noteq> 0 \<and> cw * 4 \<le> cstride)
     then cursor_invisible meta extended (helper_gem_close chandle s0)
     else case cursor_export env chandle (unat cstride * unat ch) s0 of
       (None, s1) \<Rightarrow> cursor_invisible meta extended (helper_gem_close chandle s1)
     | (Some (mapped, prime_fd), s1) \<Rightarrow>
         (case dmabuf_sync_start env prime_fd s1 of (csync_started, s2) \<Rightarrow>
           let tight = unat cw * unat ch * 4;
               s3 = (case helper_repack cw ch cstride mapped (h_packed s2) (mem s2) of
                   None \<Rightarrow> s2\<lparr>faults := Suc (faults s2)\<rparr> | Some hp \<Rightarrow> s2\<lparr>mem := hp\<rparr>);
               s4 = (if csync_started then dmabuf_sync_end prime_fd s3 else s3);
               s5 = helper_gem_close chandle (sys_close prime_fd (sys_munmap mapped s4)) in
           (case send_cursor_meta (meta\<lparr>cw_visible := 1, cw_data_size := of_nat tight\<rparr>) extended s5 of (_, s6) \<Rightarrow>
             (0, snd (srv_send_object (h_packed s6) tight s6)))))"

definition cursor_and_send :: "env \<Rightarrow> u32 \<Rightarrow> bool \<Rightarrow> helper_srv \<Rightarrow> int \<times> helper_srv" where
  "cursor_and_send env target_crtc extended s0 =
    (let k = v_kms env (tick s0); s1 = step_clock s0 in
     case km_plane_res k of
       None \<Rightarrow> cursor_invisible zero_cursor_wire extended s1
     | Some planes \<Rightarrow>
         (case helper_cursor_plane k target_crtc planes of (cursor_fb, cursor_plane) \<Rightarrow>
           if cursor_fb = 0 then cursor_invisible zero_cursor_wire extended s1
           else case helper_placement env cursor_plane s1 of (meta, s2) \<Rightarrow>
             (case sys_getfb2 env cursor_fb s2 of
               (Inl e, s3) \<Rightarrow> cursor_invisible meta extended s3
             | (Inr fb2, s3) \<Rightarrow>
                 if fb2_handles fb2 ! 0 = 0 then cursor_invisible meta extended s3
                 else cursor_serve env fb2 meta extended s3)))"

section \<open>The framebuffer\<close>

definition helper_connector_crtc :: "kms \<Rightarrow> u32 \<Rightarrow> u32" where
  "helper_connector_crtc k connector_id =
    (case km_props k connector_id of
      Inl _ \<Rightarrow> 0
    | Inr props \<Rightarrow> (case prop_named ''CRTC_ID'' props of None \<Rightarrow> 0 | Some v \<Rightarrow> ucast v))"

fun helper_connector_of :: "kms \<Rightarrow> u32 \<Rightarrow> u32 list \<Rightarrow> u32" where
  "helper_connector_of k crtc [] = 0"
| "helper_connector_of k crtc (c # cs) =
    (case km_connector k c of
      None \<Rightarrow> helper_connector_of k crtc cs
    | Some conn \<Rightarrow>
        if cn_connection conn = 1 \<and> helper_connector_crtc k (cn_id conn) = crtc \<and> cn_id conn \<noteq> 0 then cn_id conn
        else helper_connector_of k crtc cs)"

definition helper_hdr_prop :: "kms \<Rightarrow> drm_prop \<Rightarrow> u32 \<times> u32 \<Rightarrow> u32 \<times> u32" where
  "helper_hdr_prop k prop hdr =
    (if pr_name prop = Inr ''HDR_OUTPUT_METADATA'' \<and> pr_value prop \<noteq> 0 then
       (case km_blob k (ucast (pr_value prop)) of
         Some blob \<Rightarrow>
           if hb_length_ok blob then
             (ucast (hb_eotf blob), if hb_max_cll blob \<noteq> 0 then ucast (hb_max_cll blob) else ucast (hb_max_mastering blob))
           else hdr
       | None \<Rightarrow> hdr)
     else hdr)"

definition read_hdr_metadata :: "env \<Rightarrow> u32 \<Rightarrow> helper_srv \<Rightarrow> (u32 \<times> u32) \<times> helper_srv" where
  "read_hdr_metadata env crtc s =
    (if crtc = 0 then ((0, 0), s)
     else
       let k = v_kms env (tick s) in
       (case km_res k of
         None \<Rightarrow> (0, 0)
       | Some res \<Rightarrow>
           (let conn_id = helper_connector_of k crtc (rs_connectors res) in
            if conn_id = 0 then (0, 0)
            else (case km_props k conn_id of Inl _ \<Rightarrow> (0, 0) | Inr props \<Rightarrow> fold (helper_hdr_prop k) props (0, 0))),
        step_clock s))"

definition PRIMARY_CAP :: nat where "PRIMARY_CAP = 32"

text \<open>The probe of one plane, and of the table; it stops at 32 ids.\<close>

definition probe_plane :: "u32 \<Rightarrow> drm_prop \<Rightarrow> u32 list \<Rightarrow> u32 list" where
  "probe_plane plane prop ids =
    (if pr_name prop = Inr ''type'' \<and> pr_value prop = 1 \<and> length ids < PRIMARY_CAP then ids @ [plane] else ids)"

fun probe_primary :: "kms \<Rightarrow> u32 list \<Rightarrow> u32 list \<Rightarrow> u32 list" where
  "probe_primary k [] ids = ids"
| "probe_primary k (p # ps) ids =
    (if length ids < PRIMARY_CAP then
       (case km_props k p of
         Inl _ \<Rightarrow> probe_primary k ps ids
       | Inr props \<Rightarrow> probe_primary k ps (fold (probe_plane p) props ids))
     else ids)"

definition plane_is_primary :: "env \<Rightarrow> u32 \<Rightarrow> helper_srv \<Rightarrow> bool \<times> helper_srv" where
  "plane_is_primary env plane_id s =
    (case h_primary_ids s of
      Some ids \<Rightarrow> (plane_id \<in> set ids, s)
    | None \<Rightarrow>
        let k = v_kms env (tick s);
            ids = (case km_plane_res k of None \<Rightarrow> [] | Some ps \<Rightarrow> probe_primary k ps []) in
        (plane_id \<in> set ids, step_clock (s\<lparr>h_primary_ids := Some ids\<rparr>)))"

text \<open>The plane bound to the CRTC, as the framebuffer and the CRTC it shows.\<close>

fun helper_scan_planes :: "env \<Rightarrow> kms \<Rightarrow> u32 \<Rightarrow> u32 list \<Rightarrow> u32 \<times> u32 \<Rightarrow> helper_srv \<Rightarrow> (u32 \<times> u32) \<times> helper_srv" where
  "helper_scan_planes env k target [] found s = (found, s)"
| "helper_scan_planes env k target (p # ps) found s =
    (case km_plane k p of
      None \<Rightarrow> helper_scan_planes env k target ps found s
    | Some plane \<Rightarrow>
        if target \<noteq> 0 \<and> pl_crtc_id plane \<noteq> target then helper_scan_planes env k target ps found s
        else if pl_fb_id plane \<noteq> 0 then
          (case plane_is_primary env (pl_id plane) s of (is_primary, s1) \<Rightarrow>
            if is_primary then ((pl_fb_id plane, pl_crtc_id plane), s1)
            else helper_scan_planes env k target ps (if fst found = 0 then (pl_fb_id plane, pl_crtc_id plane) else found) s1)
        else helper_scan_planes env k target ps found s)"

definition helper_transfer :: "env \<Rightarrow> nat \<Rightarrow> drm_fb2 \<Rightarrow> helper_srv \<Rightarrow> helper_srv" where
  "helper_transfer env gem fb2 s =
    (if v_transfer env (tick s) gem (fb2_width fb2) (fb2_height fb2) = 0 then step_clock (step_clock s) else step_clock s)"

definition detect_virgl :: "henv \<Rightarrow> helper_srv \<Rightarrow> helper_srv" where
  "detect_virgl hv s =
    (if h_virtio_detected s then s
     else
       let features = hv_3d_features hv (tick s);
           s1 = step_clock (s\<lparr>h_virtio_detected := True\<rparr>) in
       case features of None \<Rightarrow> s1 | Some f \<Rightarrow> if f \<noteq> 0 then s1\<lparr>h_virtio_virgl := True\<rparr> else s1)"

definition MAX_FB_BYTES :: nat where "MAX_FB_BYTES = 7680 * 4320 * 4"

definition helper_geometry_bad :: "drm_fb2 \<Rightarrow> bool" where
  "helper_geometry_bad fb2 \<longleftrightarrow> fb2_pitches fb2 ! 0 = 0 \<or> fb2_height fb2 = 0 \<or>
    MAX_FB_BYTES div unat (fb2_pitches fb2 ! 0) < unat (fb2_height fb2)"

definition grab_meta :: "env \<Rightarrow> henv \<Rightarrow> u32 \<Rightarrow> u32 \<Rightarrow> drm_fb2 \<Rightarrow> helper_srv \<Rightarrow> helper_grab_wire \<times> helper_srv" where
  "grab_meta env hv fb_id matched_crtc fb2 s =
    (case read_hdr_metadata env matched_crtc s of ((eotf, nits), s1) \<Rightarrow>
      let s2 = s1\<lparr>h_seq := h_seq s1 + 1\<rparr>; (sec, nsec) = hv_time hv (tick s2) in
      (zero_grab\<lparr>gw_width := fb2_width fb2, gw_height := fb2_height fb2, gw_stride := fb2_pitches fb2 ! 0,
         gw_format := fb2_format fb2, gw_fb_id := fb_id,
         gw_modifier := (if fb2_flag_modifiers fb2 then fb2_modifier fb2 else DRM_FORMAT_MOD_INVALID),
         gw_hdr_eotf := eotf, gw_hdr_max_nits := nits, gw_seq := h_seq s2,
         gw_timestamp_ms := sec * 1000 + nsec div 1000000\<rparr>, step_clock s2))"

text \<open>
  The log line of the pixel path reads three pixels. A mapping covers whole pages; a read outside
  them is a fault.
\<close>

definition page_up :: "nat \<Rightarrow> nat" where
  "page_up n = (n + 4095) div 4096 * 4096"

definition debug_indices :: "u32 \<Rightarrow> nat \<Rightarrow> nat list" where
  "debug_indices stride mapped_size =
    (let stride_px = stride div 4; clock = unat (94 * stride_px + 960); mid = unat (500 * stride_px + 960) in
     [if 960 < stride_px then 960 else 0] @ (if clock < mapped_size div 4 then [clock] else []) @
       (if mid < mapped_size div 4 then [mid] else []))"

definition debug_sample :: "u32 \<Rightarrow> nat \<Rightarrow> helper_srv \<Rightarrow> helper_srv" where
  "debug_sample stride mapped_size s0 =
    (let s = s0\<lparr>h_frame_num := h_frame_num s0 + 1\<rparr> in
     if (sint (h_frame_num s) \<le> 5 \<or> sint (h_frame_num s) mod 60 = 0) \<and>
       \<not> list_all (\<lambda>i. 4 * i + 4 \<le> page_up mapped_size) (debug_indices stride mapped_size)
     then s\<lparr>faults := Suc (faults s)\<rparr> else s)"

definition grab_pixels :: "env \<Rightarrow> int \<Rightarrow> nat \<Rightarrow> helper_grab_wire \<Rightarrow> nat \<Rightarrow> helper_srv \<Rightarrow> int \<times> helper_srv" where
  "grab_pixels env dev gem meta mapped_size s0 =
    (case sys_map_dumb env gem s0 of
      (None, s1) \<Rightarrow> send_error_errno s1
    | (Some off, s1) \<Rightarrow>
        (case sys_mmap env dev off mapped_size s1 of
          (Inl e, s2) \<Rightarrow> send_error_errno s2
        | (Inr mapped, s2) \<Rightarrow>
            let meta = meta\<lparr>gw_flags := 0, gw_data_size := of_nat mapped_size\<rparr> in
            (case srv_send_all (encode_grab meta) (debug_sample (gw_stride meta) mapped_size s2) of (ret, s3) \<Rightarrow>
              (case (if ret = 0 then srv_send_object mapped mapped_size s3 else (ret, s3)) of (ret, s4) \<Rightarrow>
                (ret, sys_munmap mapped s4)))))"

definition grab_serve :: "env \<Rightarrow> int \<Rightarrow> bool \<Rightarrow> nat \<Rightarrow> helper_grab_wire \<Rightarrow> nat \<Rightarrow> helper_srv \<Rightarrow> int \<times> helper_srv" where
  "grab_serve env dev is_virtio gem meta mapped_size s0 =
    (if gw_modifier meta \<noteq> 0 \<or> is_virtio then
       (case sys_prime env gem s0 of
         (Inr prime_fd, s1) \<Rightarrow>
           let flags = (if h_virtio_virgl s1 then HELPER_FLAG_HAS_DMABUF OR HELPER_FLAG_VIRGL else HELPER_FLAG_HAS_DMABUF) in
           (case srv_send_fd (encode_grab (meta\<lparr>gw_flags := flags, gw_data_size := 0\<rparr>)) s1 of (ret, s2) \<Rightarrow>
             (ret, sys_close prime_fd s2))
       | (Inl e, s1) \<Rightarrow>
           if h_virtio_virgl s1 then send_error s1 else grab_pixels env dev gem meta mapped_size s1)
     else grab_pixels env dev gem meta mapped_size s0)"

definition grab_and_send :: "env \<Rightarrow> henv \<Rightarrow> int \<Rightarrow> u32 \<Rightarrow> bool \<Rightarrow> helper_srv \<Rightarrow> int \<times> helper_srv" where
  "grab_and_send env hv dev target_crtc is_virtio s0 =
    (let k = v_kms env (tick s0); s1 = step_clock s0 in
     case km_plane_res k of
       None \<Rightarrow> send_error_errno s1
     | Some planes \<Rightarrow>
         (case helper_scan_planes env k target_crtc planes (0, 0) s1 of ((fb_id, matched_crtc), s2) \<Rightarrow>
           if fb_id = 0 then send_error s2
           else case sys_getfb2 env fb_id s2 of
             (Inl e, s3) \<Rightarrow> send_error_errno s3
           | (Inr fb2, s3) \<Rightarrow>
               let gem = fb2_handles fb2 ! 0 in
               if gem = 0 then send_error s3
               else if helper_geometry_bad fb2 then send_error (helper_gem_close gem s3)
               else
                 let s4 = (if is_virtio then detect_virgl hv (helper_transfer env gem fb2 s3) else s3);
                     mapped_size = unat (fb2_pitches fb2 ! 0) * unat (fb2_height fb2) in
                 (case grab_meta env hv fb_id matched_crtc fb2 s4 of (meta, s5) \<Rightarrow>
                   (case grab_serve env dev is_virtio gem meta mapped_size s5 of (ret, s6) \<Rightarrow>
                     (ret, helper_gem_close gem s6)))))"

end
