(* ===== verification/HelperOk.thy ===== *)
theory HelperOk
  imports HelperSrv
begin

text \<open>
  What the helper owes. debt states what it holds beyond a starting point and what it has sent
  since; every system call moves it by one entry. A reply to a command, and the whole loop, end
  with nothing held, and on a socket that keeps accepting every reply is a complete frame.
\<close>

section \<open>Debts\<close>

definition srv_ok :: "helper_srv \<Rightarrow> bool" where
  "srv_ok s \<longleftrightarrow> fresh_ok s \<and> h_packed s \<notin> live_maps s \<and> (\<exists>bs. mem s (h_packed s) = Some bs \<and> length bs = 262144)"

text \<open>A socket that accepts some bytes of every send, or interrupts it, but never fails.\<close>

definition flowing :: "tx_event list \<Rightarrow> bool" where
  "flowing tx \<longleftrightarrow> list_all (\<lambda>e. case e of Accept k \<Rightarrow> 0 < k | Tx_EINTR \<Rightarrow> True | Tx_Err \<Rightarrow> False) tx"

definition srv_core where
  "srv_core (s :: helper_srv) = (mem s, next_obj s, live_maps s, live_fds s, next_fd s, live_gems s, next_gem s, live_privs s,
    windows s, faults s, chan s, h_packed s, sv_out s)"

definition debt :: "helper_srv \<Rightarrow> obj set \<Rightarrow> int set \<Rightarrow> nat set \<Rightarrow> (int \<Rightarrow> nat) \<Rightarrow> (byte list \<times> nat) list \<Rightarrow> helper_srv \<Rightarrow> bool" where
  "debt s0 M F G W out s \<longleftrightarrow> srv_ok s \<and> h_packed s = h_packed s0 \<and> ch_rx (chan s) = ch_rx (chan s0) \<and>
    (flowing (ch_tx (chan s0)) \<longrightarrow> flowing (ch_tx (chan s))) \<and> sv_out s = sv_out s0 @ out \<and>
    live_maps s = live_maps s0 \<union> M \<and> M \<inter> live_maps s0 = {} \<and> live_fds s = live_fds s0 \<union> F \<and> F \<inter> live_fds s0 = {} \<and>
    live_gems s = live_gems s0 \<union> G \<and> G \<inter> live_gems s0 = {} \<and> live_privs s = live_privs s0 \<and>
    windows s = (\<lambda>fd. windows s0 fd + W fd) \<and> faults s = faults s0"

abbreviation (input) settled :: "helper_srv \<Rightarrow> (byte list \<times> nat) list \<Rightarrow> helper_srv \<Rightarrow> bool" where
  "settled s0 out s \<equiv> debt s0 {} {} {} (\<lambda>_. 0) out s"

lemma debt_refl [simp]: "srv_ok s \<Longrightarrow> settled s [] s"
  by (simp add: debt_def)

lemma debt_trans: "settled a o1 b \<Longrightarrow> debt b M F G W o2 c \<Longrightarrow> debt a M F G W (o1 @ o2) c"
  by (simp add: debt_def)

lemma settled_resources: "settled s out s' \<Longrightarrow> resources s' = resources s"
  by (simp add: debt_def resources_def)

lemma debt_core:
  assumes "debt s0 M F G W out s" "srv_core s' = srv_core s"
  shows "debt s0 M F G W out s'"
proof -
  have "mem s' = mem s" "next_obj s' = next_obj s" "live_maps s' = live_maps s" "live_fds s' = live_fds s" "next_fd s' = next_fd s"
    "live_gems s' = live_gems s" "next_gem s' = next_gem s" "live_privs s' = live_privs s" "windows s' = windows s"
    "faults s' = faults s" "chan s' = chan s" "h_packed s' = h_packed s" "sv_out s' = sv_out s"
    using assms(2) by (simp_all add: srv_core_def)
  note eqs = this
  then have "srv_ok s' = srv_ok s" by (simp add: srv_ok_def fresh_ok_def)
  then show ?thesis using assms(1) eqs by (simp add: debt_def)
qed

lemma core_clock [simp]: "srv_core (step_clock s) = srv_core s"
  by (simp add: srv_core_def step_clock_def)

lemma core_statics [simp]:
  "srv_core (s\<lparr>h_primary_ids := i\<rparr>) = srv_core s" "srv_core (s\<lparr>h_virtio_detected := d\<rparr>) = srv_core s"
  "srv_core (s\<lparr>h_virtio_virgl := v\<rparr>) = srv_core s" "srv_core (s\<lparr>h_seq := q\<rparr>) = srv_core s"
  "srv_core (s\<lparr>h_frame_num := n\<rparr>) = srv_core s"
  by (simp_all add: srv_core_def)

section \<open>Queries hold nothing\<close>

lemma core_hdr: "srv_core (snd (read_hdr_metadata env crtc s)) = srv_core s"
  by (simp add: read_hdr_metadata_def Let_def)

lemma core_primary: "srv_core (snd (plane_is_primary env p s)) = srv_core s"
  by (simp add: plane_is_primary_def Let_def split: option.split)

lemma core_scan: "srv_core (snd (helper_scan_planes env k target ps found s)) = srv_core s"
proof (induction env k target ps found s rule: helper_scan_planes.induct)
  case (2 env k target p ps found s)
  show ?case using 2 core_primary by (auto split: option.split prod.split) (metis snd_conv)+
qed simp

lemma core_virtio:
  "srv_core (helper_transfer env gem fb2 s) = srv_core s" "srv_core (detect_virgl hv s) = srv_core s"
  by (simp_all add: helper_transfer_def detect_virgl_def Let_def split: option.split)

lemma core_placement: "srv_core (snd (helper_placement env plane s)) = srv_core s"
  by (simp add: helper_placement_def srv_property_def split: prod.split)

lemma core_meta: "srv_core (snd (grab_meta env hv fb crtc fb2 s)) = srv_core s"
  using core_hdr[of env crtc s] by (cases "read_hdr_metadata env crtc s") (simp add: grab_meta_def Let_def split_beta)

section \<open>Sends\<close>

lemma send_loop_flowing:
  "flowing tx \<Longrightarrow> \<exists>tx'. wire_send_loop bs out tx = (True, out @ bs, tx') \<and> flowing tx'"
proof (induction bs out tx rule: wire_send_loop.induct)
  case (1 bs out tx)
  show ?case
  proof (cases "bs = [] \<or> tx = []")
    case True
    then show ?thesis using "1.prems" by (auto simp: wire_send_done wire_send_idle flowing_def)
  next
    case False
    then obtain e es where tx: "tx = e # es" and bs: "bs \<noteq> []" by (cases tx) auto
    have fl: "flowing es" using "1.prems" tx by (simp add: flowing_def)
    show ?thesis
    proof (cases e)
      case (Accept k)
      let ?n = "min k (length bs)"
      have k: "?n \<noteq> 0" using "1.prems" tx Accept bs by (simp add: flowing_def)
      obtain tx' where "wire_send_loop (drop ?n bs) (out @ take ?n bs) es = (True, (out @ take ?n bs) @ drop ?n bs, tx') \<and> flowing tx'"
        using "1.IH"(1)[OF bs tx, of ?n] k fl Accept by auto
      then show ?thesis using tx bs k Accept by (subst wire_send_loop.simps) simp
    next
      case Tx_EINTR
      then show ?thesis using "1.IH"(2)[OF bs tx] fl tx bs by (subst wire_send_loop.simps) simp
    next
      case Tx_Err
      then show ?thesis using "1.prems" tx by (simp add: flowing_def)
    qed
  qed
qed

lemma send_fd_flowing:
  "flowing tx \<Longrightarrow> meta \<noteq> [] \<Longrightarrow> \<exists>tx'. wire_send_fd meta tx = (True, meta, True, tx') \<and> flowing tx'"
proof (induction meta tx rule: wire_send_fd.induct)
  case (4 meta k es)
  let ?n = "min k (length meta)"
  have fl: "flowing es" "0 < ?n" using 4 by (auto simp: flowing_def)
  obtain tx' where "wire_send_all (drop ?n meta) es = (True, drop ?n meta, tx') \<and> flowing tx'"
    using send_loop_flowing[OF fl(1), of "drop ?n meta" "[]"] by (auto simp: wire_send_all_def)
  then show ?case using fl by (auto simp: Let_def)
qed (auto simp: flowing_def)

lemma srv_ok_chan [simp]: "srv_ok (s\<lparr>chan := c, sv_out := ps\<rparr>) = srv_ok s"
  by (simp add: srv_ok_def fresh_ok_def)

lemma debt_chan:
  assumes "debt s0 M F G W out s" "flowing (ch_tx (chan s)) \<longrightarrow> flowing tx"
  shows "debt s0 M F G W (out @ ps) (s\<lparr>chan := (chan s)\<lparr>ch_tx := tx\<rparr>, sv_out := sv_out s @ ps\<rparr>)"
  using assms by (simp add: debt_def)

lemma debt_send:
  assumes "debt s0 M F G W out s" "srv_send_all bs s = (r, s')"
  shows "\<exists>sent. debt s0 M F G W (out @ [(sent, 0)]) s' \<and> mem s' = mem s \<and> (flowing (ch_tx (chan s0)) \<longrightarrow> sent = bs \<and> r = 0)"
proof -
  obtain ok sent tx where w: "wire_send_all bs (ch_tx (chan s)) = (ok, sent, tx)" by (metis surj_pair)
  have f: "flowing (ch_tx (chan s)) \<longrightarrow> ok \<and> sent = bs \<and> flowing tx"
    using send_loop_flowing[of "ch_tx (chan s)" bs "[]"] w by (auto simp: wire_send_all_def)
  moreover have "flowing (ch_tx (chan s0)) \<longrightarrow> flowing (ch_tx (chan s))" using assms(1) by (simp add: debt_def)
  ultimately show ?thesis using assms(2) debt_chan[OF assms(1), of tx "[(sent, 0)]"]
    by (auto simp: srv_send_all_def w intro!: exI[of _ sent])
qed

lemma debt_send_fd:
  assumes "debt s0 M F G W out s" "srv_send_fd bs s = (r, s')" "bs \<noteq> []"
  shows "\<exists>sent k. debt s0 M F G W (out @ [(sent, k)]) s' \<and> (flowing (ch_tx (chan s0)) \<longrightarrow> sent = bs \<and> k = 1 \<and> r = 0)"
proof -
  obtain ok sent p tx where w: "wire_send_fd bs (ch_tx (chan s)) = (ok, sent, p, tx)" by (metis surj_pair)
  have f: "flowing (ch_tx (chan s)) \<longrightarrow> ok \<and> sent = bs \<and> p \<and> flowing tx"
    using send_fd_flowing[of "ch_tx (chan s)" bs] w assms(3) by auto
  moreover have "flowing (ch_tx (chan s0)) \<longrightarrow> flowing (ch_tx (chan s))" using assms(1) by (simp add: debt_def)
  ultimately show ?thesis using assms(2) debt_chan[OF assms(1), of tx "[(sent, if p then 1 else 0)]"]
    by (intro exI[of _ sent] exI[of _ "if p then 1 else 0 :: nat"]) (auto simp: srv_send_fd_def w)
qed

section \<open>System calls\<close>

lemma srv_fresh: "debt s0 M F G W out s \<Longrightarrow> fresh_ok s"
  by (simp add: debt_def srv_ok_def)

lemma debt_getfb2:
  assumes d: "settled s0 out s" and run: "sys_getfb2 env fb s = (Inr fb2, s')"
    and single: "\<forall>x. v_fb2 env (tick s) fb = Inr x \<longrightarrow> single_object x"
  shows "debt s0 {} {} (gem_set (fb2_handles fb2 ! 0)) (\<lambda>_. 0) out s'"
proof -
  obtain x where x: "v_fb2 env (tick s) fb = Inr x" using run by (auto simp: sys_getfb2_def Let_def split: sum.splits)
  have fr: "fresh_ok s'" using fresh_getfb2[OF srv_fresh[OF d], of env fb] by (simp add: run)
  let ?hs = "map (mint_handle (next_gem s)) (take 4 (fb2_handles x @ [0, 0, 0, 0]))"
  have hs: "fb2_handles fb2 = ?hs" "live_gems s' = live_gems s \<union> {h \<in> set ?hs. h \<noteq> 0}"
    using run x by (auto simp: sys_getfb2_def Let_def step_clock_def)
  have "\<forall>h \<in> set (take 4 (fb2_handles x)). h = 0 \<or> h = hd (fb2_handles x)" using single x by (simp add: single_object_def)
  then have m: "{h \<in> set ?hs. h \<noteq> 0} = gem_set (fb2_handles fb2 ! 0)" unfolding hs
    by (cases "fb2_handles x") (auto simp: gem_set_def mint_handle_def take_Cons' split: if_splits dest: in_set_takeD)
  have "h \<notin> live_gems s" if "h \<in> gem_set (fb2_handles fb2 ! 0)" for h
    using srv_fresh[OF d] that unfolding m[symmetric] by (fastforce simp: fresh_ok_def mint_handle_def split: if_splits)
  moreover have "mem s' = mem s" "live_maps s' = live_maps s" "live_fds s' = live_fds s" "live_privs s' = live_privs s"
    "windows s' = windows s" "faults s' = faults s" "chan s' = chan s" "h_packed s' = h_packed s" "sv_out s' = sv_out s"
    using run x by (auto simp: sys_getfb2_def Let_def step_clock_def)
  ultimately show ?thesis using d fr hs(2) unfolding m by (auto simp: debt_def srv_ok_def)
qed

lemma debt_getfb2_fail: "debt s0 M F G W out s \<Longrightarrow> sys_getfb2 env fb s = (Inl e, s') \<Longrightarrow> debt s0 M F G W out s'"
  using debt_core[of s0 M F G W out s s'] by (auto simp: sys_getfb2_def Let_def split: sum.splits)

lemma debt_prime:
  assumes d: "debt s0 M {} G W out s" and run: "sys_prime env h s = (Inr fd, s')"
  shows "debt s0 M {fd} G W out s' \<and> W fd = 0"
proof -
  have s': "fd = next_fd s" "s' = step_clock (s\<lparr>live_fds := insert (next_fd s) (live_fds s), next_fd := next_fd s + 1\<rparr>)"
    using run by (auto simp: sys_prime_def sys_mint_fd_def split: option.splits)
  have fr: "fresh_ok s'" using fresh_prime[OF srv_fresh[OF d], of env h] by (simp add: run)
  have "next_fd s \<notin> live_fds s" "windows s (next_fd s) = 0" using srv_fresh[OF d] by (auto simp: fresh_ok_def)
  then show ?thesis using d fr by (auto simp: debt_def srv_ok_def s' step_clock_def)
qed

lemma debt_prime_fail: "debt s0 M F G W out s \<Longrightarrow> sys_prime env h s = (Inl e, s') \<Longrightarrow> debt s0 M F G W out s'"
  using debt_core[of s0 M F G W out s s'] by (auto simp: sys_prime_def sys_mint_fd_def split: option.splits)

lemma packed_old: "srv_ok s \<Longrightarrow> h_packed s < next_obj s"
  unfolding srv_ok_def fresh_ok_def by (metis linorder_not_less option.distinct(1))

lemma debt_mmap:
  assumes d: "debt s0 {} F G W out s" and run: "sys_mmap env fd off n s = (Inr p, s')"
  shows "debt s0 {p} F G W out s' \<and> p \<noteq> h_packed s' \<and> mem s' (h_packed s') = mem s (h_packed s) \<and>
    (\<exists>bs. v_mmap env (tick s) fd off n = Inr bs \<and> mem s' p = Some (pad n bs))"
proof -
  obtain bs where s': "v_mmap env (tick s) fd off n = Inr bs" "p = next_obj s" "s' = step_clock (s\<lparr>mem := (mem s)(next_obj s \<mapsto> pad n bs),
      live_maps := insert (next_obj s) (live_maps s), next_obj := Suc (next_obj s)\<rparr>)"
    using run by (auto simp: sys_mmap_def split: sum.splits)
  have fr: "fresh_ok s'" using fresh_mmap[OF srv_fresh[OF d], of env fd off n] by (simp add: run)
  have "srv_ok s" using d by (simp add: debt_def)
  then have old: "h_packed s < next_obj s" by (rule packed_old)
  have "next_obj s \<notin> live_maps s" using srv_fresh[OF d] by (auto simp: fresh_ok_def)
  then show ?thesis using d fr old s'(1) by (auto simp: debt_def srv_ok_def s'(2,3) step_clock_def)
qed

lemma debt_mmap_fail: "debt s0 M F G W out s \<Longrightarrow> sys_mmap env fd off n s = (Inl e, s') \<Longrightarrow> debt s0 M F G W out s'"
  using debt_core[of s0 M F G W out s s'] by (auto simp: sys_mmap_def split: sum.splits)

lemma debt_map_dumb: "debt s0 M F G W out s \<Longrightarrow> sys_map_dumb env h s = (r, s') \<Longrightarrow> debt s0 M F G W out s'"
  using debt_core[of s0 M F G W out s s'] by (auto simp: sys_map_dumb_def)

lemma debt_close:
  assumes d: "debt s0 M {fd} G W out s"
  shows "debt s0 M {} G W out (sys_close fd s)"
proof -
  have l: "fd \<in> live_fds s" "fd \<notin> live_fds s0" "live_fds s - {fd} = live_fds s0" using d by (auto simp: debt_def)
  then have s': "sys_close fd s = s\<lparr>live_fds := live_fds s - {fd}\<rparr>" by (simp add: sys_close_def)
  have "fresh_ok (sys_close fd s)" by (rule fresh_close[OF srv_fresh[OF d]])
  then show ?thesis using d l unfolding s' by (auto simp: debt_def srv_ok_def)
qed

lemma debt_munmap:
  assumes d: "debt s0 {p} F G W out s"
  shows "debt s0 {} F G W out (sys_munmap p s)"
proof -
  have l: "p \<in> live_maps s" "live_maps s - {p} = live_maps s0" "p \<noteq> h_packed s" using d by (auto simp: debt_def srv_ok_def)
  then have s': "sys_munmap p s = s\<lparr>live_maps := live_maps s - {p}, mem := (mem s)(p := None)\<rparr>" by (simp add: sys_munmap_def)
  have "fresh_ok (sys_munmap p s)" by (rule fresh_munmap[OF srv_fresh[OF d]])
  then show ?thesis using d l unfolding s' by (auto simp: debt_def srv_ok_def)
qed

lemma debt_gem:
  assumes d: "debt s0 M F (gem_set h) W out s"
  shows "debt s0 M F {} W out (helper_gem_close h s)"
proof (cases "h = 0")
  case True
  then show ?thesis using d by (simp add: helper_gem_close_def gem_set_def)
next
  case False
  have l: "h \<in> live_gems s" "live_gems s - {h} = live_gems s0" using d False by (auto simp: debt_def gem_set_def)
  then have s': "helper_gem_close h s = s\<lparr>live_gems := live_gems s - {h}\<rparr>" using False by (simp add: helper_gem_close_def gem_close_def)
  have "fresh_ok (helper_gem_close h s)" using fresh_gem_close[OF srv_fresh[OF d], of h] False by (simp add: helper_gem_close_def)
  then show ?thesis using d l unfolding s' by (auto simp: debt_def srv_ok_def)
qed

lemma debt_sync:
  assumes d: "debt s0 M {fd} G (\<lambda>_. 0) out s" and run: "dmabuf_sync_start env fd s = (st, s')"
  shows "debt s0 M {fd} G (if st then (\<lambda>_. 0)(fd := 1) else (\<lambda>_. 0)) out s' \<and> mem s' = mem s"
proof -
  have fr: "fresh_ok s'" using fresh_sync_start[OF srv_fresh[OF d], of env fd] by (simp add: run)
  then show ?thesis using d run by (auto simp: debt_def srv_ok_def dmabuf_sync_start_def step_clock_def split: if_splits)
qed

lemma debt_sync_end:
  assumes d: "debt s0 M {fd} G (if st then (\<lambda>_. 0)(fd := 1) else (\<lambda>_. 0)) out s"
  shows "debt s0 M {fd} G (\<lambda>_. 0) out (if st then dmabuf_sync_end fd s else s)"
proof (cases st)
  case True
  have l: "fd \<in> live_fds s" "0 < windows s fd" using d True by (auto simp: debt_def)
  then have s': "dmabuf_sync_end fd s = s\<lparr>windows := (windows s)(fd := windows s fd - 1)\<rparr>" by (simp add: dmabuf_sync_end_def)
  have "fresh_ok (dmabuf_sync_end fd s)" by (rule fresh_sync_end[OF srv_fresh[OF d]])
  then show ?thesis using d True unfolding s' by (auto simp: debt_def srv_ok_def fun_eq_iff)
qed (use d in simp)

lemma debt_packed:
  assumes "debt s0 M F G W out s" "length bs = 262144"
  shows "debt s0 M F G W out (s\<lparr>mem := (mem s)(h_packed s \<mapsto> bs)\<rparr>)"
proof -
  have "srv_ok s" using assms(1) by (simp add: debt_def)
  then have "srv_ok (s\<lparr>mem := (mem s)(h_packed s \<mapsto> bs)\<rparr>)" using packed_old[of s] assms(2) by (auto simp: srv_ok_def fresh_ok_def)
  then show ?thesis using assms(1) by (simp add: debt_def)
qed

section \<open>What a reply looks like\<close>

text \<open>
  The messages of a reply with their descriptors, the header they carry and the pixels that follow.
  A frame is a descriptor with a header that announces no bytes, or a header that announces exactly
  the bytes after it; an all-zero header is a refusal.
\<close>

definition grab_reply :: "(byte list \<times> nat) list \<Rightarrow> helper_grab_wire \<Rightarrow> byte list \<Rightarrow> bool" where
  "grab_reply ps w px \<longleftrightarrow>
    ps = [(encode_grab w, 1)] \<and> px = [] \<and> gw_flags w AND HELPER_FLAG_HAS_DMABUF \<noteq> 0 \<and> gw_data_size w = 0 \<or>
    ps = [(encode_grab w, 0)] \<and> px = [] \<and> w = zero_grab \<or>
    ps = [(encode_grab w, 0), (px, 0)] \<and> gw_flags w = 0 \<and> 0 < length px \<and> length px = unat (gw_data_size w) \<and>
      length px = unat (gw_stride w) * unat (gw_height w) \<and> length px \<le> MAX_FB_BYTES"

definition cursor_header :: "bool \<Rightarrow> helper_cursor_wire \<Rightarrow> byte list" where
  "cursor_header extended w = (if extended then encode_cursor2 w else encode_cursor w)"

definition cursor_reply :: "bool \<Rightarrow> (byte list \<times> nat) list \<Rightarrow> helper_cursor_wire \<Rightarrow> byte list \<Rightarrow> bool" where
  "cursor_reply extended ps w px \<longleftrightarrow>
    ps = [(cursor_header extended w, 0)] \<and> px = [] \<and> cw_visible w = 0 \<and> cw_data_size w = 0 \<or>
    ps = [(cursor_header extended w, 0), (px, 0)] \<and> cw_visible w = 1 \<and> length px = unat (cw_data_size w) \<and>
      length px = unat (cw_width w) * unat (cw_height w) * 4 \<and> length px \<le> 262144"

text \<open>The pixels of a reply are bytes the helper mapped from its device.\<close>

definition mapped_bytes :: "env \<Rightarrow> int \<Rightarrow> byte list \<Rightarrow> bool" where
  "mapped_bytes env dev px \<longleftrightarrow> px = [] \<or> (\<exists>t off src. v_mmap env t dev off (length px) = Inr src \<and> px = pad (length px) src)"

definition grab_answer :: "env \<Rightarrow> int \<Rightarrow> (byte list \<times> nat) list \<Rightarrow> bool" where
  "grab_answer env dev ps \<longleftrightarrow> (\<exists>w px. grab_reply ps w px \<and> mapped_bytes env dev px)"

lemma grab_answer_empty: "grab_reply ps w [] \<Longrightarrow> grab_answer env dev ps"
  by (auto simp: grab_answer_def mapped_bytes_def)

section \<open>Grabs\<close>

lemma debt_error:
  assumes "debt s0 M F G W [] s"
  shows "\<exists>out. debt s0 M F G W out (snd (send_error s)) \<and> (flowing (ch_tx (chan s0)) \<longrightarrow> grab_reply out zero_grab [])"
    "\<exists>out. debt s0 M F G W out (snd (send_error_errno s)) \<and> (flowing (ch_tx (chan s0)) \<longrightarrow> grab_reply out zero_grab [])"
proof -
  obtain r s' where "srv_send_all (encode_grab zero_grab) s = (r, s')" by fastforce
  then show "\<exists>out. debt s0 M F G W out (snd (send_error s)) \<and> (flowing (ch_tx (chan s0)) \<longrightarrow> grab_reply out zero_grab [])"
    using debt_send[OF assms] by (fastforce simp: send_error_def grab_reply_def)
  moreover have "send_error_errno s = send_error s" by (simp add: send_error_errno_def send_error_def)
  ultimately show "\<exists>out. debt s0 M F G W out (snd (send_error_errno s)) \<and> (flowing (ch_tx (chan s0)) \<longrightarrow> grab_reply out zero_grab [])"
    by simp
qed

lemma core_debug:
  assumes "unat stride \<le> n" "0 < n"
  shows "srv_core (debug_sample stride n s) = srv_core s"
proof -
  have up: "n \<le> page_up n" "4 \<le> page_up n" using assms(2) by (simp_all add: page_up_def)
  have "4 * (960 :: nat) + 4 \<le> unat stride" if "960 < stride div 4"
  proof -
    have "960 < unat stride div 4" using that by (simp add: word_less_nat_alt unat_div)
    then show ?thesis by linarith
  qed
  moreover have "4 * i + 4 \<le> n" if "i < n div 4" for i using that by linarith
  ultimately have "list_all (\<lambda>i. 4 * i + 4 \<le> page_up n) (debug_indices stride n)"
    using up assms(1) by (fastforce simp: debug_indices_def Let_def)
  then show ?thesis by (simp add: debug_sample_def Let_def)
qed

lemma debug_mem: "mem (debug_sample stride n s) = mem s"
  by (simp add: debug_sample_def Let_def)

lemma debt_grab_pixels:
  assumes d: "debt s0 {} {} G (\<lambda>_. 0) [] s" and run: "grab_pixels env dev gem meta n s = (r, s')"
    and n: "n = unat (gw_stride meta) * unat (gw_height meta)" "0 < n" "n \<le> MAX_FB_BYTES"
  shows "\<exists>out. debt s0 {} {} G (\<lambda>_. 0) out s' \<and> (flowing (ch_tx (chan s0)) \<longrightarrow> grab_answer env dev out)"
proof -
  obtain off s1 where md: "sys_map_dumb env gem s = (off, s1)" by fastforce
  note d1 = debt_map_dumb[OF d md]
  show ?thesis
  proof (cases off)
    case None
    then have "s' = snd (send_error_errno s1)" using run md by (simp add: grab_pixels_def)
    then show ?thesis using debt_error(2)[OF d1] grab_answer_empty by blast
  next
    case (Some o1)
    obtain m s2 where mm: "sys_mmap env dev o1 n s1 = (m, s2)" by fastforce
    show ?thesis
    proof (cases m)
      case (Inl e)
      then have "s' = snd (send_error_errno s2)" using run md Some mm by (simp add: grab_pixels_def)
      then show ?thesis using debt_error(2)[OF debt_mmap_fail[OF d1 mm[unfolded Inl]]] grab_answer_empty by blast
    next
      case (Inr p)
      let ?w = "meta\<lparr>gw_flags := 0, gw_data_size := of_nat n\<rparr>"
      obtain bs where M: "debt s0 {p} {} G (\<lambda>_. 0) [] s2" "mem s2 p = Some (pad n bs)" "v_mmap env (tick s1) dev o1 n = Inr bs"
        using debt_mmap[OF d1 mm[unfolded Inr]] by blast
      have "0 < unat (gw_height meta)" using n by (metis gr0I mult_0_right)
      then have le: "unat (gw_stride meta) \<le> n" unfolding n(1) by simp
      let ?d = "debug_sample (gw_stride meta) n s2"
      have M3: "debt s0 {p} {} G (\<lambda>_. 0) [] ?d" "mem ?d p = Some (pad n bs)"
        using debt_core[OF M(1) core_debug[OF le n(2)]] M(2) by (simp_all add: debug_mem)
      obtain r1 s3 where s1: "srv_send_all (encode_grab ?w) ?d = (r1, s3)" by fastforce
      obtain sent where S: "debt s0 {p} {} G (\<lambda>_. 0) [(sent, 0)] s3" "mem s3 = mem ?d"
        "flowing (ch_tx (chan s0)) \<longrightarrow> sent = encode_grab ?w \<and> r1 = 0" using debt_send[OF M3(1) s1] by auto
      have rdp: "rd (mem s3) p 0 n = Some (pad n bs)" using S(2) M3(2) by (simp add: rd_def)
      obtain r2 s4 where s2: "srv_send_all (pad n bs) s3 = (r2, s4)" by fastforce
      obtain sent2 where T: "debt s0 {p} {} G (\<lambda>_. 0) [(sent, 0), (sent2, 0)] s4"
        "flowing (ch_tx (chan s0)) \<longrightarrow> sent2 = pad n bs \<and> r2 = 0" using debt_send[OF S(1) s2] by auto
      have s': "s' = sys_munmap p (if r1 = 0 then s4 else s3)"
        using run s1 s2 rdp by (simp add: grab_pixels_def md Some mm Inr srv_send_object_def split: if_splits)
      have "unat (of_nat n :: u32) = n" using n(3) by (simp add: MAX_FB_BYTES_def unat_of_nat)
      then have "grab_reply [(encode_grab ?w, 0), (pad n bs, 0)] ?w (pad n bs)"
        using n by (simp add: grab_reply_def)
      moreover have "mapped_bytes env dev (pad n bs)" using M(3) by (auto simp: mapped_bytes_def)
      ultimately have "grab_answer env dev [(encode_grab ?w, 0), (pad n bs, 0)]" unfolding grab_answer_def by blast
      then show ?thesis
        using s' debt_munmap[OF S(1)] debt_munmap[OF T(1)] S(3) T(2) by (cases "r1 = 0") auto
    qed
  qed
qed

lemma encode_grab_nonempty: "encode_grab w \<noteq> []"
  using decode_encode_grab(2)[of w] by auto

lemma debt_grab_serve:
  assumes d: "debt s0 {} {} G (\<lambda>_. 0) [] s" and run: "grab_serve env dev vio gem meta n s = (r, s')"
    and n: "n = unat (gw_stride meta) * unat (gw_height meta)" "0 < n" "n \<le> MAX_FB_BYTES"
  shows "\<exists>out. debt s0 {} {} G (\<lambda>_. 0) out s' \<and> (flowing (ch_tx (chan s0)) \<longrightarrow> grab_answer env dev out)"
proof (cases "gw_modifier meta \<noteq> 0 \<or> vio")
  case True
  obtain x s1 where pr: "sys_prime env gem s = (x, s1)" by fastforce
  show ?thesis
  proof (cases x)
    case (Inl e)
    note d1 = debt_prime_fail[OF d pr[unfolded Inl]]
    show ?thesis
    proof (cases "h_virtio_virgl s1")
      case v: True
      then have "s' = snd (send_error s1)" using run True pr Inl by (simp add: grab_serve_def)
      then show ?thesis using debt_error(1)[OF d1] grab_answer_empty by blast
    next
      case False
      then have "grab_pixels env dev gem meta n s1 = (r, s')" using run True pr Inl by (simp add: grab_serve_def)
      then show ?thesis by (rule debt_grab_pixels[OF d1 _ n])
    qed
  next
    case (Inr fd)
    have d1: "debt s0 {} {fd} G (\<lambda>_. 0) [] s1" using debt_prime[OF d pr[unfolded Inr]] by simp
    let ?f = "if h_virtio_virgl s1 then HELPER_FLAG_HAS_DMABUF OR HELPER_FLAG_VIRGL else HELPER_FLAG_HAS_DMABUF"
    let ?w = "meta\<lparr>gw_flags := ?f, gw_data_size := 0\<rparr>"
    obtain r1 s2 where sf: "srv_send_fd (encode_grab ?w) s1 = (r1, s2)" by fastforce
    obtain sent k where S: "debt s0 {} {fd} G (\<lambda>_. 0) [(sent, k)] s2" "flowing (ch_tx (chan s0)) \<longrightarrow> sent = encode_grab ?w \<and> k = 1"
      using debt_send_fd[OF d1 sf encode_grab_nonempty] by auto
    have "s' = sys_close fd s2" using run True pr Inr sf by (simp add: grab_serve_def Let_def)
    moreover have "grab_reply [(encode_grab ?w, 1)] ?w []"
      by (simp add: grab_reply_def HELPER_FLAG_HAS_DMABUF_def HELPER_FLAG_VIRGL_def)
    ultimately show ?thesis using debt_close[OF S(1)] S(2) grab_answer_empty by blast
  qed
next
  case False
  then have "grab_pixels env dev gem meta n s = (r, s')" using run by (simp add: grab_serve_def)
  then show ?thesis by (rule debt_grab_pixels[OF d _ n])
qed

lemma geometry_ok_D:
  assumes "\<not> helper_geometry_bad fb2"
  shows "0 < unat (fb2_pitches fb2 ! 0) * unat (fb2_height fb2)" "unat (fb2_pitches fb2 ! 0) * unat (fb2_height fb2) \<le> MAX_FB_BYTES"
proof -
  have p: "0 < unat (fb2_pitches fb2 ! 0)" "0 < unat (fb2_height fb2)" using assms by (simp_all add: helper_geometry_bad_def unat_gt_0)
  then show "0 < unat (fb2_pitches fb2 ! 0) * unat (fb2_height fb2)" by simp
  have "unat (fb2_height fb2) \<le> MAX_FB_BYTES div unat (fb2_pitches fb2 ! 0)" using assms by (simp add: helper_geometry_bad_def)
  then show "unat (fb2_pitches fb2 ! 0) * unat (fb2_height fb2) \<le> MAX_FB_BYTES" using p(1) by (simp add: less_eq_div_iff_mult_less_eq mult.commute)
qed

lemma grab_meta_geometry:
  "grab_meta env hv fb crtc fb2 s = (w, s') \<Longrightarrow> gw_stride w = fb2_pitches fb2 ! 0 \<and> gw_height w = fb2_height fb2"
  by (auto simp: grab_meta_def Let_def split: prod.splits)

lemma grab_and_send_ok:
  assumes ok: "srv_ok s" and single: "\<forall>t fb x. v_fb2 env t fb = Inr x \<longrightarrow> single_object x"
    and run: "grab_and_send env hv dev crtc vio s = (r, s')"
  shows "\<exists>out. settled s out s' \<and> (flowing (ch_tx (chan s)) \<longrightarrow> grab_answer env dev out)"
proof -
  have d1: "settled s [] (step_clock s)" by (rule debt_core[OF debt_refl[OF ok]]) simp
  note run1 = run[unfolded grab_and_send_def Let_def]
  show ?thesis
  proof (cases "km_plane_res (v_kms env (tick s))")
    case None
    then have "s' = snd (send_error_errno (step_clock s))" using run1 by simp
    then show ?thesis using debt_error(2)[OF d1] grab_answer_empty by blast
  next
    case (Some ps)
    obtain fb mc s2 where sc: "helper_scan_planes env (v_kms env (tick s)) crtc ps (0, 0) (step_clock s) = ((fb, mc), s2)"
      by (metis surj_pair)
    have d2: "settled s [] s2" using debt_core[OF d1] core_scan[of env _ crtc ps "(0, 0)" "step_clock s"] sc by (metis snd_conv)
    note run2 = run1[unfolded Some option.case sc prod.case]
    obtain x s3 where gf: "sys_getfb2 env fb s2 = (x, s3)" by fastforce
    show ?thesis
    proof (cases "fb = 0")
      case True
      then have "s' = snd (send_error s2)" using run2 by simp
      then show ?thesis using debt_error(1)[OF d2] grab_answer_empty by blast
    next
      case fb: False
      note run3 = run2[unfolded if_not_P[OF fb] gf prod.case]
      show ?thesis
      proof (cases x)
        case (Inl e)
        then have "s' = snd (send_error_errno s3)" using run3 by simp
        then show ?thesis using debt_error(2)[OF debt_getfb2_fail[OF d2 gf[unfolded Inl]]] grab_answer_empty by blast
      next
        case (Inr fb2)
        let ?g = "fb2_handles fb2 ! 0"
        have d3: "debt s {} {} (gem_set ?g) (\<lambda>_. 0) [] s3" by (rule debt_getfb2[OF d2 gf[unfolded Inr]]) (use single in blast)
        note run4 = run3[unfolded Inr sum.case]
        consider (zero) "?g = 0" | (bad) "?g \<noteq> 0" "helper_geometry_bad fb2" | (go) "?g \<noteq> 0" "\<not> helper_geometry_bad fb2" by blast
        then show ?thesis
        proof cases
          case zero
          then have "s' = snd (send_error s3)" using run4 by simp
          moreover have "settled s [] s3" using d3 zero by (simp add: gem_set_def)
          ultimately show ?thesis using debt_error(1) grab_answer_empty by blast
        next
          case bad
          then have "s' = snd (send_error (helper_gem_close ?g s3))" using run4 by simp
          then show ?thesis using debt_error(1)[OF debt_gem[OF d3]] grab_answer_empty by blast
        next
          case go
          let ?s4 = "if vio then detect_virgl hv (helper_transfer env ?g fb2 s3) else s3"
          have d4: "debt s {} {} (gem_set ?g) (\<lambda>_. 0) [] ?s4" by (rule debt_core[OF d3]) (simp add: core_virtio)
          obtain w s5 where gm: "grab_meta env hv fb mc fb2 ?s4 = (w, s5)" by fastforce
          have d5: "debt s {} {} (gem_set ?g) (\<lambda>_. 0) [] s5" using debt_core[OF d4] core_meta[of env hv fb mc fb2 ?s4] gm by (metis snd_conv)
          let ?n = "unat (fb2_pitches fb2 ! 0) * unat (fb2_height fb2)"
          obtain r6 s6 where gs: "grab_serve env dev vio ?g w ?n s5 = (r6, s6)" by fastforce
          note g = grab_meta_geometry[OF gm] geometry_ok_D[OF go(2)]
          obtain out where O: "debt s {} {} (gem_set ?g) (\<lambda>_. 0) out s6" "flowing (ch_tx (chan s)) \<longrightarrow> grab_answer env dev out"
            using debt_grab_serve[OF d5 gs] g by auto
          have "s' = helper_gem_close ?g s6" using run4 go gm gs by simp
          then show ?thesis using debt_gem[OF O(1)] O(2) by blast
        qed
      qed
    qed
  qed
qed

section \<open>Cursors\<close>

lemma debt_invisible:
  assumes d: "debt s0 M F G W [] s" and w: "cw_visible w = 0" "cw_data_size w = 0"
  shows "\<exists>out. debt s0 M F G W out (snd (cursor_invisible w ext s)) \<and> (flowing (ch_tx (chan s0)) \<longrightarrow> cursor_reply ext out w [])"
proof -
  obtain r s' where "srv_send_all (cursor_header ext w) s = (r, s')" by fastforce
  then show ?thesis using debt_send[OF d] w
    by (fastforce simp: cursor_invisible_def send_cursor_meta_def cursor_header_def cursor_reply_def)
qed

lemma repack_rows:
  assumes geo: "unat cw \<le> 256" "unat ch \<le> 256" "unat cw * 4 \<le> unat S"
    and src: "hp p = Some cs" "length cs = unat S * unat ch" and dst: "hp d = Some cd" "length cd = 262144" "d \<noteq> p"
  shows "\<exists>bs. helper_repack cw ch S p d hp = Some (hp(d \<mapsto> bs)) \<and> length bs = 262144 \<and>
    tight_image cs (take (unat cw * unat ch * 4) bs) (unat cw) (unat ch) (unat S)"
proof -
  let ?w = "unat cw" and ?h = "unat ch" and ?S = "unat S"
  let ?row = "\<lambda>y. take (?w * 4) (drop (y * ?S) cs)"
  have b: "y * ?S + ?w * 4 \<le> length cs" if "y < ?h" for y
    using mult_le_mono1[of "Suc y" ?h ?S] that geo(3) src(2) by (simp add: mult.commute)
  have "?h * (?w * 4) \<le> 256 * (256 * 4)" using geo by (intro mult_le_mono) simp_all
  then have m: "?h * (?w * 4) \<le> length cd" using dst(2) by simp
  have bd: "y * (?w * 4) + ?w * 4 \<le> length cd" if "y < ?h" for y
    using mult_le_mono1[of "Suc y" ?h "?w * 4"] that m by simp
  have len: "length (?row y) = ?w * 4" if "y < ?h" for y using b[OF that] by simp
  have same: "hp(d \<mapsto> cd) = hp" using dst(1) by auto
  let ?bs = "patch_rows cd (?w * 4) ?row ?h"
  have "loop ?h (\<lambda>y hp. memcpy hp d (unat (of_nat y :: u32) * ?w * 4) p (unat (of_nat y :: u32) * ?S) (?w * 4)) (hp(d \<mapsto> cd)) =
    Some (hp(d \<mapsto> ?bs))"
  proof (rule frame_loop[OF refl m order.refl len])
    fix y and c' :: "byte list" assume y: "y < ?h" and c': "length c' = length cd"
    have u: "unat (of_nat y :: u32) = y" using y unat_u32_bound[of ch] by (simp add: unat_of_nat)
    show "memcpy (hp(d \<mapsto> c')) d (unat (of_nat y :: u32) * ?w * 4) p (unat (of_nat y :: u32) * ?S) (?w * 4) =
      Some (hp(d \<mapsto> patch c' (y * (?w * 4)) (?row y)))"
      using b[OF y] bd[OF y] c' src(1) dst(3) unfolding u
      by (simp add: memcpy_distinct rd_in_bounds wr_in_bounds mult.assoc)
  qed
  then have run: "helper_repack cw ch S p d hp = Some (hp(d \<mapsto> ?bs))" unfolding helper_repack_def loop32_def same .
  note props = patch_rows_props[of ?h ?row "?w * 4" "?w * 4" cd, OF len order.refl m]
  have "take (?w * ?h * 4) ?bs ! (y * (?w * 4) + j) = cs ! (y * ?S + j)" if "y < ?h" "j < ?w * 4" for y j
  proof -
    have "y * (?w * 4) + j < ?w * ?h * 4"
      using that mult_le_mono1[of "Suc y" ?h "?w * 4"] by (simp add: mult.commute mult.left_commute)
    moreover have "?bs ! (y * (?w * 4) + j) = ?row y ! j" using props that by blast
    ultimately show ?thesis using that b[OF that(1)] by simp
  qed
  moreover have "length ?bs = 262144" using props dst(2) by simp
  ultimately have "length ?bs = 262144 \<and> tight_image cs (take (?w * ?h * 4) ?bs) ?w ?h ?S"
    using m dst(2) by (simp add: tight_image_def mult_ac)
  then show ?thesis using run by blast
qed

lemma debt_cursor_export:
  assumes d: "debt s0 {} {} G (\<lambda>_. 0) out s" and run: "cursor_export env h n s = (x, s')"
  shows "case x of None \<Rightarrow> debt s0 {} {} G (\<lambda>_. 0) out s'
    | Some (p, fd) \<Rightarrow> debt s0 {p} {fd} G (\<lambda>_. 0) out s' \<and> p \<noteq> h_packed s' \<and> (\<exists>bs. mem s' p = Some (pad n bs))"
proof -
  obtain y s1 where pr: "sys_prime env h s = (y, s1)" by fastforce
  show ?thesis
  proof (cases y)
    case (Inl e)
    then show ?thesis using run pr debt_prime_fail[OF d pr[unfolded Inl]] by (auto simp: cursor_export_def)
  next
    case (Inr fd)
    have d1: "debt s0 {} {fd} G (\<lambda>_. 0) out s1" using debt_prime[OF d pr[unfolded Inr]] by simp
    obtain z s2 where mm: "sys_mmap env fd 0 n s1 = (z, s2)" by fastforce
    show ?thesis
    proof (cases z)
      case (Inl e)
      then show ?thesis using run pr Inr mm debt_close[OF debt_mmap_fail[OF d1 mm[unfolded Inl]]] by (auto simp: cursor_export_def)
    next
      case Inr2: (Inr p)
      then show ?thesis using run pr Inr mm debt_mmap[OF d1 mm[unfolded Inr2]] by (auto simp: cursor_export_def)
    qed
  qed
qed

lemma debt_cursor_serve:
  assumes d: "debt s0 {} {} (gem_set (fb2_handles fb2 ! 0)) (\<lambda>_. 0) [] s" and run: "cursor_serve env fb2 w ext s = (r, s')"
    and w: "cw_visible w = 0" "cw_data_size w = 0"
  shows "\<exists>out. settled s0 out s' \<and> (flowing (ch_tx (chan s0)) \<longrightarrow> (\<exists>w px. cursor_reply ext out w px))"
proof -
  let ?cw = "fb2_width fb2" and ?ch = "fb2_height fb2" and ?S = "fb2_pitches fb2 ! 0" and ?g = "fb2_handles fb2 ! 0"
  let ?w = "w\<lparr>cw_width := ?cw, cw_height := ?ch\<rparr>"
  have w': "cw_visible ?w = 0" "cw_data_size ?w = 0" using w by simp_all
  show ?thesis
  proof (cases "?cw \<le> 256 \<and> ?ch \<le> 256 \<and> ?S \<noteq> 0 \<and> ?cw * 4 \<le> ?S")
    case False
    then have "s' = snd (cursor_invisible ?w ext (helper_gem_close ?g s))" using run by (auto simp: cursor_serve_def Let_def)
    then show ?thesis using debt_invisible[OF debt_gem[OF d] w', of ext] by blast
  next
    case True
    obtain x s1 where ex: "cursor_export env ?g (unat ?S * unat ?ch) s = (x, s1)" by fastforce
    note E = debt_cursor_export[OF d ex]
    show ?thesis
    proof (cases x)
      case None
      then have "s' = snd (cursor_invisible ?w ext (helper_gem_close ?g s1))" using run True ex by (simp add: cursor_serve_def Let_def)
      moreover have "debt s0 {} {} (gem_set ?g) (\<lambda>_. 0) [] s1" using E None by simp
      ultimately show ?thesis using debt_invisible[OF debt_gem w', of s0 "{}" "{}" ?g] by blast
    next
      case (Some pf)
      obtain p fd where pf: "pf = (p, fd)" by fastforce
      obtain cs where d1: "debt s0 {p} {fd} (gem_set ?g) (\<lambda>_. 0) [] s1" "p \<noteq> h_packed s1" "mem s1 p = Some (pad (unat ?S * unat ?ch) cs)"
        using E Some pf by auto
      obtain st s2 where ss: "dmabuf_sync_start env fd s1 = (st, s2)" by fastforce
      let ?W = "if st then (\<lambda>_. 0)(fd := 1) else (\<lambda>_. 0 :: nat)"
      have d2: "debt s0 {p} {fd} (gem_set ?g) ?W [] s2" "mem s2 = mem s1" using debt_sync[OF d1(1) ss] by simp_all
      have hp: "h_packed s2 = h_packed s1" using d1(1) d2(1) by (simp add: debt_def)
      have "srv_ok s2" using d2(1) by (simp add: debt_def)
      then obtain cd where cd: "mem s2 (h_packed s2) = Some cd" "length cd = 262144" by (auto simp: srv_ok_def)
      have geo: "unat ?cw \<le> 256" "unat ?ch \<le> 256" "unat ?cw * 4 \<le> unat ?S"
      proof -
        show 1: "unat ?cw \<le> 256" "unat ?ch \<le> 256" using True by (simp_all add: word_le_nat_alt)
        have "unat (?cw * 4) = unat ?cw * 4" using 1 by (subst unat_mult_small) simp_all
        then show "unat ?cw * 4 \<le> unat ?S" using True by (simp add: word_le_nat_alt)
      qed
      have p2: "mem s2 p = Some (pad (unat ?S * unat ?ch) cs)" "h_packed s2 \<noteq> p" using d1 d2(2) hp by simp_all
      obtain bs where bs: "helper_repack ?cw ?ch ?S p (h_packed s2) (mem s2) = Some ((mem s2)(h_packed s2 \<mapsto> bs))" "length bs = 262144"
        using repack_rows[OF geo p2(1) length_pad cd p2(2)] by blast
      let ?s3 = "s2\<lparr>mem := (mem s2)(h_packed s2 \<mapsto> bs)\<rparr>"
      let ?s4 = "if st then dmabuf_sync_end fd ?s3 else ?s3"
      let ?s5 = "helper_gem_close ?g (sys_close fd (sys_munmap p ?s4))"
      have d3: "debt s0 {p} {fd} (gem_set ?g) ?W [] ?s3" by (rule debt_packed[OF d2(1) bs(2)])
      have d5: "settled s0 [] ?s5" by (rule debt_gem[OF debt_close[OF debt_munmap[OF debt_sync_end[OF d3]]]])
      have m5: "mem ?s5 (h_packed ?s5) = Some bs" using p2(2)
        by (simp add: helper_gem_close_def gem_close_def sys_close_def sys_munmap_def dmabuf_sync_end_def)
      let ?n = "unat ?cw * unat ?ch * 4"
      let ?w2 = "?w\<lparr>cw_visible := 1, cw_data_size := of_nat ?n\<rparr>"
      have n: "?n \<le> 262144" using mult_le_mono[OF geo(1,2)] by linarith
      obtain r6 s6 where sm: "srv_send_all (cursor_header ext ?w2) ?s5 = (r6, s6)" by fastforce
      obtain sent where S: "settled s0 [(sent, 0)] s6" "mem s6 = mem ?s5" "flowing (ch_tx (chan s0)) \<longrightarrow> sent = cursor_header ext ?w2"
        using debt_send[OF d5 sm] by auto
      have h6: "h_packed s6 = h_packed ?s5" using S(1) d5 by (simp add: debt_def)
      have rdp: "rd (mem s6) (h_packed s6) 0 ?n = Some (take ?n bs)" using S(2) m5 h6 n bs(2) by (simp add: rd_def)
      obtain r7 s7 where so: "srv_send_all (take ?n bs) s6 = (r7, s7)" by fastforce
      obtain sent2 where T: "settled s0 [(sent, 0), (sent2, 0)] s7" "flowing (ch_tx (chan s0)) \<longrightarrow> sent2 = take ?n bs"
        using debt_send[OF S(1) so] by auto
      have "s' = s7" using run True ex Some pf ss bs(1) sm so rdp
        by (simp add: cursor_serve_def Let_def send_cursor_meta_def cursor_header_def srv_send_object_def split: if_splits)
      moreover have "unat (of_nat ?n :: u32) = ?n" using n by (simp only: unat_of_nat) simp
      then have "cursor_reply ext [(cursor_header ext ?w2, 0), (take ?n bs, 0)] ?w2 (take ?n bs)"
        using n bs(2) by (simp add: cursor_reply_def)
      ultimately show ?thesis using T S(3) by metis
    qed
  qed
qed

lemma cursor_and_send_ok:
  assumes ok: "srv_ok s" and single: "\<forall>t fb x. v_fb2 env t fb = Inr x \<longrightarrow> single_object x"
    and run: "cursor_and_send env crtc ext s = (r, s')"
  shows "\<exists>out. settled s out s' \<and> (flowing (ch_tx (chan s)) \<longrightarrow> (\<exists>w px. cursor_reply ext out w px))"
proof -
  let ?k = "v_kms env (tick s)"
  have d1: "settled s [] (step_clock s)" by (rule debt_core[OF debt_refl[OF ok]]) simp
  have z: "cw_visible zero_cursor_wire = 0" "cw_data_size zero_cursor_wire = 0" by (simp_all add: zero_cursor_wire_def)
  note run1 = run[unfolded cursor_and_send_def Let_def]
  show ?thesis
  proof (cases "km_plane_res ?k")
    case None
    then have "s' = snd (cursor_invisible zero_cursor_wire ext (step_clock s))" using run1 by simp
    then show ?thesis using debt_invisible[OF d1 z, of ext] by blast
  next
    case (Some ps)
    obtain fb pl where cp: "helper_cursor_plane ?k crtc ps = (fb, pl)" by fastforce
    note run2 = run1[unfolded Some option.case cp prod.case]
    show ?thesis
    proof (cases "fb = 0")
      case True
      then have "s' = snd (cursor_invisible zero_cursor_wire ext (step_clock s))" using run2 by simp
      then show ?thesis using debt_invisible[OF d1 z, of ext] by blast
    next
      case fb: False
      obtain w s2 where pm: "helper_placement env pl (step_clock s) = (w, s2)" by fastforce
      have d2: "settled s [] s2" using debt_core[OF d1] core_placement[of env pl "step_clock s"] pm by (metis snd_conv)
      have w: "cw_visible w = 0" "cw_data_size w = 0" using pm z by (auto simp: helper_placement_def split: prod.splits)
      obtain x s3 where gf: "sys_getfb2 env fb s2 = (x, s3)" by fastforce
      note run3 = run2[unfolded if_not_P[OF fb] pm gf prod.case]
      show ?thesis
      proof (cases x)
        case (Inl e)
        then have "s' = snd (cursor_invisible w ext s3)" using run3 by simp
        then show ?thesis using debt_invisible[OF debt_getfb2_fail[OF d2 gf[unfolded Inl]] w, of ext] by blast
      next
        case (Inr fb2)
        have d3: "debt s {} {} (gem_set (fb2_handles fb2 ! 0)) (\<lambda>_. 0) [] s3" by (rule debt_getfb2[OF d2 gf[unfolded Inr]]) (use single in blast)
        show ?thesis
        proof (cases "fb2_handles fb2 ! 0 = 0")
          case True
          then have "s' = snd (cursor_invisible w ext s3)" using run3 Inr by simp
          moreover have "settled s [] s3" using d3 True by (simp add: gem_set_def)
          ultimately show ?thesis using debt_invisible[OF _ w, of s "{}" "{}" "{}"] by blast
        next
          case False
          then have "cursor_serve env fb2 w ext s3 = (r, s')" using run3 Inr by simp
          then show ?thesis by (rule debt_cursor_serve[OF d3 _ w])
        qed
      qed
    qed
  qed
qed

end
