(* ===== verification/HelperLoop.thy ===== *)
theory HelperLoop
  imports HelperOk
begin

text \<open>
  The helper's command loop and its start (helper/drmtap-helper.c, main): what it serves, in which
  order it gives up its powers before, and what a client reads of its answers.
\<close>

section \<open>Serving reads nothing\<close>

text \<open>The unread input of the socket; only the loop itself consumes it.\<close>

definition srv_rx :: "helper_srv \<Rightarrow> rx_event list" where
  "srv_rx s = ch_rx (chan s)"

named_theorems unread

lemma rx_calls [unread]:
  "srv_rx (step_clock s) = srv_rx s" "srv_rx (sys_close fd s) = srv_rx s" "srv_rx (helper_gem_close h s) = srv_rx s" "srv_rx (sys_munmap p s) = srv_rx s"
  "srv_rx (dmabuf_sync_end fd s) = srv_rx s" "srv_rx (debug_sample d n s) = srv_rx s" "srv_rx (s\<lparr>mem := m\<rparr>) = srv_rx s" "srv_rx (s\<lparr>faults := f\<rparr>) = srv_rx s"
  by (simp_all add: srv_rx_def step_clock_def sys_close_def helper_gem_close_def gem_close_def sys_munmap_def dmabuf_sync_end_def
    debug_sample_def Let_def)

lemma rx_core: "srv_core s' = srv_core s \<Longrightarrow> srv_rx s' = srv_rx s"
  by (simp add: srv_core_def srv_rx_def)

lemmas rx_queries [unread] = core_hdr[THEN rx_core] core_primary[THEN rx_core] core_scan[THEN rx_core] core_virtio[THEN rx_core]
  core_placement[THEN rx_core] core_meta[THEN rx_core]

lemma rx_res [unread]:
  "srv_rx (snd (sys_getfb2 env fb s)) = srv_rx s" "srv_rx (snd (sys_prime env h s)) = srv_rx s" "srv_rx (snd (sys_mmap env fd off n s)) = srv_rx s"
  "srv_rx (snd (sys_map_dumb env h s)) = srv_rx s" "srv_rx (snd (dmabuf_sync_start env fd s)) = srv_rx s"
  by (simp_all add: srv_rx_def sys_getfb2_def sys_prime_def sys_mint_fd_def sys_mmap_def sys_map_dumb_def dmabuf_sync_start_def
    step_clock_def Let_def split: sum.split option.split)

lemma rx_sends [unread]:
  "srv_rx (snd (srv_send_all bs s)) = srv_rx s" "srv_rx (snd (srv_send_fd bs s)) = srv_rx s" "srv_rx (snd (srv_send_object p n s)) = srv_rx s"
  "srv_rx (snd (send_error s)) = srv_rx s" "srv_rx (snd (send_error_errno s)) = srv_rx s" "srv_rx (snd (cursor_invisible w e s)) = srv_rx s"
  "srv_rx (snd (send_cursor_meta w e s)) = srv_rx s"
  by (simp_all add: srv_rx_def srv_send_all_def srv_send_fd_def srv_send_object_def send_error_def send_error_errno_def
    cursor_invisible_def send_cursor_meta_def split: prod.split option.split)

lemma rx_pixels [unread]: "srv_rx (snd (grab_pixels env dev gem w n s)) = srv_rx s"
  by (auto simp: grab_pixels_def split_beta Let_def unread split: option.split sum.split)

lemma rx_grab_serve [unread]: "srv_rx (snd (grab_serve env dev vio gem w n s)) = srv_rx s"
  by (simp add: grab_serve_def split_beta Let_def unread split: sum.split)

lemma rx_grab [unread]: "srv_rx (snd (grab_and_send env hv dev crtc vio s)) = srv_rx s"
  by (simp add: grab_and_send_def split_beta Let_def unread split: sum.split option.split)

lemma rx_export [unread]: "srv_rx (snd (cursor_export env h n s)) = srv_rx s"
  by (simp add: cursor_export_def split_beta unread split: sum.split)

lemma rx_cursor_serve [unread]: "srv_rx (snd (cursor_serve env fb2 w ext s)) = srv_rx s"
  by (simp add: cursor_serve_def split_beta Let_def unread split: option.split prod.split)

lemma rx_cursor [unread]: "srv_rx (snd (cursor_and_send env crtc ext s)) = srv_rx s"
  by (simp add: cursor_and_send_def split_beta Let_def unread split: sum.split option.split)

section \<open>The loop\<close>

text \<open>One valid command; None is CMD_QUIT.\<close>

definition helper_dispatch :: "env \<Rightarrow> henv \<Rightarrow> int \<Rightarrow> bool \<Rightarrow> helper_cmd_grab \<Rightarrow> helper_srv \<Rightarrow> helper_srv option" where
  "helper_dispatch env hv dev is_virtio c s =
    (if cmd_type c = CMD_GRAB then Some (snd (grab_and_send env hv dev (cmd_crtc_id c) is_virtio s))
     else if cmd_type c = CMD_GET_CURSOR then Some (snd (cursor_and_send env (cmd_crtc_id c) False s))
     else if cmd_type c = CMD_GET_CURSOR2 then Some (snd (cursor_and_send env (cmd_crtc_id c) True s))
     else None)"

lemma rx_dispatch: "helper_dispatch env hv dev vio c s = Some s' \<Longrightarrow> srv_rx s' = srv_rx s"
  by (auto simp: helper_dispatch_def unread split: if_splits)

lemma rx_set [simp]: "srv_rx (set_rx r s) = r"
  by (simp add: srv_rx_def set_rx_def)

lemma recv_all_Some: "wire_recv_all n es = (Some bs, r) \<Longrightarrow> stream es = bs @ stream r \<and> length bs = n"
  using recv_all_exact[of n es] by (auto split: if_splits)

function helper_loop :: "env \<Rightarrow> henv \<Rightarrow> int \<Rightarrow> bool \<Rightarrow> helper_srv \<Rightarrow> helper_srv" where
  "helper_loop env hv dev is_virtio s =
    (case wire_recv_all 16 (ch_rx (chan s)) of
      (None, r) \<Rightarrow> set_rx r s
    | (Some bs, r) \<Rightarrow>
        if \<not> wire_cmd_valid (decode_cmd bs) then set_rx r s
        else case helper_dispatch env hv dev is_virtio (decode_cmd bs) (set_rx r s) of
          None \<Rightarrow> set_rx r s
        | Some s2 \<Rightarrow> helper_loop env hv dev is_virtio s2)"
  by pat_completeness auto
termination
proof (relation "measure (\<lambda>(_, _, _, _, s). length (stream (srv_rx s)))", goal_cases)
  case (2 env hv dev vio s x r bs s2)
  then have "srv_rx s2 = r" using rx_dispatch by (metis rx_set)
  moreover have "length (stream r) < length (stream (ch_rx (chan s)))"
    using recv_all_Some[of 16 "ch_rx (chan s)" bs r] 2(1,2) by simp
  ultimately show ?case by (simp add: srv_rx_def)
qed simp

declare helper_loop.simps [simp del]

section \<open>Nothing is held between commands\<close>

lemma dispatch_ok:
  assumes ok: "srv_ok s" and single: "\<forall>t fb x. v_fb2 env t fb = Inr x \<longrightarrow> single_object x"
    and run: "helper_dispatch env hv dev vio c s = Some s'"
  shows "\<exists>out. settled s out s' \<and> (flowing (ch_tx (chan s)) \<longrightarrow>
    (if cmd_type c = CMD_GRAB then grab_answer env dev out else \<exists>w px. cursor_reply (cmd_type c = CMD_GET_CURSOR2) out w px))"
proof (cases "cmd_type c = CMD_GRAB")
  case True
  obtain r s1 where g: "grab_and_send env hv dev (cmd_crtc_id c) vio s = (r, s1)" by fastforce
  then have "s' = s1" using run True by (simp add: helper_dispatch_def)
  then show ?thesis using grab_and_send_ok[OF ok single g] True by simp
next
  case False
  let ?e = "cmd_type c = CMD_GET_CURSOR2"
  obtain r s1 where g: "cursor_and_send env (cmd_crtc_id c) ?e s = (r, s1)" by fastforce
  have "cmd_type c = CMD_GET_CURSOR \<or> ?e" "cmd_type c = CMD_GET_CURSOR \<Longrightarrow> \<not> ?e"
    using run False by (auto simp: helper_dispatch_def cmd_defs split: if_splits)
  then have "s' = s1" using run False g by (cases "cmd_type c = CMD_GET_CURSOR") (simp_all add: helper_dispatch_def)
  then show ?thesis using cursor_and_send_ok[OF ok single g] False by simp
qed

lemma srv_ok_set_rx [simp]: "srv_ok (set_rx r s) = srv_ok s"
  by (simp add: srv_ok_def set_rx_def fresh_ok_def)

lemma helper_loop_settles:
  "srv_ok s \<Longrightarrow> \<forall>t fb x. v_fb2 env t fb = Inr x \<longrightarrow> single_object x \<Longrightarrow>
    srv_ok (helper_loop env hv dev vio s) \<and> resources (helper_loop env hv dev vio s) = resources s"
proof (induction env hv dev vio s rule: helper_loop.induct)
  case (1 env hv dev vio s)
  obtain b r where rc: "wire_recv_all 16 (ch_rx (chan s)) = (b, r)" by fastforce
  note unf = helper_loop.simps[of env hv dev vio s]
  show ?case
  proof (cases b)
    case None
    then show ?thesis using "1.prems" by (subst (1 2) unf) (simp add: rc)
  next
    case (Some bs)
    show ?thesis
    proof (cases "wire_cmd_valid (decode_cmd bs)")
      case False
      then show ?thesis using "1.prems" by (subst (1 2) unf) (simp add: rc Some)
    next
      case True
      show ?thesis
      proof (cases "helper_dispatch env hv dev vio (decode_cmd bs) (set_rx r s)")
        case None
        then show ?thesis using "1.prems" True by (subst (1 2) unf) (simp add: rc Some)
      next
        case d: (Some s2)
        obtain out where "settled (set_rx r s) out s2" using dispatch_ok[OF _ "1.prems"(2) d] "1.prems"(1) by auto
        then have 2: "srv_ok s2" "resources s2 = resources s" using settled_resources[of "set_rx r s" out s2] by (simp_all add: debt_def)
        have "helper_loop env hv dev vio s = helper_loop env hv dev vio s2" using True d by (subst unf) (simp add: rc Some)
        moreover have "srv_ok (helper_loop env hv dev vio s2) \<and> resources (helper_loop env hv dev vio s2) = resources s2"
          by (rule "1.IH"[OF rc[symmetric] Some _ d 2(1) "1.prems"(2)]) (simp add: True)
        ultimately show ?thesis using 2(2) by simp
      qed
    qed
  qed
qed

section \<open>Every command is answered\<close>

text \<open>The reply a command may get, and the replies a list of commands may get, in order.\<close>

definition reply_to :: "env \<Rightarrow> int \<Rightarrow> helper_cmd_grab \<Rightarrow> (byte list \<times> nat) list \<Rightarrow> bool" where
  "reply_to env dev c ps \<longleftrightarrow>
    (if cmd_type c = CMD_GRAB then grab_answer env dev ps else \<exists>w px. cursor_reply (cmd_type c = CMD_GET_CURSOR2) ps w px)"

inductive answered :: "env \<Rightarrow> int \<Rightarrow> helper_cmd_grab list \<Rightarrow> (byte list \<times> nat) list \<Rightarrow> bool" for env dev where
  none: "answered env dev [] []"
| reply: "reply_to env dev c ps \<Longrightarrow> answered env dev cs out \<Longrightarrow> answered env dev (c # cs) (ps @ out)"

inductive_cases answered_ConsE: "answered env dev (c # cs) out"
inductive_simps answered_Nil [simp]: "answered env dev [] out"

text \<open>A command the loop serves, and an input it stops at: a quit, a foreign frame or a short one.\<close>

definition servable :: "helper_cmd_grab \<Rightarrow> bool" where
  "servable c \<longleftrightarrow> wire_cmd_valid c \<and> cmd_type c \<noteq> CMD_QUIT"

definition loop_stops :: "byte list \<Rightarrow> bool" where
  "loop_stops bs \<longleftrightarrow> length bs < 16 \<or> \<not> servable (decode_cmd (take 16 bs))"

lemma dispatch_servable: "servable c \<Longrightarrow> \<exists>s'. helper_dispatch env hv dev vio c s = Some s'"
  by (auto simp: servable_def wire_cmd_valid_def helper_dispatch_def)

lemma recv16: 
  "16 \<le> length (stream es) \<Longrightarrow> \<exists>r. wire_recv_all 16 es = (Some (take 16 (stream es)), r) \<and> stream r = drop 16 (stream es)"
  using recv_all_exact[of 16 es] by (cases "wire_recv_all 16 es") auto

lemma loop_stop:
  assumes "loop_stops (stream (srv_rx s))"
  shows "sv_out (helper_loop env hv dev vio s) = sv_out s"
proof (cases "16 \<le> length (stream (srv_rx s))")
  case True
  obtain r where r: "wire_recv_all 16 (ch_rx (chan s)) = (Some (take 16 (stream (srv_rx s))), r)"
    using recv16[OF True] by (auto simp: srv_rx_def)
  have "\<not> servable (decode_cmd (take 16 (stream (srv_rx s))))" using assms True by (simp add: loop_stops_def)
  then show ?thesis
    by (subst helper_loop.simps) (auto simp: r set_rx_def servable_def helper_dispatch_def cmd_defs)
next
  case False
  then have "fst (wire_recv_all 16 (ch_rx (chan s))) = None" using recv_all_exact[of 16 "ch_rx (chan s)"] by (simp add: srv_rx_def)
  then obtain r where "wire_recv_all 16 (ch_rx (chan s)) = (None, r)" by (metis prod.collapse)
  then show ?thesis by (subst helper_loop.simps) (simp add: set_rx_def)
qed

lemma loop_answers:
  assumes single: "\<forall>t fb x. v_fb2 env t fb = Inr x \<longrightarrow> single_object x"
  shows "srv_ok s \<Longrightarrow> flowing (ch_tx (chan s)) \<Longrightarrow> list_all servable cs \<Longrightarrow> loop_stops rest \<Longrightarrow>
    stream (srv_rx s) = concat (map encode_cmd cs) @ rest \<Longrightarrow>
    \<exists>out. sv_out (helper_loop env hv dev vio s) = sv_out s @ out \<and> answered env dev cs out"
proof (induction cs arbitrary: s)
  case Nil
  then show ?case using loop_stop[of s env hv dev vio] by simp
next
  case (Cons c cs)
  have len: "length (encode_cmd c) = 16" "decode_cmd (encode_cmd c) = c" by (simp_all add: decode_encode_cmd)
  have st: "stream (srv_rx s) = encode_cmd c @ (concat (map encode_cmd cs) @ rest)" using Cons.prems(5) by simp
  have "16 \<le> length (stream (srv_rx s))" unfolding st by (simp add: len)
  then obtain r where r: "wire_recv_all 16 (srv_rx s) = (Some (encode_cmd c), r)" "stream r = concat (map encode_cmd cs) @ rest"
    using recv16[of "srv_rx s"] unfolding st by (auto simp: len)
  have sv: "servable c" using Cons.prems(3) by simp
  obtain s2 where d: "helper_dispatch env hv dev vio c (set_rx r s) = Some s2" using dispatch_servable[OF sv] by blast
  have c: "chan (set_rx r s) = (chan s)\<lparr>ch_rx := r\<rparr>" "sv_out (set_rx r s) = sv_out s" by (simp_all add: set_rx_def)
  have ok: "srv_ok (set_rx r s)" "flowing (ch_tx (chan (set_rx r s)))" using Cons.prems(1,2) by (simp_all add: c(1))
  obtain ps where ps: "settled (set_rx r s) ps s2" "reply_to env dev c ps" using dispatch_ok[OF ok(1) single d] ok(2) by (auto simp: reply_to_def)
  have s2: "srv_ok s2" "flowing (ch_tx (chan s2))" "srv_rx s2 = r" "sv_out s2 = sv_out s @ ps"
    using ps(1) ok(2) by (simp_all add: debt_def srv_rx_def c)
  obtain out where "sv_out (helper_loop env hv dev vio s2) = sv_out s2 @ out" "answered env dev cs out"
    using Cons.IH[OF s2(1,2) _ Cons.prems(4)] Cons.prems(3) r(2) s2(3) by auto
  moreover have "helper_loop env hv dev vio s = helper_loop env hv dev vio s2"
    using sv d by (subst helper_loop.simps) (simp add: r(1)[unfolded srv_rx_def] len servable_def)
  ultimately show ?case using answered.reply[OF ps(2)] s2(4) by (metis append.assoc)
qed

section \<open>Start\<close>

text \<open>
  The rules of the seccomp filter: a call by name, or an ioctl by its masked or exact request. The
  default action kills the process.
\<close>

datatype seccomp_rule = AllowCall string | AllowIoctlMasked u64 u64 | AllowIoctl u64

definition DMA_BUF_IOCTL_SYNC :: u64 where "DMA_BUF_IOCTL_SYNC = 0x40086200"

definition helper_rules :: "seccomp_rule list" where
  "helper_rules = map AllowCall [''read'', ''write'', ''close'', ''sendto'', ''sendmsg'', ''recvfrom'', ''mmap'', ''munmap'', ''brk'',
     ''fstat'', ''newfstatat'', ''fcntl'', ''exit_group'', ''exit'', ''rt_sigreturn'', ''clock_gettime''] @
   [AllowIoctlMasked 0xFF00 0x6400, AllowIoctl DMA_BUF_IOCTL_SYNC]"

definition rule_permits :: "string \<Rightarrow> u64 \<Rightarrow> seccomp_rule \<Rightarrow> bool" where
  "rule_permits call request r =
    (case r of AllowCall n \<Rightarrow> call = n
     | AllowIoctlMasked m v \<Rightarrow> call = ''ioctl'' \<and> request AND m = v
     | AllowIoctl v \<Rightarrow> call = ''ioctl'' \<and> request = v)"

definition filter_permits :: "seccomp_rule list \<Rightarrow> string \<Rightarrow> u64 \<Rightarrow> bool" where
  "filter_permits rules call request = list_ex (rule_permits call request) rules"

text \<open>
  What the start of the process is told: whether fd 3 is open and whose socket it is, how paths
  resolve and open, and how each hardening step answers.
\<close>

record hstart =
  st_fd_open :: bool
  st_peer_uid :: "u32 option"
  st_uid :: u32
  st_realpath :: "string \<Rightarrow> string option"
  st_no_new_privs :: int
  st_open :: "string \<Rightarrow> bool"
  st_driver :: "string option"
  st_cap_init :: bool
  st_cap_permitted :: int
  st_cap_effective :: int
  st_cap_set_proc :: int
  st_seccomp_init :: bool
  st_rule_add :: "seccomp_rule \<Rightarrow> int"
  st_seccomp_load :: int

text \<open>What the process did to itself, in order.\<close>

datatype start_event = NoNewPrivs | OpenedReadOnly string | OnlySysAdmin | Confined "seccomp_rule list"

definition drop_caps :: "hstart \<Rightarrow> int" where
  "drop_caps st =
    (if \<not> st_cap_init st then - 1
     else if st_cap_permitted st \<noteq> 0 \<or> st_cap_effective st \<noteq> 0 then - 1
     else if st_cap_set_proc st \<noteq> 0 then - 1 else 0)"

fun add_rules :: "hstart \<Rightarrow> seccomp_rule list \<Rightarrow> seccomp_rule list \<Rightarrow> seccomp_rule list option" where
  "add_rules st [] added = Some added"
| "add_rules st (r # rs) added = (if st_rule_add st r \<noteq> 0 then None else add_rules st rs (added @ [r]))"

text \<open>The filter now in force, or None: the C result -1.\<close>

definition install_seccomp :: "hstart \<Rightarrow> seccomp_rule list option" where
  "install_seccomp st =
    (if \<not> st_seccomp_init st then None
     else case add_rules st helper_rules [] of
       None \<Rightarrow> None
     | Some rules \<Rightarrow> if st_seccomp_load st \<noteq> 0 then None else Some rules)"

definition device_path_allowed :: "hstart \<Rightarrow> string \<Rightarrow> string option" where
  "device_path_allowed st path =
    (case st_realpath st path of
      None \<Rightarrow> None
    | Some resolved \<Rightarrow> if take 9 resolved = ''/dev/dri/'' then Some resolved else None)"

text \<open>strncmp over the driver's own length.\<close>

definition helper_is_virtio :: "hstart \<Rightarrow> bool" where
  "helper_is_virtio st =
    (case st_driver st of None \<Rightarrow> False | Some n \<Rightarrow> 9 \<le> length n \<and> n = take (length n) ''virtio_gpu'')"

text \<open>The start: None to exit with 1, or whether the device is virtio-gpu.\<close>

definition helper_start :: "hstart \<Rightarrow> string list \<Rightarrow> bool option \<times> start_event list" where
  "helper_start st argv =
    (if \<not> st_fd_open st then (None, [])
     else case st_peer_uid st of
       None \<Rightarrow> (None, [])
     | Some uid \<Rightarrow>
         if uid \<noteq> st_uid st then (None, [])
         else case device_path_allowed st (if 1 < length argv then argv ! 1 else ''/dev/dri/card0'') of
           None \<Rightarrow> (None, [])
         | Some device \<Rightarrow>
             if st_no_new_privs st \<noteq> 0 then (None, [])
             else if \<not> st_open st device then (None, [NoNewPrivs])
             else if drop_caps st \<noteq> 0 then (None, [NoNewPrivs, OpenedReadOnly device])
             else case install_seccomp st of
               None \<Rightarrow> (None, [NoNewPrivs, OpenedReadOnly device, OnlySysAdmin])
             | Some rules \<Rightarrow> (Some (helper_is_virtio st), [NoNewPrivs, OpenedReadOnly device, OnlySysAdmin, Confined rules]))"

definition HELPER_SOCKET_FD :: int where "HELPER_SOCKET_FD = 3"

definition helper_main :: "hstart \<Rightarrow> env \<Rightarrow> henv \<Rightarrow> string list \<Rightarrow> helper_srv \<Rightarrow> int \<times> start_event list \<times> helper_srv" where
  "helper_main st env hv argv s =
    (case helper_start st argv of
      (None, done_steps) \<Rightarrow> (1, done_steps, s)
    | (Some is_virtio, done_steps) \<Rightarrow>
        (case sys_mint_fd s of (dev, s1) \<Rightarrow> (0, done_steps, sys_close HELPER_SOCKET_FD (helper_loop env hv dev is_virtio s1))))"

lemma add_rules_all: "add_rules st rs added = Some out \<Longrightarrow> out = added @ rs"
  by (induction st rs added rule: add_rules.induct) (auto split: if_splits)

lemma install_rules: "install_seccomp st = Some rules \<Longrightarrow> rules = helper_rules"
  using add_rules_all[of st helper_rules "[]"] by (auto simp: install_seccomp_def split: option.splits if_splits)

lemma start_confined:
  "helper_start st argv = (Some v, done_steps) \<Longrightarrow>
    \<exists>device. done_steps = [NoNewPrivs, OpenedReadOnly device, OnlySysAdmin, Confined helper_rules] \<and> take 9 device = ''/dev/dri/'' \<and>
      st_peer_uid st = Some (st_uid st) \<and> drop_caps st = 0 \<and> st_no_new_privs st = 0"
  by (auto simp: helper_start_def device_path_allowed_def dest: install_rules split: if_splits option.splits)

lemma rules_permit:
  "filter_permits helper_rules ''ioctl'' request = (request AND 0xFF00 = 0x6400 \<or> request = DMA_BUF_IOCTL_SYNC)"
  "\<not> filter_permits helper_rules ''open'' request" "\<not> filter_permits helper_rules ''openat'' request"
  "\<not> filter_permits helper_rules ''execve'' request" "\<not> filter_permits helper_rules ''socket'' request"
  by (simp_all add: filter_permits_def helper_rules_def rule_permits_def)

section \<open>Properties\<close>


definition wit_cmds :: "helper_cmd_grab list" where
  "wit_cmds = [wire_cmd CMD_GRAB 5, wire_cmd CMD_GET_CURSOR2 5]"

definition wit_srv :: helper_srv where
  "wit_srv = \<lparr>tick = 0, mem = [1 \<mapsto> replicate 262144 0], next_obj = 2, live_maps = {}, live_fds = {3, 4}, next_fd = 5,
    live_gems = {}, next_gem = 1, live_privs = 0, windows = (\<lambda>_. 0), faults = 0,
    chan = \<lparr>ch_rx = [Chunk (concat (map encode_cmd wit_cmds)) 0 False], ch_tx = []\<rparr>, sent = [],
    h_packed = 1, h_primary_ids = None, h_virtio_detected = False, h_virtio_virgl = False, h_seq = 0, h_frame_num = 0, sv_out = []\<rparr>"

definition wit_henv :: henv where
  "wit_henv = \<lparr>hv_3d_features = (\<lambda>t. None), hv_time = (\<lambda>t. (1, 0))\<rparr>"

lemma wit_srv_ok: "srv_ok wit_srv"
  by (simp add: srv_ok_def fresh_ok_def wit_srv_def)

lemma wit_env_single: "\<forall>t fb x. v_fb2 wit_env t fb = Inr x \<longrightarrow> single_object x"
  by (simp add: wit_env_def wit_fb2_def single_object_def)


text \<open>
  C16. The helper serves only when it is confined, and otherwise does nothing. Either it exits with 1
  before reading or sending a byte, or its peer runs as its own user, its one device resolved below
  /dev/dri/, and before the first command it gave up new privileges, opened that device, dropped every
  capability but one and loaded the whole filter, in that order - a filter that lets no other file be
  opened, no program be started and no ioctl through but those of DRM and the DMA-BUF sync.
\<close>

theorem helper_runs_confined:
  "case helper_main st env hv argv s of (code, steps, s') \<Rightarrow>
    code = 1 \<and> s' = s \<or>
    code = 0 \<and> (\<exists>device is_virtio. steps = [NoNewPrivs, OpenedReadOnly device, OnlySysAdmin, Confined helper_rules] \<and>
      take 9 device = ''/dev/dri/'' \<and> st_peer_uid st = Some (st_uid st) \<and> st_no_new_privs st = 0 \<and> drop_caps st = 0 \<and>
      s' = sys_close HELPER_SOCKET_FD (helper_loop env hv (next_fd s) is_virtio (snd (sys_mint_fd s)))) \<and>
    \<not> filter_permits helper_rules ''open'' request \<and> \<not> filter_permits helper_rules ''openat'' request \<and>
    \<not> filter_permits helper_rules ''execve'' request \<and>
    filter_permits helper_rules ''ioctl'' request = (request AND 0xFF00 = 0x6400 \<or> request = DMA_BUF_IOCTL_SYNC)"
proof (cases "helper_start st argv")
  case (Pair v steps)
  show ?thesis
  proof (cases v)
    case None
    then show ?thesis using Pair by (simp add: helper_main_def)
  next
    case (Some b)
    obtain device where "steps = [NoNewPrivs, OpenedReadOnly device, OnlySysAdmin, Confined helper_rules]" "take 9 device = ''/dev/dri/''"
      "st_peer_uid st = Some (st_uid st)" "st_no_new_privs st = 0" "drop_caps st = 0" using start_confined[OF Pair[unfolded Some]] by blast
    then show ?thesis using Pair Some by (auto simp: helper_main_def sys_mint_fd_def rules_permit)
  qed
qed

text \<open>
  A framebuffer whose planes are separate objects leaves a handle behind: GETFB2 mints one for each,
  and the helper closes the first. (The library's own grab closes them all.)
\<close>

lemma helper_leaks_second_plane:
  "live_gems (snd (grab_and_send (wit_env\<lparr>v_fb2 := \<lambda>t fb. Inr (wit_fb2\<lparr>fb2_handles := [1, 2, 0, 0], fb2_pitches := [0, 0, 0, 0]\<rparr>)\<rparr>)
    wit_henv 4 5 False wit_srv)) = {3}"
proof -
  let ?env = "wit_env\<lparr>v_fb2 := \<lambda>t fb. Inr (wit_fb2\<lparr>fb2_handles := [1, 2, 0, 0], fb2_pitches := [0, 0, 0, 0]\<rparr>)\<rparr>"
  let ?s = "step_clock (step_clock wit_srv)\<lparr>h_primary_ids := Some [7]\<rparr>"
  have k: "v_kms ?env t = wit_kms" for t by (simp add: wit_env_def)
  have prims: "(case km_plane_res wit_kms of None \<Rightarrow> [] | Some ps \<Rightarrow> probe_primary wit_kms ps []) = [7]"
    by (simp add: wit_kms_def probe_plane_def PRIMARY_CAP_def)
  have cold: "h_primary_ids (step_clock wit_srv) = None" by (simp add: step_clock_def wit_srv_def)
  have upd: "step_clock (step_clock wit_srv\<lparr>h_primary_ids := Some [7]\<rparr>) = ?s" by (simp add: step_clock_def)
  have "plane_is_primary ?env 7 (step_clock wit_srv) = (True, ?s)"
    unfolding plane_is_primary_def cold option.case k Let_def prims upd by simp
  moreover have "km_plane wit_kms 7 = Some \<lparr>pl_id = 7, pl_crtc_id = 5, pl_fb_id = 2\<rparr>" by (simp add: wit_kms_def)
  ultimately have "helper_scan_planes ?env wit_kms 5 [7] (0, 0) (step_clock wit_srv) = ((2, 5), ?s)" by simp
  then have "grab_and_send ?env wit_henv 4 5 False wit_srv = (case sys_getfb2 ?env 2 ?s of (Inr fb2, s3) \<Rightarrow>
      send_error (helper_gem_close (fb2_handles fb2 ! 0) s3) | (Inl e, s3) \<Rightarrow> send_error_errno s3)"
    unfolding grab_and_send_def k Let_def
    by (simp add: wit_kms_def sys_getfb2_def mint_handle_def Let_def helper_geometry_bad_def wit_env_def wit_fb2_def wit_srv_def)
  then show ?thesis
    by (auto simp: sys_getfb2_def mint_handle_def Let_def wit_env_def wit_fb2_def wit_srv_def step_clock_def helper_gem_close_def gem_close_def
      send_error_def srv_send_all_def split: prod.split)
qed

text \<open>A plane probe that fails is remembered: from then on no plane counts as primary.\<close>

lemma failed_probe_sticks:
  assumes "h_primary_ids s = None" "km_plane_res (v_kms env (tick s)) = None" "plane_is_primary env p s = (b, s1)"
  shows "\<not> b \<and> \<not> fst (plane_is_primary env q s1)"
  using assms by (auto simp: plane_is_primary_def step_clock_def Let_def)

end
