(* ===== verification/HelperAgree.thy ===== *)
theory HelperAgree
  imports HelperLoop
begin

text \<open>
  The helper against the library: both choose the same plane and read the same HDR metadata, and
  the client (src/privilege_helper.c) reads exactly what the helper wrote and stays in step with it.
\<close>

section \<open>The same plane\<close>

definition type_hits :: "kms \<Rightarrow> u32 \<Rightarrow> nat" where
  "type_hits k p = (case km_props k p of Inl _ \<Rightarrow> 0 | Inr props \<Rightarrow> length (filter (\<lambda>pr. pr_name pr = Inr ''type'' \<and> pr_value pr = 1) props))"

lemma probe_plane_fold:
  "length ids + length (filter (\<lambda>pr. pr_name pr = Inr ''type'' \<and> pr_value pr = 1) props) \<le> PRIMARY_CAP \<Longrightarrow>
    fold (probe_plane p) props ids = ids @ replicate (length (filter (\<lambda>pr. pr_name pr = Inr ''type'' \<and> pr_value pr = 1) props)) p"
  by (induction props arbitrary: ids) (auto simp: probe_plane_def)

lemma probe_primary_all:
  "length ids + sum_list (map (type_hits k) ps) \<le> PRIMARY_CAP \<Longrightarrow>
    probe_primary k ps ids = ids @ concat (map (\<lambda>p. replicate (type_hits k p) p) ps)"
proof (induction k ps ids rule: probe_primary.induct)
  case (2 k p ps ids)
  show ?case
  proof (cases "length ids < PRIMARY_CAP")
    case True
    show ?thesis
    proof (cases "km_props k p")
      case (Inl e)
      then show ?thesis using 2 True by (simp add: type_hits_def)
    next
      case (Inr props)
      have "fold (probe_plane p) props ids = ids @ replicate (type_hits k p) p"
        using probe_plane_fold[of ids props p] "2.prems" Inr by (simp add: type_hits_def)
      then show ?thesis using "2.IH"(2)[OF True Inr] "2.prems" True Inr by simp
    qed
  next
    case False
    then have "sum_list (map (type_hits k) (p # ps)) = 0" using "2.prems" by linarith
    then have "\<forall>q \<in> set (p # ps). type_hits k q = 0" by simp
    then show ?thesis using False by (auto simp: concat_eq_Nil_conv)
  qed
qed simp

lemma probe_primary_mem:
  assumes "sum_list (map (type_hits k) ps) \<le> PRIMARY_CAP" "p \<in> set ps"
  shows "p \<in> set (probe_primary k ps []) \<longleftrightarrow> is_primary_plane k p"
proof -
  have "p \<in> set (probe_primary k ps []) \<longleftrightarrow> 0 < type_hits k p"
    using probe_primary_all[of "[]" k ps] assms by (auto split: if_splits)
  also have "\<dots> \<longleftrightarrow> is_primary_plane k p"
    by (auto simp: type_hits_def is_primary_plane_def list_ex_iff filter_empty_conv split: sum.split)
  finally show ?thesis .
qed

text \<open>The cache is empty or holds what the probe of this table finds.\<close>

definition cache_of :: "kms \<Rightarrow> u32 list \<Rightarrow> helper_srv \<Rightarrow> bool" where
  "cache_of k ps s \<longleftrightarrow> h_primary_ids s = None \<or> h_primary_ids s = Some (probe_primary k ps [])"

lemma plane_is_primary_cached:
  assumes "cache_of k ps s" "\<And>t. v_kms env t = k" "km_plane_res k = Some ps"
    "sum_list (map (type_hits k) ps) \<le> PRIMARY_CAP" "p \<in> set ps" "plane_is_primary env p s = (b, s')"
  shows "b = is_primary_plane k p \<and> cache_of k ps s'"
  using assms probe_primary_mem[OF assms(4,5)]
  by (auto simp: plane_is_primary_def cache_of_def step_clock_def Let_def split: option.splits)

lemma helper_scan_spec:
  assumes still: "\<And>t. v_kms env t = k" and all: "km_plane_res k = Some all" "sum_list (map (type_hits k) all) \<le> PRIMARY_CAP"
    and ids: "\<And>p pl. km_plane k p = Some pl \<Longrightarrow> pl_id pl = p" and t: "t \<noteq> 0"
  shows "set ps \<subseteq> set all \<Longrightarrow> cache_of k all s \<Longrightarrow>
    fst (helper_scan_planes env k t ps found s) =
      (case find (\<lambda>pl. is_primary_plane k (pl_id pl)) (candidates k t ps) of
        Some pl \<Rightarrow> (pl_fb_id pl, pl_crtc_id pl)
      | None \<Rightarrow> if fst found \<noteq> 0 then found else case candidates k t ps of [] \<Rightarrow> found | pl # _ \<Rightarrow> (pl_fb_id pl, pl_crtc_id pl))"
proof (induction ps arbitrary: found s)
  case (Cons p ps)
  show ?case
  proof (cases "km_plane k p")
    case None
    then show ?thesis using Cons by (simp split: option.split)
  next
    case (Some pl)
    show ?thesis
    proof (cases "pl_crtc_id pl = t \<and> pl_fb_id pl \<noteq> 0")
      case False
      then show ?thesis using Cons Some t by (auto split: option.split list.split)
    next
      case True
      obtain b s1 where pr: "plane_is_primary env (pl_id pl) s = (b, s1)" by fastforce
      have "pl_id pl \<in> set all" using Cons.prems(1) ids[OF Some] by simp
      then have b: "b = is_primary_plane k (pl_id pl)" "cache_of k all s1"
        using plane_is_primary_cached[OF Cons.prems(2) still all _ pr] by simp_all
      show ?thesis using Cons.IH[OF _ b(2)] Cons.prems(1) Some True pr b(1) by (auto split: option.split list.split)
    qed
  qed
qed simp

lemma find_mem: "find P xs = Some x \<Longrightarrow> x \<in> set xs \<and> P x"
  by (auto simp: find_Some_iff)

lemma candidates_mem: "pl \<in> set (candidates k t ps) \<Longrightarrow> \<exists>p. km_plane k p = Some pl"
  by (auto simp: candidates_def List.map_filter_def)

section \<open>The same metadata\<close>

lemma helper_connector_same: "helper_connector_of k crtc cs = connector_of k crtc cs"
  by (induction cs) (auto simp: helper_connector_crtc_def connector_crtc_atomic_def Let_def split: option.split)

lemma helper_hdr_prop_same: "helper_hdr_prop k = hdr_prop k"
  by (auto simp: helper_hdr_prop_def hdr_prop_def fun_eq_iff split: option.split)

lemma helper_hdr_same: "fst (read_hdr_metadata env crtc s) = hdr_of_crtc (v_kms env (tick s)) crtc"
  by (simp add: read_hdr_metadata_def hdr_of_crtc_def helper_connector_same helper_hdr_prop_same Let_def split: option.split sum.split)

section \<open>The client reads what the helper wrote\<close>

definition deliver :: "(byte list \<times> nat) list \<Rightarrow> rx_event list" where
  "deliver ps = map (\<lambda>(bs, k). Chunk bs k False) ps"

lemma recv_all_chunk: "bs \<noteq> [] \<Longrightarrow> wire_recv_all (length bs) (Chunk bs k f # es) = (Some bs, es)"
  by (simp add: wire_recv_all_def wire_recv_loop.simps[of "length bs"] wire_recv_loop.simps[of 0])

lemma recv_fd_none:
  assumes "ch_rx (chan c) = Chunk bs 0 False # es" "length bs = n" "0 < n"
  shows "wire_recv_fd n c = ((Some bs, - 1), set_rx es c)"
proof -
  have "bs \<noteq> []" using assms by auto
  then show ?thesis using assms by (simp add: wire_recv_fd_def mint_fds_def fresh_fds_def set_rx_def)
qed

lemma recv_fd_one:
  assumes "ch_rx (chan c) = Chunk bs 1 False # es" "length bs = n" "0 < n" "0 \<le> next_fd c"
  shows "wire_recv_fd n c = ((Some bs, next_fd c), snd (mint_fds 1 (set_rx es c)))"
proof -
  have "bs \<noteq> []" using assms by auto
  then show ?thesis using assms by (simp add: wire_recv_fd_def mint_fds_def fresh_fds_def set_rx_def Let_def)
qed

text \<open>What the client makes of a reply.\<close>

definition client_got :: "(byte list \<times> nat) list \<Rightarrow> obj \<Rightarrow> ctx \<Rightarrow> (int \<times> helper_grab_wire option \<times> int) \<times> ctx \<Rightarrow> bool" where
  "client_got ps p c res \<longleftrightarrow> (case res of ((ret, got, fd), c') \<Rightarrow>
    \<exists>w px. grab_reply ps w px \<and> got = Some w \<and> faults c' = faults c \<and>
      (if gw_flags w AND HELPER_FLAG_HAS_DMABUF \<noteq> 0 then ret = 0 \<and> fd \<notin> live_fds c \<and> live_fds c' = insert fd (live_fds c)
       else live_fds c' = live_fds c \<and> fd = - 1 \<and>
         (if px = [] then ret = - EIO else ret = 0 \<and> rd (mem c') p 0 (length px) = Some px)))"

lemma helper_send_idle:
  "ch_tx (chan c) = [] \<Longrightarrow> helper_send bs c = (int (length bs), c\<lparr>chan := (chan c)\<lparr>ch_tx := []\<rparr>, sent := sent c @ bs\<rparr>)"
  by (simp add: helper_send_def)

lemma client_grab:
  assumes ok: "fresh_ok c" "0 \<le> helper_fd c" "ch_tx (chan c) = []" "ch_rx (chan c) = deliver ps @ later"
    and reply: "grab_reply ps w px" and buf: "mem c p = Some bs" "length px \<le> n" "n \<le> length bs"
  shows "client_got ps p c (drmtap_helper_grab env (Some p) n c) \<and> ch_rx (chan (snd (drmtap_helper_grab env (Some p) n c))) = later"
proof -
  let ?c = "c\<lparr>chan := (chan c)\<lparr>ch_tx := []\<rparr>, sent := sent c @ encode_cmd (wire_cmd CMD_GRAB (crtc_id c))\<rparr>"
  have snd: "send_grab env (encode_cmd (wire_cmd CMD_GRAB (crtc_id c))) c = (0, ?c)"
    by (simp add: send_grab_def helper_send_idle[OF ok(3)])
  have rx: "ch_rx (chan ?c) = deliver ps @ later" "next_fd ?c = next_fd c" "live_fds ?c = live_fds c" "mem ?c = mem c" "faults ?c = faults c"
    using ok(4) by simp_all
  have len: "length (encode_grab w) = 64" "decode_grab (encode_grab w) = w" by (simp_all add: decode_encode_grab)
  have nf: "0 \<le> next_fd c" "next_fd c \<notin> live_fds c" using ok(1) by (auto simp: fresh_ok_def)
  note run = drmtap_helper_grab_def[of env "Some p" n c] ok(2) snd
  consider (fd) "ps = [(encode_grab w, 1)]" "px = []" "gw_flags w AND HELPER_FLAG_HAS_DMABUF \<noteq> 0"
    | (refused) "ps = [(encode_grab w, 0)]" "px = []" "w = zero_grab"
    | (px) "ps = [(encode_grab w, 0), (px, 0)]" "gw_flags w = 0" "px \<noteq> []" "length px = unat (gw_data_size w)"
    using reply by (auto simp: grab_reply_def)
  then show ?thesis
  proof cases
    case fd
    have r: "wire_recv_fd 64 ?c = ((Some (encode_grab w), next_fd c), snd (mint_fds 1 (set_rx later ?c)))"
      using recv_fd_one[of ?c "encode_grab w" later 64] rx(1) fd(1) len nf(1) by (simp add: deliver_def)
    have "drmtap_helper_grab env (Some p) n c = ((0, Some w, next_fd c), snd (mint_fds 1 (set_rx later ?c)))"
      using run fd(3) nf(1) by (simp add: r len Let_def)
    then show ?thesis using reply fd(3) nf(2) by (auto simp: client_got_def mint_fds_def fresh_fds_def set_rx_def)
  next
    case refused
    have r: "wire_recv_fd 64 ?c = ((Some (encode_grab w), - 1), set_rx later ?c)"
      using recv_fd_none[of ?c "encode_grab w" later 64] rx(1) refused(1) len by (simp add: deliver_def)
    have z: "gw_flags w = 0" "gw_data_size w = 0" using refused(3) by (simp_all add: zero_grab_def)
    have "drmtap_helper_grab env (Some p) n c = ((- EIO, Some w, - 1), set_rx later ?c)"
      using run by (simp add: r len Let_def z)
    then show ?thesis using reply z refused(2) by (auto simp: client_got_def set_rx_def)
  next
    case px
    have r: "wire_recv_fd 64 ?c = ((Some (encode_grab w), - 1), set_rx (Chunk px 0 False # later) ?c)"
      using recv_fd_none[of ?c "encode_grab w" "Chunk px 0 False # later" 64] rx(1) px(1) len by (simp add: deliver_def)
    let ?c4 = "set_rx (Chunk px 0 False # later) ?c"
    have ra: "recv_all (unat (gw_data_size w)) ?c4 = (Some px, set_rx later ?c)"
      using recv_all_chunk[OF px(3)] px(4) by (simp add: recv_all_def set_rx_def)
    have le: "length px \<le> length bs" using buf by simp
    have w: "wr (mem c) p 0 px = Some ((mem c)(p \<mapsto> patch bs 0 px))" using buf(1) le by (simp add: wr_def)
    have n0: "unat (gw_data_size w) \<noteq> 0" "\<not> n < unat (gw_data_size w)" using px(3,4) buf(2) by (metis length_0_conv, linarith)
    let ?c' = "(set_rx later ?c)\<lparr>mem := (mem c)(p \<mapsto> patch bs 0 px)\<rparr>"
    have res: "drmtap_helper_grab env (Some p) n c = ((0, Some w, - 1), ?c')"
      using run n0 w px(2) by (simp add: r len Let_def ra) (simp add: set_rx_def)
    have "rd (mem ?c') p 0 (length px) = Some px" using le by (simp add: rd_def patch_def)
    moreover have "faults ?c' = faults c" "live_fds ?c' = live_fds c" "ch_rx (chan ?c') = later" by (simp_all add: set_rx_def)
    ultimately show ?thesis unfolding res client_got_def prod.case snd_conv using reply px(2,3)
      by (intro conjI exI[of _ w] exI[of _ px]) simp_all
  qed
qed

section \<open>Properties\<close>

text \<open>
  C17. The helper sees what the library sees. On the same mode-setting tables, with a plane probe
  that fits its 32-entry cache, the framebuffer and CRTC the helper's scan picks are those of the
  plane find_primary_plane picks, or both pick none - whether or not the probe's result was
  cached - and the HDR metadata it reports for a CRTC is what the direct path reads.
\<close>

theorem helper_sees_the_same:
  assumes still: "\<And>t. v_kms env t = k" and table: "km_plane_res k = Some ps" "sum_list (map (type_hits k) ps) \<le> PRIMARY_CAP"
    and ids: "\<And>p pl. km_plane k p = Some pl \<Longrightarrow> pl_id pl = p \<and> p \<noteq> 0" and crtc: "crtc_id c \<noteq> 0" and cache: "cache_of k ps s"
  shows "case (fst (find_primary_plane env c), fst (helper_scan_planes env k (crtc_id c) ps (0, 0) s)) of (plane, fb, on) \<Rightarrow>
    (if plane = 0 then fb = 0 else (\<exists>pl. km_plane k plane = Some pl \<and> pl_fb_id pl = fb \<and> fb \<noteq> 0 \<and> on = crtc_id c)) \<and>
    fst (read_hdr_metadata env on s) = hdr_of_crtc k on"
proof -
  let ?cs = "candidates k (crtc_id c) ps"
  have ids1: "km_plane k p = Some pl \<Longrightarrow> pl_id pl = p" and ids0: "km_plane k p = Some pl \<Longrightarrow> pl_id pl \<noteq> 0" for p pl using ids by auto
  have lib: "fst (find_primary_plane env c) = (case find (\<lambda>pl. is_primary_plane k (pl_id pl)) ?cs of
      Some pl \<Rightarrow> pl_id pl | None \<Rightarrow> case ?cs of [] \<Rightarrow> 0 | pl # _ \<Rightarrow> pl_id pl)"
    using crtc table(1) by (simp add: find_primary_plane_def find_primary_plane_at_def still scan_planes_spec[OF ids0] Let_def)
  note hlp = helper_scan_spec[OF still table ids1 crtc order.refl cache, of "(0, 0)"]
  have cand: "km_plane k (pl_id pl) = Some pl \<and> pl_fb_id pl \<noteq> 0 \<and> pl_crtc_id pl = crtc_id c \<and> pl_id pl \<noteq> 0" if "pl \<in> set ?cs" for pl
  proof -
    obtain p where p: "km_plane k p = Some pl" using candidates_mem[OF \<open>pl \<in> set ?cs\<close>] by blast
    moreover have "pl_fb_id pl \<noteq> 0 \<and> pl_crtc_id pl = crtc_id c" using that by (simp add: candidates_def)
    ultimately show ?thesis using ids[OF p] by auto
  qed
  show ?thesis
  proof (cases "find (\<lambda>pl. is_primary_plane k (pl_id pl)) ?cs")
    case (Some pl)
    then have "pl \<in> set ?cs" using find_mem by metis
    then show ?thesis using lib hlp Some cand[of pl] by (simp add: helper_hdr_same still)
  next
    case None
    show ?thesis
    proof (cases ?cs)
      case Nil
      then show ?thesis using lib hlp by (simp add: helper_hdr_same still)
    next
      case (Cons pl pls)
      then show ?thesis using lib hlp None cand[of pl] by (simp add: helper_hdr_same still)
    qed
  qed
qed

theorem helper_sees_the_same_witness:
  "fst (helper_scan_planes wit_env wit_kms 5 [7] (0, 0) wit_srv) = (2, 5)"
proof -
  have c: "crtc_id wit_ctx = 5" by (simp add: wit_ctx_def)
  have lib: "fst (find_primary_plane wit_env wit_ctx) = 7"
    by (simp add: find_primary_plane_def find_primary_plane_at_def wit_env_def wit_ctx_def wit_kms_def is_primary_plane_def Let_def)
  have w: "v_kms wit_env t = wit_kms" "km_plane_res wit_kms = Some [7]" "sum_list (map (type_hits wit_kms) [7]) \<le> PRIMARY_CAP"
    "km_plane wit_kms p = Some pl \<Longrightarrow> pl_id pl = p \<and> p \<noteq> 0" "crtc_id wit_ctx \<noteq> 0" "cache_of wit_kms [7] wit_srv" for t p pl
    by (auto simp: wit_env_def wit_kms_def type_hits_def PRIMARY_CAP_def wit_ctx_def cache_of_def wit_srv_def split: if_splits)
  have "km_plane wit_kms 7 = Some \<lparr>pl_id = 7, pl_crtc_id = 5, pl_fb_id = 2\<rparr>" by (simp add: wit_kms_def)
  then show ?thesis using helper_sees_the_same[of wit_env wit_kms "[7]" wit_ctx wit_srv, OF w] lib c
    by (auto split: prod.splits)
qed



end
