(* ===== verification/Spec2Isabelle.thy ===== *)
theory Spec2Isabelle
  imports Tonemap Diff Scanout Buffers HelperClient FastOk ConvertFd Cursor Lifecycle HelperAgree
begin

text \<open>
  A verification library for libdrmtap, a screen-capture library over the Linux DRM/KMS interface
  (C, src/src, src/include, src/helper).

  The program. A context (struct drmtap_ctx) is bound to one device and one CRTC. A grab finds the
  plane that scans the CRTC out, asks the kernel for its framebuffer (GETFB2), exports the buffer
  as a DMA-BUF, maps it, and turns whatever layout and pixel format the compositor chose into
  linear 8-bit pixels: on the GPU (an EGL import and a shader pass) or on the CPU (tile decoding,
  10- and 16-bit reduction, HDR tone mapping). Where the process may not read the framebuffer, a
  privileged helper does it and answers over a socket with a descriptor or with pixels. A fast
  variant caches mapped buffers by framebuffer id; a split variant hands the descriptor to another
  process that converts it. Displays, refresh rates, hotplug and the cursor are read beside it.

  The theories, in dependency order.

  Prelude: machine-word and list facts, loops that may fail, fixed-width types. Memory: objects as
  byte lists, bounds-checked reads, writes, memcpy and memset (None is undefined behaviour), and
  the frame predicate for images written row by row.

  Kernel: the process as explicit state (record world: memory, descriptors, GEM handles, mappings,
  CPU-access windows, faults) and the system calls on it. The answers of the kernel, libdrm,
  malloc, EGL and GL are the parameter env, functions of a clock every query advances, so they may
  change from call to call. Ctx: struct drmtap_ctx as a record extending world, frames,
  descriptors, slots, and a concrete system the witnesses run on.

  Pixels (src/src/pixel_convert.c): Convert (integer formats), Tonemap (half floats, PQ tone
  mapping over rationals, with the power function a parameter), Deswizzle (X, Y and Yf tiling),
  Diff (dirty rectangles). They run on raw memory: each theorem that gives a result also says no
  access left its object.

  Protocol: Wire (src/src/wire.h: frames, whole-message send and receive, descriptor passing over
  a channel that may fragment, interrupt, truncate or close), HelperClient
  (src/src/privilege_helper.c). The other end (src/helper/drmtap-helper.c), a process of its own:
  HelperSrv (its replies), HelperOk (what they hold and send), HelperLoop (the command loop, the
  start and its confinement), HelperAgree (helper against library, and helper against client).

  Device queries (src/src/drm_enumerate.c, src/src/drm_grab.c): Enumerate, Kms (plane and CRTC
  choice, HDR metadata, rotation), Scanout (visible width), Buffers (geometry checks, output
  buffers).

  GPU (src/src/gpu_egl.c): EglState (GL names, the per-thread state and its EGLImage cache),
  EglHash (the unchanged-frame hash), Egl (display table, import and retries, cache), EglOwn (every
  GL object is owned once), EglConvert (conversion and readback), GpuConvert (its contract).

  Pipeline (src/src/drm_grab.c, src/src/gpu_*.c): Process and ProcessOk (from a captured buffer to
  readable pixels), Grab, Ledger and GrabOk (a grab and its clean-ups; the ledger states what a
  context holds beyond a starting point), Fast and FastOk (the cached grab), ConvertFd (the split
  capture's other half), Cursor (src/src/cursor.c, with an abstract cursor it refines).

  Contexts (src/src/drmtap.c): Devices (choosing and listing cards, ranking render nodes; the machine
  is the parameter sysenv), Lifecycle (opening and closing: opening establishes the invariant the
  other theories keep, closing returns everything).

  Correspondence. Functions keep their C names; a part of a long function has a name of its own and
  is composed where the C code runs it. A negative errno is an int, or Inl of one. NULL pointers
  are None. 32- and 64-bit integers are words, so every wrap-around of the C arithmetic is in the
  model; size_t products are nat where the geometry checks bound them below 2^64. Loops over words
  run by their trip count; the receive loops and the conversion of halves recurse with a measure,
  so no fuel is used anywhere. Log and error strings are left out: no branch reads them.

  What the lemmas show. Pixels: exactness of every decoder and converter, and memory safety.
  Protocol: delivery under any fragmentation, no leaked descriptor, what the gate accepts; the helper
  answers every command in order, keeps nothing, and is confined before it serves. Queries:
  the plane, rate, width and rotation answered are the right ones. GPU: nothing leaks, no stale
  or misread image is sampled. Pipeline: each operation owns what it hands out and returns the
  rest, on every path; nothing undecoded is reported as pixels.

  Not modelled: the shader sources and GL loading (the driver's answers are env), drmtap_render_node (one
  cached query), the stub helper, the bindings with their vendored copy of these sources,
  tests and examples.
\<close>

end
